(* ===== verification/Prelude.thy ===== *)
theory Prelude
  imports Main
begin

text \<open>
  Shared vocabulary of the development.

  A Python function that may raise is modelled by a function into \<open>'e + 'a\<close>: \<open>Inl\<close> carries
  the exception, \<open>Inr\<close> the returned value.  \<open>rbind\<close> is statement sequencing (the first
  exception wins) and \<open>rmap\<close> applies a total function to the returned value.
  \<open>rfold\<close> is a \<open>for\<close> loop whose body may raise.

  SQL tables (the SQLite file of the OAuth server and the PostgreSQL schema) are lists of rows
  in insertion order; the operations below are the statements the code issues:
  \<open>sql_delete\<close> (DELETE ... WHERE), \<open>sql_update\<close> (UPDATE ... SET ... WHERE), \<open>sql_upsert\<close>
  (INSERT OR REPLACE on a primary key) and \<open>sql_first\<close> (a SELECT read with \<open>fetchone\<close>).
\<close>

named_theorems res_simps \<open>characterisations of when a sequenced computation returns or raises\<close>
named_theorems sql_simps \<open>effect of the SQL statements on lookups and on the set of rows\<close>

section \<open>Results\<close>

fun rbind :: "'e + 'a \<Rightarrow> ('a \<Rightarrow> 'e + 'b) \<Rightarrow> 'e + 'b" where
  "rbind (Inl e) f = Inl e"
| "rbind (Inr a) f = f a"

fun rmap :: "('a \<Rightarrow> 'b) \<Rightarrow> 'e + 'a \<Rightarrow> 'e + 'b" where
  "rmap f (Inl e) = Inl e"
| "rmap f (Inr a) = Inr (f a)"

definition rguard :: "bool \<Rightarrow> 'e \<Rightarrow> 'e + unit" where
  "rguard b e = (if b then Inr () else Inl e)"

fun rfold :: "('a \<Rightarrow> 's \<Rightarrow> 'e + 's) \<Rightarrow> 'a list \<Rightarrow> 's \<Rightarrow> 'e + 's" where
  "rfold f [] s = Inr s"
| "rfold f (x # xs) s = rbind (f x s) (rfold f xs)"

lemma rbind_eq_Inr [res_simps]: "rbind r f = Inr b \<longleftrightarrow> (\<exists>a. r = Inr a \<and> f a = Inr b)"
  by (cases r) auto

lemma rbind_eq_Inl [res_simps]:
  "rbind r f = Inl e \<longleftrightarrow> r = Inl e \<or> (\<exists>a. r = Inr a \<and> f a = Inl e)"
  by (cases r) auto

lemma rmap_eq_Inr [res_simps]: "rmap f r = Inr b \<longleftrightarrow> (\<exists>a. r = Inr a \<and> b = f a)"
  by (cases r) auto

lemma rmap_eq_Inl [res_simps]: "rmap f r = Inl e \<longleftrightarrow> r = Inl e"
  by (cases r) auto

lemma rguard_eq_Inr [res_simps]: "rguard b e = Inr u \<longleftrightarrow> b"
  by (simp add: rguard_def)

lemma rguard_eq_Inl [res_simps]: "rguard b e = Inl e' \<longleftrightarrow> \<not> b \<and> e' = e"
  by (auto simp: rguard_def)

lemma rguard_cases [simp]: "rguard True e = Inr ()" "rguard False e = Inl e"
  by (simp_all add: rguard_def)

lemma rbind_assoc: "rbind (rbind r f) g = rbind r (\<lambda>a. rbind (f a) g)"
  by (cases r) simp_all

text \<open>An invariant kept by every successful round of a loop holds where the loop returns.\<close>

lemma rfold_invariant:
  assumes "rfold f xs s = Inr t" and "I s"
    and "\<And>x s s'. x \<in> set xs \<Longrightarrow> I s \<Longrightarrow> f x s = Inr s' \<Longrightarrow> I s'"
  shows "I t"
  using assms
proof (induction xs arbitrary: s)
  case Nil
  then show ?case by simp
next
  case (Cons x xs)
  from Cons.prems(1) obtain s' where s': "f x s = Inr s'" and t: "rfold f xs s' = Inr t"
    by (auto simp: res_simps)
  have "I s'" by (rule Cons.prems(3) [OF _ Cons.prems(2) s']) simp
  with t show ?case by (rule Cons.IH) (use Cons.prems(3) in auto)
qed

section \<open>Tables\<close>

definition sql_select :: "('r \<Rightarrow> bool) \<Rightarrow> 'r list \<Rightarrow> 'r list" where
  "sql_select p t = filter p t"

definition sql_first :: "('r \<Rightarrow> bool) \<Rightarrow> 'r list \<Rightarrow> 'r option" where
  "sql_first p t = find p t"

definition sql_delete :: "('r \<Rightarrow> bool) \<Rightarrow> 'r list \<Rightarrow> 'r list" where
  "sql_delete p t = filter (\<lambda>r. \<not> p r) t"

definition sql_update :: "('r \<Rightarrow> bool) \<Rightarrow> ('r \<Rightarrow> 'r) \<Rightarrow> 'r list \<Rightarrow> 'r list" where
  "sql_update p f t = map (\<lambda>r. if p r then f r else r) t"

definition sql_insert :: "'r \<Rightarrow> 'r list \<Rightarrow> 'r list" where
  "sql_insert r t = t @ [r]"

definition sql_upsert :: "('r \<Rightarrow> 'k) \<Rightarrow> 'r \<Rightarrow> 'r list \<Rightarrow> 'r list" where
  "sql_upsert key r t = sql_insert r (sql_delete (\<lambda>q. key q = key r) t)"

definition sql_count :: "('r \<Rightarrow> bool) \<Rightarrow> 'r list \<Rightarrow> nat" where
  "sql_count p t = length (filter p t)"

text \<open>The primary-key constraint of a table.\<close>

definition unique_key :: "('r \<Rightarrow> 'k) \<Rightarrow> 'r list \<Rightarrow> bool" where
  "unique_key key t = distinct (map key t)"

lemma set_sql_select [sql_simps]: "set (sql_select p t) = {r \<in> set t. p r}"
  by (simp add: sql_select_def)

lemma set_sql_delete [sql_simps]: "set (sql_delete p t) = {r \<in> set t. \<not> p r}"
  by (simp add: sql_delete_def)

lemma set_sql_insert [sql_simps]: "set (sql_insert r t) = insert r (set t)"
  by (simp add: sql_insert_def)

lemma set_sql_upsert [sql_simps]:
  "set (sql_upsert key r t) = insert r {q \<in> set t. key q \<noteq> key r}"
  by (simp add: sql_upsert_def sql_simps)

lemma set_sql_update [sql_simps]:
  "set (sql_update p f t) = (\<lambda>r. if p r then f r else r) ` set t"
  by (simp add: sql_update_def)

lemma sql_first_None [sql_simps]: "sql_first p t = None \<longleftrightarrow> (\<forall>r \<in> set t. \<not> p r)"
  by (auto simp: sql_first_def find_None_iff)

lemma sql_first_SomeD: "sql_first p t = Some r \<Longrightarrow> r \<in> set t \<and> p r"
  by (auto simp: sql_first_def find_Some_iff)

lemma sql_count_zero [sql_simps]: "sql_count p t = 0 \<longleftrightarrow> (\<forall>r \<in> set t. \<not> p r)"
  by (auto simp: sql_count_def filter_empty_conv)

lemma unique_keyD: "unique_key key t \<Longrightarrow> r \<in> set t \<Longrightarrow> q \<in> set t \<Longrightarrow> key r = key q \<Longrightarrow> r = q"
  by (metis distinct_map inj_onD unique_key_def)

lemma unique_key_Nil [simp, intro]: "unique_key key []"
  by (simp add: unique_key_def)

lemma unique_key_delete [intro]: "unique_key key t \<Longrightarrow> unique_key key (sql_delete p t)"
  by (simp add: unique_key_def sql_delete_def distinct_map_filter)

lemma unique_key_insert:
  "unique_key key t \<Longrightarrow> (\<forall>q \<in> set t. key q \<noteq> key r) \<Longrightarrow> unique_key key (sql_insert r t)"
  by (auto simp: unique_key_def sql_insert_def)

lemma unique_key_upsert [intro]: "unique_key key t \<Longrightarrow> unique_key key (sql_upsert key r t)"
  unfolding sql_upsert_def by (rule unique_key_insert) (auto simp: sql_simps)

lemma unique_key_update [intro]:
  assumes "unique_key key t" and "\<And>r. key (f r) = key r"
  shows "unique_key key (sql_update p f t)"
proof -
  have "map key (sql_update p f t) = map key t"
    using assms(2) by (simp add: sql_update_def)
  with assms(1) show ?thesis by (simp add: unique_key_def)
qed

text \<open>Reading a key back from a table with a primary key.\<close>

lemma sql_first_key_iff:
  assumes "unique_key key t"
  shows "sql_first (\<lambda>q. key q = k) t = Some r \<longleftrightarrow> r \<in> set t \<and> key r = k"
proof
  assume "sql_first (\<lambda>q. key q = k) t = Some r"
  then show "r \<in> set t \<and> key r = k" by (auto dest: sql_first_SomeD)
next
  assume r: "r \<in> set t \<and> key r = k"
  then have "sql_first (\<lambda>q. key q = k) t \<noteq> None" by (auto simp: sql_simps)
  then obtain q where q: "sql_first (\<lambda>q. key q = k) t = Some q" by auto
  then have "q \<in> set t" "key q = k" by (auto dest: sql_first_SomeD)
  with r assms have "q = r" by (auto dest: unique_keyD)
  with q show "sql_first (\<lambda>q. key q = k) t = Some r" by simp
qed

lemma sql_first_upsert [sql_simps]:
  "sql_first (\<lambda>q. key q = k) (sql_upsert key r t) =
     (if key r = k then Some r else sql_first (\<lambda>q. key q = k) t)"
  by (induction t) (auto simp: sql_first_def sql_upsert_def sql_insert_def sql_delete_def)

lemma sql_first_delete_key [sql_simps]:
  "sql_first (\<lambda>q. key q = k) (sql_delete (\<lambda>q. key q = j) t) =
     (if k = j then None else sql_first (\<lambda>q. key q = k) t)"
  by (induction t) (auto simp: sql_first_def sql_delete_def)

text \<open>What a \<open>LIMIT\<close> on a sorted table leaves out comes after what it keeps.\<close>

lemma take_sort_key_less:
  assumes "e \<in> set xs" and "e \<notin> set (take n (sort_key f xs))" and "e' \<in> set (take n (sort_key f xs))"
  shows "f e' \<le> f e"
proof -
  have "sorted (map f (take n (sort_key f xs)) @ map f (drop n (sort_key f xs)))"
    using sorted_sort_key [of f xs] by (simp flip: map_append)
  moreover have "e \<in> set (drop n (sort_key f xs))"
    using assms(1,2) by (metis append_take_drop_id set_append set_sort Un_iff)
  ultimately show ?thesis using assms(3) by (auto simp: sorted_append)
qed

lemma sorted_last: "sorted (map f xs) \<Longrightarrow> x \<in> set xs \<Longrightarrow> f x \<le> f (last xs)"
  by (induction xs) auto

end
