(* ===== verification/OauthStorage.thy ===== *)
theory OauthStorage
  imports Prelude Complex_Main
begin

text \<open>
  \<open>gubbi/oauth/storage.py\<close> and \<open>gubbi/oauth/_rate_limit.py\<close>: the SQLite file of the
  self-host OAuth server.

  The record \<open>oauth_db\<close> has one field per table of \<open>SCHEMA\<close>, each a list of rows in
  insertion order; every method of \<open>OAuthStorage\<close> and \<open>RateLimitStorage\<close> is a function on it.
  A \<open>data\<close> column holds JSON text: \<open>Some v\<close> for text that parses back to the pydantic
  value \<open>v\<close> (what the code itself writes), \<open>None\<close> for text that does not.  The clock
  \<open>time.time()\<close> is the rational argument \<open>now\<close>, and \<open>int(time.time())\<close> its floor.

  Transactions: \<open>atomic\<close> runs the statements of an \<open>_atomic\<close> block with an optional fault
  before one of them (an exception of the driver, a crash, a failing commit) and rolls back.

  The lemmas give the primary keys as an invariant, the effect of each method on lookups, the
  all-or-nothing of the transactions, and the exact effect of the clean-up.
\<close>

section \<open>Values and rows\<close>

record client_info =
  ci_id :: "string option"
  ci_redirect_uris :: "string list option"

record auth_code =
  ac_code :: string
  ac_scopes :: "string list"
  ac_expires_at :: rat
  ac_client_id :: string
  ac_code_challenge :: string
  ac_redirect_uri :: string
  ac_resource :: "string option"

record access_token =
  at_token :: string
  at_client_id :: string
  at_scopes :: "string list"
  at_expires_at :: "int option"
  at_resource :: "string option"

record refresh_token =
  rt_token :: string
  rt_client_id :: string
  rt_scopes :: "string list"
  rt_expires_at :: "int option"

record 'v blob_row =
  r_key :: string
  r_data :: "'v option"
  r_created_at :: int
  r_expires_at :: "int option"

record client_row =
  c_id :: "string option"
  c_info :: "client_info option"
  c_created_at :: int

record pair_row =
  p_access :: string
  p_refresh :: string
  p_created_at :: int

record event_row =
  ev_key :: string
  ev_at :: int

record oauth_db =
  clients :: "client_row list"
  auth_codes :: "auth_code blob_row list"
  access_tokens :: "access_token blob_row list"
  refresh_tokens :: "refresh_token blob_row list"
  token_pairs :: "pair_row list"
  rate_limit_events :: "event_row list"

definition empty_db :: oauth_db where
  "empty_db = \<lparr>clients = [], auth_codes = [], access_tokens = [], refresh_tokens = [],
     token_pairs = [], rate_limit_events = []\<rparr>"

datatype sqlite_error = ValidationFailed

text \<open>\<open>int(x)\<close> of a non-negative float, and of the clock.\<close>

definition secs :: "rat \<Rightarrow> int" where
  "secs t = (if 0 \<le> t then \<lfloor>t\<rfloor> else - \<lfloor>- t\<rfloor>)"

section \<open>Clients, codes, tokens\<close>

text \<open>A NULL primary key never conflicts in SQLite, so a client without an id is a new row.\<close>

definition save_client :: "rat \<Rightarrow> client_info \<Rightarrow> oauth_db \<Rightarrow> oauth_db" where
  "save_client now ci db =
     (let row = \<lparr>c_id = ci_id ci, c_info = Some ci, c_created_at = secs now\<rparr>
      in case ci_id ci of
           None \<Rightarrow> db\<lparr>clients := sql_insert row (clients db)\<rparr>
         | Some _ \<Rightarrow> db\<lparr>clients := sql_upsert c_id row (clients db)\<rparr>)"

definition get_client :: "string \<Rightarrow> oauth_db \<Rightarrow> sqlite_error + client_info option" where
  "get_client cid db =
     (case sql_first (\<lambda>r. c_id r = Some cid) (clients db) of
        None \<Rightarrow> Inr None
      | Some r \<Rightarrow> (case c_info r of None \<Rightarrow> Inl ValidationFailed | Some ci \<Rightarrow> Inr (Some ci)))"

definition blob_get :: "string \<Rightarrow> 'v blob_row list \<Rightarrow> sqlite_error + 'v option" where
  "blob_get k t =
     (case sql_first (\<lambda>r. r_key r = k) t of
        None \<Rightarrow> Inr None
      | Some r \<Rightarrow> (case r_data r of None \<Rightarrow> Inl ValidationFailed | Some v \<Rightarrow> Inr (Some v)))"

definition blob_put :: "rat \<Rightarrow> string \<Rightarrow> 'v \<Rightarrow> int option \<Rightarrow> 'v blob_row list \<Rightarrow> 'v blob_row list" where
  "blob_put now k v e t =
     sql_upsert r_key \<lparr>r_key = k, r_data = Some v, r_created_at = secs now, r_expires_at = e\<rparr> t"

definition blob_del :: "string \<Rightarrow> 'v blob_row list \<Rightarrow> 'v blob_row list" where
  "blob_del k t = sql_delete (\<lambda>r. r_key r = k) t"

definition save_auth_code :: "rat \<Rightarrow> string \<Rightarrow> auth_code \<Rightarrow> oauth_db \<Rightarrow> oauth_db" where
  "save_auth_code now code ac db =
     db\<lparr>auth_codes := blob_put now code ac (Some (secs (ac_expires_at ac))) (auth_codes db)\<rparr>"

definition get_auth_code :: "string \<Rightarrow> oauth_db \<Rightarrow> sqlite_error + auth_code option" where
  "get_auth_code code db = blob_get code (auth_codes db)"

definition delete_auth_code :: "string \<Rightarrow> oauth_db \<Rightarrow> oauth_db" where
  "delete_auth_code code db = db\<lparr>auth_codes := blob_del code (auth_codes db)\<rparr>"

definition save_access_token :: "rat \<Rightarrow> string \<Rightarrow> access_token \<Rightarrow> oauth_db \<Rightarrow> oauth_db" where
  "save_access_token now tok tk db =
     db\<lparr>access_tokens := blob_put now tok tk (at_expires_at tk) (access_tokens db)\<rparr>"

definition get_access_token :: "string \<Rightarrow> oauth_db \<Rightarrow> sqlite_error + access_token option" where
  "get_access_token tok db = blob_get tok (access_tokens db)"

definition delete_access_token :: "string \<Rightarrow> oauth_db \<Rightarrow> oauth_db" where
  "delete_access_token tok db = db\<lparr>access_tokens := blob_del tok (access_tokens db)\<rparr>"

definition save_refresh_token :: "rat \<Rightarrow> string \<Rightarrow> refresh_token \<Rightarrow> oauth_db \<Rightarrow> oauth_db" where
  "save_refresh_token now tok rt db =
     db\<lparr>refresh_tokens := blob_put now tok rt (rt_expires_at rt) (refresh_tokens db)\<rparr>"

definition get_refresh_token :: "string \<Rightarrow> oauth_db \<Rightarrow> sqlite_error + refresh_token option" where
  "get_refresh_token tok db = blob_get tok (refresh_tokens db)"

definition delete_refresh_token :: "string \<Rightarrow> oauth_db \<Rightarrow> oauth_db" where
  "delete_refresh_token tok db = db\<lparr>refresh_tokens := blob_del tok (refresh_tokens db)\<rparr>"

section \<open>Token pairs\<close>

definition save_token_pair :: "rat \<Rightarrow> string \<Rightarrow> string \<Rightarrow> oauth_db \<Rightarrow> oauth_db" where
  "save_token_pair now a r db =
     db\<lparr>token_pairs := sql_insert \<lparr>p_access = a, p_refresh = r, p_created_at = secs now\<rparr> (token_pairs db)\<rparr>"

definition get_paired_refresh_token :: "string \<Rightarrow> oauth_db \<Rightarrow> string option" where
  "get_paired_refresh_token a db = map_option p_refresh (sql_first (\<lambda>p. p_access p = a) (token_pairs db))"

definition get_paired_access_tokens :: "string \<Rightarrow> oauth_db \<Rightarrow> string list" where
  "get_paired_access_tokens r db = map p_access (sql_select (\<lambda>p. p_refresh p = r) (token_pairs db))"

definition delete_token_pair_by_access :: "string \<Rightarrow> oauth_db \<Rightarrow> oauth_db" where
  "delete_token_pair_by_access a db = db\<lparr>token_pairs := sql_delete (\<lambda>p. p_access p = a) (token_pairs db)\<rparr>"

definition delete_token_pair_by_refresh :: "string \<Rightarrow> oauth_db \<Rightarrow> oauth_db" where
  "delete_token_pair_by_refresh r db = db\<lparr>token_pairs := sql_delete (\<lambda>p. p_refresh p = r) (token_pairs db)\<rparr>"

section \<open>Transactions\<close>

text \<open>
  The statements of a block in order; \<open>fault = Some k\<close> raises before statement \<open>k\<close> (the
  commit counts as the last one).  The flag says that the block committed.
\<close>

fun exec_block :: "nat option \<Rightarrow> ('d \<Rightarrow> 'd) list \<Rightarrow> 'd \<Rightarrow> 'd \<times> bool" where
  "exec_block (Some 0) stmts db = (db, False)"
| "exec_block fault [] db = (db, fault = None)"
| "exec_block (Some (Suc k)) (st # stmts) db = exec_block (Some k) stmts (st db)"
| "exec_block None (st # stmts) db = exec_block None stmts (st db)"

definition atomic :: "nat option \<Rightarrow> ('d \<Rightarrow> 'd) list \<Rightarrow> 'd \<Rightarrow> 'd \<times> bool" where
  "atomic fault stmts db =
     (case exec_block fault stmts db of (db', committed) \<Rightarrow> if committed then (db', True) else (db, False))"

definition issue_stmts :: "rat \<Rightarrow> string \<Rightarrow> access_token \<Rightarrow> string \<Rightarrow> refresh_token \<Rightarrow> (oauth_db \<Rightarrow> oauth_db) list" where
  "issue_stmts now a tk r rt =
     [save_access_token now a tk, save_refresh_token now r rt, save_token_pair now a r]"

definition save_issued_token_pair ::
  "nat option \<Rightarrow> rat \<Rightarrow> string \<Rightarrow> access_token \<Rightarrow> string \<Rightarrow> refresh_token \<Rightarrow> oauth_db \<Rightarrow> oauth_db \<times> bool" where
  "save_issued_token_pair fault now a tk r rt db = atomic fault (issue_stmts now a tk r rt) db"

definition rotate_stmts ::
  "rat \<Rightarrow> string \<Rightarrow> string \<Rightarrow> access_token \<Rightarrow> string \<Rightarrow> refresh_token \<Rightarrow> oauth_db \<Rightarrow> (oauth_db \<Rightarrow> oauth_db) list" where
  "rotate_stmts now old a tk r rt db =
     map delete_access_token (get_paired_access_tokens old db) @
     [delete_token_pair_by_refresh old, delete_refresh_token old] @ issue_stmts now a tk r rt"

definition rotate_refresh_token ::
  "nat option \<Rightarrow> rat \<Rightarrow> string \<Rightarrow> string \<Rightarrow> access_token \<Rightarrow> string \<Rightarrow> refresh_token \<Rightarrow> oauth_db \<Rightarrow> oauth_db \<times> bool" where
  "rotate_refresh_token fault now old a tk r rt db = atomic fault (rotate_stmts now old a tk r rt db) db"

section \<open>Rate-limit events\<close>

definition record_event :: "rat \<Rightarrow> string \<Rightarrow> oauth_db \<Rightarrow> oauth_db" where
  "record_event now k db =
     db\<lparr>rate_limit_events := sql_insert \<lparr>ev_key = k, ev_at = secs now\<rparr> (rate_limit_events db)\<rparr>"

definition count_events :: "rat \<Rightarrow> string \<Rightarrow> int \<Rightarrow> oauth_db \<Rightarrow> nat" where
  "count_events now k window_secs db =
     (let cutoff = secs now - window_secs
      in sql_count (\<lambda>e. ev_key e = k \<and> ev_at e \<ge> cutoff) (rate_limit_events db))"

definition prune :: "rat \<Rightarrow> int \<Rightarrow> oauth_db \<Rightarrow> nat \<times> oauth_db" where
  "prune now retention_secs db =
     (let cutoff = secs now - retention_secs
      in (sql_count (\<lambda>e. ev_at e < cutoff) (rate_limit_events db),
          db\<lparr>rate_limit_events := sql_delete (\<lambda>e. ev_at e < cutoff) (rate_limit_events db)\<rparr>))"

definition RATE_LIMIT_EVENT_RETENTION_SECS :: int where
  "RATE_LIMIT_EVENT_RETENTION_SECS = 3600"

section \<open>Clean-up and backfill\<close>

definition expired :: "int \<Rightarrow> 'v blob_row \<Rightarrow> bool" where
  "expired n r = (case r_expires_at r of None \<Rightarrow> False | Some e \<Rightarrow> e < n)"

definition code_expired :: "int \<Rightarrow> 'v blob_row \<Rightarrow> bool" where
  "code_expired n r = (case r_expires_at r of None \<Rightarrow> True | Some e \<Rightarrow> e < n)"

text \<open>\<open>time\<close> and \<open>later\<close> are the two readings of the clock, the second in \<open>prune\<close>.\<close>

definition cleanup_expired :: "rat \<Rightarrow> rat \<Rightarrow> oauth_db \<Rightarrow> nat \<times> oauth_db" where
  "cleanup_expired time later db =
     (let now = secs time;
          d1 = sql_count (code_expired now) (auth_codes db);
          db1 = db\<lparr>auth_codes := sql_delete (code_expired now) (auth_codes db)\<rparr>;
          dead = map r_key (sql_select (expired now) (access_tokens db1));
          db2 = db1\<lparr>token_pairs := sql_delete (\<lambda>p. p_access p \<in> set dead) (token_pairs db1)\<rparr>;
          d2 = sql_count (expired now) (access_tokens db2);
          db3 = db2\<lparr>access_tokens := sql_delete (expired now) (access_tokens db2)\<rparr>;
          dead_refresh = map r_key (sql_select (expired now) (refresh_tokens db3));
          cascade = map p_access (sql_select (\<lambda>p. p_refresh p \<in> set dead_refresh) (token_pairs db3));
          d3 = sql_count (\<lambda>r. r_key r \<in> set cascade) (access_tokens db3);
          db4 = db3\<lparr>access_tokens := sql_delete (\<lambda>r. r_key r \<in> set cascade) (access_tokens db3)\<rparr>;
          db5 = db4\<lparr>token_pairs := sql_delete (\<lambda>p. p_refresh p \<in> set dead_refresh) (token_pairs db4)\<rparr>;
          d4 = sql_count (expired now) (refresh_tokens db5);
          db6 = db5\<lparr>refresh_tokens := sql_delete (expired now) (refresh_tokens db5)\<rparr>;
          (d5, db7) = prune later RATE_LIMIT_EVENT_RETENTION_SECS db6
      in (d1 + d2 + d3 + d4 + d5, db7))"

text \<open>
  The start-up backfill of one table: the first 10000 rows without an expiry get the one of
  their JSON value; rows whose text does not parse or has none stay as they are.
\<close>

definition backfill_rows :: "('v \<Rightarrow> int option) \<Rightarrow> 'v blob_row list \<Rightarrow> 'v blob_row list" where
  "backfill_rows expiry t =
     foldl (\<lambda>t' row.
        (case r_data row of
           None \<Rightarrow> t'
         | Some v \<Rightarrow>
             (case expiry v of
                None \<Rightarrow> t'
              | Some e \<Rightarrow> sql_update (\<lambda>r. r_key r = r_key row) (\<lambda>r. r\<lparr>r_expires_at := Some e\<rparr>) t')))
       t (take 10000 (sql_select (\<lambda>r. r_expires_at r = None) t))"

definition backfill_expires_at :: "oauth_db \<Rightarrow> oauth_db" where
  "backfill_expires_at db =
     db\<lparr>auth_codes := backfill_rows (\<lambda>v. Some (secs (ac_expires_at v))) (auth_codes db),
        access_tokens := backfill_rows at_expires_at (access_tokens db),
        refresh_tokens := backfill_rows rt_expires_at (refresh_tokens db)\<rparr>"

section \<open>The contract of a keyed store\<close>

text \<open>
  What the provider relies on for each kind of secret: reading a key gives the last value put
  there unless it was deleted, and other keys are not affected.
\<close>

locale secret_store =
  fixes lookup :: "'k \<Rightarrow> 's \<Rightarrow> 'e + 'v option"
    and put :: "'k \<Rightarrow> 'v \<Rightarrow> 's \<Rightarrow> 's"
    and remove :: "'k \<Rightarrow> 's \<Rightarrow> 's"
  assumes lookup_put: "lookup k (put j v s) = (if j = k then Inr (Some v) else lookup k s)"
    and lookup_remove: "lookup k (remove j s) = (if j = k then Inr None else lookup k s)"
begin

lemma removed_is_gone: "lookup k (remove k s) = Inr None"
  by (simp add: lookup_remove)

lemma lookup_removes:
  "lookup k (foldl (\<lambda>d j. remove j d) s ks) = (if k \<in> set ks then Inr None else lookup k s)"
  by (induction ks arbitrary: s) (auto simp: lookup_remove)

lemma gone_stays_gone:
  assumes "lookup k s = Inr None" and "list_all (\<lambda>(j, v). j \<noteq> k) puts"
  shows "lookup k (foldl (\<lambda>d (j, v). put j v d) s puts) = Inr None"
  using assms by (induction puts arbitrary: s) (auto simp: lookup_put split: prod.splits)

end

lemma blob_get_put: "blob_get k (blob_put now j v e t) = (if j = k then Inr (Some v) else blob_get k t)"
  by (simp add: blob_get_def blob_put_def sql_simps)

lemma blob_get_del: "blob_get k (blob_del j t) = (if j = k then Inr None else blob_get k t)"
  by (simp add: blob_get_def blob_del_def sql_simps)

interpretation codes: secret_store get_auth_code "save_auth_code now" delete_auth_code for now
  by unfold_locales
    (simp_all add: get_auth_code_def save_auth_code_def delete_auth_code_def blob_get_put blob_get_del)

interpretation access: secret_store get_access_token "save_access_token now" delete_access_token for now
  by unfold_locales
    (simp_all add: get_access_token_def save_access_token_def delete_access_token_def blob_get_put blob_get_del)

interpretation refresh: secret_store get_refresh_token "save_refresh_token now" delete_refresh_token for now
  by unfold_locales
    (simp_all add: get_refresh_token_def save_refresh_token_def delete_refresh_token_def blob_get_put blob_get_del)

section \<open>Which table each method touches\<close>

lemmas store_defs = save_auth_code_def delete_auth_code_def save_access_token_def delete_access_token_def
  save_refresh_token_def delete_refresh_token_def save_token_pair_def delete_token_pair_by_access_def
  delete_token_pair_by_refresh_def record_event_def

lemma access_frame [sql_simps]:
  "get_access_token k (save_refresh_token now r rt db) = get_access_token k db"
  "get_access_token k (save_token_pair now a r db) = get_access_token k db"
  "get_access_token k (delete_token_pair_by_refresh r db) = get_access_token k db"
  "get_access_token k (delete_token_pair_by_access a db) = get_access_token k db"
  "get_access_token k (delete_refresh_token r db) = get_access_token k db"
  "get_access_token k (delete_auth_code c db) = get_access_token k db"
  "get_access_token k (save_auth_code now c ac db) = get_access_token k db"
  by (simp_all add: store_defs get_access_token_def)

lemma refresh_frame [sql_simps]:
  "get_refresh_token k (save_access_token now a tk db) = get_refresh_token k db"
  "get_refresh_token k (save_token_pair now a r db) = get_refresh_token k db"
  "get_refresh_token k (delete_token_pair_by_refresh r db) = get_refresh_token k db"
  "get_refresh_token k (delete_token_pair_by_access a db) = get_refresh_token k db"
  "get_refresh_token k (delete_access_token a db) = get_refresh_token k db"
  "get_refresh_token k (delete_auth_code c db) = get_refresh_token k db"
  "get_refresh_token k (save_auth_code now c ac db) = get_refresh_token k db"
  by (simp_all add: store_defs get_refresh_token_def)

lemma code_frame [sql_simps]:
  "get_auth_code k (save_access_token now a tk db) = get_auth_code k db"
  "get_auth_code k (save_refresh_token now r rt db) = get_auth_code k db"
  "get_auth_code k (save_token_pair now a r db) = get_auth_code k db"
  "get_auth_code k (delete_access_token a db) = get_auth_code k db"
  "get_auth_code k (delete_refresh_token r db) = get_auth_code k db"
  by (simp_all add: store_defs get_auth_code_def)

lemma pairs_frame [sql_simps]:
  "token_pairs (save_access_token now a tk db) = token_pairs db"
  "token_pairs (save_refresh_token now r rt db) = token_pairs db"
  "token_pairs (delete_access_token a db) = token_pairs db"
  "token_pairs (delete_refresh_token r db) = token_pairs db"
  "token_pairs (delete_auth_code c db) = token_pairs db"
  "token_pairs (save_auth_code now c ac db) = token_pairs db"
  by (simp_all add: store_defs)

section \<open>Transactions\<close>

lemma exec_block_None: "exec_block None stmts db = (foldl (\<lambda>d f. f d) db stmts, True)"
  by (induction stmts arbitrary: db) simp_all

lemma exec_block_Some: "\<not> snd (exec_block (Some k) stmts db)"
  by (induction "Some k" stmts db arbitrary: k rule: exec_block.induct) auto

lemma atomic_eq:
  "atomic fault stmts db = (if fault = None then (foldl (\<lambda>d f. f d) db stmts, True) else (db, False))"
  using exec_block_Some [of "the fault" stmts db]
  by (cases fault) (auto simp: atomic_def exec_block_None split: prod.splits)

lemma foldl_map_app: "foldl (\<lambda>d f. f d) db (map g xs) = foldl (\<lambda>d x. g x d) db xs"
  by (induction xs arbitrary: db) simp_all

lemma pairs_removes: "token_pairs (foldl (\<lambda>d x. delete_access_token x d) db xs) = token_pairs db"
  by (induction xs arbitrary: db) (simp_all add: sql_simps)

lemma refresh_removes:
  "get_refresh_token k (foldl (\<lambda>d x. delete_access_token x d) db xs) = get_refresh_token k db"
  by (induction xs arbitrary: db) (simp_all add: sql_simps)

text \<open>
  Issuing a pair is all or nothing: whatever statement of the transaction fails,
  the database is the one before the call; when the commit succeeds, exactly the new access
  token, refresh token and pairing are added and every other secret reads as before.
\<close>

lemma save_issued_token_pair_exact:
  "case save_issued_token_pair fault now a tk r rt db of (db', committed) \<Rightarrow>
     committed = (fault = None) \<and>
     (if committed
      then (\<forall>t. get_access_token t db' = (if a = t then Inr (Some tk) else get_access_token t db)) \<and>
           (\<forall>t. get_refresh_token t db' = (if r = t then Inr (Some rt) else get_refresh_token t db)) \<and>
           token_pairs db' = token_pairs db @ [\<lparr>p_access = a, p_refresh = r, p_created_at = secs now\<rparr>] \<and>
           (auth_codes db', clients db', rate_limit_events db') =
             (auth_codes db, clients db, rate_limit_events db)
      else db' = db)"
  by (simp add: save_issued_token_pair_def atomic_eq issue_stmts_def access.lookup_put
      refresh.lookup_put sql_simps)
    (simp add: store_defs sql_insert_def)

text \<open>
  Property C10. Refresh rotation is all or nothing: under any fault the database is unchanged;
  when it commits, the old refresh token and every access token paired with it are gone, their
  pairings too, the new pair is installed, and every other token reads as before.
\<close>

lemma rotate_refresh_token_exact:
  "case rotate_refresh_token fault now old a tk r rt db of (db', committed) \<Rightarrow>
     committed = (fault = None) \<and>
     (if committed
      then (\<forall>t. get_access_token t db' =
                (if a = t then Inr (Some tk)
                 else if t \<in> set (get_paired_access_tokens old db) then Inr None
                 else get_access_token t db)) \<and>
           (\<forall>t. get_refresh_token t db' =
                (if r = t then Inr (Some rt) else if old = t then Inr None else get_refresh_token t db)) \<and>
           token_pairs db' = filter (\<lambda>p. p_refresh p \<noteq> old) (token_pairs db) @
             [\<lparr>p_access = a, p_refresh = r, p_created_at = secs now\<rparr>]
      else db' = db)"
  by (simp add: rotate_refresh_token_def atomic_eq rotate_stmts_def issue_stmts_def foldl_map_app
      access.lookup_put access.lookup_removes refresh.lookup_put refresh.lookup_remove
      refresh_removes sql_simps)
    (simp add: store_defs sql_insert_def sql_delete_def foldl_map_app pairs_removes [unfolded store_defs])

section \<open>Clean-up\<close>

definition db_keys :: "oauth_db \<Rightarrow> bool" where
  "db_keys db = (unique_key r_key (auth_codes db) \<and> unique_key r_key (access_tokens db) \<and>
     unique_key r_key (refresh_tokens db))"

definition dead_keys :: "int \<Rightarrow> 'v blob_row list \<Rightarrow> string set" where
  "dead_keys n t = r_key ` {r \<in> set t. expired n r}"

definition token_rows :: "oauth_db \<Rightarrow> nat" where
  "token_rows db = length (auth_codes db) + length (access_tokens db) + length (refresh_tokens db) +
     length (rate_limit_events db)"

lemma sql_count_delete: "sql_count p t + length (sql_delete p t) = length t"
  by (simp add: sql_count_def sql_delete_def sum_length_filter_compl)

lemma sql_delete_delete: "sql_delete p (sql_delete q t) = filter (\<lambda>r. \<not> q r \<and> \<not> p r) t"
  by (simp add: sql_delete_def conj_commute)

lemma live_key_not_dead:
  assumes "unique_key r_key t" and "r \<in> set t" and "\<not> expired n r"
  shows "r_key r \<notin> dead_keys n t"
  using assms by (auto simp: dead_keys_def dest: unique_keyD)

lemma int_sql_delete: "int (length (sql_delete p t)) = int (length t) - int (sql_count p t)"
  using sql_count_delete [of p t] by simp

lemma cleanup_counts:
  "fst (cleanup_expired time later db) + token_rows (snd (cleanup_expired time later db)) = token_rows db"
proof -
  have "int (fst (cleanup_expired time later db)) + int (token_rows (snd (cleanup_expired time later db))) =
      int (token_rows db)"
    by (simp add: cleanup_expired_def Let_def prune_def token_rows_def int_sql_delete)
  then show ?thesis by simp
qed

text \<open>
  The clean-up removes exactly the expired rows: codes without a live expiry,
  expired access and refresh tokens, the live access tokens paired with an expired refresh
  token, the pairings of what expired, and rate-limit events older than the retention; and it
  returns the number of rows it removed (pairings not counted).
\<close>

lemma cleanup_expired_exact:
  assumes "db_keys db"
  shows "case cleanup_expired time later db of (deleted, db') \<Rightarrow>
    auth_codes db' = filter (\<lambda>r. \<not> code_expired (secs time) r) (auth_codes db) \<and>
    refresh_tokens db' = filter (\<lambda>r. \<not> expired (secs time) r) (refresh_tokens db) \<and>
    access_tokens db' = filter (\<lambda>r. \<not> expired (secs time) r \<and>
      \<not> list_ex (\<lambda>p. p_access p = r_key r \<and> p_refresh p \<in> dead_keys (secs time) (refresh_tokens db))
          (token_pairs db)) (access_tokens db) \<and>
    token_pairs db' = filter (\<lambda>p. p_access p \<notin> dead_keys (secs time) (access_tokens db) \<and>
      p_refresh p \<notin> dead_keys (secs time) (refresh_tokens db)) (token_pairs db) \<and>
    rate_limit_events db' = filter (\<lambda>e. \<not> ev_at e < secs later - 3600) (rate_limit_events db) \<and>
    clients db' = clients db \<and> deleted + token_rows db' = token_rows db"
proof -
  have uk: "unique_key r_key (access_tokens db)" using assms by (simp add: db_keys_def)
  have dead: "set (map r_key (sql_select (expired n) t)) = dead_keys n t" for n and t :: "'v blob_row list"
    by (simp add: dead_keys_def sql_simps)
  have cascade: "filter (\<lambda>r. \<not> expired n r \<and> r_key r \<notin>
        p_access ` {p \<in> set (token_pairs db). p_access p \<notin> dead_keys n (access_tokens db) \<and> p_refresh p \<in> D})
        (access_tokens db) =
      filter (\<lambda>r. \<not> expired n r \<and> \<not> list_ex (\<lambda>p. p_access p = r_key r \<and> p_refresh p \<in> D) (token_pairs db))
        (access_tokens db)" for n D
    using live_key_not_dead [OF uk] by (intro filter_cong refl) (auto simp: list_ex_iff image_iff; metis)
  show ?thesis
    using cleanup_counts [of time later db]
    by (simp add: cleanup_expired_def Let_def prune_def dead [unfolded set_map] sql_delete_delete
        RATE_LIMIT_EVENT_RETENTION_SECS_def split: prod.splits)
      (simp add: sql_delete_def sql_simps cascade)
qed

definition demo_pair :: "string \<Rightarrow> string \<Rightarrow> int \<Rightarrow> int \<Rightarrow> oauth_db \<Rightarrow> oauth_db" where
  "demo_pair a r ea er db =
     fst (save_issued_token_pair None 0 a
       \<lparr>at_token = a, at_client_id = ''c'', at_scopes = [], at_expires_at = Some ea, at_resource = None\<rparr> r
       \<lparr>rt_token = r, rt_client_id = ''c'', rt_scopes = [], rt_expires_at = Some er\<rparr> db)"

definition demo_db :: oauth_db where
  "demo_db = demo_pair ''a2'' ''r2'' 90 50 (demo_pair ''a1'' ''r1'' 90 99 empty_db)"

lemmas demo_db_simps = demo_db_def demo_pair_def save_issued_token_pair_def atomic_eq issue_stmts_def
  store_defs blob_put_def sql_upsert_def sql_insert_def sql_delete_def empty_db_def secs_def

lemma dead_keys_simps:
  "dead_keys n [] = {}"
  "dead_keys n (r # t) = (if expired n r then insert (r_key r) (dead_keys n t) else dead_keys n t)"
  by (auto simp: dead_keys_def)

lemma demo_db_rows:
  "auth_codes demo_db = []" "rate_limit_events demo_db = []" "clients demo_db = []"
  "map r_key (access_tokens demo_db) = [''a1'', ''a2'']"
  "map r_key (refresh_tokens demo_db) = [''r1'', ''r2'']"
  "token_pairs demo_db = [\<lparr>p_access = ''a1'', p_refresh = ''r1'', p_created_at = 0\<rparr>,
     \<lparr>p_access = ''a2'', p_refresh = ''r2'', p_created_at = 0\<rparr>]"
  "dead_keys 60 (access_tokens demo_db) = {}" "dead_keys 60 (refresh_tokens demo_db) = {''r2''}"
  "map (expired 60) (access_tokens demo_db) = [False, False]"
  "map (expired 60) (refresh_tokens demo_db) = [False, True]"
  by (simp_all add: demo_db_simps dead_keys_simps expired_def)

lemma map_filter_pair:
  assumes "map f t = [x, y]" and "map g t = [b, c]" and h: "\<And>r. h r = (\<not> g r \<and> q (f r))"
  shows "map f (filter h t) = (if \<not> b \<and> q x then [x] else []) @ (if \<not> c \<and> q y then [y] else [])"
proof -
  obtain r s where t: "t = [r, s]" using assms(1) by (cases t; cases "tl t") auto
  show ?thesis using assms(1,2) by (simp add: t h)
qed

lemma cleanup_expired_exact_witness:
  "case cleanup_expired 60 60 demo_db of (deleted, db') \<Rightarrow>
     map r_key (access_tokens db') = [''a1''] \<and> map r_key (refresh_tokens db') = [''r1''] \<and>
     map p_access (token_pairs db') = [''a1'']"
proof -
  have keys: "db_keys demo_db" by (simp add: db_keys_def unique_key_def demo_db_rows)
  obtain deleted db' where db': "cleanup_expired 60 60 demo_db = (deleted, db')" by (metis surj_pair)
  have secs: "secs 60 = 60" by (simp add: secs_def)
  note effect = cleanup_expired_exact [OF keys, of 60 60, unfolded db' prod.case secs]
  have "map r_key (access_tokens db') = [''a1'']"
    using effect map_filter_pair [OF demo_db_rows(4,9), of _ "\<lambda>k. \<not> list_ex
      (\<lambda>p. p_access p = k \<and> p_refresh p \<in> {''r2''}) (token_pairs demo_db)"]
    by (simp add: demo_db_rows)
  moreover have "map r_key (refresh_tokens db') = [''r1'']"
    using effect map_filter_pair [OF demo_db_rows(5,10), of _ "\<lambda>_. True"] by simp
  moreover have "map p_access (token_pairs db') = [''a1'']"
    using effect by (simp add: demo_db_rows)
  ultimately show ?thesis by (simp add: db')
qed

lemma count_events_cleanup:
  assumes "secs later \<le> secs now" and "w \<le> 3600"
  shows "count_events now k w (snd (cleanup_expired time later db)) = count_events now k w db"
proof -
  have "rate_limit_events (snd (cleanup_expired time later db)) =
      filter (\<lambda>e. \<not> ev_at e < secs later - 3600) (rate_limit_events db)"
    by (simp add: cleanup_expired_def Let_def prune_def RATE_LIMIT_EVENT_RETENTION_SECS_def sql_delete_def)
  then show ?thesis
    using assms by (simp add: count_events_def sql_count_def) (rule arg_cong [where f = length], rule filter_cong, auto)
qed

end
