(* ===== verification/PyText.thy ===== *)
theory PyText
  imports Prelude
begin

text \<open>
  The part of Python's \<open>str\<close> and \<open>re\<close> that the program uses.

  A Python string is a HOL \<open>string\<close> whose characters are read as the code points 0 to 255
  (Latin-1): \<open>cp c\<close> is \<open>ord(c)\<close>.  Case mapping, \<open>str.isspace\<close> and the word class of
  \<open>re\<close> follow the Unicode database on that range.  Code points above 255 are outside the
  model, except in the content cipher, which has its own code-point strings.

  Regular expressions are the datatype \<open>rx\<close> with a membership relation \<open>rx_in\<close> (what the
  pattern denotes) and a derivative matcher \<open>rx_match\<close> (what is executed); \<open>rx_match_iff\<close>
  connects them.  \<open>re_match_dollar\<close> is \<open>re.compile(r"^...$").match\<close>, whose \<open>$\<close> also
  matches just before a final newline; \<open>rx_search\<close> is \<open>pattern.search\<close>.
\<close>

section \<open>Characters\<close>

definition cp :: "char \<Rightarrow> nat" where
  "cp c = of_char c"

definition nl :: char where
  "nl = CHR 0x0A"

definition between :: "char \<Rightarrow> char \<Rightarrow> char \<Rightarrow> bool" where
  "between lo hi c = (cp lo \<le> cp c \<and> cp c \<le> cp hi)"

definition is_digit :: "char \<Rightarrow> bool" where
  "is_digit = between (CHR ''0'') (CHR ''9'')"

definition is_az :: "char \<Rightarrow> bool" where
  "is_az = between (CHR ''a'') (CHR ''z'')"

definition is_AZ :: "char \<Rightarrow> bool" where
  "is_AZ = between (CHR ''A'') (CHR ''Z'')"

definition is_az09 :: "char \<Rightarrow> bool" where
  "is_az09 c = (is_az c \<or> is_digit c)"

definition is_azAZ09 :: "char \<Rightarrow> bool" where
  "is_azAZ09 c = (is_az c \<or> is_AZ c \<or> is_digit c)"

definition py_isspace :: "char \<Rightarrow> bool" where
  "py_isspace c = ((9 \<le> cp c \<and> cp c \<le> 13) \<or> (28 \<le> cp c \<and> cp c \<le> 32) \<or> cp c = 133 \<or> cp c = 160)"

definition re_word :: "char \<Rightarrow> bool" where
  "re_word c = (is_azAZ09 c \<or> c = CHR ''_'' \<or> cp c \<in> {170, 178, 179, 181, 185, 186, 188, 189, 190}
     \<or> (192 \<le> cp c \<and> cp c \<noteq> 215 \<and> cp c \<noteq> 247))"

definition py_lower_char :: "char \<Rightarrow> char" where
  "py_lower_char c =
     (if is_AZ c \<or> (192 \<le> cp c \<and> cp c \<le> 222 \<and> cp c \<noteq> 215) then char_of (cp c + 32) else c)"

lemma cp_bound: "cp c < 256"
  by (simp add: cp_def)

lemma cp_inj [simp]: "cp c = cp d \<longleftrightarrow> c = d"
  by (simp add: cp_def)

lemma cp_char_of [simp]: "n < 256 \<Longrightarrow> cp (char_of n) = n"
  by (simp add: cp_def)

lemma py_lower_char_idem [simp]: "py_lower_char (py_lower_char c) = py_lower_char c"
  by (auto simp: py_lower_char_def is_AZ_def between_def cp_def)

lemma py_lower_char_fix: "is_az09 c \<or> c = CHR ''-'' \<or> c = CHR ''/'' \<or> c = nl \<Longrightarrow> py_lower_char c = c"
  by (auto simp: py_lower_char_def is_az09_def is_az_def is_digit_def is_AZ_def between_def cp_def nl_def)

lemma py_lower_char_cases: "py_lower_char c = c \<or> 97 \<le> cp (py_lower_char c)"
proof (cases "is_AZ c \<or> (192 \<le> cp c \<and> cp c \<le> 222 \<and> cp c \<noteq> 215)")
  case True
  then have "65 \<le> cp c" "cp c \<le> 222" by (auto simp: is_AZ_def between_def cp_def)
  then show ?thesis using True by (simp add: py_lower_char_def)
qed (simp add: py_lower_char_def)

section \<open>Strings\<close>

definition py_lower :: "string \<Rightarrow> string" where
  "py_lower s = map py_lower_char s"

definition py_lstrip :: "(char \<Rightarrow> bool) \<Rightarrow> string \<Rightarrow> string" where
  "py_lstrip p s = dropWhile p s"

definition py_rstrip :: "(char \<Rightarrow> bool) \<Rightarrow> string \<Rightarrow> string" where
  "py_rstrip p s = rev (dropWhile p (rev s))"

definition py_strip :: "(char \<Rightarrow> bool) \<Rightarrow> string \<Rightarrow> string" where
  "py_strip p s = py_rstrip p (py_lstrip p s)"

definition py_startswith :: "string \<Rightarrow> string \<Rightarrow> bool" where
  "py_startswith s p = (take (length p) s = p)"

text \<open>The slice \<open>s[:n]\<close>, which counts from the end for a negative \<open>n\<close>.\<close>

definition py_head :: "int \<Rightarrow> 'a list \<Rightarrow> 'a list" where
  "py_head n s = (if n < 0 then take (length s - nat (- n)) s else take (nat n) s)"

text \<open>\<open>s.split()\<close>: the maximal runs of non-space characters.\<close>

fun py_split_acc :: "string \<Rightarrow> string \<Rightarrow> string list" where
  "py_split_acc acc [] = (if acc = [] then [] else [rev acc])"
| "py_split_acc acc (c # cs) =
     (if py_isspace c then (if acc = [] then py_split_acc [] cs else rev acc # py_split_acc [] cs)
      else py_split_acc (c # acc) cs)"

definition py_split :: "string \<Rightarrow> string list" where
  "py_split s = py_split_acc [] s"

text \<open>\<open>sep.join(parts)\<close>.\<close>

fun py_join :: "string \<Rightarrow> string list \<Rightarrow> string" where
  "py_join sep [] = []"
| "py_join sep [w] = w"
| "py_join sep (w # v # ws) = w @ sep @ py_join sep (v # ws)"

lemma py_lower_idem [simp]: "py_lower (py_lower s) = py_lower s"
  by (simp add: py_lower_def)

lemma length_py_lower [simp]: "length (py_lower s) = length s"
  by (simp add: py_lower_def)

lemma set_py_head: "set (py_head n s) \<subseteq> set s"
  by (auto simp: py_head_def dest: in_set_takeD)

lemma length_py_head: "0 \<le> n \<Longrightarrow> int (length (py_head n s)) \<le> n"
  by (auto simp: py_head_def)

lemma py_head_short: "int (length s) \<le> n \<Longrightarrow> py_head n s = s"
  by (auto simp: py_head_def)

lemma set_py_strip: "set (py_strip p s) \<subseteq> set s"
  unfolding py_strip_def py_rstrip_def py_lstrip_def
  by (metis set_dropWhileD set_rev subsetI)

lemma dropWhile_snoc_keep: "\<not> p c \<Longrightarrow> dropWhile p (s @ [c]) = dropWhile p s @ [c]"
  by (induction s) auto

lemma py_strip_no_edge:
  "py_strip p s \<noteq> [] \<Longrightarrow> \<not> p (hd (py_strip p s)) \<and> \<not> p (last (py_strip p s))"
proof -
  assume ne: "py_strip p s \<noteq> []"
  let ?t = "dropWhile p s"
  have t: "?t \<noteq> []"
  proof
    assume "?t = []"
    then have "py_strip p s = []"
      unfolding py_strip_def py_rstrip_def py_lstrip_def by (simp only:) simp
    with ne show False ..
  qed
  then have "\<not> p (hd ?t)" by (simp add: hd_dropWhile)
  then obtain c cs where c: "?t = c # cs" "\<not> p c" using t by (cases ?t) auto
  have "py_strip p s = c # rev (dropWhile p (rev cs))"
    using c by (simp add: py_strip_def py_rstrip_def py_lstrip_def dropWhile_snoc_keep)
  moreover have "\<not> p (last (py_strip p s))"
    using ne by (simp add: py_strip_def py_rstrip_def py_lstrip_def last_rev hd_dropWhile)
  ultimately show ?thesis using c by simp
qed

lemma py_strip_id: "s = [] \<or> (\<not> p (hd s) \<and> \<not> p (last s)) \<Longrightarrow> py_strip p s = s"
proof (cases "s = []")
  case False
  assume "s = [] \<or> (\<not> p (hd s) \<and> \<not> p (last s))"
  with False have h: "\<not> p (hd s)" and l: "\<not> p (last s)" by auto
  have "dropWhile p s = s" using False h by (cases s) auto
  moreover have "dropWhile p (rev s) = rev s"
    using False l by (cases "rev s") (auto simp: last_rev hd_rev [symmetric])
  ultimately show ?thesis by (simp add: py_strip_def py_rstrip_def py_lstrip_def)
qed (simp add: py_strip_def py_rstrip_def py_lstrip_def)

lemma py_strip_idem [simp]: "py_strip p (py_strip p s) = py_strip p s"
  by (rule py_strip_id) (use py_strip_no_edge in blast)

definition py_word :: "string \<Rightarrow> bool" where
  "py_word w = (w \<noteq> [] \<and> list_all (\<lambda>c. \<not> py_isspace c) w)"

lemma py_split_acc_words:
  "list_all (\<lambda>c. \<not> py_isspace c) acc \<Longrightarrow> list_all py_word (py_split_acc acc s)"
proof (induction s arbitrary: acc)
  case Nil
  then show ?case by (simp add: py_word_def)
next
  case (Cons c cs)
  then show ?case by (simp add: py_word_def)
qed

lemma py_split_words: "w \<in> set (py_split s) \<Longrightarrow> py_word w"
  using py_split_acc_words [of "[]" s] by (simp add: py_split_def list_all_iff)

lemma py_split_acc_word:
  "list_all (\<lambda>c. \<not> py_isspace c) w \<Longrightarrow> py_split_acc acc (w @ s) = py_split_acc (rev w @ acc) s"
  by (induction w arbitrary: acc) auto

text \<open>\<open>" ".join(ws).split() == ws\<close> for non-empty words without whitespace.\<close>

lemma py_split_join:
  "list_all py_word ws \<Longrightarrow> py_split (py_join '' '' ws) = ws"
proof (induction ws rule: induct_list012)
  case (2 w)
  then show ?case using py_split_acc_word [of w "[]" "[]"] by (simp add: py_split_def py_word_def)
next
  case (3 w v ws)
  have "py_split (py_join '' '' (w # v # ws)) = py_split_acc (rev w) ('' '' @ py_join '' '' (v # ws))"
    using 3 py_split_acc_word [of w "[]"] by (simp add: py_split_def py_word_def)
  also have "\<dots> = w # py_split (py_join '' '' (v # ws))"
    using 3 by (simp add: py_split_def py_isspace_def cp_def py_word_def)
  finally show ?case using 3 by simp
qed (simp add: py_split_def)

section \<open>Regular expressions\<close>

datatype rx = Never | Eps | Cls "char \<Rightarrow> bool" | Cat rx rx | Or rx rx | Many rx

inductive rx_in :: "rx \<Rightarrow> string \<Rightarrow> bool" where
  in_eps: "rx_in Eps []"
| in_cls: "p c \<Longrightarrow> rx_in (Cls p) [c]"
| in_cat: "rx_in r s \<Longrightarrow> rx_in q t \<Longrightarrow> rx_in (Cat r q) (s @ t)"
| in_orL: "rx_in r s \<Longrightarrow> rx_in (Or r q) s"
| in_orR: "rx_in q s \<Longrightarrow> rx_in (Or r q) s"
| in_many0: "rx_in (Many r) []"
| in_manyS: "rx_in r s \<Longrightarrow> rx_in (Many r) t \<Longrightarrow> rx_in (Many r) (s @ t)"

inductive_simps rx_in_never [simp]: "rx_in Never s"
inductive_simps rx_in_eps [simp]: "rx_in Eps s"
inductive_simps rx_in_cls [simp]: "rx_in (Cls p) s"
inductive_simps rx_in_cat: "rx_in (Cat r q) s"
inductive_simps rx_in_or [simp]: "rx_in (Or r q) s"
inductive_cases rx_in_manyE: "rx_in (Many r) s"

definition rx_plus :: "rx \<Rightarrow> rx" where
  "rx_plus r = Cat r (Many r)"

definition rx_opt :: "rx \<Rightarrow> rx" where
  "rx_opt r = Or Eps r"

fun rx_lit :: "string \<Rightarrow> rx" where
  "rx_lit [] = Eps"
| "rx_lit (c # cs) = Cat (Cls (\<lambda>d. d = c)) (rx_lit cs)"

fun rx_upto :: "nat \<Rightarrow> rx \<Rightarrow> rx" where
  "rx_upto 0 r = Eps"
| "rx_upto (Suc n) r = Or Eps (Cat r (rx_upto n r))"

lemma rx_in_lit [simp]: "rx_in (rx_lit w) s \<longleftrightarrow> s = w"
  by (induction w arbitrary: s) (auto simp: rx_in_cat)

lemma rx_in_opt [simp]: "rx_in (rx_opt r) s \<longleftrightarrow> s = [] \<or> rx_in r s"
  by (simp add: rx_opt_def)

declare rx_lit.simps [simp del]

lemma rx_in_Cat_Cls: "rx_in (Cat (Cls p) r) s \<longleftrightarrow> (\<exists>c t. s = c # t \<and> p c \<and> rx_in r t)"
  by (auto simp: rx_in_cat) (metis append_Cons append_Nil)

lemma rx_in_Cat_lit: "rx_in (Cat (rx_lit w) r) s \<longleftrightarrow> (\<exists>t. s = w @ t \<and> rx_in r t)"
  by (auto simp: rx_in_cat)

fun rx_null :: "rx \<Rightarrow> bool" where
  "rx_null Never = False"
| "rx_null Eps = True"
| "rx_null (Cls p) = False"
| "rx_null (Cat r q) = (rx_null r \<and> rx_null q)"
| "rx_null (Or r q) = (rx_null r \<or> rx_null q)"
| "rx_null (Many r) = True"

fun rx_deriv :: "char \<Rightarrow> rx \<Rightarrow> rx" where
  "rx_deriv c Never = Never"
| "rx_deriv c Eps = Never"
| "rx_deriv c (Cls p) = (if p c then Eps else Never)"
| "rx_deriv c (Cat r q) =
     (if rx_null r then Or (Cat (rx_deriv c r) q) (rx_deriv c q) else Cat (rx_deriv c r) q)"
| "rx_deriv c (Or r q) = Or (rx_deriv c r) (rx_deriv c q)"
| "rx_deriv c (Many r) = Cat (rx_deriv c r) (Many r)"

fun rx_match :: "rx \<Rightarrow> string \<Rightarrow> bool" where
  "rx_match r [] = rx_null r"
| "rx_match r (c # cs) = rx_match (rx_deriv c r) cs"

lemma rx_null_iff: "rx_null r \<longleftrightarrow> rx_in r []"
  by (induction r) (auto simp: rx_in_cat intro: rx_in.intros)

lemma rx_in_many_Cons:
  "rx_in (Many r) (c # cs) \<longleftrightarrow> (\<exists>s t. cs = s @ t \<and> rx_in r (c # s) \<and> rx_in (Many r) t)"
proof
  have "rx_in q u \<Longrightarrow> q = Many r \<Longrightarrow> u = c # cs \<Longrightarrow>
      \<exists>s t. cs = s @ t \<and> rx_in r (c # s) \<and> rx_in (Many r) t" for q u
  proof (induction arbitrary: c cs rule: rx_in.induct)
    case (in_manyS r' s t)
    then show ?case by (cases s) auto
  qed auto
  then show "rx_in (Many r) (c # cs) \<Longrightarrow>
      \<exists>s t. cs = s @ t \<and> rx_in r (c # s) \<and> rx_in (Many r) t" by blast
next
  assume "\<exists>s t. cs = s @ t \<and> rx_in r (c # s) \<and> rx_in (Many r) t"
  then show "rx_in (Many r) (c # cs)" using in_manyS by fastforce
qed

lemma rx_in_cat_Cons:
  "rx_in (Cat r q) (c # cs) \<longleftrightarrow>
     (rx_in r [] \<and> rx_in q (c # cs)) \<or> (\<exists>s t. cs = s @ t \<and> rx_in r (c # s) \<and> rx_in q t)"
  by (auto simp: rx_in_cat Cons_eq_append_conv)

lemma rx_deriv_iff: "rx_in (rx_deriv c r) s \<longleftrightarrow> rx_in r (c # s)"
proof (induction r arbitrary: s)
  case (Cat r q)
  then show ?case
    unfolding rx_in_cat_Cons
    by (auto simp: rx_null_iff rx_in_cat [of "rx_deriv c r"])
next
  case (Many r)
  then show ?case
    by (auto simp: rx_in_many_Cons rx_in_cat [of "rx_deriv c r"])
qed auto

lemma rx_match_iff: "rx_match r s \<longleftrightarrow> rx_in r s"
  by (induction s arbitrary: r) (auto simp: rx_null_iff rx_deriv_iff)

definition re_match_dollar :: "rx \<Rightarrow> string \<Rightarrow> bool" where
  "re_match_dollar r s = (rx_match r s \<or> (s \<noteq> [] \<and> last s = nl \<and> rx_match r (butlast s)))"

lemma re_match_dollar_iff:
  "re_match_dollar r s \<longleftrightarrow> rx_in r s \<or> (\<exists>t. s = t @ [nl] \<and> rx_in r t)"
  unfolding re_match_dollar_def rx_match_iff
  by (metis append_butlast_last_id butlast_snoc last_snoc snoc_eq_iff_butlast)

text \<open>Some prefix of the string matches (\<open>pattern.match\<close>), at some position (\<open>search\<close>).\<close>

fun rx_prefix :: "rx \<Rightarrow> string \<Rightarrow> bool" where
  "rx_prefix r [] = rx_null r"
| "rx_prefix r (c # cs) = (rx_null r \<or> rx_prefix (rx_deriv c r) cs)"

fun rx_search :: "rx \<Rightarrow> string \<Rightarrow> bool" where
  "rx_search r [] = rx_prefix r []"
| "rx_search r (c # cs) = (rx_prefix r (c # cs) \<or> rx_search r cs)"

lemma rx_prefix_iff: "rx_prefix r s \<longleftrightarrow> (\<exists>u v. s = u @ v \<and> rx_in r u)"
proof (induction s arbitrary: r)
  case Nil
  then show ?case by (simp add: rx_null_iff)
next
  case (Cons c cs)
  show ?case
    by (auto simp: Cons.IH rx_null_iff rx_deriv_iff Cons_eq_append_conv)
qed

lemma rx_search_iff: "rx_search r s \<longleftrightarrow> (\<exists>a u v. s = a @ u @ v \<and> rx_in r u)"
proof (induction s)
  case Nil
  then show ?case by (simp add: rx_null_iff)
next
  case (Cons c cs)
  show ?case
    by (simp only: rx_search.simps Cons.IH rx_prefix_iff) (auto simp: Cons_eq_append_conv; blast)
qed

text \<open>The characters a pattern can match at all.\<close>

fun rx_alpha :: "rx \<Rightarrow> char \<Rightarrow> bool" where
  "rx_alpha Never c = False"
| "rx_alpha Eps c = False"
| "rx_alpha (Cls p) c = p c"
| "rx_alpha (Cat r q) c = (rx_alpha r c \<or> rx_alpha q c)"
| "rx_alpha (Or r q) c = (rx_alpha r c \<or> rx_alpha q c)"
| "rx_alpha (Many r) c = rx_alpha r c"

lemma rx_in_alpha: "rx_in r s \<Longrightarrow> c \<in> set s \<Longrightarrow> rx_alpha r c"
  by (induction rule: rx_in.induct) auto

end
