(* ===== verification/Scope.thy ===== *)
theory Scope
  imports PyText
begin

text \<open>
  \<open>gubbi/auth/scope.py\<close> and the two copies of \<open>_has_scope\<close> in \<open>gubbi/middleware/auth.py\<close> and
  \<open>gubbi/api/v1/auth.py\<close>: the data-driven scope check of tools and endpoints.

  Sets of scopes (\<open>frozenset[str]\<close>) are \<open>string set\<close>; the module-level tables keep their
  names.  The lemmas show that the precomputed inverse index decides the same question as
  the loop over the token's scopes it replaces, and what each product scope amounts to.
\<close>

type_synonym scopes = "string set"

definition SCOPE_GRANTS :: "(string \<times> string list) list" where
  "SCOPE_GRANTS =
    [(''journal'', [''journal:read'', ''journal:write'']),
     (''journal:read'', [''journal:read'']),
     (''journal:write'', [''journal:write''])]"

definition GRANTS_UNION :: scopes where
  "GRANTS_UNION = set (concat (map snd SCOPE_GRANTS))"

text \<open>\<open>_GRANT_INVERSE.get(perm, frozenset())\<close>.\<close>

definition GRANT_INVERSE :: "string \<Rightarrow> scopes" where
  "GRANT_INVERSE perm =
     (if perm \<in> GRANTS_UNION then set (map fst (filter (\<lambda>(s, grants). perm \<in> set grants) SCOPE_GRANTS))
      else {})"

definition check_scope :: "scopes \<Rightarrow> string \<Rightarrow> bool" where
  "check_scope token_scopes required_scope =
     (if required_scope \<in> token_scopes then True
      else GRANTS_UNION \<inter> {required_scope} \<noteq> {} \<and> GRANT_INVERSE required_scope \<inter> token_scopes \<noteq> {})"

definition has_scope :: "scopes \<Rightarrow> string \<Rightarrow> bool" where
  "has_scope token_scopes required_scope =
     (if check_scope token_scopes required_scope then True
      else case map_of SCOPE_GRANTS required_scope of
             None \<Rightarrow> False
           | Some expanded \<Rightarrow> set expanded \<subseteq> token_scopes)"

section \<open>The tool decorator\<close>

record call_tool_result =
  is_error :: bool
  content_text :: string
  www_authenticate :: string

definition insufficient_scope_response :: "string \<Rightarrow> string \<Rightarrow> call_tool_result" where
  "insufficient_scope_response required_scope detail =
     (let description =
        (if detail = [] then ''Token scope does not include '' @ required_scope else detail)
      in \<lparr>is_error = True,
          content_text = ''insufficient_scope: '' @ description,
          www_authenticate =
            ''Bearer error=\"insufficient_scope\", error_description=\"'' @ description @ ''\"''\<rparr>)"

text \<open>
  \<open>require_scope(scope)(fn)\<close> run with the context variable \<open>current_token_scopes\<close>: the
  handler is called (\<open>Inr\<close>) or the error result is returned (\<open>Inl\<close>).
\<close>

definition require_scope :: "string \<Rightarrow> ('a \<Rightarrow> 'r) \<Rightarrow> scopes option \<Rightarrow> 'a \<Rightarrow> call_tool_result + 'r" where
  "require_scope scope fn current_token_scopes args =
     (let token_scopes = (case current_token_scopes of None \<Rightarrow> {} | Some t \<Rightarrow> t)
      in if \<not> check_scope token_scopes scope then Inl (insufficient_scope_response scope [])
         else Inr (fn args))"

section \<open>The inverse index\<close>

text \<open>The reference: some scope of the token is the required one or grants it.\<close>

definition grants :: "string \<Rightarrow> string \<Rightarrow> bool" where
  "grants s perm = (case map_of SCOPE_GRANTS s of None \<Rightarrow> False | Some g \<Rightarrow> perm \<in> set g)"

lemma GRANT_INVERSE_iff: "s \<in> GRANT_INVERSE perm \<longleftrightarrow> grants s perm"
  by (auto simp: GRANT_INVERSE_def GRANTS_UNION_def grants_def SCOPE_GRANTS_def)

lemma GRANTS_UNION_iff: "perm \<in> GRANTS_UNION \<longleftrightarrow> (\<exists>s. grants s perm)"
  by (auto simp: GRANTS_UNION_def grants_def SCOPE_GRANTS_def)

lemma check_scope_iff: "check_scope T r \<longleftrightarrow> r \<in> T \<or> (\<exists>s \<in> T. grants s r)"
  using GRANTS_UNION_iff [of r] by (auto simp: check_scope_def GRANT_INVERSE_iff)

lemma check_scope_mono: "check_scope T r \<Longrightarrow> T \<subseteq> U \<Longrightarrow> check_scope U r"
  by (auto simp: check_scope_iff)

lemma has_scope_mono: "has_scope T r \<Longrightarrow> T \<subseteq> U \<Longrightarrow> has_scope U r"
  using check_scope_mono [of T r U] by (auto simp: has_scope_def split: if_splits option.splits)

lemma grants_simps:
  "grants s ''journal:read'' \<longleftrightarrow> s = ''journal'' \<or> s = ''journal:read''"
  "grants s ''journal:write'' \<longleftrightarrow> s = ''journal'' \<or> s = ''journal:write''"
  "\<not> grants s ''journal''"
  by (auto simp: grants_def SCOPE_GRANTS_def)

lemma has_scope_journal:
  "has_scope T ''journal'' \<longleftrightarrow> ''journal'' \<in> T \<or> (''journal:read'' \<in> T \<and> ''journal:write'' \<in> T)"
  by (simp add: has_scope_def check_scope_iff grants_simps) (simp add: SCOPE_GRANTS_def)

lemma check_scope_empty [simp]: "\<not> check_scope {} r"
  by (simp add: check_scope_iff)

section \<open>Properties\<close>

text \<open>
  \<open>check_scope\<close>, which looks the required scope up in the precomputed inverse
  index, answers the same as the loop over the token's scopes it replaces: some scope of the
  token is the required one or has it among its grants in \<open>SCOPE_GRANTS\<close>.
\<close>

theorem check_scope_equals_loop: "check_scope T r \<longleftrightarrow> r \<in> T \<or> (\<exists>s \<in> T. grants s r)"
  by (rule check_scope_iff)

text \<open>
  The decorator \<open>require_scope\<close> runs a tool's handler only when the token carries
  a scope that grants the tool's permission; without an introspected token (context variable
  unset) no handler runs.
\<close>

theorem require_scope_guards:
  "require_scope perm fn ctx args = Inr r \<longleftrightarrow>
     (\<exists>T. ctx = Some T \<and> r = fn args \<and> (perm \<in> T \<or> (\<exists>s \<in> T. grants s perm)))"
  by (cases ctx) (auto simp: require_scope_def check_scope_iff Let_def)

end
