(* ===== verification/PyUuid.thy ===== *)
theory PyUuid
  imports PyText
begin

text \<open>
  Python's \<open>uuid.UUID\<close> as the program uses it: \<open>uuid_parse\<close> is \<open>UUID(hex)\<close>, whose
  \<open>ValueError\<close> is \<open>None\<close>, and \<open>uuid_str\<close> is \<open>str(u)\<close>.  A UUID is its 128-bit value.
\<close>

definition hex_val :: "char \<Rightarrow> nat option" where
  "hex_val c =
     (if is_digit c then Some (cp c - 48)
      else if between (CHR ''a'') (CHR ''f'') c then Some (cp c - 87)
      else if between (CHR ''A'') (CHR ''F'') c then Some (cp c - 55)
      else None)"

definition hex_char :: "nat \<Rightarrow> char" where
  "hex_char d = (if d < 10 then char_of (48 + d) else char_of (87 + d))"

text \<open>\<open>int(s, 16)\<close> on the digits: single underscores may separate them.\<close>

fun hex_digits :: "bool \<Rightarrow> nat \<Rightarrow> string \<Rightarrow> nat option" where
  "hex_digits prev acc [] = (if prev then Some acc else None)"
| "hex_digits prev acc (c # cs) =
     (case hex_val c of
        Some d \<Rightarrow> hex_digits True (16 * acc + d) cs
      | None \<Rightarrow> if c = CHR ''_'' \<and> prev then hex_digits False acc cs else None)"

text \<open>\<open>int(s, 16)\<close>: whitespace around, a sign, the prefix \<open>0x\<close> (which an underscore may follow).\<close>

definition hex_body :: "string \<Rightarrow> nat option" where
  "hex_body s =
     (case s of
        a # b # r \<Rightarrow>
          if a = CHR ''0'' \<and> (b = CHR ''x'' \<or> b = CHR ''X'')
          then hex_digits False 0 (case r of c # r' \<Rightarrow> if c = CHR ''_'' then r' else r | [] \<Rightarrow> r)
          else hex_digits False 0 s
      | _ \<Rightarrow> hex_digits False 0 s)"

definition py_int16 :: "string \<Rightarrow> int option" where
  "py_int16 s =
     (case py_strip py_isspace s of
        [] \<Rightarrow> None
      | c # cs \<Rightarrow>
          if c = CHR ''-'' then map_option (\<lambda>n. - int n) (hex_body cs)
          else if c = CHR ''+'' then map_option int (hex_body cs)
          else map_option int (hex_body (c # cs)))"

text \<open>\<open>s.replace(w, "")\<close> for a non-empty \<open>w\<close>.\<close>

fun py_remove :: "string \<Rightarrow> string \<Rightarrow> string" where
  "py_remove w [] = []"
| "py_remove w (c # cs) =
     (if w \<noteq> [] \<and> py_startswith (c # cs) w then py_remove w (drop (length w - 1) cs)
      else c # py_remove w cs)"

definition is_brace :: "char \<Rightarrow> bool" where
  "is_brace c = (c = CHR ''{'' \<or> c = CHR ''}'')"

definition uuid_parse :: "string \<Rightarrow> nat option" where
  "uuid_parse s =
     (let h1 = py_remove ''uuid:'' (py_remove ''urn:'' s);
          h2 = py_remove ''-'' (py_strip is_brace h1)
      in if length h2 \<noteq> 32 then None
         else case py_int16 h2 of
                None \<Rightarrow> None
              | Some n \<Rightarrow> if 0 \<le> n \<and> n < 2 ^ 128 then Some (nat n) else None)"

fun hex_fixed :: "nat \<Rightarrow> nat \<Rightarrow> string" where
  "hex_fixed 0 n = []"
| "hex_fixed (Suc k) n = hex_fixed k (n div 16) @ [hex_char (n mod 16)]"

definition uuid_str :: "nat \<Rightarrow> string" where
  "uuid_str n =
     (let h = hex_fixed 32 n
      in take 8 h @ ''-'' @ take 4 (drop 8 h) @ ''-'' @ take 4 (drop 12 h) @ ''-'' @
         take 4 (drop 16 h) @ ''-'' @ drop 20 h)"

lemma uuid_parse_bound: "uuid_parse s = Some u \<Longrightarrow> u < 2 ^ 128"
  by (auto simp: uuid_parse_def Let_def split: if_splits option.splits)

lemmas hex_eval = hex_val_def is_digit_def between_def cp_def py_startswith_def is_brace_def
  py_strip_def py_lstrip_def py_rstrip_def py_isspace_def py_int16_def hex_body_def

lemma uuid_parse_example:
  "uuid_parse ''6BA7B810-9dad-11d1-80b4-00c04fd430c8'' = Some 143098242404177361603877621312831893704"
  by (simp add: uuid_parse_def hex_eval)

end
