(* ===== verification/Auth.thy ===== *)
theory Auth
  imports Scope PyUuid
begin

text \<open>
  Authentication of a request: \<open>gubbi/auth/strategies.py\<close> (the strategies),
  \<open>gubbi/middleware/auth.py\<close>, \<open>gubbi/middleware/origin.py\<close> and \<open>gubbi/middleware/path.py\<close>
  (the ASGI chain in front of the MCP endpoint), \<open>gubbi/api/v1/auth.py\<close> (the REST
  dependency), \<open>gubbi/bootstrap/_mcp.py\<close> and the strategy list that \<open>gubbi/main.py\<close> builds.

  An exception that leaves a strategy is \<open>AuthRejected detail status\<close> or the \<open>TypeError\<close>
  that \<open>secrets.compare_digest\<close> raises on a string with a non-ASCII character.  What is not
  in the repository is an argument: Hydra's introspection, the self-host token validator and
  the HMAC check \<open>verify_signature\<close> with its contract version.

  The locale \<open>auth_provider\<close> states what the adapters rely on (which exceptions a strategy
  raises); its lemmas about the chain are used through its interpretation on
  \<open>authenticate\<close>.
\<close>

section \<open>Requests, results, exceptions\<close>

record request =
  rq_type :: string
  rq_method :: string
  rq_path :: string
  rq_headers :: "(string \<times> string) list"

datatype auth_exn = AuthRejected string int | TypeErr

record auth_result =
  user_id :: nat
  scopes :: scopes

text \<open>\<open>request.headers.get(name, "")\<close>; ASGI servers send header names in lower case.\<close>

definition header :: "request \<Rightarrow> string \<Rightarrow> string" where
  "header rq name = (case find (\<lambda>(n, v). n = name) (rq_headers rq) of None \<Rightarrow> [] | Some (n, v) \<Rightarrow> v)"

definition is_ascii :: "string \<Rightarrow> bool" where
  "is_ascii s = list_all (\<lambda>c. cp c < 128) s"

definition compare_digest :: "string \<Rightarrow> string \<Rightarrow> auth_exn + bool" where
  "compare_digest a b = (if is_ascii a \<and> is_ascii b then Inr (a = b) else Inl TypeErr)"

definition MAX_BEARER_TOKEN_LEN :: nat where
  "MAX_BEARER_TOKEN_LEN = 256"

definition DEFAULT_SCOPES :: scopes where
  "DEFAULT_SCOPES = {''journal:read'', ''journal:write''}"

definition resolve_scopes :: "string \<Rightarrow> scopes" where
  "resolve_scopes scopes_header =
     (let parsed = set (py_split scopes_header) in if parsed = {} then DEFAULT_SCOPES else parsed)"

definition extract_bearer_token :: "request \<Rightarrow> auth_exn + string" where
  "extract_bearer_token rq =
     (let auth_header = header rq ''authorization'' in
      if auth_header = [] then Inl (AuthRejected ''Missing or invalid Authorization header'' 401)
      else if \<not> py_startswith (py_lower auth_header) ''bearer ''
      then Inl (AuthRejected ''Missing or invalid Authorization header'' 401)
      else let token = drop 7 auth_header in
           if length token > MAX_BEARER_TOKEN_LEN then Inl (AuthRejected ''Invalid token'' 401)
           else Inr token)"

section \<open>Strategies\<close>

text \<open>
  Claims of a Hydra token: \<open>claims_sub\<close> is \<open>None\<close> when \<open>sub\<close> is no \<open>UUID\<close> object.
\<close>

datatype hydra_error = HydraUnreachable | HydraInvalidToken

record token_claims =
  claims_sub :: "nat option"
  claims_scope :: string

type_synonym gateway_verify =
  "nat list \<Rightarrow> string \<Rightarrow> string \<Rightarrow> string \<Rightarrow> string \<Rightarrow> string \<Rightarrow> string \<Rightarrow> bool"

datatype strategy =
    TrustGateway (tg_version: string) (tg_verify: gateway_verify) (tg_secret: "nat list option") (tg_require: bool)
  | ApiKey (ak_key: string) (ak_scopes: scopes) (ak_operator: "nat option")
  | Hydra (hy_introspector: "(string \<Rightarrow> hydra_error + token_claims) option")
  | SelfHost (sh_validator: "(string \<Rightarrow> scopes option) option") (sh_operator: "nat option")

definition py_upper_ascii :: "string \<Rightarrow> string" where
  "py_upper_ascii s = map (\<lambda>c. if is_az c then char_of (cp c - 32) else c) s"

definition tg_authenticate ::
  "string \<Rightarrow> gateway_verify \<Rightarrow> nat list option \<Rightarrow> bool \<Rightarrow> request \<Rightarrow> auth_exn + auth_result option" where
  "tg_authenticate version verify secret required rq =
     (let user_id_header = header rq ''x-auth-user-id'' in
      if user_id_header = [] then Inl (AuthRejected ''Missing X-Auth-User-Id header'' 401)
      else case uuid_parse user_id_header of
        None \<Rightarrow> Inl (AuthRejected ''Invalid X-Auth-User-Id header'' 401)
      | Some user_uuid \<Rightarrow>
        (let contract_version = header rq ''x-auth-contract-version'';
             scopes_header = header rq ''x-auth-scopes'';
             timestamp_header = header rq ''x-auth-timestamp'';
             signature_header = header rq ''x-auth-signature'';
             checked =
               (if signature_header \<noteq> [] \<or> required then
                  if contract_version \<noteq> version
                  then Inl (AuthRejected ''Unsupported X-Auth-Contract-Version'' 401)
                  else case secret of
                    None \<Rightarrow> Inl (AuthRejected ''gateway secret not configured'' 503)
                  | Some k \<Rightarrow>
                      if verify k signature_header (uuid_str user_uuid) scopes_header timestamp_header
                           (py_upper_ascii (rq_method rq)) (rq_path rq)
                      then Inr () else Inl (AuthRejected ''Invalid gateway signature'' 401)
                else Inr ())
         in rbind checked (\<lambda>_. Inr (Some \<lparr>user_id = user_uuid, scopes = resolve_scopes scopes_header\<rparr>))))"

definition ak_authenticate ::
  "string \<Rightarrow> scopes \<Rightarrow> nat option \<Rightarrow> request \<Rightarrow> auth_exn + auth_result option" where
  "ak_authenticate api_key key_scopes operator rq =
     rbind (extract_bearer_token rq) (\<lambda>token.
       if api_key = [] then Inr None
       else rbind (compare_digest token api_key) (\<lambda>same.
         if \<not> same then Inr None
         else case operator of
                None \<Rightarrow> Inl (AuthRejected ''Auto-scaffold auth -- operator not provisioned'' 503)
              | Some u \<Rightarrow> Inr (Some \<lparr>user_id = u, scopes = key_scopes\<rparr>)))"

definition hy_authenticate ::
  "(string \<Rightarrow> hydra_error + token_claims) option \<Rightarrow> request \<Rightarrow> auth_exn + auth_result option" where
  "hy_authenticate introspector rq =
     (case introspector of
        None \<Rightarrow> Inr None
      | Some introspect \<Rightarrow>
          rbind (extract_bearer_token rq) (\<lambda>token.
            if \<not> py_startswith token ''ory_at_'' then Inr None
            else case introspect token of
                   Inl HydraUnreachable \<Rightarrow> Inl (AuthRejected ''Auth service unavailable'' 503)
                 | Inl HydraInvalidToken \<Rightarrow> Inl (AuthRejected ''Invalid or expired token'' 401)
                 | Inr claims \<Rightarrow>
                     (case claims_sub claims of
                        None \<Rightarrow> Inl (AuthRejected ''Invalid or expired token'' 401)
                      | Some u \<Rightarrow> Inr (Some \<lparr>user_id = u, scopes = set (py_split (claims_scope claims))\<rparr>))))"

definition sh_authenticate ::
  "(string \<Rightarrow> scopes option) option \<Rightarrow> nat option \<Rightarrow> request \<Rightarrow> auth_exn + auth_result option" where
  "sh_authenticate token_validator operator rq =
     (case token_validator of
        None \<Rightarrow> Inr None
      | Some validate \<Rightarrow>
          rbind (extract_bearer_token rq) (\<lambda>token.
            case validate token of
              None \<Rightarrow> Inr None
            | Some granted \<Rightarrow>
                (case operator of
                   None \<Rightarrow> Inl (AuthRejected ''Operator not provisioned'' 503)
                 | Some u \<Rightarrow> Inr (Some \<lparr>user_id = u, scopes = granted\<rparr>))))"

fun authenticate :: "strategy \<Rightarrow> request \<Rightarrow> auth_exn + auth_result option" where
  "authenticate (TrustGateway version verify secret required) rq =
     tg_authenticate version verify secret required rq"
| "authenticate (ApiKey api_key key_scopes operator) rq = ak_authenticate api_key key_scopes operator rq"
| "authenticate (Hydra introspector) rq = hy_authenticate introspector rq"
| "authenticate (SelfHost token_validator operator) rq = sh_authenticate token_validator operator rq"

section \<open>The chain and its two adapters\<close>

text \<open>The strategies in order; the first result or exception ends the loop.\<close>

fun run_chain :: "('s \<Rightarrow> request \<Rightarrow> auth_exn + auth_result option) \<Rightarrow> 's list \<Rightarrow> request \<Rightarrow>
    auth_exn + auth_result option" where
  "run_chain auth [] rq = Inr None"
| "run_chain auth (s # ss) rq =
     (case auth s rq of
        Inl e \<Rightarrow> Inl e
      | Inr None \<Rightarrow> run_chain auth ss rq
      | Inr (Some r) \<Rightarrow> Inr (Some r))"

text \<open>
  What the ASGI middleware does with a request: pass it on unauthenticated (a scope that is
  not HTTP), answer it itself, call the application with the two context variables set, or
  let an exception escape to the server.
\<close>

datatype asgi_outcome =
    PassThrough
  | Unauthorized string
  | Forbidden string
  | ServiceUnavailable string
  | AppCalled nat scopes
  | Escaped

record bearer_middleware =
  mw_strategies :: "strategy list"
  mw_required_scope :: "string option"

definition bearer_call :: "bearer_middleware \<Rightarrow> request \<Rightarrow> asgi_outcome" where
  "bearer_call mw rq =
     (if rq_type rq \<noteq> ''http'' then PassThrough
      else case run_chain authenticate (mw_strategies mw) rq of
        Inl TypeErr \<Rightarrow> Escaped
      | Inl (AuthRejected detail status) \<Rightarrow>
          if status = 503 then ServiceUnavailable detail
          else if status = 403 then
            Forbidden (case mw_required_scope mw of None \<Rightarrow> [] | Some s \<Rightarrow> s)
          else Unauthorized detail
      | Inr None \<Rightarrow> Unauthorized ''Invalid or expired token''
      | Inr (Some result) \<Rightarrow>
          (case mw_required_scope mw of
             Some required \<Rightarrow>
               if \<not> has_scope (scopes result) required then Forbidden required
               else AppCalled (user_id result) (scopes result)
           | None \<Rightarrow> AppCalled (user_id result) (scopes result)))"

datatype http_exn = HTTPException int string | HTTPTypeErr

definition INVALID_TOKEN_MESSAGE :: string where
  "INVALID_TOKEN_MESSAGE = ''Invalid or expired token''"

definition resolve_user_id :: "strategy list \<Rightarrow> request \<Rightarrow> string option \<Rightarrow> http_exn + (nat \<times> scopes)" where
  "resolve_user_id strategies rq scope =
     (case run_chain authenticate strategies rq of
        Inl TypeErr \<Rightarrow> Inl HTTPTypeErr
      | Inl (AuthRejected detail status) \<Rightarrow> Inl (HTTPException status detail)
      | Inr None \<Rightarrow> Inl (HTTPException 401 INVALID_TOKEN_MESSAGE)
      | Inr (Some result) \<Rightarrow>
          (case scope of
             Some s \<Rightarrow>
               if \<not> has_scope (scopes result) s then Inl (HTTPException 403 ''insufficient_scope'')
               else Inr (user_id result, scopes result)
           | None \<Rightarrow> Inr (user_id result, scopes result)))"

section \<open>Origin validation, path normalisation, wiring\<close>

definition LOOPBACK_ORIGINS :: "string list" where
  "LOOPBACK_ORIGINS = [''http://localhost'', ''http://127.0.0.1'', ''http://[::1]'']"

text \<open>\<open>True\<close> when the wrapped application is called, \<open>False\<close> for the 403 response.\<close>

definition origin_allows :: "string list \<Rightarrow> request \<Rightarrow> bool" where
  "origin_allows configured rq =
     (if rq_type rq \<noteq> ''http'' then True
      else case find (\<lambda>(n, v). py_lower n = ''origin'') (rq_headers rq) of
        None \<Rightarrow> True
      | Some (n, origin) \<Rightarrow>
          (let origin_lower = py_lower origin; allowed_origins = set (map py_lower configured) in
           if list_ex (\<lambda>l. origin_lower = l \<or> py_startswith origin_lower (l @ '':'')) LOOPBACK_ORIGINS then True
           else origin_lower \<in> allowed_origins))"

definition normalize_path :: "request \<Rightarrow> request" where
  "normalize_path rq =
     (if rq_type rq = ''http'' \<and> rq_path rq = ''/mcp'' then rq\<lparr>rq_path := ''/mcp/''\<rparr> else rq)"

datatype chain_outcome = OriginRejected | Reached asgi_outcome

definition REQUIRED_OAUTH_SCOPE :: string where
  "REQUIRED_OAUTH_SCOPE = ''journal''"

definition build_mcp_middleware ::
  "strategy list \<Rightarrow> string option \<Rightarrow> string list \<Rightarrow> request \<Rightarrow> chain_outcome" where
  "build_mcp_middleware strategies required_scope allowed_origins rq =
     (let bearer = \<lparr>mw_strategies = strategies,
                    mw_required_scope = Some (case required_scope of
                        None \<Rightarrow> REQUIRED_OAUTH_SCOPE
                      | Some s \<Rightarrow> if s = [] then REQUIRED_OAUTH_SCOPE else s)\<rparr>
      in if origin_allows allowed_origins rq then Reached (bearer_call bearer rq) else OriginRejected)"

record auth_settings =
  set_api_key :: string
  set_api_key_scopes :: scopes
  set_trust_gateway :: bool
  set_require_signature :: bool

text \<open>
  The strategy list of the lifespan; \<open>None\<close> is the \<open>ValueError\<close> for an API key beside
  trust-gateway mode.
\<close>

definition build_strategies ::
  "string \<Rightarrow> gateway_verify \<Rightarrow> auth_settings \<Rightarrow> nat list option \<Rightarrow> nat option \<Rightarrow>
   (string \<Rightarrow> hydra_error + token_claims) option \<Rightarrow> (string \<Rightarrow> scopes option) option \<Rightarrow>
   strategy list option" where
  "build_strategies version verify st gateway_secret operator introspector token_validator =
     (let effective_api_key = (if introspector \<noteq> None then [] else set_api_key st) in
      if set_trust_gateway st \<and> effective_api_key \<noteq> [] then None
      else if set_trust_gateway st
      then Some [TrustGateway version verify gateway_secret (set_require_signature st)]
      else Some ((if effective_api_key \<noteq> [] then [ApiKey effective_api_key (set_api_key_scopes st) operator] else []) @
                 (if introspector \<noteq> None then [Hydra introspector] else []) @
                 (if token_validator \<noteq> None then [SelfHost token_validator operator] else [])))"

section \<open>The contract of a strategy, and what the chain makes of it\<close>

definition admits_first :: "('s \<Rightarrow> request \<Rightarrow> auth_exn + auth_result option) \<Rightarrow> request \<Rightarrow> auth_result \<Rightarrow>
    's list \<Rightarrow> 's \<Rightarrow> bool" where
  "admits_first auth rq r pre s \<longleftrightarrow> list_all (\<lambda>p. auth p rq = Inr None) pre \<and> auth s rq = Inr (Some r)"

lemma run_chain_first:
  "run_chain auth ss rq = Inr (Some r) \<longleftrightarrow> (\<exists>pre s post. ss = pre @ s # post \<and> admits_first auth rq r pre s)"
proof
  assume "run_chain auth ss rq = Inr (Some r)"
  then show "\<exists>pre s post. ss = pre @ s # post \<and> admits_first auth rq r pre s"
  proof (induction ss)
    case (Cons s ss)
    show ?case
    proof (cases "auth s rq = Inr None")
      case True
      with Cons.prems have "run_chain auth ss rq = Inr (Some r)" by simp
      then obtain pre t post where "ss = pre @ t # post" "admits_first auth rq r pre t"
        using Cons.IH by blast
      with True have "s # ss = (s # pre) @ t # post" "admits_first auth rq r (s # pre) t"
        by (simp_all add: admits_first_def)
      then show ?thesis by blast
    next
      case False
      with Cons.prems have "auth s rq = Inr (Some r)" by (auto split: sum.splits option.splits)
      then have "s # ss = [] @ s # ss" "admits_first auth rq r [] s" by (simp_all add: admits_first_def)
      then show ?thesis by blast
    qed
  qed simp
next
  assume "\<exists>pre s post. ss = pre @ s # post \<and> admits_first auth rq r pre s"
  then obtain pre s post where ss: "ss = pre @ s # post" and a: "admits_first auth rq r pre s" by blast
  from a have "run_chain auth (pre @ s # post) rq = Inr (Some r)"
    by (induction pre) (auto simp: admits_first_def)
  with ss show "run_chain auth ss rq = Inr (Some r)" by simp
qed

lemmas run_chain_Some = run_chain_first [unfolded admits_first_def]

locale auth_provider =
  fixes auth :: "'s \<Rightarrow> request \<Rightarrow> auth_exn + auth_result option"
    and ascii_config :: "'s \<Rightarrow> bool"
  assumes reject_status: "auth s rq = Inl (AuthRejected detail status) \<Longrightarrow> status = 401 \<or> status = 503"
    and ascii_no_crash: "ascii_config s \<Longrightarrow> is_ascii (header rq ''authorization'') \<Longrightarrow> auth s rq \<noteq> Inl TypeErr"
begin

lemma chain_status:
  "run_chain auth ss rq = Inl (AuthRejected detail status) \<Longrightarrow> status = 401 \<or> status = 503"
  by (induction ss) (auto split: sum.splits option.splits dest: reject_status)

lemma chain_no_crash:
  "list_all ascii_config ss \<Longrightarrow> is_ascii (header rq ''authorization'') \<Longrightarrow>
   run_chain auth ss rq \<noteq> Inl TypeErr"
  by (induction ss) (auto split: sum.splits option.splits dest: ascii_no_crash)

end

lemma extract_bearer_token_errors:
  "extract_bearer_token rq = Inl e \<Longrightarrow> \<exists>d. e = AuthRejected d 401"
  by (auto simp: extract_bearer_token_def Let_def split: if_splits)

lemma extract_bearer_token_Inr:
  "extract_bearer_token rq = Inr t \<Longrightarrow> t = drop 7 (header rq ''authorization'') \<and> length t \<le> MAX_BEARER_TOKEN_LEN"
  by (auto simp: extract_bearer_token_def Let_def split: if_splits)

fun ascii_strategy :: "strategy \<Rightarrow> bool" where
  "ascii_strategy (ApiKey api_key key_scopes operator) = is_ascii api_key"
| "ascii_strategy s = True"

lemma authenticate_status:
  "authenticate s rq = Inl (AuthRejected detail status) \<Longrightarrow> status = 401 \<or> status = 503"
  by (cases s)
     (auto simp: tg_authenticate_def ak_authenticate_def hy_authenticate_def sh_authenticate_def Let_def
        compare_digest_def res_simps split: if_splits option.splits sum.splits hydra_error.splits
        dest: extract_bearer_token_errors)

lemma is_ascii_drop: "is_ascii s \<Longrightarrow> is_ascii (drop n s)"
  by (auto simp: is_ascii_def list_all_iff dest: in_set_dropD)

lemma authenticate_no_crash:
  "ascii_strategy s \<Longrightarrow> is_ascii (header rq ''authorization'') \<Longrightarrow> authenticate s rq \<noteq> Inl TypeErr"
  by (cases s)
     (auto simp: tg_authenticate_def ak_authenticate_def hy_authenticate_def sh_authenticate_def Let_def
        compare_digest_def res_simps is_ascii_drop split: if_splits option.splits sum.splits hydra_error.splits
        dest: extract_bearer_token_errors extract_bearer_token_Inr)

interpretation strategies: auth_provider authenticate ascii_strategy
  by unfold_locales (fact authenticate_status, fact authenticate_no_crash)

section \<open>Properties\<close>

text \<open>
  Property C8. For an HTTP request the bearer middleware calls the MCP application exactly when one
  strategy of the list authenticates it while every earlier one defers and the scopes of that
  result satisfy the required scope; it then runs with that user and those scopes in the context.
  Only a connection that is no HTTP request (a websocket, the lifespan) is passed on
  unauthenticated, and then without a user.
\<close>

theorem bearer_call_admits:
  "(bearer_call mw rq = AppCalled u sc \<longleftrightarrow>
     rq_type rq = ''http'' \<and>
     (\<exists>pre s post. mw_strategies mw = pre @ s # post \<and>
        list_all (\<lambda>p. authenticate p rq = Inr None) pre \<and>
        authenticate s rq = Inr (Some \<lparr>user_id = u, scopes = sc\<rparr>)) \<and>
     (case mw_required_scope mw of None \<Rightarrow> True | Some r \<Rightarrow> has_scope sc r)) \<and>
   (bearer_call mw rq = PassThrough \<longleftrightarrow> rq_type rq \<noteq> ''http'')"
proof -
  have "bearer_call mw rq = AppCalled u sc \<longleftrightarrow>
     rq_type rq = ''http'' \<and>
     run_chain authenticate (mw_strategies mw) rq = Inr (Some \<lparr>user_id = u, scopes = sc\<rparr>) \<and>
     (case mw_required_scope mw of None \<Rightarrow> True | Some r \<Rightarrow> has_scope sc r)"
    by (auto simp: bearer_call_def split: if_splits sum.splits option.splits auth_exn.splits)
  moreover have "bearer_call mw rq = PassThrough \<longleftrightarrow> rq_type rq \<noteq> ''http''"
    by (auto simp: bearer_call_def split: if_splits sum.splits option.splits auth_exn.splits)
  ultimately show ?thesis unfolding run_chain_Some by simp
qed

text \<open>
  Property C9. In trust-gateway mode the lifespan installs the gateway strategy alone, so a
  request reaches the application only with a parseable \<open>X-Auth-User-Id\<close>, which becomes the
  user; whenever signatures are required or one is present, the HMAC over user, scopes,
  timestamp, method and path has verified under the configured secret.
\<close>

theorem trust_gateway_only:
  assumes "set_trust_gateway st"
    and "build_strategies version verify st secret operator introspector validator = Some ss"
    and "bearer_call \<lparr>mw_strategies = ss, mw_required_scope = r\<rparr> rq = AppCalled u sc"
  shows "uuid_parse (header rq ''x-auth-user-id'') = Some u \<and>
    sc = resolve_scopes (header rq ''x-auth-scopes'') \<and>
    (set_require_signature st \<or> header rq ''x-auth-signature'' \<noteq> [] \<longrightarrow>
      header rq ''x-auth-contract-version'' = version \<and>
      (\<exists>k. secret = Some k \<and> verify k (header rq ''x-auth-signature'') (uuid_str u)
         (header rq ''x-auth-scopes'') (header rq ''x-auth-timestamp'')
         (py_upper_ascii (rq_method rq)) (rq_path rq)))"
proof -
  have ss: "ss = [TrustGateway version verify secret (set_require_signature st)]"
    using assms(1,2) by (auto simp: build_strategies_def Let_def split: if_splits)
  have "tg_authenticate version verify secret (set_require_signature st) rq =
      Inr (Some \<lparr>user_id = u, scopes = sc\<rparr>)"
    using assms(3) unfolding ss
    by (auto simp: bearer_call_def split: if_splits sum.splits option.splits auth_exn.splits)
  then show ?thesis
    by (auto simp: tg_authenticate_def Let_def res_simps split: if_splits option.splits)
qed

definition demo_gateway_request :: request where
  "demo_gateway_request =
     \<lparr>rq_type = ''http'', rq_method = ''POST'', rq_path = ''/mcp/'',
      rq_headers = [(''x-auth-user-id'', ''00000000-0000-0000-0000-00000000002a''),
        (''x-auth-contract-version'', ''1''), (''x-auth-scopes'', ''journal''),
        (''x-auth-signature'', ''sig'')]\<rparr>"

definition demo_verify :: gateway_verify where
  "demo_verify k sig uid scope ts meth path = (k = [7] \<and> sig = ''sig'' \<and> meth = ''POST'')"

theorem trust_gateway_only_witness:
  "uuid_parse (header demo_gateway_request ''x-auth-user-id'') = Some 42 \<and>
   {''journal''} = resolve_scopes (header demo_gateway_request ''x-auth-scopes'') \<and>
   header demo_gateway_request ''x-auth-contract-version'' = ''1'' \<and>
   demo_verify [7] (header demo_gateway_request ''x-auth-signature'') (uuid_str 42)
     (header demo_gateway_request ''x-auth-scopes'') (header demo_gateway_request ''x-auth-timestamp'')
     (py_upper_ascii (rq_method demo_gateway_request)) (rq_path demo_gateway_request)"
proof -
  let ?st = "\<lparr>set_api_key = [], set_api_key_scopes = {}, set_trust_gateway = True, set_require_signature = True\<rparr>"
  have uuid: "uuid_parse ''00000000-0000-0000-0000-00000000002a'' = Some 42"
    by (simp add: uuid_parse_def hex_eval)
  have b: "build_strategies ''1'' demo_verify ?st (Some [7]) None None None =
      Some [TrustGateway ''1'' demo_verify (Some [7]) True]"
    by (simp add: build_strategies_def)
  have "bearer_call \<lparr>mw_strategies = [TrustGateway ''1'' demo_verify (Some [7]) True],
      mw_required_scope = Some ''journal''\<rparr> demo_gateway_request = AppCalled 42 {''journal''}"
    by (simp add: bearer_call_def tg_authenticate_def demo_gateway_request_def header_def uuid demo_verify_def
        py_upper_ascii_def is_az_def between_def cp_def resolve_scopes_def py_split_def py_isspace_def
        has_scope_def check_scope_def)
  from trust_gateway_only [OF _ b this] show ?thesis by simp
qed

fun outcome_status :: "asgi_outcome \<Rightarrow> (int, nat \<times> scopes) sum" where
  "outcome_status (Unauthorized d) = Inl 401"
| "outcome_status (Forbidden s) = Inl 403"
| "outcome_status (ServiceUnavailable d) = Inl 503"
| "outcome_status Escaped = Inl 500"
| "outcome_status PassThrough = Inl 0"
| "outcome_status (AppCalled u sc) = Inr (u, sc)"

fun http_status :: "http_exn + (nat \<times> scopes) \<Rightarrow> (int, nat \<times> scopes) sum" where
  "http_status (Inl (HTTPException st d)) = Inl st"
| "http_status (Inl HTTPTypeErr) = Inl 500"
| "http_status (Inr r) = Inr r"

text \<open>
  Property C12. The REST dependency and the MCP middleware agree: for the same strategies and
  scope they admit the same requests with the same identity, and refuse the others with the
  same HTTP status (401, 403 or 503; an escaped \<open>TypeError\<close> is a 500 on both sides).
\<close>

theorem rest_and_mcp_agree:
  assumes "rq_type rq = ''http''"
  shows "outcome_status (bearer_call \<lparr>mw_strategies = ss, mw_required_scope = r\<rparr> rq) =
    http_status (resolve_user_id ss rq r)"
  using assms strategies.chain_status [of ss rq]
  by (auto simp: bearer_call_def resolve_user_id_def split: sum.splits option.splits auth_exn.splits)

theorem rest_and_mcp_agree_witness:
  "outcome_status (bearer_call \<lparr>mw_strategies = [], mw_required_scope = None\<rparr> demo_gateway_request) =
    http_status (resolve_user_id [] demo_gateway_request None)"
proof -
  have "rq_type demo_gateway_request = ''http''" by (simp add: demo_gateway_request_def)
  then show ?thesis by (rule rest_and_mcp_agree)
qed

text \<open>
  With an ASCII API key and an ASCII Authorization header no exception escapes the
  bearer middleware: every request is passed on, answered with 401, 403 or 503, or admitted.
\<close>

theorem bearer_call_total_on_ascii:
  assumes "list_all ascii_strategy (mw_strategies mw)" and "is_ascii (header rq ''authorization'')"
  shows "bearer_call mw rq \<noteq> Escaped"
  using strategies.chain_no_crash [OF assms]
  by (auto simp: bearer_call_def split: if_splits sum.splits option.splits auth_exn.splits)

theorem bearer_call_total_on_ascii_witness:
  "bearer_call \<lparr>mw_strategies = [ApiKey ''k'' {''journal''} (Some 1)], mw_required_scope = None\<rparr>
     demo_gateway_request \<noteq> Escaped"
  by (rule bearer_call_total_on_ascii)
     (simp_all add: is_ascii_def cp_def header_def demo_gateway_request_def)

text \<open>
  The loopback exception of the origin check is no prefix match: a loopback origin
  followed by anything but a port (as in \<open>http://localhost.evil.com\<close>) is refused unless the
  operator has listed it.
\<close>

theorem origin_prefix_attack_refused:
  assumes "rq_type rq = ''http''" and "find (\<lambda>(n, v). py_lower n = ''origin'') (rq_headers rq) = Some (n, v)"
    and "py_lower v = ''http://localhost'' @ c # rest" and "c \<noteq> CHR '':''"
    and "py_lower v \<notin> set (map py_lower configured)"
  shows "\<not> origin_allows configured rq"
  using assms by (auto simp: origin_allows_def Let_def LOOPBACK_ORIGINS_def py_startswith_def)

theorem origin_prefix_attack_refused_witness:
  "\<not> origin_allows [''https://claude.ai'']
     \<lparr>rq_type = ''http'', rq_method = ''POST'', rq_path = ''/mcp'',
      rq_headers = [(''origin'', ''http://localhost.evil.com'')]\<rparr>"
  by (rule origin_prefix_attack_refused [where n = "''origin''" and v = "''http://localhost.evil.com''"
        and c = "CHR ''.''" and rest = "''evil.com''"])
     (simp_all add: py_lower_def py_lower_char_def is_AZ_def between_def cp_def)

section \<open>A request that crashes the chain\<close>

text \<open>
  \<open>secrets.compare_digest\<close> refuses non-ASCII strings, and header values are decoded as
  Latin-1: a bearer token with a byte above 127 makes the API-key strategy raise
  \<open>TypeError\<close>, which neither adapter handles, instead of a 401.
\<close>

lemma non_ascii_token_escapes:
  "bearer_call \<lparr>mw_strategies = [ApiKey ''secret'' {''journal''} (Some 1)], mw_required_scope = None\<rparr>
     \<lparr>rq_type = ''http'', rq_method = ''POST'', rq_path = ''/mcp/'',
      rq_headers = [(''authorization'', ''Bearer '' @ [CHR 0xE9])]\<rparr> = Escaped"
proof -
  have "py_lower (''Bearer '' @ [CHR 0xE9]) = ''bearer '' @ [CHR 0xE9]" by code_simp
  then show ?thesis
  by (simp add: bearer_call_def ak_authenticate_def extract_bearer_token_def header_def py_startswith_def
      cp_def MAX_BEARER_TOKEN_LEN_def compare_digest_def is_ascii_def)
qed

end
