(* ===== verification/OauthProvider.thy ===== *)
theory OauthProvider
  imports OauthStorage Auth
begin

text \<open>
  \<open>gubbi/oauth/provider.py\<close> (\<open>JournalOAuthProvider\<close>) and the token validator of
  \<open>gubbi/oauth/selfhost.py\<close>, over the storage of \<open>OauthStorage\<close>.

  A method that makes several storage calls is a list of calls run by \<open>exec_block\<close>: each call
  commits on its own, and \<open>fault = Some k\<close> ends the method before call \<open>k\<close> (a driver error, a
  cancelled request, a crash), leaving the calls made so far in place.  The tokens drawn by
  \<open>secrets.token_urlsafe(32)\<close> are arguments; the clock \<open>time.time()\<close> is the argument \<open>now\<close>.

  \<open>oauth_step\<close> is the server as a step relation over the provider's methods; the invariant of
  its reachable states is what makes revocation and rotation reach every access token of a
  grant.
\<close>

definition OAUTH_ACCESS_TOKEN_TTL_SECS :: int where "OAUTH_ACCESS_TOKEN_TTL_SECS = 3600"
definition OAUTH_REFRESH_TOKEN_TTL_SECS :: int where "OAUTH_REFRESH_TOKEN_TTL_SECS = 2592000"
definition OAUTH_AUTH_CODE_TTL_SECS :: int where "OAUTH_AUTH_CODE_TTL_SECS = 300"

record oauth_token =
  ot_access_token :: string
  ot_expires_in :: int
  ot_refresh_token :: string
  ot_scope :: "string option"

datatype provider_error = AuthorizeError string string | StoredDataInvalid | DigestTypeError | Interrupted

datatype token = Access access_token | Refresh refresh_token

section \<open>The methods\<close>

fun read_store :: "sqlite_error + 'a \<Rightarrow> provider_error + 'a" where
  "read_store (Inl ValidationFailed) = Inl StoredDataInvalid"
| "read_store (Inr v) = Inr v"

definition same_client :: "string \<Rightarrow> client_info \<Rightarrow> provider_error + bool" where
  "same_client stored client =
     (case compare_digest stored (case ci_id client of None \<Rightarrow> [] | Some c \<Rightarrow> c) of
        Inl e \<Rightarrow> Inl DigestTypeError | Inr b \<Rightarrow> Inr b)"

definition client_name :: "client_info \<Rightarrow> string" where
  "client_name client = (case ci_id client of None \<Rightarrow> [] | Some c \<Rightarrow> c)"

text \<open>\<open>construct_redirect_uri\<close> of the MCP SDK is the argument \<open>uri\<close>.\<close>

definition authorize ::
  "(string \<Rightarrow> (string \<times> string option) list \<Rightarrow> string) \<Rightarrow> string \<Rightarrow> client_info \<Rightarrow> string \<Rightarrow>
     string option \<Rightarrow> string \<Rightarrow> string list option \<Rightarrow> provider_error + string" where
  "authorize uri server_url client redirect_uri state code_challenge params_scopes =
     (if client_name client = [] then Inl (AuthorizeError ''invalid_request'' ''Missing client_id'')
      else Inr (uri (server_url @ ''/login'')
        [(''client_id'', Some (client_name client)), (''redirect_uri'', Some redirect_uri), (''state'', state),
         (''code_challenge'', Some code_challenge),
         (''scope'', case params_scopes of None \<Rightarrow> None
            | Some ss \<Rightarrow> if ss = [] then None else Some (py_join '' '' ss))]))"

definition load_authorization_code ::
  "rat \<Rightarrow> client_info \<Rightarrow> string \<Rightarrow> oauth_db \<Rightarrow> (provider_error + auth_code option) \<times> oauth_db" where
  "load_authorization_code now client code db =
     (case read_store (get_auth_code code db) of
        Inl e \<Rightarrow> (Inl e, db)
      | Inr None \<Rightarrow> (Inr None, db)
      | Inr (Some ac) \<Rightarrow>
          (case same_client (ac_client_id ac) client of
             Inl e \<Rightarrow> (Inl e, db)
           | Inr same \<Rightarrow>
               if \<not> same then (Inr None, delete_auth_code code db)
               else if ac_expires_at ac < now then (Inr None, delete_auth_code code db)
               else (Inr (Some ac), db)))"

definition new_access :: "int \<Rightarrow> string \<Rightarrow> string \<Rightarrow> string list \<Rightarrow> string option \<Rightarrow> access_token" where
  "new_access n a client_id ss resource =
     \<lparr>at_token = a, at_client_id = client_id, at_scopes = ss,
      at_expires_at = Some (n + OAUTH_ACCESS_TOKEN_TTL_SECS), at_resource = resource\<rparr>"

definition new_refresh :: "int \<Rightarrow> string \<Rightarrow> string \<Rightarrow> string list \<Rightarrow> refresh_token" where
  "new_refresh n r client_id ss =
     \<lparr>rt_token = r, rt_client_id = client_id, rt_scopes = ss,
      rt_expires_at = Some (n + OAUTH_REFRESH_TOKEN_TTL_SECS)\<rparr>"

definition bearer_token :: "string \<Rightarrow> string \<Rightarrow> string list \<Rightarrow> oauth_token" where
  "bearer_token a r ss =
     \<lparr>ot_access_token = a, ot_expires_in = OAUTH_ACCESS_TOKEN_TTL_SECS, ot_refresh_token = r,
      ot_scope = (if ss = [] then None else Some (py_join '' '' ss))\<rparr>"

text \<open>
  \<open>exchange_authorization_code\<close> with \<open>_issue_token_pair\<close>: the code is deleted, then the pair is
  saved in one transaction (a fault inside it leaves no part of it).
\<close>

definition issue_call ::
  "rat \<Rightarrow> string \<Rightarrow> string list \<Rightarrow> string option \<Rightarrow> string \<Rightarrow> string \<Rightarrow> oauth_db \<Rightarrow> oauth_db" where
  "issue_call now client_id ss resource a r db =
     fst (save_issued_token_pair None now a (new_access (secs now) a client_id ss resource)
            r (new_refresh (secs now) r client_id ss) db)"

definition exchange_authorization_code ::
  "nat option \<Rightarrow> rat \<Rightarrow> string \<Rightarrow> string \<Rightarrow> client_info \<Rightarrow> auth_code \<Rightarrow> oauth_db \<Rightarrow>
     (provider_error + oauth_token) \<times> oauth_db" where
  "exchange_authorization_code fault now a r client ac db =
     (case exec_block fault
        [delete_auth_code (ac_code ac),
         issue_call now (client_name client) (ac_scopes ac) (ac_resource ac) a r] db of
        (db', True) \<Rightarrow> (Inr (bearer_token a r (ac_scopes ac)), db')
      | (db', False) \<Rightarrow> (Inl Interrupted, db'))"

text \<open>
  The mismatch branch of \<open>load_refresh_token\<close> only logs; a client name that cannot be compared
  raises.
\<close>

definition load_refresh_token ::
  "rat \<Rightarrow> client_info \<Rightarrow> string \<Rightarrow> oauth_db \<Rightarrow> (provider_error + refresh_token option) \<times> oauth_db" where
  "load_refresh_token now client tok db =
     (case read_store (get_refresh_token tok db) of
        Inl e \<Rightarrow> (Inl e, db)
      | Inr None \<Rightarrow> (Inr None, db)
      | Inr (Some rt) \<Rightarrow>
          (case same_client (rt_client_id rt) client of
             Inl e \<Rightarrow> (Inl e, db)
           | Inr same \<Rightarrow>
               if \<not> same then (Inr None, db)
               else if (case rt_expires_at rt of None \<Rightarrow> False | Some e \<Rightarrow> e < secs now)
               then (Inr None, delete_refresh_token tok db)
               else (Inr (Some rt), db)))"

definition exchange_refresh_token ::
  "nat option \<Rightarrow> rat \<Rightarrow> string \<Rightarrow> string \<Rightarrow> client_info \<Rightarrow> refresh_token \<Rightarrow> string list \<Rightarrow> oauth_db \<Rightarrow>
     (provider_error + oauth_token) \<times> oauth_db" where
  "exchange_refresh_token fault now a r client rt requested db =
     (let ss = (if requested = [] then rt_scopes rt else requested) in
      case rotate_refresh_token fault now (rt_token rt)
             a (new_access (secs now) a (client_name client) ss None)
             r (new_refresh (secs now) r (client_name client) ss) db of
        (db', True) \<Rightarrow> (Inr (bearer_token a r ss), db')
      | (db', False) \<Rightarrow> (Inl Interrupted, db'))"

definition load_access_token ::
  "rat \<Rightarrow> string \<Rightarrow> oauth_db \<Rightarrow> (provider_error + access_token option) \<times> oauth_db" where
  "load_access_token now tok db =
     (case read_store (get_access_token tok db) of
        Inl e \<Rightarrow> (Inl e, db)
      | Inr None \<Rightarrow> (Inr None, db)
      | Inr (Some tk) \<Rightarrow>
          if (case at_expires_at tk of None \<Rightarrow> False | Some e \<Rightarrow> e < secs now)
          then (Inr None, delete_access_token tok db)
          else (Inr (Some tk), db))"

definition revoke_calls :: "token \<Rightarrow> oauth_db \<Rightarrow> (oauth_db \<Rightarrow> oauth_db) list" where
  "revoke_calls token db =
     (case token of
        Access tk \<Rightarrow>
          [delete_access_token (at_token tk), delete_token_pair_by_access (at_token tk)] @
          (case get_paired_refresh_token (at_token tk) db of
             None \<Rightarrow> [] | Some r \<Rightarrow> if r = [] then [] else [delete_refresh_token r])
      | Refresh rt \<Rightarrow>
          [delete_refresh_token (rt_token rt), delete_token_pair_by_refresh (rt_token rt)] @
          map delete_access_token (get_paired_access_tokens (rt_token rt) db))"

definition revoke_token :: "nat option \<Rightarrow> token \<Rightarrow> oauth_db \<Rightarrow> oauth_db \<times> bool" where
  "revoke_token fault token db = exec_block fault (revoke_calls token db) db"

text \<open>\<open>_make_token_validator\<close>: every exception is caught and means an invalid token.\<close>

definition validate_token :: "rat \<Rightarrow> oauth_db \<Rightarrow> string \<Rightarrow> scopes option" where
  "validate_token now db tok =
     (case get_access_token tok db of
        Inl e \<Rightarrow> None
      | Inr None \<Rightarrow> None
      | Inr (Some tk) \<Rightarrow>
          if (case at_expires_at tk of None \<Rightarrow> True | Some e \<Rightarrow> e > secs now)
          then Some {''journal:read'', ''journal:write''} else None)"

section \<open>Authorization codes\<close>

lemma same_client_Inr: "same_client stored client = Inr b \<longleftrightarrow>
    is_ascii stored \<and> is_ascii (client_name client) \<and> b = (stored = client_name client)"
  by (auto simp: same_client_def client_name_def compare_digest_def split: sum.splits if_splits option.splits)

lemma same_client_self: "same_client (client_name client) client =
    (if is_ascii (client_name client) then Inr True else Inl DigestTypeError)"
  by (auto simp: same_client_def client_name_def compare_digest_def split: option.splits)

lemma same_client_Inl: "same_client stored client = Inl e \<longleftrightarrow>
    \<not> (is_ascii stored \<and> is_ascii (client_name client)) \<and> e = DigestTypeError"
  by (auto simp: same_client_def client_name_def compare_digest_def split: sum.splits if_splits option.splits)

lemma read_store_Inr [simp]: "read_store x = Inr v \<longleftrightarrow> x = Inr v"
  by (cases x rule: read_store.cases) auto

lemma read_store_Inl [simp]: "read_store x = Inl e \<longleftrightarrow> x = Inl ValidationFailed \<and> e = StoredDataInvalid"
  by (cases x rule: read_store.cases) auto

text \<open>
  A code loads exactly when it is stored, was issued to the requesting client and
  is not past its expiry; a stored code shown by another client, or too late, is deleted by
  that very attempt, so it cannot be tried again.
\<close>

lemma load_authorization_code_exact:
  "(fst (load_authorization_code now client code db) = Inr (Some ac) \<longleftrightarrow>
      get_auth_code code db = Inr (Some ac) \<and> ac_client_id ac = client_name client \<and>
      is_ascii (client_name client) \<and> now \<le> ac_expires_at ac) \<and>
   (fst (load_authorization_code now client code db) = Inr None \<longleftrightarrow>
      (case get_auth_code code db of
         Inl e \<Rightarrow> False
       | Inr None \<Rightarrow> True
       | Inr (Some stored) \<Rightarrow> is_ascii (ac_client_id stored) \<and> is_ascii (client_name client) \<and>
           \<not> (ac_client_id stored = client_name client \<and> now \<le> ac_expires_at stored))) \<and>
   (if fst (load_authorization_code now client code db) = Inr None
    then get_auth_code code (snd (load_authorization_code now client code db)) = Inr None
    else snd (load_authorization_code now client code db) = db)"
  by (auto simp: load_authorization_code_def same_client_Inr same_client_Inl codes.removed_is_gone
      split: sum.splits option.splits)

lemma issue_call_effect:
  "get_access_token t (issue_call now c ss res a r db) =
     (if a = t then Inr (Some (new_access (secs now) a c ss res)) else get_access_token t db)"
  "get_refresh_token t (issue_call now c ss res a r db) =
     (if r = t then Inr (Some (new_refresh (secs now) r c ss)) else get_refresh_token t db)"
  "auth_codes (issue_call now c ss res a r db) = auth_codes db"
  using save_issued_token_pair_exact [where fault = None and now = now and a = a and r = r and db = db
      and tk = "new_access (secs now) a c ss res" and rt = "new_refresh (secs now) r c ss"]
  by (auto simp: issue_call_def split: prod.splits)

lemma exec_block_prefix:
  "exec_block fault stmts db =
     (case fault of None \<Rightarrow> (foldl (\<lambda>d f. f d) db stmts, True)
      | Some k \<Rightarrow> (foldl (\<lambda>d f. f d) db (take k stmts), False))"
proof (cases fault)
  case None
  then show ?thesis by (simp add: exec_block_None)
next
  case (Some k)
  have "exec_block (Some k) stmts db = (foldl (\<lambda>d f. f d) db (take k stmts), False)"
    by (induction stmts arbitrary: k db; case_tac k) simp_all
  with Some show ?thesis by simp
qed

lemma take_two: "take k [f, g] = (if k = 0 then [] else if k = 1 then [f] else [f, g])"
  by (cases k; cases "k - 1") auto

text \<open>
  Property C11. Exchanging a code spends it before anything is issued: unless the call is cut off
  before its first storage call, the code is gone afterwards, even when the exchange fails
  later; a cut before the second call leaves every token as it was; and when the exchange
  returns, it has issued exactly the named pair: the token validator accepts the access token at
  that moment, and the refresh lookup gives the refresh token to the client it was issued to (one
  whose name has only ASCII characters; for others the comparison raises).
\<close>

lemma exchange_spends_code:
  "case exchange_authorization_code fault now a r client ac db of (result, db') \<Rightarrow>
     result = (if fault = None then Inr (bearer_token a r (ac_scopes ac)) else Inl Interrupted) \<and>
     (if fault = Some 0 then db' = db
      else get_auth_code (ac_code ac) db' = Inr None \<and>
        (\<forall>t. get_access_token t db' =
           (if a = t \<and> fault \<noteq> Some 1
            then Inr (Some (new_access (secs now) a (client_name client) (ac_scopes ac) (ac_resource ac)))
            else get_access_token t db)) \<and>
        (\<forall>t. get_refresh_token t db' =
           (if r = t \<and> fault \<noteq> Some 1
            then Inr (Some (new_refresh (secs now) r (client_name client) (ac_scopes ac)))
            else get_refresh_token t db))) \<and>
     (if fault = None
      then validate_token now db' a = Some {''journal:read'', ''journal:write''} \<and>
        fst (load_refresh_token now client r db') =
          (if is_ascii (client_name client)
           then Inr (Some (new_refresh (secs now) r (client_name client) (ac_scopes ac))) else Inl DigestTypeError)
      else True)"
  by (cases fault)
    (auto simp: validate_token_def load_refresh_token_def same_client_self new_access_def new_refresh_def
      OAUTH_ACCESS_TOKEN_TTL_SECS_def OAUTH_REFRESH_TOKEN_TTL_SECS_def exchange_authorization_code_def exec_block_prefix take_two issue_call_effect
      codes.removed_is_gone sql_simps get_auth_code_def [of _ "issue_call _ _ _ _ _ _ _"]
      get_auth_code_def [symmetric])

section \<open>Refresh tokens and revocation\<close>

text \<open>
  A refresh token loads exactly when it is stored, was issued to the requesting
  client and is not expired.  Shown by another client it is refused and kept (its owner can
  still use it); shown too late by its owner it is deleted.
\<close>

lemma load_refresh_token_exact:
  "(fst (load_refresh_token now client tok db) = Inr (Some rt) \<longleftrightarrow>
      get_refresh_token tok db = Inr (Some rt) \<and> rt_client_id rt = client_name client \<and>
      is_ascii (client_name client) \<and> (case rt_expires_at rt of None \<Rightarrow> True | Some e \<Rightarrow> secs now \<le> e)) \<and>
   (if get_refresh_token tok (snd (load_refresh_token now client tok db)) = get_refresh_token tok db
    then snd (load_refresh_token now client tok db) = db
    else fst (load_refresh_token now client tok db) = Inr None \<and>
      get_refresh_token tok (snd (load_refresh_token now client tok db)) = Inr None)"
  by (auto simp: load_refresh_token_def same_client_Inr same_client_Inl refresh.removed_is_gone
      split: sum.splits option.splits)

section \<open>The server as a step relation\<close>

definition acc_keys :: "oauth_db \<Rightarrow> string set" where
  "acc_keys db = r_key ` set (access_tokens db)"

definition pair_set :: "oauth_db \<Rightarrow> (string \<times> string) set" where
  "pair_set db = (\<lambda>p. (p_access p, p_refresh p)) ` set (token_pairs db)"

text \<open>
  \<open>reachable H U db\<close>: the server has reached \<open>db\<close>, \<open>H\<close> lists the (access, refresh) pairs it has drawn,
  and \<open>U\<close> the tokens whose pairing a revocation has removed.  A drawn token is new
  (\<open>secrets.token_urlsafe(32)\<close>) and no drawn string is empty.  A step is one storage call, so the
  methods of the provider may overlap in any order and stop after any of their calls.
\<close>

definition newly_drawn :: "(string \<times> string) list \<Rightarrow> string \<Rightarrow> string \<Rightarrow> bool" where
  "newly_drawn H a r = (a \<notin> fst ` set H \<and> r \<notin> snd ` set H \<and> r \<noteq> [])"

inductive reachable :: "(string \<times> string) list \<Rightarrow> string set \<Rightarrow> oauth_db \<Rightarrow> bool" where
  start: "reachable [] {} empty_db"
| put_code: "reachable H U db \<Longrightarrow> reachable H U (save_auth_code now code ac db)"
| put_client: "reachable H U db \<Longrightarrow> reachable H U (save_client now ci db)"
| event: "reachable H U db \<Longrightarrow> reachable H U (record_event now k db)"
| drop_code: "reachable H U db \<Longrightarrow> reachable H U (delete_auth_code code db)"
| drop_access: "reachable H U db \<Longrightarrow> reachable H U (delete_access_token tok db)"
| drop_refresh: "reachable H U db \<Longrightarrow> reachable H U (delete_refresh_token tok db)"
| unpair_access: "reachable H U db \<Longrightarrow> reachable H (insert tok U) (delete_token_pair_by_access tok db)"
| unpair_refresh: "reachable H U db \<Longrightarrow> reachable H (insert tok U) (delete_token_pair_by_refresh tok db)"
| issue: "reachable H U db \<Longrightarrow> newly_drawn H a r \<Longrightarrow> reachable ((a, r) # H) U (issue_call now c ss res a r db)"
| exchange_refresh: "reachable H U db \<Longrightarrow> newly_drawn H a r \<Longrightarrow>
    reachable ((a, r) # H) U (snd (exchange_refresh_token fault now a r client rt requested db))"
| clean_up: "reachable H U db \<Longrightarrow> reachable H U (snd (cleanup_expired time later db))"

text \<open>The methods of the provider, cut off or not, are such steps.\<close>

lemma load_code_reachable: "reachable H U db \<Longrightarrow> reachable H U (snd (load_authorization_code now client code db))"
  by (auto simp: load_authorization_code_def intro: reachable.intros split: sum.split option.split)

lemma load_refresh_reachable: "reachable H U db \<Longrightarrow> reachable H U (snd (load_refresh_token now client tok db))"
  by (auto simp: load_refresh_token_def intro: reachable.intros split: sum.split option.split)

lemma load_access_reachable: "reachable H U db \<Longrightarrow> reachable H U (snd (load_access_token now tok db))"
  by (auto simp: load_access_token_def intro: reachable.intros split: sum.split option.split)

lemma exchange_code_reachable:
  assumes "reachable H U db" and "newly_drawn H a r"
  shows "\<exists>K. set K \<subseteq> set ((a, r) # H) \<and> reachable K U (snd (exchange_authorization_code fault now a r client ac db))"
proof -
  have one: "reachable H U (delete_auth_code (ac_code ac) db)" using assms(1) by (rule reachable.drop_code)
  consider "fault = Some 0" | "fault = Some 1" | "fault \<noteq> Some 0" "fault \<noteq> Some 1" by blast
  then show ?thesis
  proof cases
    case 3
    then have "reachable ((a, r) # H) U (snd (exchange_authorization_code fault now a r client ac db))"
      using one assms(2) by (auto simp: exchange_authorization_code_def exec_block_prefix take_two intro: reachable.issue split: option.splits)
    then show ?thesis by blast
  qed (use assms one in \<open>auto simp: exchange_authorization_code_def exec_block_prefix intro!: exI [of _ H]\<close>)
qed

lemma calls_reachable:
  assumes "reachable H U db"
    and "\<And>f. f \<in> set fs \<Longrightarrow> (\<exists>tok. f = delete_access_token tok \<or> f = delete_refresh_token tok \<or> f = delete_token_pair_by_access tok \<or>
      f = delete_token_pair_by_refresh tok)"
  shows "\<exists>V. U \<subseteq> V \<and> reachable H V (foldl (\<lambda>d f. f d) db fs)"
  using assms
proof (induction fs arbitrary: U db)
  case Nil
  then show ?case by auto
next
  case (Cons f fs)
  obtain tok where "f = delete_access_token tok \<or> f = delete_refresh_token tok \<or> f = delete_token_pair_by_access tok \<or>
      f = delete_token_pair_by_refresh tok" using Cons.prems(2) [of f] by auto
  then have "reachable H U (f db) \<or> reachable H (insert tok U) (f db)"
    using reachable.drop_access [OF Cons.prems(1), of tok] reachable.drop_refresh [OF Cons.prems(1), of tok]
      reachable.unpair_access [OF Cons.prems(1), of tok] reachable.unpair_refresh [OF Cons.prems(1), of tok] by blast
  then have "\<exists>W. U \<subseteq> W \<and> reachable H W (f db)" by blast
  then obtain W where W: "U \<subseteq> W" "reachable H W (f db)" by blast
  then obtain V where "W \<subseteq> V" "reachable H V (foldl (\<lambda>d f. f d) (f db) fs)" using Cons.IH [of W "f db"] Cons.prems(2) by auto
  then show ?case using W(1) by auto
qed

lemma revoke_reachable:
  assumes "reachable H U db"
  shows "\<exists>V. U \<subseteq> V \<and> reachable H V (fst (revoke_token fault token db))"
proof -
  have "\<exists>V. U \<subseteq> V \<and> reachable H V (foldl (\<lambda>d f. f d) db (take k (revoke_calls token db)))" for k
    by (rule calls_reachable [OF assms]) (auto simp: revoke_calls_def dest!: in_set_takeD split: token.splits option.splits if_splits)
  from this [of "length (revoke_calls token db)"] this [of "the fault"] show ?thesis
    by (cases fault) (simp_all add: revoke_token_def exec_block_prefix)
qed

definition grants_ok :: "(string \<times> string) list \<Rightarrow> string set \<Rightarrow> oauth_db \<Rightarrow> bool" where
  "grants_ok H U db = (db_keys db \<and> acc_keys db \<subseteq> fst ` pair_set db \<union> fst ` {p \<in> set H. fst p \<in> U \<or> snd p \<in> U} \<and>
     pair_set db \<subseteq> set H \<and> distinct (map fst H) \<and> [] \<notin> snd ` set H)"

text \<open>What each storage call does to the keys and the pairings.\<close>

lemma acc_keys_simps [sql_simps]:
  "acc_keys (save_access_token now a tk db) = insert a (acc_keys db)"
  "acc_keys (delete_access_token a db) = acc_keys db - {a}"
  "acc_keys (save_refresh_token now r rt db) = acc_keys db"
  "acc_keys (delete_refresh_token r db) = acc_keys db"
  "acc_keys (save_token_pair now a r db) = acc_keys db"
  "acc_keys (delete_token_pair_by_access a db) = acc_keys db"
  "acc_keys (delete_token_pair_by_refresh r db) = acc_keys db"
  "acc_keys (delete_auth_code c db) = acc_keys db"
  "acc_keys (save_auth_code now c ac db) = acc_keys db"
  by (auto simp: acc_keys_def store_defs blob_put_def blob_del_def sql_simps)

lemma pair_set_simps [sql_simps]:
  "pair_set (save_access_token now a tk db) = pair_set db"
  "pair_set (delete_access_token a db) = pair_set db"
  "pair_set (save_refresh_token now r rt db) = pair_set db"
  "pair_set (delete_refresh_token r db) = pair_set db"
  "pair_set (delete_auth_code c db) = pair_set db"
  "pair_set (save_auth_code now c ac db) = pair_set db"
  "pair_set (save_token_pair now a r db) = insert (a, r) (pair_set db)"
  by (simp_all add: pair_set_def store_defs sql_simps)

lemma pair_set_deletes [sql_simps]:
  "pair_set (delete_token_pair_by_access a db) = {p \<in> pair_set db. fst p \<noteq> a}"
  "pair_set (delete_token_pair_by_refresh r db) = {p \<in> pair_set db. snd p \<noteq> r}"
  by (simp_all add: pair_set_def store_defs sql_simps) force+

lemma blob_keys:
  "unique_key r_key t \<Longrightarrow> unique_key r_key (blob_put now k v e t)"
  "unique_key r_key t \<Longrightarrow> unique_key r_key (blob_del k t)"
  by (unfold blob_put_def blob_del_def) (erule unique_key_upsert, erule unique_key_delete)

lemma db_keys_calls [intro]:
  assumes "db_keys db"
  shows "db_keys (save_access_token now a tk db)" "db_keys (delete_access_token a db)"
    "db_keys (save_refresh_token now r rt db)" "db_keys (delete_refresh_token r db)"
    "db_keys (save_token_pair now a r db)" "db_keys (delete_token_pair_by_access a db)"
    "db_keys (delete_token_pair_by_refresh r db)" "db_keys (delete_auth_code c db)"
    "db_keys (save_auth_code now c ac db)"
  using assms
  by (simp_all add: db_keys_def store_defs blob_keys)

lemma removes_simps:
  "acc_keys (foldl (\<lambda>d x. delete_access_token x d) db xs) = acc_keys db - set xs"
  "pair_set (foldl (\<lambda>d x. delete_access_token x d) db xs) = pair_set db"
  "db_keys db \<Longrightarrow> db_keys (foldl (\<lambda>d x. delete_access_token x d) db xs)"
  by (induction xs arbitrary: db) (auto simp: sql_simps db_keys_calls)

lemma paired_access_iff: "x \<in> set (get_paired_access_tokens r db) \<longleftrightarrow> (x, r) \<in> pair_set db"
  by (auto simp: get_paired_access_tokens_def pair_set_def sql_simps image_iff)

lemma paired_refresh_SomeD: "get_paired_refresh_token a db = Some r \<Longrightarrow> (a, r) \<in> pair_set db"
  by (auto simp: get_paired_refresh_token_def pair_set_def image_iff dest!: sql_first_SomeD)

lemma paired_refresh_None: "get_paired_refresh_token a db = None \<longleftrightarrow> a \<notin> fst ` pair_set db"
  by (auto simp: get_paired_refresh_token_def pair_set_def sql_simps image_iff)

lemma acc_keys_lookup: "a \<notin> acc_keys db \<longleftrightarrow> get_access_token a db = Inr None"
  by (auto simp: acc_keys_def get_access_token_def blob_get_def sql_simps image_iff split: option.splits
      dest!: sql_first_SomeD)

lemma issue_call_keys:
  "acc_keys (issue_call now c ss res a r db) = insert a (acc_keys db)"
  "pair_set (issue_call now c ss res a r db) = insert (a, r) (pair_set db)"
  "db_keys db \<Longrightarrow> db_keys (issue_call now c ss res a r db)"
  by (auto simp: issue_call_def save_issued_token_pair_def atomic_eq issue_stmts_def sql_simps)

lemma cleanup_grants:
  assumes "grants_ok H U db"
  shows "grants_ok H U (snd (cleanup_expired time later db))"
proof -
  let ?db' = "snd (cleanup_expired time later db)"
  let ?cut = "fst ` {p \<in> set H. fst p \<in> U \<or> snd p \<in> U}"
  have keys: "db_keys db" using assms by (simp add: grants_ok_def)
  note effect = cleanup_expired_exact [OF keys, where time = time and later = later,
      unfolded case_prod_beta]
  have "db_keys ?db'"
    using effect keys by (simp add: db_keys_def unique_key_def distinct_map_filter)
  moreover have sub: "pair_set ?db' \<subseteq> pair_set db"
    using effect by (auto simp: pair_set_def)
  moreover have "acc_keys ?db' \<subseteq> fst ` pair_set ?db' \<union> ?cut"
  proof
    fix a assume "a \<in> acc_keys ?db'"
    then obtain row where row: "row \<in> set (access_tokens db)" "r_key row = a" "\<not> expired (secs time) row"
      and live: "\<And>p. p \<in> set (token_pairs db) \<Longrightarrow> p_access p = a \<Longrightarrow>
        p_refresh p \<notin> dead_keys (secs time) (refresh_tokens db)"
      using effect by (auto simp: acc_keys_def list_ex_iff)
    show "a \<in> fst ` pair_set ?db' \<union> ?cut"
    proof (cases "a \<in> ?cut")
      case False
      then have "a \<in> fst ` pair_set db" using row assms by (auto simp: grants_ok_def acc_keys_def)
      then obtain p where p: "p \<in> set (token_pairs db)" "p_access p = a" by (auto simp: pair_set_def)
      have "a \<notin> dead_keys (secs time) (access_tokens db)"
        using live_key_not_dead [of "access_tokens db" row] row keys by (simp add: db_keys_def)
      with p live have "p \<in> set (token_pairs ?db')" using effect by simp
      with p show ?thesis by (force simp: pair_set_def image_iff)
    qed simp
  qed
  ultimately show ?thesis using assms by (auto simp: grants_ok_def)
qed

lemma issue_grants:
  assumes "grants_ok H U db" and "newly_drawn H a r"
  shows "grants_ok ((a, r) # H) U (issue_call now c ss res a r db)"
  using assms by (auto simp: grants_ok_def newly_drawn_def issue_call_keys)

lemma exchange_refresh_grants:
  assumes "grants_ok H U db" and "newly_drawn H a r"
  shows "grants_ok ((a, r) # H) U (snd (exchange_refresh_token fault now a r client rt requested db))"
  using assms
  by (auto simp: exchange_refresh_token_def rotate_refresh_token_def atomic_eq rotate_stmts_def
      issue_stmts_def foldl_map_app grants_ok_def newly_drawn_def sql_simps removes_simps
      paired_access_iff db_keys_calls Let_def subset_iff image_iff; metis prod.collapse)

lemma put_drop_grants:
  assumes "grants_ok H U db"
  shows "grants_ok H U (save_auth_code now code ac db)" "grants_ok H U (delete_auth_code code db)"
    "grants_ok H U (delete_access_token tok db)" "grants_ok H U (delete_refresh_token tok db)"
  using assms by (simp_all add: grants_ok_def sql_simps db_keys_calls subset_insert_iff Diff_subset [THEN subset_trans])

lemma unpair_grants:
  assumes "grants_ok H U db"
  shows "grants_ok H (insert tok U) (delete_token_pair_by_access tok db)" "grants_ok H (insert tok U) (delete_token_pair_by_refresh tok db)"
proof -
  have keys: "a \<in> fst ` {p \<in> pair_set db. sel p \<noteq> tok} \<union> fst ` {p \<in> set H. fst p \<in> insert tok U \<or> snd p \<in> insert tok U}"
    if "a \<in> acc_keys db" and sel: "sel = fst \<or> sel = snd" for a and sel :: "string \<times> string \<Rightarrow> string"
  proof -
    have "a \<in> fst ` pair_set db \<or> a \<in> fst ` {p \<in> set H. fst p \<in> U \<or> snd p \<in> U}" "pair_set db \<subseteq> set H"
      using assms that(1) by (auto simp: grants_ok_def)
    then obtain p where p: "a = fst p" "p \<in> set H" "p \<in> pair_set db \<or> fst p \<in> U \<or> snd p \<in> U" by blast
    show ?thesis
    proof (cases "p \<in> pair_set db \<and> sel p \<noteq> tok")
      case False
      then have "p \<in> {p \<in> set H. fst p \<in> insert tok U \<or> snd p \<in> insert tok U}" using p(2,3) sel by auto
      then show ?thesis using p(1) by simp
    qed (use p(1) in simp)
  qed
  have "acc_keys db \<subseteq> fst ` {p \<in> pair_set db. fst p \<noteq> tok} \<union> fst ` {p \<in> set H. fst p \<in> insert tok U \<or> snd p \<in> insert tok U}"
    "acc_keys db \<subseteq> fst ` {p \<in> pair_set db. snd p \<noteq> tok} \<union> fst ` {p \<in> set H. fst p \<in> insert tok U \<or> snd p \<in> insert tok U}"
    using keys by blast+
  moreover have "{p \<in> pair_set db. fst p \<noteq> tok} \<subseteq> set H" "{p \<in> pair_set db. snd p \<noteq> tok} \<subseteq> set H"
    using assms by (auto simp: grants_ok_def)
  ultimately show "grants_ok H (insert tok U) (delete_token_pair_by_access tok db)" "grants_ok H (insert tok U) (delete_token_pair_by_refresh tok db)"
    using assms unfolding grants_ok_def by (simp_all only: sql_simps) (blast intro: db_keys_calls)+
qed

lemma reachable_grants: "reachable H U db \<Longrightarrow> grants_ok H U db"
proof (induction rule: reachable.induct)
  case start
  show ?case by (simp add: grants_ok_def db_keys_def acc_keys_def pair_set_def empty_db_def)
next
  case (put_client H U db now ci)
  then show ?case
    by (auto simp: save_client_def Let_def grants_ok_def db_keys_def acc_keys_def pair_set_def split: option.splits)
next
  case (event H U db now k)
  then show ?case by (auto simp: record_event_def grants_ok_def db_keys_def acc_keys_def pair_set_def)
qed (blast intro: issue_grants exchange_refresh_grants unpair_grants cleanup_grants put_drop_grants)+

text \<open>Of a pair whose pairing nothing removed, the access token can only be live with it.\<close>

lemma live_pair:
  assumes "grants_ok H U db" and "(a, r) \<in> set H" and "a \<in> acc_keys db" and "a \<notin> U" and "r \<notin> U"
  shows "(a, r) \<in> pair_set db"
proof -
  have same: "(a, q) \<in> set H \<Longrightarrow> q = r" for q using assms(1,2) by (auto simp: grants_ok_def dest: eq_key_imp_eq_value)
  then have "a \<notin> fst ` {p \<in> set H. fst p \<in> U \<or> snd p \<in> U}" using assms(4,5) by auto
  then obtain q where "(a, q) \<in> pair_set db" using assms(1,3) by (auto simp: grants_ok_def)
  then show ?thesis using same assms(1) by (auto simp: grants_ok_def)
qed

lemma validate_gone: "get_access_token a db = Inr None \<Longrightarrow> validate_token now db a = None"
  by (simp add: validate_token_def)

text \<open>
  Property C2. Whatever storage calls the server has made, of methods that overlapped or were cut
  off, and for every pair of tokens it has drawn and whose pairing no earlier revocation has
  removed: revoking the refresh token, or rotating it, makes the access token invalid and the
  refresh token unknown; revoking the access token while it is stored does the same.  (After a
  revocation that was cut off this can fail, see \<open>revoke_refresh_cut_off\<close>.)
\<close>

lemma revocation_reaches_grant:
  assumes "reachable H U db" and "(a, r) \<in> set H" and "a \<notin> U" and "r \<notin> U" and "newly_drawn H a' r'"
    and "rt_token rt = r" and "at_token tk = a"
  shows "validate_token now (fst (revoke_token None (Refresh rt) db)) a = None \<and>
    get_refresh_token r (fst (revoke_token None (Refresh rt) db)) = Inr None \<and>
    validate_token now (snd (exchange_refresh_token None t a' r' client rt req db)) a = None \<and>
    get_refresh_token r (snd (exchange_refresh_token None t a' r' client rt req db)) = Inr None \<and>
    (get_access_token a db = Inr None \<or>
     validate_token now (fst (revoke_token None (Access tk) db)) a = None \<and>
     get_refresh_token r (fst (revoke_token None (Access tk) db)) = Inr None)"
proof -
  have ok: "grants_ok H U db" by (rule reachable_grants) fact
  have drawn: "r \<noteq> []" "a' \<noteq> a" "r' \<noteq> r" using ok assms(2,5) by (force simp: grants_ok_def newly_drawn_def image_iff)+
  have paired: "get_access_token a db = Inr None \<or> a \<in> set (get_paired_access_tokens r db)"
    using live_pair [OF ok assms(2) _ assms(3,4)] acc_keys_lookup [of a db] by (auto simp: paired_access_iff)
  have "get_refresh_token r (fst (revoke_token None (Refresh rt) db)) = Inr None"
    by (simp add: assms revoke_token_def exec_block_None revoke_calls_def foldl_map_app refresh_removes
        refresh.lookup_remove sql_simps)
  moreover have "validate_token now (fst (revoke_token None (Refresh rt) db)) a = None"
    using paired by (intro validate_gone)
      (auto simp: assms revoke_token_def exec_block_None revoke_calls_def foldl_map_app
        access.lookup_removes sql_simps)
  moreover have "validate_token now (snd (exchange_refresh_token None t a' r' client rt req db)) a = None"
    using paired drawn by (intro validate_gone)
      (auto simp: assms exchange_refresh_token_def rotate_refresh_token_def atomic_eq rotate_stmts_def
        issue_stmts_def foldl_map_app access.lookup_removes access.lookup_put sql_simps Let_def)
  moreover have "get_refresh_token r (snd (exchange_refresh_token None t a' r' client rt req db)) = Inr None"
    using drawn
    by (simp add: assms exchange_refresh_token_def rotate_refresh_token_def atomic_eq rotate_stmts_def
        issue_stmts_def foldl_map_app refresh_removes refresh.lookup_put refresh.lookup_remove sql_simps Let_def)
  moreover have "validate_token now (fst (revoke_token None (Access tk) db)) a = None \<and>
      get_refresh_token r (fst (revoke_token None (Access tk) db)) = Inr None"
    if "get_access_token a db \<noteq> Inr None"
  proof -
    have "(a, r) \<in> pair_set db" using that acc_keys_lookup live_pair [OF ok assms(2) _ assms(3,4)] by blast
    then have "get_paired_refresh_token a db = Some r"
      using ok assms(2) paired_refresh_None [of a db]
      by (cases "get_paired_refresh_token a db")
        (auto simp: grants_ok_def image_iff dest!: paired_refresh_SomeD dest: eq_key_imp_eq_value)
    then show ?thesis
      using drawn by (auto simp: assms revoke_token_def exec_block_None revoke_calls_def
          refresh.lookup_remove access.lookup_remove sql_simps intro!: validate_gone)
  qed
  ultimately show ?thesis by blast
qed

definition demo_client :: client_info where
  "demo_client = \<lparr>ci_id = Some ''c'', ci_redirect_uris = Some [''https://c/cb'']\<rparr>"

definition demo_code :: auth_code where
  "demo_code = \<lparr>ac_code = ''code'', ac_scopes = [''journal''], ac_expires_at = 300, ac_client_id = ''c'',
     ac_code_challenge = ''x'', ac_redirect_uri = ''https://c/cb'', ac_resource = None\<rparr>"

definition demo_granted :: oauth_db where
  "demo_granted = snd (exchange_authorization_code None 0 ''a'' ''r'' demo_client demo_code
     (save_auth_code 0 ''code'' demo_code empty_db))"

lemma demo_granted_reachable: "reachable [(''a'', ''r'')] {} demo_granted"
proof -
  have "demo_granted = issue_call 0 ''c'' [''journal''] None ''a'' ''r'' (delete_auth_code ''code'' (save_auth_code 0 ''code'' demo_code empty_db))"
    by (simp add: demo_granted_def exchange_authorization_code_def exec_block_None demo_code_def demo_client_def client_name_def)
  moreover have "reachable [(''a'', ''r'')] {} (issue_call 0 ''c'' [''journal''] None ''a'' ''r'' (delete_auth_code ''code'' (save_auth_code 0 ''code'' demo_code empty_db)))"
    by (intro reachable.issue reachable.drop_code reachable.put_code reachable.start) (simp add: newly_drawn_def)
  ultimately show ?thesis by simp
qed

lemma demo_granted_live:
  "get_access_token ''a'' demo_granted = Inr (Some (new_access 0 ''a'' ''c'' [''journal''] None))"
  "get_paired_access_tokens ''r'' demo_granted = [''a'']"
  by (simp_all add: demo_granted_def exchange_authorization_code_def exec_block_None issue_call_effect
      get_paired_access_tokens_def demo_code_def demo_client_def client_name_def secs_def)
    (simp add: issue_call_def save_issued_token_pair_def atomic_eq issue_stmts_def store_defs empty_db_def
      sql_select_def sql_insert_def)

lemma revocation_reaches_grant_witness:
  "validate_token 10 demo_granted ''a'' = Some {''journal:read'', ''journal:write''} \<and>
   validate_token 10 (fst (revoke_token None (Refresh (new_refresh 0 ''r'' ''c'' [])) demo_granted)) ''a'' = None \<and>
   get_refresh_token ''r'' (fst (revoke_token None (Access (new_access 0 ''a'' ''c'' [] None)) demo_granted))
     = Inr None"
proof -
  have new: "newly_drawn [(''a'', ''r'')] ''b'' ''q''" by (simp add: newly_drawn_def)
  have names: "rt_token (new_refresh 0 ''r'' ''c'' []) = ''r''" "at_token (new_access 0 ''a'' ''c'' [] None) = ''a''"
    by (simp_all add: new_refresh_def new_access_def)
  have "validate_token 10 demo_granted ''a'' = Some {''journal:read'', ''journal:write''}"
    by (simp add: validate_token_def demo_granted_live new_access_def OAUTH_ACCESS_TOKEN_TTL_SECS_def secs_def)
  then show ?thesis
    using revocation_reaches_grant [OF demo_granted_reachable, of "''a''" "''r''", OF _ _ _ new names]
      demo_granted_live(1)
    by auto
qed

text \<open>
  The token validator accepts a token exactly when the provider would load it,
  except in the one second in which its expiry equals the clock: there the provider still
  loads it and the validator already refuses.  Nothing else the validator meets, stored data
  that does not parse included, makes it raise.
\<close>

lemma validator_vs_provider:
  "validate_token now db tok \<noteq> None \<longleftrightarrow>
     (\<exists>tk. fst (load_access_token now tok db) = Inr (Some tk) \<and> at_expires_at tk \<noteq> Some (secs now))"
  by (auto simp: validate_token_def load_access_token_def split: sum.splits option.splits)

section \<open>Observations\<close>

text \<open>
  The exchange does not look at what \<open>delete_auth_code\<close> removed: two requests that both load a
  code before either exchanges it are both issued tokens (RFC 6749, 4.1.2 asks for at most one
  use).  The same holds of two rotations of one refresh token.
\<close>

lemma code_exchanged_twice:
  assumes "db1 = snd (exchange_authorization_code None now a r client ac db)"
    and "fst (load_authorization_code now client code db) = Inr (Some ac)" and "ac_code ac = code"
  shows "get_auth_code code db1 = Inr None"
    and "fst (exchange_authorization_code None now' a' r' client ac db1) = Inr (bearer_token a' r' (ac_scopes ac))"
  using assms
  by (auto simp: exchange_authorization_code_def exec_block_None codes.removed_is_gone
      issue_call_effect(3) get_auth_code_def [of _ "issue_call _ _ _ _ _ _ _"] get_auth_code_def [symmetric])

lemma refresh_token_rotated_twice:
  assumes "db1 = snd (exchange_refresh_token None now a r client rt req db)"
    and "r \<noteq> rt_token rt"
  shows "get_refresh_token (rt_token rt) db1 = Inr None"
    and "\<exists>tk. fst (exchange_refresh_token None now' a' r' client rt req db1) = Inr tk"
  using assms
  by (auto simp: exchange_refresh_token_def rotate_refresh_token_def atomic_eq Let_def rotate_stmts_def
      issue_stmts_def foldl_map_app refresh_removes refresh.lookup_put refresh.lookup_remove sql_simps)

text \<open>
  Revocation is not one transaction: cut off after its second call, the revocation of a refresh
  token leaves its access token valid, and with the pairing gone a second revocation cannot
  find it any more.
\<close>

lemma revoke_refresh_cut_off:
  assumes "db' = fst (revoke_token (Some 2) (Refresh (new_refresh 0 ''r'' ''c'' [])) demo_granted)"
  shows "validate_token 10 db' ''a'' = Some {''journal:read'', ''journal:write''}"
    and "get_paired_access_tokens ''r'' db' = []"
proof -
  have db': "db' = delete_token_pair_by_refresh ''r'' (delete_refresh_token ''r'' demo_granted)"
    by (simp add: assms revoke_token_def exec_block_prefix revoke_calls_def new_refresh_def numeral_2_eq_2)
  show "validate_token 10 db' ''a'' = Some {''journal:read'', ''journal:write''}"
    by (simp add: db' validate_token_def sql_simps demo_granted_live new_access_def
        OAUTH_ACCESS_TOKEN_TTL_SECS_def secs_def)
  show "get_paired_access_tokens ''r'' db' = []"
    by (simp add: db' get_paired_access_tokens_def delete_token_pair_by_refresh_def sql_select_def sql_delete_def)
qed

end
