(* ===== verification/Login.thy ===== *)
theory Login
  imports OauthProvider
begin

text \<open>
  The login page of the self-host server, \<open>gubbi/oauth/forms.py\<close> and
  \<open>gubbi/oauth/templates.py\<close>, the rate limit around \<open>/register\<close> in
  \<open>gubbi/oauth/selfhost.py\<close>, and the dispatch of \<open>gubbi/oauth/router.py\<close>.

  The address that \<open>gubbi_common\<close>'s helper reads from a request is the field \<open>lr_ip\<close>; bcrypt is
  the argument \<open>checkpw\<close> (\<open>None\<close> for the \<open>ValueError\<close> it may raise); the drawn code and CSRF
  token and the clock are arguments.  An answer is the page, error or redirect the browser gets.

  The locale \<open>window_limiter\<close> is the contract of a sliding-window limiter on the event table;
  its bound is proved once and used for failed logins and for registrations.
\<close>

section \<open>The page\<close>

fun html_escape_char :: "char \<Rightarrow> string" where
  "html_escape_char c =
     (if c = CHR ''&'' then ''&amp;'' else if c = CHR ''<'' then ''&lt;'' else if c = CHR ''>'' then ''&gt;''
      else if cp c = 34 then ''&quot;'' else if cp c = 39 then ''&#x27;'' else [c])"

definition esc :: "string \<Rightarrow> string" where
  "esc s = concat (map html_escape_char s)"

text \<open>
  The values that \<open>LOGIN_HTML.format\<close> puts into the page (the consent list by its scope
  names), and the cookie of the response.
\<close>

record login_page =
  lp_client_id :: string
  lp_redirect_uri :: string
  lp_state :: string
  lp_code_challenge :: string
  lp_scope :: string
  lp_csrf_token :: string
  lp_scope_names :: "string list"
  lp_error :: string
  lp_cookie :: string
  lp_cookie_max_age :: int
  lp_secure :: bool

definition render_login_page ::
  "string \<Rightarrow> string \<Rightarrow> string \<Rightarrow> string \<Rightarrow> string \<Rightarrow> string \<Rightarrow> int \<Rightarrow> string \<Rightarrow> bool \<Rightarrow> login_page" where
  "render_login_page client_id redirect_uri state code_challenge scope csrf_token max_age err secure_cookies =
     \<lparr>lp_client_id = esc client_id, lp_redirect_uri = esc redirect_uri, lp_state = esc state,
      lp_code_challenge = esc code_challenge, lp_scope = esc scope, lp_csrf_token = esc csrf_token,
      lp_scope_names = map esc (py_split scope), lp_error = esc err,
      lp_cookie = csrf_token, lp_cookie_max_age = max_age, lp_secure = secure_cookies\<rparr>"

section \<open>The login handler\<close>

definition LOGIN_MAX_FAILURES :: nat where "LOGIN_MAX_FAILURES = 10"
definition LOGIN_LOCKOUT_WINDOW_SECS :: int where "LOGIN_LOCKOUT_WINDOW_SECS = 300"
definition REGISTER_MAX_ATTEMPTS :: nat where "REGISTER_MAX_ATTEMPTS = 10"
definition REGISTER_WINDOW_SECS :: int where "REGISTER_WINDOW_SECS = 3600"

record login_request =
  lr_method :: string
  lr_ip :: "string option"
  lr_query :: "(string \<times> string) list"
  lr_form :: "(string \<times> string) list"
  lr_csrf_cookie :: "string option"

datatype login_response =
    Page login_page
  | Html int string
  | BadPassword login_page
  | Redirect string
  | ServerError

definition client_ip :: "login_request \<Rightarrow> string" where
  "client_ip rq = (case lr_ip rq of None \<Rightarrow> ''unknown'' | Some ip \<Rightarrow> if ip = [] then ''unknown'' else ip)"

definition form_get :: "(string \<times> string) list \<Rightarrow> string \<Rightarrow> string" where
  "form_get f k = (case map_of f k of None \<Rightarrow> [] | Some v \<Rightarrow> v)"

definition login_key :: "string \<Rightarrow> string" where
  "login_key ip = ''login_failure:'' @ ip"

record login_server =
  ls_checkpw :: "string \<Rightarrow> bool option"
  ls_code_ttl :: int
  ls_secure_cookies :: bool
  ls_redirect :: "string \<Rightarrow> string \<Rightarrow> string \<Rightarrow> string"

text \<open>
  The steps of a POST after the lockout check: the CSRF check, the client and its registered
  redirect URIs, the password, and the code.
\<close>

definition csrf_ok :: "login_request \<Rightarrow> auth_exn + bool" where
  "csrf_ok rq =
     (let form_csrf = form_get (lr_form rq) ''csrf_token'';
          cookie_csrf = (case lr_csrf_cookie rq of None \<Rightarrow> [] | Some c \<Rightarrow> c)
      in if form_csrf = [] \<or> cookie_csrf = [] then Inr False else compare_digest form_csrf cookie_csrf)"

text \<open>
  The handler runs up to three storage calls, and other requests run in between: the count, the
  lookup of the client, and the record of a failure or the new code.  Each part below is what
  runs from one call to the next; \<open>login_handler\<close> is a request that nobody interrupts.
\<close>

definition login_begin :: "login_server \<Rightarrow> rat \<Rightarrow> string \<Rightarrow> login_request \<Rightarrow> oauth_db \<Rightarrow> login_response option" where
  "login_begin srv now csrf_token rq db =
     (if lr_method rq = ''GET''
      then let params = form_get (lr_query rq) in
        Some (Page (render_login_page (params ''client_id'') (params ''redirect_uri'') (params ''state'')
           (params ''code_challenge'') (params ''scope'') csrf_token (ls_code_ttl srv) []
           (ls_secure_cookies srv)))
      else if count_events now (login_key (client_ip rq)) LOGIN_LOCKOUT_WINDOW_SECS db \<ge> LOGIN_MAX_FAILURES
      then Some (Html 429 ''Too many failed attempts. Try again later.'')
      else None)"

definition login_checks :: "login_request \<Rightarrow> oauth_db \<Rightarrow> login_response option" where
  "login_checks rq db =
     (case csrf_ok rq of
        Inl e \<Rightarrow> Some ServerError
      | Inr False \<Rightarrow> Some (Html 403 ''CSRF validation failed'')
      | Inr True \<Rightarrow>
          (case get_client (form_get (lr_form rq) ''client_id'') db of
             Inl e \<Rightarrow> Some ServerError
           | Inr None \<Rightarrow> Some (Html 400 ''Invalid client'')
           | Inr (Some client) \<Rightarrow>
               let registered_uris = (case ci_redirect_uris client of None \<Rightarrow> [] | Some us \<Rightarrow> us) in
               if form_get (lr_form rq) ''redirect_uri'' \<notin> set registered_uris
               then Some (Html 400 ''Invalid redirect_uri'') else None))"

definition login_submit ::
  "login_server \<Rightarrow> rat \<Rightarrow> string \<Rightarrow> string \<Rightarrow> login_request \<Rightarrow> oauth_db \<Rightarrow> login_response \<times> oauth_db" where
  "login_submit srv now csrf_token code rq db =
     (let form = form_get (lr_form rq);
          client_id = form ''client_id'';
          redirect_uri = form ''redirect_uri'';
          state = form ''state'';
          code_challenge = form ''code_challenge'';
          scope = form ''scope''
      in case ls_checkpw srv (form ''password'') of
           None \<Rightarrow> (ServerError, db)
         | Some False \<Rightarrow>
             (BadPassword (render_login_page client_id redirect_uri state code_challenge scope
                csrf_token (ls_code_ttl srv) ''Invalid password'' (ls_secure_cookies srv)),
              record_event now (login_key (client_ip rq)) db)
         | Some True \<Rightarrow>
             (Redirect (ls_redirect srv redirect_uri code state),
              save_auth_code now code
                \<lparr>ac_code = code, ac_scopes = py_split scope,
                 ac_expires_at = now + of_int (ls_code_ttl srv), ac_client_id = client_id,
                 ac_code_challenge = code_challenge, ac_redirect_uri = redirect_uri,
                 ac_resource = None\<rparr> db))"

definition login_handler ::
  "login_server \<Rightarrow> rat \<Rightarrow> string \<Rightarrow> string \<Rightarrow> login_request \<Rightarrow> oauth_db \<Rightarrow> login_response \<times> oauth_db" where
  "login_handler srv now csrf_token code rq db =
     (case login_begin srv now csrf_token rq db of
        Some response \<Rightarrow> (response, db)
      | None \<Rightarrow> (case login_checks rq db of
          Some response \<Rightarrow> (response, db)
        | None \<Rightarrow> login_submit srv now csrf_token code rq db))"

section \<open>The limit on registrations\<close>

definition register_key :: "string \<Rightarrow> string" where
  "register_key ip = ''register:'' @ ip"

text \<open>
  \<open>rate_limited_app\<close> up to its first call, which may fail; \<open>None\<close> when it goes on to record the event
  and to call the SDK's handler, other requests running in between.
\<close>

definition register_begin :: "bool \<Rightarrow> rat \<Rightarrow> string \<Rightarrow> oauth_db \<Rightarrow> int option" where
  "register_begin available now ip db =
     (if \<not> available then Some 503
      else if count_events now (register_key ip) REGISTER_WINDOW_SECS db \<ge> REGISTER_MAX_ATTEMPTS then Some 429
      else None)"

definition register_limited :: "bool \<Rightarrow> rat \<Rightarrow> string \<Rightarrow> oauth_db \<Rightarrow> int option \<times> oauth_db" where
  "register_limited available now ip db =
     (case register_begin available now ip db of
        Some status \<Rightarrow> (Some status, db)
      | None \<Rightarrow> (None, record_event now (register_key ip) db))"

section \<open>Which routes exist\<close>

datatype oauth_mode = ApiKeyOnly | SelfHost | HydraMode

definition register_oauth_routes :: "string \<Rightarrow> string \<Rightarrow> oauth_mode" where
  "register_oauth_routes hydra_admin_url password_hash =
     (if hydra_admin_url \<noteq> [] then HydraMode else if password_hash = [] then ApiKeyOnly else SelfHost)"

section \<open>Sliding windows\<close>



definition in_window :: "string \<Rightarrow> int \<Rightarrow> int \<Rightarrow> (string \<times> int) list \<Rightarrow> nat" where
  "in_window k lo hi hist = length (filter (\<lambda>e. fst e = k \<and> lo \<le> snd e \<and> snd e \<le> hi) hist)"

lemma in_window_simps [simp]:
  "in_window k lo hi [] = 0"
  "in_window k lo hi (xs @ ys) = in_window k lo hi xs + in_window k lo hi ys"
  "in_window k lo hi [(j, s)] = (if j = k \<and> lo \<le> s \<and> s \<le> hi then 1 else 0)"
  by (simp_all add: in_window_def)





lemma save_auth_code_events [simp]: "rate_limit_events (save_auth_code now c ac db) = rate_limit_events db"
  by (simp add: save_auth_code_def)

text \<open>
  The server's requests under way: a POST to the login page that was let past the count, one whose
  form and client were found in order, and a registration that was let past.  Events of the server
  are the parts of a request, by its number, a request that is given up, and the clean-up task
  (which reads the clock at the time of the event).
\<close>

datatype under_way =
    Counted login_server string string login_request
  | Checked login_server string string login_request
  | Registering string

record login_state =
  lg_db :: oauth_db
  lg_open :: "(nat \<times> under_way) list"

datatype server_event =
    Login nat login_server string string login_request
  | LoginForm nat
  | LoginPassword nat
  | Register nat bool string
  | RegisterRecord nat
  | GivenUp nat
  | Sweep

fun way_key :: "under_way \<Rightarrow> string" where
  "way_key (Counted srv csrf_token code rq) = login_key (client_ip rq)"
| "way_key (Checked srv csrf_token code rq) = login_key (client_ip rq)"
| "way_key (Registering ip) = register_key ip"

definition waiting_under :: "string \<Rightarrow> login_state \<Rightarrow> nat" where
  "waiting_under k s = length (filter (\<lambda>p. way_key (snd p) = k) (lg_open s))"

definition close_request :: "nat \<Rightarrow> login_state \<Rightarrow> login_state" where
  "close_request i s = s\<lparr>lg_open := filter (\<lambda>p. fst p \<noteq> i) (lg_open s)\<rparr>"

definition open_request :: "nat \<Rightarrow> under_way \<Rightarrow> login_state \<Rightarrow> login_state" where
  "open_request i w s = (if map_of (lg_open s) i = None then s\<lparr>lg_open := (i, w) # lg_open s\<rparr> else s)"

text \<open>A step of the server, and the key under which it records an event.\<close>

definition server_step :: "rat \<Rightarrow> server_event \<Rightarrow> login_state \<Rightarrow> login_state" where
  "server_step now ev s =
     (case ev of
        Login i srv csrf_token code rq \<Rightarrow>
          (if login_begin srv now csrf_token rq (lg_db s) = None then open_request i (Counted srv csrf_token code rq) s else s)
      | LoginForm i \<Rightarrow>
          (case map_of (lg_open s) i of
             Some (Counted srv csrf_token code rq) \<Rightarrow>
               (if login_checks rq (lg_db s) = None then open_request i (Checked srv csrf_token code rq) (close_request i s)
                else close_request i s)
           | _ \<Rightarrow> s)
      | LoginPassword i \<Rightarrow>
          (case map_of (lg_open s) i of
             Some (Checked srv csrf_token code rq) \<Rightarrow>
               close_request i (s\<lparr>lg_db := snd (login_submit srv now csrf_token code rq (lg_db s))\<rparr>)
           | _ \<Rightarrow> s)
      | Register i available ip \<Rightarrow>
          (if register_begin available now ip (lg_db s) = None then open_request i (Registering ip) s else s)
      | RegisterRecord i \<Rightarrow>
          (case map_of (lg_open s) i of
             Some (Registering ip) \<Rightarrow> close_request i (s\<lparr>lg_db := record_event now (register_key ip) (lg_db s)\<rparr>)
           | _ \<Rightarrow> s)
      | GivenUp i \<Rightarrow> close_request i s
      | Sweep \<Rightarrow> s\<lparr>lg_db := snd (cleanup_expired now now (lg_db s))\<rparr>)"



lemma request_db [simp]: "lg_db (close_request i s) = lg_db s" "lg_db (open_request i w s) = lg_db s"
  by (simp_all add: close_request_def open_request_def)







lemma waiting_db [simp]: "waiting_under k (s\<lparr>lg_db := db\<rparr>) = waiting_under k s"
  by (simp add: waiting_under_def)





lemma keys_apart: "login_key ip \<noteq> register_key ip'"
  by (simp add: login_key_def register_key_def)




definition server_at :: "oauth_db \<Rightarrow> login_state" where
  "server_at db = \<lparr>lg_db = db, lg_open = []\<rparr>"


text \<open>
  The bound is reached: the count says nothing of the requests that were let past and have not
  recorded anything yet, so any number of requests that arrive together is let past.
\<close>

lemma arrivals_all_pass:
  assumes "rate_limit_events db = []" and "lr_method rq \<noteq> ''GET''" and "distinct ns"
  shows "waiting_under (login_key (client_ip rq))
    (foldl (\<lambda>s i. server_step now (Login i srv csrf_token code rq) s) (server_at db) ns) = length ns"
proof -
  have pass: "login_begin srv now csrf_token rq db = None"
    using assms(1,2) by (simp add: login_begin_def count_events_def sql_count_def LOGIN_MAX_FAILURES_def)
  have "lg_db s = db \<Longrightarrow> distinct ns \<Longrightarrow> set ns \<inter> fst ` set (lg_open s) = {} \<Longrightarrow> waiting_under (login_key (client_ip rq))
    (foldl (\<lambda>s i. server_step now (Login i srv csrf_token code rq) s) s ns) = waiting_under (login_key (client_ip rq)) s + length ns" for s
  proof (induction ns arbitrary: s)
    case (Cons i ns)
    then have "map_of (lg_open s) i = None" by (auto simp: map_of_eq_None_iff)
    then have "server_step now (Login i srv csrf_token code rq) s = s\<lparr>lg_open := (i, Counted srv csrf_token code rq) # lg_open s\<rparr>"
      using Cons.prems(1) pass by (simp add: server_step_def open_request_def)
    then show ?case using Cons by (auto simp: waiting_under_def)
  qed simp
  from this [of "server_at db"] assms(3) show ?thesis by (simp add: server_at_def waiting_under_def)
qed







section \<open>What a successful login needs\<close>

lemma csrf_ok_Inr_True: "csrf_ok rq = Inr True \<longleftrightarrow>
    form_get (lr_form rq) ''csrf_token'' \<noteq> [] \<and> is_ascii (form_get (lr_form rq) ''csrf_token'') \<and>
    lr_csrf_cookie rq = Some (form_get (lr_form rq) ''csrf_token'')"
  by (auto simp: csrf_ok_def compare_digest_def Let_def split: option.splits if_splits)

definition registered_redirect :: "string \<Rightarrow> string \<Rightarrow> oauth_db \<Rightarrow> bool" where
  "registered_redirect client_id redirect_uri db =
     (case get_client client_id db of
        Inr (Some client) \<Rightarrow>
          (case ci_redirect_uris client of None \<Rightarrow> False | Some uris \<Rightarrow> redirect_uri \<in> set uris)
      | _ \<Rightarrow> False)"

lemma login_submit_Redirect:
  "fst (login_submit srv now csrf_token code rq db) = Redirect uri \<longleftrightarrow>
     ls_checkpw srv (form_get (lr_form rq) ''password'') = Some True \<and>
     uri = ls_redirect srv (form_get (lr_form rq) ''redirect_uri'') code (form_get (lr_form rq) ''state'')"
  by (auto simp: login_submit_def Let_def split: option.splits bool.splits)

lemma login_checks_None: "login_checks rq db = None \<longleftrightarrow> csrf_ok rq = Inr True \<and>
    registered_redirect (form_get (lr_form rq) ''client_id'') (form_get (lr_form rq) ''redirect_uri'') db"
  by (auto simp: login_checks_def registered_redirect_def Let_def split: sum.splits bool.splits option.splits)

lemma login_begin_None: "login_begin srv now csrf_token rq db = None \<longleftrightarrow>
    lr_method rq \<noteq> ''GET'' \<and> count_events now (login_key (client_ip rq)) 300 db < 10"
  by (auto simp: login_begin_def Let_def LOGIN_MAX_FAILURES_def LOGIN_LOCKOUT_WINDOW_SECS_def)

lemma early_responses: "login_begin srv now csrf_token rq db \<noteq> Some (Redirect uri)" "login_checks rq db \<noteq> Some (Redirect uri)"
  by (auto simp: login_begin_def login_checks_def Let_def split: sum.splits bool.splits option.splits)

text \<open>
  A request is redirected with a code exactly when it is not a GET, the address is
  below its limit of failures, the CSRF cookie and field agree and are not empty, the client is
  registered with this very redirect URI, and the password is right.
\<close>

lemma login_issues_code_exact:
  "fst (login_handler srv now csrf_token code rq db) = Redirect uri \<longleftrightarrow>
     lr_method rq \<noteq> ''GET'' \<and> count_events now (login_key (client_ip rq)) 300 db < 10 \<and>
     form_get (lr_form rq) ''csrf_token'' \<noteq> [] \<and> is_ascii (form_get (lr_form rq) ''csrf_token'') \<and>
     lr_csrf_cookie rq = Some (form_get (lr_form rq) ''csrf_token'') \<and>
     registered_redirect (form_get (lr_form rq) ''client_id'') (form_get (lr_form rq) ''redirect_uri'') db \<and>
     ls_checkpw srv (form_get (lr_form rq) ''password'') = Some True \<and>
     uri = ls_redirect srv (form_get (lr_form rq) ''redirect_uri'') code (form_get (lr_form rq) ''state'')"
  using csrf_ok_Inr_True [of rq] login_begin_None [of srv now csrf_token rq db] login_checks_None [of rq db]
    early_responses(1) [of srv now csrf_token rq db uri] early_responses(2) [of rq db uri]
  by (auto simp: login_handler_def login_submit_Redirect split: option.split)

text \<open>
  Whatever the request, at most one authorization code appears: the drawn one,
  when the answer is the redirect, bound to the client of the form, to a redirect URI
  registered for it and to the configured lifetime; otherwise no code changes at all.
\<close>

lemma login_code_binding:
  "case login_handler srv now csrf_token code rq db of (response, db') \<Rightarrow>
     (if auth_codes db' = auth_codes db then True
      else response = Redirect (ls_redirect srv (form_get (lr_form rq) ''redirect_uri'') code
             (form_get (lr_form rq) ''state'')) \<and>
           get_auth_code code db' = Inr (Some
             \<lparr>ac_code = code, ac_scopes = py_split (form_get (lr_form rq) ''scope''),
              ac_expires_at = now + of_int (ls_code_ttl srv), ac_client_id = form_get (lr_form rq) ''client_id'',
              ac_code_challenge = form_get (lr_form rq) ''code_challenge'',
              ac_redirect_uri = form_get (lr_form rq) ''redirect_uri'', ac_resource = None\<rparr>) \<and>
           (\<forall>k. if k = code then True else get_auth_code k db' = get_auth_code k db))"
  by (auto simp: login_handler_def login_submit_def Let_def record_event_def codes.lookup_put
      split: option.splits bool.splits)

definition html_inert :: "string \<Rightarrow> bool" where
  "html_inert s = list_all (\<lambda>c. c \<noteq> CHR ''<'' \<and> c \<noteq> CHR ''>'' \<and> cp c \<noteq> 34 \<and> cp c \<noteq> 39) s"

lemma html_inert_esc: "html_inert (esc s)"
  by (induction s) (auto simp: esc_def html_inert_def cp_def)

lemma html_escape_char_prefix_free:
  "html_escape_char c @ s = html_escape_char d @ t \<Longrightarrow> c = d"
  by (auto split: if_splits) (metis cp_inj)+

lemma esc_inject: "esc s = esc t \<longleftrightarrow> s = t"
proof (induction s arbitrary: t)
  case Nil
  show ?case by (cases t) (auto simp: esc_def)
next
  case (Cons c s)
  show ?case
  proof (cases t)
    case Nil
    then show ?thesis by (simp add: esc_def)
  next
    case (Cons d u)
    then show ?thesis
      using Cons.IH [of u] html_escape_char_prefix_free [of c "esc s" d "esc u"]
      by (auto simp: esc_def simp del: html_escape_char.simps)
  qed
qed

definition page_values :: "login_page \<Rightarrow> string list" where
  "page_values p = [lp_client_id p, lp_redirect_uri p, lp_state p, lp_code_challenge p, lp_scope p,
     lp_csrf_token p, lp_error p] @ lp_scope_names p"

text \<open>
  No value of the request can open a tag or leave an attribute of the login page:
  every value put into it is free of angle brackets and quotes, and two pages that show the
  same values were rendered from the same ones (escaping loses nothing).
\<close>

lemma login_page_inert:
  "list_all html_inert (page_values (render_login_page client_id redirect_uri state code_challenge scope
      csrf_token max_age err secure)) \<and>
   (page_values (render_login_page client_id redirect_uri state code_challenge scope csrf_token max_age err secure) =
    page_values (render_login_page client_id' redirect_uri' state' code_challenge' scope' csrf_token' max_age' err' secure')
    \<longleftrightarrow> (client_id, redirect_uri, state, code_challenge, scope, csrf_token, err) =
        (client_id', redirect_uri', state', code_challenge', scope', csrf_token', err'))"
  by (auto simp: page_values_def render_login_page_def html_inert_esc esc_inject list_all_iff)

end
