(* ===== verification/Hydra.thy ===== *)
theory Hydra
  imports Auth Complex_Main
begin

text \<open>
  Token introspection (\<open>gubbi/auth/hydra.py\<close>): the reading of Hydra's answer, and the introspector
  with its cache and its table of calls in flight as a step relation.  A step is what a task does
  between two points at which it can be suspended: \<open>introspect\<close> looks into the cache and the table
  without one, and so does everything from the end of the upstream call to the end of \<open>introspect\<close>,
  since no section under the lock suspends and the lock is therefore never contended.

  Parameters: the digest of a token (\<open>hashlib.sha256\<close>), the cache (\<open>cachetools.TTLCache\<close>) with its
  documented behaviour as \<open>ttl_cache_ok\<close>, and what \<open>TokenClaims\<close> of \<open>gubbi_common\<close> keeps of the scope.
\<close>

section \<open>Reading the answer\<close>

text \<open>A value of the JSON body; of lists and objects only the truth value matters.\<close>

datatype body_value = JNull | JBool bool | JNum rat | JStr string | JOther bool

datatype http_body = NotJson | NotObject | Body "(string \<times> body_value) list"

text \<open>
  How the request ends: a timeout, a \<open>ConnectError\<close> or another \<open>NetworkError\<close>, any other exception of
  the client, or a response.
\<close>

datatype http_outcome = TimedOut | NoConnection | ClientRaises | Response nat http_body

datatype hydra_exn = HydraFault hydra_error | Escapes string | CallCancelled | InvalidState

record hydra_claims = token_claims +
  claims_exp :: rat

fun truthy :: "body_value option \<Rightarrow> bool" where
  "truthy None = False"
| "truthy (Some JNull) = False"
| "truthy (Some (JBool b)) = b"
| "truthy (Some (JNum q)) = (q \<noteq> 0)"
| "truthy (Some (JStr s)) = (s \<noteq> [])"
| "truthy (Some (JOther b)) = b"

text \<open>\<open>UUID(sub_raw)\<close>: of what is no string, \<open>hex.replace\<close> is no attribute.\<close>

definition subject :: "body_value option \<Rightarrow> hydra_exn + nat" where
  "subject sub_raw =
     (if \<not> truthy sub_raw then Inl (HydraFault HydraInvalidToken)
      else case sub_raw of
        Some (JStr s) \<Rightarrow> (case uuid_parse s of None \<Rightarrow> Inl (HydraFault HydraInvalidToken) | Some u \<Rightarrow> Inr u)
      | _ \<Rightarrow> Inl (Escapes ''AttributeError''))"

definition expiry :: "rat \<Rightarrow> body_value option \<Rightarrow> hydra_exn + rat" where
  "expiry wall x =
     (case x of
        None \<Rightarrow> Inl (HydraFault HydraInvalidToken)
      | Some JNull \<Rightarrow> Inl (HydraFault HydraInvalidToken)
      | Some (JNum q) \<Rightarrow> (if q < wall then Inl (HydraFault HydraInvalidToken) else Inr q)
      | Some (JBool b) \<Rightarrow> (if of_bool b < wall then Inl (HydraFault HydraInvalidToken) else Inr (of_bool b))
      | Some v \<Rightarrow> Inl (Escapes ''TypeError''))"

definition read_body :: "(body_value \<Rightarrow> string option) \<Rightarrow> rat \<Rightarrow> (string \<times> body_value) list \<Rightarrow> hydra_exn + hydra_claims" where
  "read_body scope_text wall body =
     (if map_of body ''active'' \<noteq> Some (JBool True) then Inl (HydraFault HydraInvalidToken)
      else rbind (subject (map_of body ''sub'')) (\<lambda>sub.
      rbind (expiry wall (map_of body ''exp'')) (\<lambda>until.
      case scope_text (case map_of body ''scope'' of None \<Rightarrow> JStr [] | Some v \<Rightarrow> v) of
        None \<Rightarrow> Inl (Escapes ''TokenClaims'')
      | Some t \<Rightarrow> Inr \<lparr>claims_sub = Some sub, claims_scope = t, claims_exp = until\<rparr>)))"

definition call_upstream :: "(body_value \<Rightarrow> string option) \<Rightarrow> rat \<Rightarrow> http_outcome \<Rightarrow> hydra_exn + hydra_claims" where
  "call_upstream scope_text wall outcome =
     (case outcome of
        TimedOut \<Rightarrow> Inl (HydraFault HydraUnreachable)
      | NoConnection \<Rightarrow> Inl (HydraFault HydraUnreachable)
      | ClientRaises \<Rightarrow> Inl (Escapes ''httpx'')
      | Response status payload \<Rightarrow>
          (if status \<ge> 500 then Inl (HydraFault HydraUnreachable)
           else if status \<ge> 400 then Inl (HydraFault HydraUnreachable)
           else case payload of
             NotJson \<Rightarrow> Inl (HydraFault HydraUnreachable)
           | NotObject \<Rightarrow> Inl (HydraFault HydraUnreachable)
           | Body body \<Rightarrow> read_body scope_text wall body))"

section \<open>The introspector\<close>

record 'c hydra_cache =
  hc_get :: "int \<Rightarrow> string \<Rightarrow> 'c \<Rightarrow> hydra_claims option"
  hc_set :: "int \<Rightarrow> string \<Rightarrow> hydra_claims \<Rightarrow> 'c \<Rightarrow> 'c"

text \<open>
  \<open>TTLCache(maxsize, ttl)\<close>: what is found under a key was set there less than \<open>ttl\<close> ago; \<open>held\<close> is
  what the cache holds, with the time it was set at.
\<close>

definition ttl_cache_ok :: "'c hydra_cache \<Rightarrow> int \<Rightarrow> ('c \<Rightarrow> string \<rightharpoonup> hydra_claims \<times> int) \<Rightarrow> bool" where
  "ttl_cache_ok ops ttl held =
     ((\<forall>now k c v. hc_get ops now k c = Some v \<longrightarrow> (\<exists>t. held c k = Some (v, t) \<and> now < t + ttl)) \<and>
      (\<forall>now k v c. held (hc_set ops now k v c) \<subseteq>\<^sub>m (held c)(k \<mapsto> (v, now))))"

datatype future = Pending | Settled hydra_claims | Failing hydra_exn | CancelledFuture

datatype call_phase = Leading nat | Waiting nat | Returned hydra_claims | Raising hydra_exn

record call =
  ca_token :: string
  ca_started :: int
  ca_phase :: call_phase

record 'c introspector =
  is_now :: int
  is_cache :: "'c option"
  is_inflight :: "string \<rightharpoonup> nat"
  is_futures :: "nat \<rightharpoonup> future"
  is_next :: nat
  is_calls :: "nat \<rightharpoonup> call"

text \<open>\<open>introspect\<close> up to its first suspension, as call \<open>i\<close>.\<close>

definition begin_call :: "'c hydra_cache \<Rightarrow> (string \<Rightarrow> string) \<Rightarrow> nat \<Rightarrow> string \<Rightarrow> 'c introspector \<Rightarrow> 'c introspector" where
  "begin_call ops digest i token s =
     (let key = digest token;
          enter = (\<lambda>p s. s\<lparr>is_calls := (is_calls s)(i \<mapsto> \<lparr>ca_token = token, ca_started = is_now s, ca_phase = p\<rparr>)\<rparr>)
      in case (case is_cache s of None \<Rightarrow> None | Some c \<Rightarrow> hc_get ops (is_now s) key c) of
           Some claims \<Rightarrow> enter (Returned claims) s
         | None \<Rightarrow> (case is_inflight s key of
             Some f \<Rightarrow> enter (Waiting f) s
           | None \<Rightarrow>
               (let f = is_next s in
                enter (Leading f) (s\<lparr>is_futures := (is_futures s)(f \<mapsto> Pending), is_inflight := (is_inflight s)(key \<mapsto> f), is_next := f + 1\<rparr>))))"

definition set_phase :: "nat \<Rightarrow> call_phase \<Rightarrow> 'c introspector \<Rightarrow> 'c introspector" where
  "set_phase i p s = s\<lparr>is_calls := (is_calls s)(i := map_option (\<lambda>c. c\<lparr>ca_phase := p\<rparr>) (is_calls s i))\<rparr>"

text \<open>
  The end of the leader's path.  Settling a future that is done raises \<open>InvalidStateError\<close>, in the
  handler again, and the entry of the table is removed in any case.
\<close>

definition end_call ::
  "'c hydra_cache \<Rightarrow> string \<Rightarrow> nat \<Rightarrow> nat \<Rightarrow> hydra_exn + hydra_claims \<Rightarrow> 'c introspector \<Rightarrow> 'c introspector" where
  "end_call ops key i f outcome s =
     (let s1 = (case outcome of Inr claims \<Rightarrow> s\<lparr>is_cache := map_option (hc_set ops (is_now s) key claims) (is_cache s)\<rparr> | Inl e \<Rightarrow> s);
          s2 = (if is_futures s1 f = Some Pending
                then set_phase i (case outcome of Inr claims \<Rightarrow> Returned claims | Inl e \<Rightarrow> Raising e)
                       (s1\<lparr>is_futures := (is_futures s1)(f \<mapsto> (case outcome of Inr claims \<Rightarrow> Settled claims | Inl e \<Rightarrow> Failing e))\<rparr>)
                else set_phase i (Raising InvalidState) s1)
      in s2\<lparr>is_inflight := (is_inflight s2)(key := None)\<rparr>)"

text \<open>\<open>await fut\<close> of a call that does not lead.\<close>

definition resume_call :: "nat \<Rightarrow> nat \<Rightarrow> 'c introspector \<Rightarrow> 'c introspector" where
  "resume_call i f s =
     (case is_futures s f of
        Some (Settled claims) \<Rightarrow> set_phase i (Returned claims) s
      | Some (Failing e) \<Rightarrow> set_phase i (Raising e) s
      | Some CancelledFuture \<Rightarrow> set_phase i (Raising CallCancelled) s
      | _ \<Rightarrow> s)"

text \<open>Cancelling a task that awaits a future cancels the future.\<close>

definition cancel_call :: "'c hydra_cache \<Rightarrow> (string \<Rightarrow> string) \<Rightarrow> nat \<Rightarrow> call \<Rightarrow> 'c introspector \<Rightarrow> 'c introspector" where
  "cancel_call ops digest i c s =
     (case ca_phase c of
        Leading f \<Rightarrow> end_call ops (digest (ca_token c)) i f (Inl CallCancelled) s
      | Waiting f \<Rightarrow>
          set_phase i (Raising CallCancelled)
            (if is_futures s f = Some Pending then s\<lparr>is_futures := (is_futures s)(f \<mapsto> CancelledFuture)\<rparr> else s)
      | _ \<Rightarrow> s)"

definition fresh_introspector :: "int \<Rightarrow> 'c option \<Rightarrow> 'c introspector" where
  "fresh_introspector now cache =
     \<lparr>is_now = now, is_cache = cache, is_inflight = Map.empty, is_futures = Map.empty, is_next = 0, is_calls = Map.empty\<rparr>"

text \<open>
  Runs of the introspector, with the answers of Hydra that were good: the token asked for, the
  wall clock, the response, the claims read from it, and the time of the cache's clock.
\<close>

record answer =
  an_token :: string
  an_wall :: rat
  an_outcome :: http_outcome
  an_claims :: hydra_claims
  an_time :: int

definition good_answer :: "(body_value \<Rightarrow> string option) \<Rightarrow> string \<Rightarrow> rat \<Rightarrow> http_outcome \<Rightarrow> int \<Rightarrow> answer list" where
  "good_answer scope_text token wall outcome now =
     (case call_upstream scope_text wall outcome of
        Inl e \<Rightarrow> []
      | Inr c \<Rightarrow> [\<lparr>an_token = token, an_wall = wall, an_outcome = outcome, an_claims = c, an_time = now\<rparr>])"

inductive hydra_run ::
  "'c hydra_cache \<Rightarrow> (string \<Rightarrow> string) \<Rightarrow> (body_value \<Rightarrow> string option) \<Rightarrow> 'c introspector \<Rightarrow> answer list \<Rightarrow> 'c introspector \<Rightarrow> bool"
  for ops digest scope_text s0 where
  start: "hydra_run ops digest scope_text s0 [] s0"
| clock: "hydra_run ops digest scope_text s0 as s \<Longrightarrow> 0 \<le> d \<Longrightarrow> hydra_run ops digest scope_text s0 as (s\<lparr>is_now := is_now s + d\<rparr>)"
| enters: "hydra_run ops digest scope_text s0 as s \<Longrightarrow> is_calls s i = None \<Longrightarrow>
    hydra_run ops digest scope_text s0 as (begin_call ops digest i token s)"
| answered: "hydra_run ops digest scope_text s0 as s \<Longrightarrow> is_calls s i = Some c \<Longrightarrow> ca_phase c = Leading f \<Longrightarrow>
    hydra_run ops digest scope_text s0 (as @ good_answer scope_text (ca_token c) wall outcome (is_now s))
      (end_call ops (digest (ca_token c)) i f (call_upstream scope_text wall outcome) s)"
| resumed: "hydra_run ops digest scope_text s0 as s \<Longrightarrow> is_calls s i = Some c \<Longrightarrow> ca_phase c = Waiting f \<Longrightarrow>
    hydra_run ops digest scope_text s0 as (resume_call i f s)"
| cancelled: "hydra_run ops digest scope_text s0 as s \<Longrightarrow> is_calls s i = Some c \<Longrightarrow>
    hydra_run ops digest scope_text s0 as (cancel_call ops digest i c s)"

section \<open>What every run keeps\<close>

definition answer_for :: "(string \<Rightarrow> string) \<Rightarrow> answer list \<Rightarrow> string \<Rightarrow> hydra_claims \<Rightarrow> int \<Rightarrow> bool" where
  "answer_for digest as k v t \<longleftrightarrow> (\<exists>a\<in>set as. digest (an_token a) = k \<and> an_claims a = v \<and> an_time a = t)"

text \<open>Every key of the table has one leader, and every leader its key; a future in the table is not settled.\<close>

definition table_ok :: "(string \<Rightarrow> string) \<Rightarrow> 'c introspector \<Rightarrow> bool" where
  "table_ok digest s \<longleftrightarrow>
     (\<forall>k f. is_inflight s k = Some f \<longrightarrow> f < is_next s \<and> (is_futures s f = Some Pending \<or> is_futures s f = Some CancelledFuture) \<and>
        (\<exists>i c. is_calls s i = Some c \<and> ca_phase c = Leading f \<and> digest (ca_token c) = k)) \<and>
     (\<forall>i c f. is_calls s i = Some c \<longrightarrow> ca_phase c = Leading f \<longrightarrow> is_inflight s (digest (ca_token c)) = Some f) \<and>
     (\<forall>i j c d f. is_calls s i = Some c \<longrightarrow> is_calls s j = Some d \<longrightarrow> ca_phase c = Leading f \<longrightarrow> ca_phase d = Leading f \<longrightarrow> i = j)"

definition waiter_ok :: "(string \<Rightarrow> string) \<Rightarrow> answer list \<Rightarrow> 'c introspector \<Rightarrow> call \<Rightarrow> bool" where
  "waiter_ok digest as s c \<longleftrightarrow>
     (\<forall>f. ca_phase c = Waiting f \<longrightarrow> f < is_next s \<and>
        (case is_futures s f of
           None \<Rightarrow> False
         | Some Pending \<Rightarrow> is_inflight s (digest (ca_token c)) = Some f
         | Some (Settled v) \<Rightarrow> (\<exists>t\<ge>ca_started c. answer_for digest as (digest (ca_token c)) v t)
         | _ \<Rightarrow> True))"

definition returned_ok :: "int \<Rightarrow> (string \<Rightarrow> string) \<Rightarrow> answer list \<Rightarrow> 'c introspector \<Rightarrow> call \<Rightarrow> bool" where
  "returned_ok ttl digest as s c \<longleftrightarrow> ca_started c \<le> is_now s \<and>
     (\<forall>v. ca_phase c = Returned v \<longrightarrow> (\<exists>t. answer_for digest as (digest (ca_token c)) v t \<and> ca_started c < t + ttl))"

definition cache_ok :: "('c \<Rightarrow> string \<rightharpoonup> hydra_claims \<times> int) \<Rightarrow> (string \<Rightarrow> string) \<Rightarrow> answer list \<Rightarrow> 'c introspector \<Rightarrow> bool" where
  "cache_ok held digest as s \<longleftrightarrow> (\<forall>c k v t. is_cache s = Some c \<longrightarrow> held c k = Some (v, t) \<longrightarrow> answer_for digest as k v t)"

definition run_ok ::
  "int \<Rightarrow> ('c \<Rightarrow> string \<rightharpoonup> hydra_claims \<times> int) \<Rightarrow> (string \<Rightarrow> string) \<Rightarrow> answer list \<Rightarrow> 'c introspector \<Rightarrow> bool" where
  "run_ok ttl held digest as s \<longleftrightarrow> table_ok digest s \<and> cache_ok held digest as s \<and>
     (\<forall>i c. is_calls s i = Some c \<longrightarrow> waiter_ok digest as s c \<and> returned_ok ttl digest as s c)"

lemma answer_for_more: "answer_for digest as k v t \<Longrightarrow> answer_for digest (as @ bs) k v t"
  by (auto simp: answer_for_def)

lemma table_leader:
  assumes "table_ok digest s" and "is_calls s i = Some c" and "ca_phase c = Leading f"
  shows "is_inflight s (digest (ca_token c)) = Some f" "f < is_next s" "is_futures s f = Some Pending \<or> is_futures s f = Some CancelledFuture"
    "is_inflight s k = Some f \<Longrightarrow> k = digest (ca_token c)" "is_calls s j = Some d \<Longrightarrow> ca_phase d = Leading f \<Longrightarrow> j = i"
proof -
  show k: "is_inflight s (digest (ca_token c)) = Some f" using assms by (auto simp: table_ok_def)
  then show "f < is_next s" "is_futures s f = Some Pending \<or> is_futures s f = Some CancelledFuture"
    using assms(1) unfolding table_ok_def by blast+
  show only: "is_calls s j = Some d \<Longrightarrow> ca_phase d = Leading f \<Longrightarrow> j = i" for j d
    using assms unfolding table_ok_def by blast
  assume "is_inflight s k = Some f"
  then obtain j d where "is_calls s j = Some d" "ca_phase d = Leading f" "digest (ca_token d) = k"
    using assms(1) unfolding table_ok_def by blast
  then show "k = digest (ca_token c)" using only assms(2) by fastforce
qed

text \<open>A call that neither led nor leads takes a new phase.\<close>

lemma table_ok_calls:
  assumes "table_ok digest s" and "\<And>c f. is_calls s i = Some c \<Longrightarrow> ca_phase c \<noteq> Leading f" and "\<And>f. ca_phase d \<noteq> Leading f"
  shows "table_ok digest (s\<lparr>is_calls := (is_calls s)(i \<mapsto> d)\<rparr>)"
  using assms unfolding table_ok_def by (simp add: fun_upd_def) (metis option.inject)

lemma calls_irrelevant [simp]:
  "waiter_ok digest as (s\<lparr>is_calls := x\<rparr>) c = waiter_ok digest as s c"
  "returned_ok ttl digest as (s\<lparr>is_calls := x\<rparr>) c = returned_ok ttl digest as s c"
  "cache_ok held digest as (s\<lparr>is_calls := x\<rparr>) = cache_ok held digest as s"
  by (simp_all add: waiter_ok_def returned_ok_def cache_ok_def cong: option.case_cong future.case_cong)

text \<open>A waiting call depends on the state of its future, and on its key while that is pending.\<close>

lemma waiter_ok_kept:
  assumes "waiter_ok digest as s c" and "is_next s \<le> is_next s'"
    and "\<And>f. ca_phase c = Waiting f \<Longrightarrow> is_futures s' f = is_futures s f"
    and "\<And>f. ca_phase c = Waiting f \<Longrightarrow> is_futures s f = Some Pending \<Longrightarrow> is_inflight s' (digest (ca_token c)) = is_inflight s (digest (ca_token c))"
  shows "waiter_ok digest as s' c"
  using assms by (fastforce simp: waiter_ok_def split: option.splits future.splits)

lemma run_ok_calls:
  assumes "run_ok ttl held digest as s" and "\<And>c f. is_calls s i = Some c \<Longrightarrow> ca_phase c \<noteq> Leading f" and "\<And>f. ca_phase d \<noteq> Leading f"
    and "waiter_ok digest as s d" and "returned_ok ttl digest as s d"
  shows "run_ok ttl held digest as (s\<lparr>is_calls := (is_calls s)(i \<mapsto> d)\<rparr>)"
  using assms(1,4,5) table_ok_calls [OF _ assms(2,3)] by (auto simp: run_ok_def)

lemma set_phase_eq: "is_calls s i = Some c \<Longrightarrow> set_phase i p s = s\<lparr>is_calls := (is_calls s)(i \<mapsto> c\<lparr>ca_phase := p\<rparr>)\<rparr>"
  by (simp add: set_phase_def)

lemma begin_call_ok:
  assumes "run_ok ttl held digest as s" and "ttl_cache_ok ops ttl held" and "is_calls s i = None"
  shows "run_ok ttl held digest as (begin_call ops digest i token s)"
proof -
  let ?key = "digest token"
  let ?look = "case is_cache s of None \<Rightarrow> None | Some c \<Rightarrow> hc_get ops (is_now s) ?key c"
  let ?call = "\<lambda>p. \<lparr>ca_token = token, ca_started = is_now s, ca_phase = p\<rparr>"
  have table: "table_ok digest s" using assms(1) by (simp add: run_ok_def)
  consider (hit) v where "?look = Some v" | (join) f where "?look = None" "is_inflight s ?key = Some f"
    | (lead) "?look = None" "is_inflight s ?key = None" by fastforce
  then show ?thesis
  proof cases
    case hit
    then obtain c where c: "is_cache s = Some c" "hc_get ops (is_now s) ?key c = Some v" by (cases "is_cache s") auto
    then obtain t where t: "held c ?key = Some (v, t)" "is_now s < t + ttl" using assms(2) unfolding ttl_cache_ok_def by blast
    then have "answer_for digest as ?key v t" using assms(1) c(1) by (auto simp: run_ok_def cache_ok_def)
    then have "returned_ok ttl digest as s (?call (Returned v))" using t(2) by (auto simp: returned_ok_def)
    moreover have "begin_call ops digest i token s = s\<lparr>is_calls := (is_calls s)(i \<mapsto> ?call (Returned v))\<rparr>"
      using hit by (simp add: begin_call_def Let_def)
    ultimately show ?thesis using run_ok_calls [OF assms(1), of i "?call (Returned v)"] assms(3) by (simp add: waiter_ok_def)
  next
    case join
    have "f < is_next s" "is_futures s f = Some Pending \<or> is_futures s f = Some CancelledFuture"
      using table join(2) unfolding table_ok_def by blast+
    then have "waiter_ok digest as s (?call (Waiting f))" "returned_ok ttl digest as s (?call (Waiting f))"
      using join(2) by (auto simp: waiter_ok_def returned_ok_def)
    moreover have "begin_call ops digest i token s = s\<lparr>is_calls := (is_calls s)(i \<mapsto> ?call (Waiting f))\<rparr>"
      using join by (simp add: begin_call_def Let_def)
    ultimately show ?thesis using run_ok_calls [OF assms(1), of i "?call (Waiting f)"] assms(3) by simp
  next
    case lead
    let ?s = "s\<lparr>is_futures := (is_futures s)(is_next s \<mapsto> Pending), is_inflight := (is_inflight s)(?key \<mapsto> is_next s), is_next := is_next s + 1,
                is_calls := (is_calls s)(i \<mapsto> ?call (Leading (is_next s)))\<rparr>"
    have "begin_call ops digest i token s = ?s" using lead by (simp add: begin_call_def Let_def)
    moreover have "table_ok digest ?s"
    proof -
      have old: "is_inflight s k = Some f \<Longrightarrow> f < is_next s \<and> (is_futures s f = Some Pending \<or> is_futures s f = Some CancelledFuture) \<and>
          (\<exists>j c. j \<noteq> i \<and> is_calls s j = Some c \<and> ca_phase c = Leading f \<and> digest (ca_token c) = k)" for k f
        using table assms(3) unfolding table_ok_def by (metis option.distinct(1))
      have key: "is_calls s j = Some c \<Longrightarrow> ca_phase c = Leading f \<Longrightarrow> digest (ca_token c) \<noteq> ?key \<and> f < is_next s \<and>
          is_inflight s (digest (ca_token c)) = Some f" for j c f
        using table_leader(1,2) [OF table] lead(2) by fastforce
      have one: "is_calls s j = Some c \<Longrightarrow> is_calls s l = Some d \<Longrightarrow> ca_phase c = Leading f \<Longrightarrow> ca_phase d = Leading f \<Longrightarrow> j = l" for j l c d f
        using table unfolding table_ok_def by blast
      show ?thesis unfolding table_ok_def
      proof (intro conjI allI impI)
        fix j c f assume "is_calls ?s j = Some c" "ca_phase c = Leading f"
        then show "is_inflight ?s (digest (ca_token c)) = Some f" using key [of j c f] by (auto split: if_splits)
      next
        fix j l c d f assume "is_calls ?s j = Some c" "is_calls ?s l = Some d" "ca_phase c = Leading f" "ca_phase d = Leading f"
        then show "j = l"
          using key [of j c f] key [of l d f] one [of j c l d f] by (simp split: if_splits) (auto split: if_splits)
      qed (use old in \<open>fastforce split: if_splits\<close>)+
    qed
    moreover have "waiter_ok digest as ?s c" if "is_calls s j = Some c" for j c
    proof -
      have w: "waiter_ok digest as s c" using assms(1) that by (auto simp: run_ok_def)
      have "f < is_next s" "is_futures s f = Some Pending \<Longrightarrow> digest (ca_token c) \<noteq> ?key" if "ca_phase c = Waiting f" for f
        using w that lead(2) by (auto simp: waiter_ok_def)
      with w show ?thesis by (intro waiter_ok_kept [OF w]) auto
    qed
    moreover have "waiter_ok digest as ?s (?call (Leading (is_next s)))" "returned_ok ttl digest as ?s (?call (Leading (is_next s)))"
      by (simp_all add: waiter_ok_def returned_ok_def)
    moreover have "returned_ok ttl digest as ?s c = returned_ok ttl digest as s c" "cache_ok held digest as ?s = cache_ok held digest as s" for c
      by (simp_all add: returned_ok_def cache_ok_def)
    ultimately show ?thesis using assms(1) by (auto simp: run_ok_def)
  qed
qed

lemma run_ok_more: "run_ok ttl held digest as s \<Longrightarrow> run_ok ttl held digest (as @ bs) s"
  unfolding run_ok_def waiter_ok_def returned_ok_def cache_ok_def
  by (fastforce intro: answer_for_more split: option.splits future.splits)

lemma end_call_fields:
  fixes s :: "'c introspector"
  assumes "is_calls s i = Some c"
  obtains p fut where "is_calls (end_call ops key i f outcome s) = (is_calls s)(i \<mapsto> c\<lparr>ca_phase := p\<rparr>)"
    "is_inflight (end_call ops key i f outcome s) = (is_inflight s)(key := None)" "is_next (end_call ops key i f outcome s) = is_next s"
    "is_now (end_call ops key i f outcome s) = is_now s"
    "is_futures (end_call ops key i f outcome s) = (is_futures s)(f := fut)"
    "is_cache (end_call ops key i f outcome s) =
       (case outcome of Inl e \<Rightarrow> is_cache s | Inr v \<Rightarrow> map_option (hc_set ops (is_now s) key v) (is_cache s))"
    "if is_futures s f = Some Pending
     then (case outcome of Inl e \<Rightarrow> p = Raising e \<and> fut = Some (Failing e) | Inr v \<Rightarrow> p = Returned v \<and> fut = Some (Settled v))
     else p = Raising InvalidState \<and> fut = is_futures s f"
proof -
  let ?t = "end_call ops key i f outcome s"
  have "is_calls ?t i \<noteq> None" using assms by (auto simp: end_call_def set_phase_def Let_def split: sum.split)
  show ?thesis
    by (rule that [of "ca_phase (the (is_calls ?t i))" "is_futures ?t f"])
      (use assms in \<open>auto simp: end_call_def set_phase_def Let_def fun_eq_iff split: sum.split\<close>)
qed

lemma end_call_ok:
  assumes "run_ok ttl held digest as s" and "ttl_cache_ok ops ttl held" and "0 < ttl"
    and "is_calls s i = Some c" and "ca_phase c = Leading f" and "\<And>v. outcome = Inr v \<Longrightarrow> answer_for digest as (digest (ca_token c)) v (is_now s)"
  shows "run_ok ttl held digest as (end_call ops (digest (ca_token c)) i f outcome s)"
proof -
  let ?key = "digest (ca_token c)"
  let ?t = "end_call ops ?key i f outcome s"
  have table: "table_ok digest s" and own: "returned_ok ttl digest as s c" using assms(1,4) by (auto simp: run_ok_def)
  note lead = table_leader [OF table assms(4,5)]
  obtain p fut where t: "is_calls ?t = (is_calls s)(i \<mapsto> c\<lparr>ca_phase := p\<rparr>)" "is_inflight ?t = (is_inflight s)(?key := None)"
    "is_next ?t = is_next s" "is_now ?t = is_now s" "is_futures ?t = (is_futures s)(f := fut)"
    "is_cache ?t = (case outcome of Inl e \<Rightarrow> is_cache s | Inr v \<Rightarrow> map_option (hc_set ops (is_now s) ?key v) (is_cache s))"
    "if is_futures s f = Some Pending
     then (case outcome of Inl e \<Rightarrow> p = Raising e \<and> fut = Some (Failing e) | Inr v \<Rightarrow> p = Returned v \<and> fut = Some (Settled v))
     else p = Raising InvalidState \<and> fut = is_futures s f"
    using assms(4) by (rule end_call_fields [where ops = ops and key = ?key and f = f and outcome = outcome])
  have phase: "p \<noteq> Leading g" "p \<noteq> Waiting g" "p = Returned v \<Longrightarrow> outcome = Inr v" for g v
    using t(7) by (auto split: if_splits sum.splits)
  have fut: "fut = Some (Settled v) \<Longrightarrow> outcome = Inr v" "fut \<noteq> None" "fut \<noteq> Some Pending" for v
    using t(7) lead(3) by (auto split: if_splits sum.splits)
  have "table_ok digest ?t"
    unfolding table_ok_def
  proof (intro conjI allI impI)
    fix k g assume "is_inflight ?t k = Some g"
    then have g: "is_inflight s k = Some g" "k \<noteq> ?key" by (auto simp: t split: if_splits)
    with lead(4) have "g \<noteq> f" by blast
    moreover obtain j d where j: "is_calls s j = Some d" "ca_phase d = Leading g" "digest (ca_token d) = k"
      using table g(1) unfolding table_ok_def by blast
    ultimately have "j \<noteq> i" using assms(4,5) by auto
    with j show "\<exists>j d. is_calls ?t j = Some d \<and> ca_phase d = Leading g \<and> digest (ca_token d) = k" by (auto simp: t)
    show "g < is_next ?t" "is_futures ?t g = Some Pending \<or> is_futures ?t g = Some CancelledFuture"
      using table g(1) \<open>g \<noteq> f\<close> unfolding table_ok_def by (auto simp: t)
  next
    fix j d g assume "is_calls ?t j = Some d" "ca_phase d = Leading g"
    then have j: "is_calls s j = Some d" "j \<noteq> i" "ca_phase d = Leading g" using phase(1) by (auto simp: t split: if_splits)
    then have "is_inflight s (digest (ca_token d)) = Some g" using table unfolding table_ok_def by blast
    moreover from this have "digest (ca_token d) \<noteq> ?key" using j lead(1) lead(5) by auto
    ultimately show "is_inflight ?t (digest (ca_token d)) = Some g" by (simp add: t)
  next
    fix j l d e g assume "is_calls ?t j = Some d" "is_calls ?t l = Some e" "ca_phase d = Leading g" "ca_phase e = Leading g"
    then have "is_calls s j = Some d" "is_calls s l = Some e" "ca_phase d = Leading g" "ca_phase e = Leading g"
      using phase(1) by (auto simp: t split: if_splits)
    then show "j = l" using table unfolding table_ok_def by blast
  qed
  moreover have "cache_ok held digest as ?t"
    unfolding cache_ok_def
  proof (intro allI impI)
    fix d k v u assume d: "is_cache ?t = Some d" "held d k = Some (v, u)"
    show "answer_for digest as k v u"
    proof (cases outcome)
      case (Inl e)
      then have "is_cache s = Some d" using d(1) t(6) by simp
      then show ?thesis using d(2) assms(1) by (simp add: run_ok_def cache_ok_def)
    next
      case (Inr w)
      then obtain b where b: "is_cache s = Some b" "d = hc_set ops (is_now s) ?key w b" using d(1) [unfolded t(6)] by (auto simp: map_option_eq_Some)
      then have "((held b)(?key \<mapsto> (w, is_now s))) k = Some (v, u)"
        using d(2) assms(2) by (metis (no_types, lifting) domI map_le_def ttl_cache_ok_def)
      then show ?thesis using assms(1,6) b(1) Inr by (auto simp: run_ok_def cache_ok_def split: if_splits)
    qed
  qed
  moreover have "waiter_ok digest as ?t d" if "is_calls ?t j = Some d" for j d
  proof (cases "\<exists>g. ca_phase d = Waiting g")
    case True
    then obtain g where g: "ca_phase d = Waiting g" by blast
    with that phase(2) have j: "is_calls s j = Some d" by (auto simp: t split: if_splits)
    have w: "waiter_ok digest as s d" "returned_ok ttl digest as s d" using assms(1) j by (auto simp: run_ok_def)
    show ?thesis
    proof (cases "g = f")
      case False
      then show ?thesis
        using w(1) g lead(1) by (intro waiter_ok_kept [OF w(1)]) (auto simp: t waiter_ok_def)
    next
      case True
      have "\<exists>u\<ge>ca_started d. answer_for digest as (digest (ca_token d)) v u" if v: "fut = Some (Settled v)" for v
      proof (cases "is_futures s f = Some Pending")
        case True
        then have "is_inflight s (digest (ca_token d)) = Some f" using w(1) g \<open>g = f\<close> by (simp add: waiter_ok_def)
        then have "digest (ca_token d) = ?key" using lead(4) by simp
        then show ?thesis using assms(6) fut(1) [OF v] w(2) by (auto simp: returned_ok_def)
      next
        case False
        then show ?thesis using t(7) v lead(3) by simp
      qed
      then show ?thesis
        using g \<open>g = f\<close> w(1) fut(2,3) by (auto simp: waiter_ok_def t split: option.split future.split)
    qed
  qed (simp add: waiter_ok_def)
  moreover have "returned_ok ttl digest as ?t d" if "is_calls ?t j = Some d" for j d
    using that assms(1,3,4,6) phase(3) own
    by (cases "j = i") (fastforce simp: t returned_ok_def run_ok_def)+
  ultimately show ?thesis by (simp add: run_ok_def)
qed

lemma resume_call_ok:
  assumes "run_ok ttl held digest as s" and "0 < ttl" and "is_calls s i = Some c" and "ca_phase c = Waiting f"
  shows "run_ok ttl held digest as (resume_call i f s)"
proof -
  have w: "waiter_ok digest as s c" "returned_ok ttl digest as s c" using assms(1,3) by (auto simp: run_ok_def)
  have step: "run_ok ttl held digest as (set_phase i p s)"
    if "\<And>g. p \<noteq> Leading g" "\<And>g. p \<noteq> Waiting g" "\<And>v. p = Returned v \<Longrightarrow> is_futures s f = Some (Settled v)" for p
    unfolding set_phase_eq [OF assms(3)]
  proof (rule run_ok_calls [OF assms(1)])
    show "returned_ok ttl digest as s (c\<lparr>ca_phase := p\<rparr>)"
      using w assms(2,4) that(3) by (fastforce simp: returned_ok_def waiter_ok_def)
  qed (use that assms(3,4) in \<open>auto simp: waiter_ok_def\<close>)
  show ?thesis
    using assms(1) step by (auto simp: resume_call_def split: option.split future.split)
qed

lemma table_ok_cancel:
  assumes "table_ok digest s"
  shows "table_ok digest (s\<lparr>is_futures := (is_futures s)(f \<mapsto> CancelledFuture)\<rparr>)"
  unfolding table_ok_def
proof (intro conjI allI impI)
  fix k g assume "is_inflight (s\<lparr>is_futures := (is_futures s)(f \<mapsto> CancelledFuture)\<rparr>) k = Some g"
  then have "g < is_next s \<and> (is_futures s g = Some Pending \<or> is_futures s g = Some CancelledFuture) \<and>
      (\<exists>i c. is_calls s i = Some c \<and> ca_phase c = Leading g \<and> digest (ca_token c) = k)"
    using assms unfolding table_ok_def by simp
  then show "g < is_next (s\<lparr>is_futures := (is_futures s)(f \<mapsto> CancelledFuture)\<rparr>)"
    "is_futures (s\<lparr>is_futures := (is_futures s)(f \<mapsto> CancelledFuture)\<rparr>) g = Some Pending \<or>
     is_futures (s\<lparr>is_futures := (is_futures s)(f \<mapsto> CancelledFuture)\<rparr>) g = Some CancelledFuture"
    "\<exists>i c. is_calls (s\<lparr>is_futures := (is_futures s)(f \<mapsto> CancelledFuture)\<rparr>) i = Some c \<and> ca_phase c = Leading g \<and> digest (ca_token c) = k"
    by auto
next
  fix i c g assume "is_calls (s\<lparr>is_futures := (is_futures s)(f \<mapsto> CancelledFuture)\<rparr>) i = Some c" "ca_phase c = Leading g"
  then show "is_inflight (s\<lparr>is_futures := (is_futures s)(f \<mapsto> CancelledFuture)\<rparr>) (digest (ca_token c)) = Some g"
    using table_leader(1) [OF assms] by simp
next
  fix i j c d g
  assume "is_calls (s\<lparr>is_futures := (is_futures s)(f \<mapsto> CancelledFuture)\<rparr>) i = Some c" "ca_phase c = Leading g"
    "is_calls (s\<lparr>is_futures := (is_futures s)(f \<mapsto> CancelledFuture)\<rparr>) j = Some d" "ca_phase d = Leading g"
  then have "is_calls s i = Some c" "ca_phase c = Leading g" "is_calls s j = Some d" "ca_phase d = Leading g" by simp_all
  then show "i = j" by (rule table_leader(5) [OF assms, rotated 2])
qed

lemma cancel_call_ok:
  assumes "run_ok ttl held digest as s" and "ttl_cache_ok ops ttl held" and "0 < ttl" and "is_calls s i = Some c"
  shows "run_ok ttl held digest as (cancel_call ops digest i c s)"
proof (cases "ca_phase c")
  case (Leading f)
  then show ?thesis using end_call_ok [OF assms Leading, of "Inl CallCancelled"] by (simp add: cancel_call_def)
next
  case (Waiting f)
  let ?s = "if is_futures s f = Some Pending then s\<lparr>is_futures := (is_futures s)(f \<mapsto> CancelledFuture)\<rparr> else s"
  have table: "table_ok digest s" using assms(1) by (simp add: run_ok_def)
  have "table_ok digest ?s" using table table_ok_cancel [OF table] by simp
  moreover have "waiter_ok digest as ?s d" if "is_calls s j = Some d" for j d
  proof -
    have w: "waiter_ok digest as s d" using assms(1) that by (simp add: run_ok_def)
    show ?thesis
    proof (cases "ca_phase d = Waiting f \<and> is_futures s f = Some Pending")
      case True
      with w show ?thesis by (simp add: waiter_ok_def)
    next
      case False
      then show ?thesis by (intro waiter_ok_kept [OF w]) auto
    qed
  qed
  ultimately have "run_ok ttl held digest as ?s"
    using assms(1) by (auto simp: run_ok_def returned_ok_def cache_ok_def)
  moreover have c: "is_calls ?s i = Some c" using assms(4) by simp
  moreover have "returned_ok ttl digest as ?s (c\<lparr>ca_phase := Raising CallCancelled\<rparr>)"
    using assms(1,4) by (auto simp: run_ok_def returned_ok_def)
  ultimately have "run_ok ttl held digest as (set_phase i (Raising CallCancelled) ?s)"
    unfolding set_phase_eq [OF c] by (intro run_ok_calls) (auto simp: Waiting assms(4) waiter_ok_def split: if_splits)
  then show ?thesis by (simp add: cancel_call_def Waiting)
qed (use assms(1) in \<open>simp_all add: cancel_call_def\<close>)

lemma hydra_run_ok:
  assumes "hydra_run ops digest scope_text (fresh_introspector now cache) as s" and "ttl_cache_ok ops ttl held" and "0 < ttl"
    and "\<And>c. cache = Some c \<Longrightarrow> held c = Map.empty"
  shows "run_ok ttl held digest as s \<and> (\<forall>a\<in>set as. call_upstream scope_text (an_wall a) (an_outcome a) = Inr (an_claims a))"
  using assms(1)
proof (induction rule: hydra_run.induct)
  case start
  show ?case using assms(4) by (auto simp: run_ok_def table_ok_def cache_ok_def fresh_introspector_def)
next
  case (clock as s d)
  then show ?case
    by (fastforce simp: run_ok_def table_ok_def cache_ok_def returned_ok_def waiter_ok_def split: option.splits future.splits)
next
  case (enters as s i token)
  then show ?case using begin_call_ok [OF _ assms(2)] by blast
next
  case (answered as s i c f wall outcome)
  let ?new = "good_answer scope_text (ca_token c) wall outcome (is_now s)"
  have "run_ok ttl held digest (as @ ?new) s" using answered run_ok_more by blast
  moreover have "answer_for digest (as @ ?new) (digest (ca_token c)) v (is_now s)" if "call_upstream scope_text wall outcome = Inr v" for v
    using that by (simp add: answer_for_def good_answer_def)
  moreover have "\<forall>a\<in>set ?new. call_upstream scope_text (an_wall a) (an_outcome a) = Inr (an_claims a)"
    by (auto simp: good_answer_def split: sum.split)
  ultimately show ?case using answered end_call_ok [OF _ assms(2,3)] by (metis Un_iff set_append)
next
  case (resumed as s i c f)
  then show ?case using resume_call_ok [OF _ assms(3)] by blast
next
  case (cancelled as s i c)
  then show ?case using cancel_call_ok [OF _ assms(2,3)] by blast
qed

section \<open>What a caller gets\<close>

lemma upstream_good:
  assumes "call_upstream scope_text wall outcome = Inr v"
  obtains status body sub_text where "outcome = Response status (Body body)" "status < 400" "map_of body ''active'' = Some (JBool True)"
    "map_of body ''sub'' = Some (JStr sub_text)" "uuid_parse sub_text \<noteq> None" "claims_sub v = uuid_parse sub_text" "wall \<le> claims_exp v"
proof -
  obtain status body where o: "outcome = Response status (Body body)" "status < 400" "read_body scope_text wall body = Inr v"
    using assms by (auto simp: call_upstream_def split: http_outcome.splits http_body.splits if_splits)
  then obtain sub until t where active: "map_of body ''active'' = Some (JBool True)"
    and sub: "subject (map_of body ''sub'') = Inr sub" and until: "expiry wall (map_of body ''exp'') = Inr until"
    and v: "v = \<lparr>claims_sub = Some sub, claims_scope = t, claims_exp = until\<rparr>"
    by (auto simp: read_body_def res_simps split: if_splits option.splits)
  from sub obtain sub_text where named: "map_of body ''sub'' = Some (JStr sub_text)" and u: "uuid_parse sub_text = Some sub"
    by (auto simp: subject_def split: if_splits option.splits body_value.splits)
  have "wall \<le> until" using until by (auto simp: expiry_def split: if_splits option.splits body_value.splits)
  then have "wall \<le> claims_exp v" and "claims_sub v = uuid_parse sub_text" and "uuid_parse sub_text \<noteq> None" by (simp_all add: v u)
  then show ?thesis by (intro that [OF o(1,2) active named])
qed

text \<open>
  Property C7.  Introspection gives fresh claims, and asks Hydra once.  At any point of any run, with
  callers coming in, waiting and being cancelled in any order: of the calls for tokens of one digest
  at most one is asking Hydra; and the claims a caller has got are those of an answer Hydra gave for
  a token of the same digest, not longer than the cache's time to live before the caller came in, an
  answer with a status below 400 that said the token is active, named a UUID as its subject, which
  is the subject of the claims, and had not expired when it was read.
\<close>

theorem introspection_fresh:
  assumes "hydra_run ops digest scope_text (fresh_introspector now cache) as s" and "ttl_cache_ok ops ttl held" and "0 < ttl"
    and "\<And>c. cache = Some c \<Longrightarrow> held c = Map.empty" and "is_calls s i = Some c"
  shows "(\<forall>j d f g. is_calls s j = Some d \<longrightarrow> digest (ca_token d) = digest (ca_token c) \<longrightarrow>
      ca_phase c = Leading f \<longrightarrow> ca_phase d = Leading g \<longrightarrow> j = i) \<and>
    (\<forall>v. ca_phase c = Returned v \<longrightarrow> (\<exists>a \<in> set as. digest (an_token a) = digest (ca_token c) \<and> an_claims a = v \<and>
      ca_started c < an_time a + ttl \<and>
      (\<exists>status body sub_text. an_outcome a = Response status (Body body) \<and> status < 400 \<and>
        map_of body ''active'' = Some (JBool True) \<and> map_of body ''sub'' = Some (JStr sub_text) \<and>
        uuid_parse sub_text \<noteq> None \<and> claims_sub v = uuid_parse sub_text \<and> an_wall a \<le> claims_exp v)))"
proof -
  have ok: "run_ok ttl held digest as s" and good: "\<And>a. a \<in> set as \<Longrightarrow> call_upstream scope_text (an_wall a) (an_outcome a) = Inr (an_claims a)"
    using hydra_run_ok [OF assms(1-4)] by auto
  have table: "table_ok digest s" and own: "returned_ok ttl digest as s c" using ok assms(5) by (auto simp: run_ok_def)
  have "j = i" if "is_calls s j = Some d" "digest (ca_token d) = digest (ca_token c)" "ca_phase c = Leading f" "ca_phase d = Leading g" for j d f g
  proof -
    have "is_inflight s (digest (ca_token c)) = Some f" "is_inflight s (digest (ca_token d)) = Some g"
      using table_leader(1) [OF table] assms(5) that by blast+
    then have "f = g" using that(2) by simp
    with table_leader(5) [OF table assms(5) that(3) that(1)] that(4) show ?thesis by simp
  qed
  moreover have "\<exists>a \<in> set as. digest (an_token a) = digest (ca_token c) \<and> an_claims a = v \<and> ca_started c < an_time a + ttl \<and>
      (\<exists>status body sub_text. an_outcome a = Response status (Body body) \<and> status < 400 \<and>
        map_of body ''active'' = Some (JBool True) \<and> map_of body ''sub'' = Some (JStr sub_text) \<and>
        uuid_parse sub_text \<noteq> None \<and> claims_sub v = uuid_parse sub_text \<and> an_wall a \<le> claims_exp v)" if v: "ca_phase c = Returned v" for v
  proof -
    obtain a where a: "a \<in> set as" "digest (an_token a) = digest (ca_token c)" "an_claims a = v" "ca_started c < an_time a + ttl"
      using own v by (auto simp: returned_ok_def answer_for_def)
    from good [OF a(1)] obtain status body sub_text where "an_outcome a = Response status (Body body)" "status < 400"
      "map_of body ''active'' = Some (JBool True)" "map_of body ''sub'' = Some (JStr sub_text)" "uuid_parse sub_text \<noteq> None"
      "claims_sub (an_claims a) = uuid_parse sub_text" "an_wall a \<le> claims_exp (an_claims a)" by (rule upstream_good)
    with a show ?thesis by blast
  qed
  ultimately show ?thesis by blast
qed

text \<open>
  Cancelling one caller that waits cancels the future all of them share: the leader, whose answer
  from Hydra was good, then fails with \<open>InvalidStateError\<close>.
\<close>

lemma cancelled_waiter_fails_leader:
  assumes "is_calls s i = Some c" and "ca_phase c = Waiting f" and "is_futures s f = Some Pending"
    and "is_calls s j = Some d" and "ca_phase d = Leading f"
  shows "is_calls (end_call ops (digest (ca_token d)) j f (Inr claims) (cancel_call ops digest i c s)) j = Some (d\<lparr>ca_phase := Raising InvalidState\<rparr>)"
proof -
  have "i \<noteq> j" using assms by auto
  then show ?thesis using assms by (auto simp: cancel_call_def end_call_def set_phase_def Let_def)
qed

section \<open>A sample\<close>

type_synonym demo_cache = "(string \<times> hydra_claims \<times> int) list"

definition demo_hydra_cache :: "demo_cache hydra_cache" where
  "demo_hydra_cache = \<lparr>hc_get = (\<lambda>now k c. case map_of c k of None \<Rightarrow> None | Some (v, t) \<Rightarrow> if now < t + 30 then Some v else None),
     hc_set = (\<lambda>now k v c. (k, v, now) # c)\<rparr>"

lemma demo_hydra_cache_ok: "ttl_cache_ok demo_hydra_cache 30 map_of"
  by (auto simp: ttl_cache_ok_def demo_hydra_cache_def map_le_def split: option.splits if_splits)

definition demo_body :: "(string \<times> body_value) list" where
  "demo_body = [(''active'', JBool True), (''sub'', JStr ''00000000-0000-0000-0000-000000000007''), (''exp'', JNum 5000), (''scope'', JStr ''journal'')]"

definition demo_scope :: "body_value \<Rightarrow> string option" where
  "demo_scope v = (case v of JStr s \<Rightarrow> Some s | _ \<Rightarrow> None)"

abbreviation demo_hydra_claims :: hydra_claims where
  "demo_hydra_claims \<equiv> \<lparr>claims_sub = Some 7, claims_scope = ''journal'', claims_exp = 5000\<rparr>"

lemma demo_answer: "call_upstream demo_scope 1000 (Response 200 (Body demo_body)) = Inr demo_hydra_claims"
proof -
  have "uuid_parse ''00000000-0000-0000-0000-000000000007'' = Some 7" by code_simp
  then show ?thesis by (simp add: call_upstream_def read_body_def demo_body_def subject_def expiry_def demo_scope_def)
qed

text \<open>One caller asks Hydra; a second one, ten seconds later, gets the claims from the cache.\<close>

theorem introspection_fresh_witness:
  "\<exists>as s c. hydra_run demo_hydra_cache id demo_scope (fresh_introspector 0 (Some [])) as s \<and> is_calls s 1 = Some c \<and>
     ca_token c = ''t'' \<and> ca_phase c = Returned demo_hydra_claims \<and> (\<exists>a \<in> set as. an_token a = ''t'' \<and> ca_started c < an_time a + 30)"
proof -
  let ?r = "hydra_run demo_hydra_cache id demo_scope (fresh_introspector 0 (Some []))"
  let ?s1 = "begin_call demo_hydra_cache id 0 ''t'' (fresh_introspector 0 (Some []))"
  let ?s2 = "end_call demo_hydra_cache ''t'' 0 0 (Inr demo_hydra_claims) ?s1"
  let ?s3 = "?s2\<lparr>is_now := is_now ?s2 + 10\<rparr>"
  let ?s4 = "begin_call demo_hydra_cache id 1 ''t'' ?s3"
  have r1: "?r [] ?s1" by (rule hydra_run.enters [OF hydra_run.start]) (simp add: fresh_introspector_def)
  have c1: "is_calls ?s1 0 = Some \<lparr>ca_token = ''t'', ca_started = 0, ca_phase = Leading 0\<rparr>" "is_now ?s1 = 0" "is_cache ?s1 = Some []"
    by (simp_all add: begin_call_def fresh_introspector_def demo_hydra_cache_def Let_def)
  obtain as where r2: "?r as ?s2"
    using hydra_run.answered [OF r1 c1(1), of 0 1000 "Response 200 (Body demo_body)"] unfolding demo_answer by auto
  have c2: "is_cache ?s2 = Some [(''t'', demo_hydra_claims, 0)]" "is_now ?s2 = 0" "is_calls ?s2 1 = None"
    using c1 by (simp_all add: end_call_def set_phase_def Let_def demo_hydra_cache_def)
      (simp_all add: begin_call_def fresh_introspector_def demo_hydra_cache_def Let_def)
  have r4: "?r as ?s4" by (rule hydra_run.enters [OF hydra_run.clock [OF r2]]) (use c2 in simp_all)
  have c4: "is_calls ?s4 1 = Some \<lparr>ca_token = ''t'', ca_started = 10, ca_phase = Returned demo_hydra_claims\<rparr>"
    using c2 by (simp add: begin_call_def Let_def demo_hydra_cache_def)
  have "\<And>c. Some ([] :: demo_cache) = Some c \<Longrightarrow> map_of c = Map.empty" by simp
  from introspection_fresh [OF r4 demo_hydra_cache_ok _ this c4] r4 c4 show ?thesis by fastforce
qed

end
