(* ===== verification/PyDate.thy ===== *)
theory PyDate
  imports PyText
begin

text \<open>
  The part of Python's \<open>int\<close>, \<open>str\<close> and \<open>datetime.date\<close> that the program uses: decimal
  text, the proleptic Gregorian calendar with its ordinals (\<open>toordinal\<close>, \<open>fromordinal\<close>),
  weekdays, ISO weeks and the format \<open>%Y-%m-%d\<close>.

  A \<open>ymd\<close> is a date object only when \<open>valid_ymd\<close> holds (years 1 to 9999); \<open>mk_date\<close> is the
  constructor, \<open>date_add\<close> is \<open>date + timedelta(days=k)\<close> with its \<open>OverflowError\<close>.
  The lemmas at the end make \<open>ord_of\<close> and \<open>of_ord\<close> inverse to each other.
\<close>

section \<open>Decimal text\<close>

definition digit_char :: "nat \<Rightarrow> char" where
  "digit_char d = char_of (48 + d)"

definition digit_val :: "char \<Rightarrow> nat" where
  "digit_val c = cp c - 48"

fun dec_nat :: "nat \<Rightarrow> string" where
  "dec_nat n = (if n < 10 then [digit_char n] else dec_nat (n div 10) @ [digit_char (n mod 10)])"

declare dec_nat.simps [simp del]

definition dec_int :: "int \<Rightarrow> string" where
  "dec_int i = (if i < 0 then CHR ''-'' # dec_nat (nat (- i)) else dec_nat (nat i))"

definition nat_of_digits :: "string \<Rightarrow> nat" where
  "nat_of_digits s = foldl (\<lambda>n c. 10 * n + digit_val c) 0 s"

definition zero_pad :: "nat \<Rightarrow> string \<Rightarrow> string" where
  "zero_pad w s = replicate (w - length s) (CHR ''0'') @ s"

lemma digit_char_props [simp]:
  "d < 10 \<Longrightarrow> is_digit (digit_char d)" "d < 10 \<Longrightarrow> digit_val (digit_char d) = d"
  by (auto simp: digit_char_def is_digit_def between_def digit_val_def cp_def)

lemma nat_of_digits_snoc [simp]: "nat_of_digits (s @ [c]) = 10 * nat_of_digits s + digit_val c"
  by (simp add: nat_of_digits_def)

lemma dec_nat_digits: "dec_nat n \<noteq> [] \<and> list_all is_digit (dec_nat n) \<and> nat_of_digits (dec_nat n) = n"
proof (induction n rule: dec_nat.induct)
  case (1 n)
  show ?case
  proof (cases "n < 10")
    case True
    then show ?thesis by (simp add: dec_nat.simps [of n] nat_of_digits_def)
  next
    case False
    with 1 show ?thesis by (simp add: dec_nat.simps [of n])
  qed
qed

lemma digit_char_eqI: "cp c = 48 + n \<Longrightarrow> c = digit_char n"
proof -
  assume "cp c = 48 + n"
  then have "digit_char n = char_of (of_char c :: nat)" by (simp add: digit_char_def cp_def)
  then show ?thesis by simp
qed

lemma digit_consts: "CHR ''0'' = digit_char 0" "CHR ''1'' = digit_char 1" "CHR ''2'' = digit_char 2"
    "CHR ''3'' = digit_char 3"
  by (rule digit_char_eqI, simp add: cp_def)+

text \<open>
  \<open>str.isdigit\<close> holds for the superscripts two, three and one as well, which \<open>int\<close> refuses.
\<close>

definition py_isdigit_char :: "char \<Rightarrow> bool" where
  "py_isdigit_char c = (is_digit c \<or> cp c \<in> {178, 179, 185})"

definition py_isdigit :: "string \<Rightarrow> bool" where
  "py_isdigit s = (s \<noteq> [] \<and> list_all py_isdigit_char s)"

text \<open>
  \<open>int(s)\<close>: surrounding whitespace, one optional sign, then digits in which single
  underscores may separate digits; \<open>None\<close> is the \<open>ValueError\<close>.
\<close>

fun int_digits :: "bool \<Rightarrow> string \<Rightarrow> string option" where
  "int_digits prev [] = (if prev then Some [] else None)"
| "int_digits prev (c # cs) =
     (if is_digit c then map_option ((#) c) (int_digits True cs)
      else if c = CHR ''_'' \<and> prev then
        (case cs of d # _ \<Rightarrow> if is_digit d then int_digits False cs else None | [] \<Rightarrow> None)
      else None)"

definition py_int :: "string \<Rightarrow> int option" where
  "py_int s =
     (let t = py_strip py_isspace s in
      case t of
        [] \<Rightarrow> None
      | c # cs \<Rightarrow>
          if c = CHR ''-'' then map_option (\<lambda>d. - int (nat_of_digits d)) (int_digits False cs)
          else if c = CHR ''+'' then map_option (\<lambda>d. int (nat_of_digits d)) (int_digits False cs)
          else map_option (\<lambda>d. int (nat_of_digits d)) (int_digits False t))"

lemma digit_not_space: "is_digit c \<Longrightarrow> \<not> py_isspace c \<and> c \<noteq> CHR ''-'' \<and> c \<noteq> CHR ''+''"
  by (auto simp: is_digit_def between_def py_isspace_def cp_def)

lemma int_digits_all: "list_all is_digit s \<Longrightarrow> int_digits prev s = (if s = [] \<and> \<not> prev then None else Some s)"
  by (induction s arbitrary: prev) auto

lemma py_int_digits:
  assumes "s \<noteq> []" "list_all is_digit s"
  shows "py_int s = Some (int (nat_of_digits s))"
proof -
  from assms have "is_digit (hd s)" "is_digit (last s)"
    by (auto simp: list_all_iff)
  then have "py_strip py_isspace s = s"
    by (intro py_strip_id) (auto dest: digit_not_space)
  then show ?thesis
    using assms digit_not_space [of "hd s"] \<open>is_digit (hd s)\<close>
    by (cases s) (auto simp: py_int_def int_digits_all Let_def)
qed

text \<open>Reading back a printed number.\<close>

lemma py_int_dec_nat: "py_int (dec_nat n) = Some (int n)"
  using dec_nat_digits [of n] by (simp add: py_int_digits)

section \<open>Dates\<close>

record ymd =
  dyear :: int
  dmonth :: int
  dday :: int

definition leap :: "int \<Rightarrow> bool" where
  "leap y = (y mod 4 = 0 \<and> (y mod 100 \<noteq> 0 \<or> y mod 400 = 0))"

definition month_lengths :: "bool \<Rightarrow> int list" where
  "month_lengths l = [31, if l then 29 else 28, 31, 30, 31, 30, 31, 31, 30, 31, 30, 31]"

definition days_in_month :: "int \<Rightarrow> int \<Rightarrow> int" where
  "days_in_month y m = month_lengths (leap y) ! nat (m - 1)"

definition valid_ymd :: "ymd \<Rightarrow> bool" where
  "valid_ymd d = (1 \<le> dyear d \<and> dyear d \<le> 9999 \<and> 1 \<le> dmonth d \<and> dmonth d \<le> 12 \<and>
     1 \<le> dday d \<and> dday d \<le> days_in_month (dyear d) (dmonth d))"

definition mk_date :: "int \<Rightarrow> int \<Rightarrow> int \<Rightarrow> ymd option" where
  "mk_date y m d = (let t = \<lparr>dyear = y, dmonth = m, dday = d\<rparr> in if valid_ymd t then Some t else None)"

definition days_before_year :: "int \<Rightarrow> int" where
  "days_before_year y = (let p = y - 1 in p * 365 + p div 4 - p div 100 + p div 400)"

definition days_before_month :: "int \<Rightarrow> int \<Rightarrow> int" where
  "days_before_month y m = sum_list (take (nat (m - 1)) (month_lengths (leap y)))"

definition ord_of :: "ymd \<Rightarrow> int" where
  "ord_of d = days_before_year (dyear d) + days_before_month (dyear d) (dmonth d) + dday d"

text \<open>The month and day of a day number within a year, both counted from zero.\<close>

fun month_walk :: "int list \<Rightarrow> int \<Rightarrow> int \<Rightarrow> int \<times> int" where
  "month_walk [] m n = (m, n + 1)"
| "month_walk (l # ls) m n = (if n < l then (m, n + 1) else month_walk ls (m + 1) (n - l))"

definition of_ord :: "int \<Rightarrow> ymd" where
  "of_ord n =
     (let n0 = n - 1; n400 = n0 div 146097; r400 = n0 mod 146097;
          n100 = min 3 (r400 div 36524); r100 = r400 - n100 * 36524;
          n4 = r100 div 1461; r4 = r100 mod 1461;
          n1 = min 3 (r4 div 365); r1 = r4 - n1 * 365;
          y = n400 * 400 + n100 * 100 + n4 * 4 + n1 + 1;
          md = month_walk (month_lengths (leap y)) 1 r1
      in \<lparr>dyear = y, dmonth = fst md, dday = snd md\<rparr>)"

definition max_ordinal :: int where
  "max_ordinal = 3652059"

definition date_add :: "ymd \<Rightarrow> int \<Rightarrow> ymd option" where
  "date_add d k = (let n = ord_of d + k in if 1 \<le> n \<and> n \<le> max_ordinal then Some (of_ord n) else None)"

definition weekday :: "ymd \<Rightarrow> int" where
  "weekday d = (ord_of d + 6) mod 7"

definition iso_week1_monday :: "int \<Rightarrow> int" where
  "iso_week1_monday y =
     (let first = days_before_year y + 1; fw = (first + 6) mod 7; mon = first - fw
      in if fw > 3 then mon + 7 else mon)"

definition isocalendar :: "ymd \<Rightarrow> int \<times> int \<times> int" where
  "isocalendar d =
     (let y = dyear d; today = ord_of d; w1 = iso_week1_monday y; week = (today - w1) div 7
      in if week < 0
         then (let w0 = iso_week1_monday (y - 1)
               in (y - 1, (today - w0) div 7 + 1, (today - w0) mod 7 + 1))
         else if week \<ge> 52 \<and> today \<ge> iso_week1_monday (y + 1)
         then (y + 1, 1, (today - w1) mod 7 + 1)
         else (y, week + 1, (today - w1) mod 7 + 1))"

definition fromisocalendar :: "int \<Rightarrow> int \<Rightarrow> int \<Rightarrow> ymd option" where
  "fromisocalendar y week dow =
     (if \<not> (1 \<le> y \<and> y \<le> 9999) then None
      else let fw = (days_before_year y + 1) mod 7;
               long = (fw = 4 \<or> (fw = 3 \<and> leap y));
               ok = ((0 < week \<and> week < 53) \<or> (week = 53 \<and> long))
           in if \<not> ok \<or> \<not> (0 < dow \<and> dow < 8) then None
              else let n = iso_week1_monday y + (week - 1) * 7 + (dow - 1)
                   in if 1 \<le> n \<and> n \<le> max_ordinal then Some (of_ord n) else None)"

definition isoformat :: "ymd \<Rightarrow> string" where
  "isoformat d =
     zero_pad 4 (dec_int (dyear d)) @ ''-'' @ zero_pad 2 (dec_int (dmonth d)) @ ''-'' @
     zero_pad 2 (dec_int (dday d))"

text \<open>
  \<open>datetime.strptime(value, "%Y-%m-%d")\<close>: the format is compiled to a pattern with the
  alternatives below, tried in this order; text left over is a \<open>ValueError\<close>, and so is a
  triple that is no calendar date.
\<close>

definition strp_month :: "string \<Rightarrow> (int \<times> string) option" where
  "strp_month s = (case s of
       a # b # rest \<Rightarrow>
         if (a = CHR ''1'' \<and> b \<in> set ''012'') \<or> (a = CHR ''0'' \<and> is_digit b \<and> b \<noteq> CHR ''0'')
         then (case rest of
                 c # rest' \<Rightarrow>
                   if c = CHR ''-'' then Some (10 * int (digit_val a) + int (digit_val b), rest') else None
               | [] \<Rightarrow> None)
         else if is_digit a \<and> a \<noteq> CHR ''0'' \<and> b = CHR ''-'' then Some (int (digit_val a), rest)
         else None
     | _ \<Rightarrow> None)"

definition strp_day :: "string \<Rightarrow> int option" where
  "strp_day s = (case s of
       [a, b] \<Rightarrow>
         if is_digit b \<and> ((a = CHR ''3'' \<and> b \<in> set ''01'') \<or> a \<in> set ''12'' \<or>
              (a \<in> set ''0 '' \<and> b \<noteq> CHR ''0''))
         then Some (10 * (if a = CHR '' '' then 0 else int (digit_val a)) + int (digit_val b))
         else None
     | [b] \<Rightarrow> if is_digit b \<and> b \<noteq> CHR ''0'' then Some (int (digit_val b)) else None
     | _ \<Rightarrow> None)"

definition strptime_ymd :: "string \<Rightarrow> ymd option" where
  "strptime_ymd s = (case s of
       y1 # y2 # y3 # y4 # h # rest \<Rightarrow>
         if list_all is_digit [y1, y2, y3, y4] \<and> h = CHR ''-''
         then (case strp_month rest of
                 None \<Rightarrow> None
               | Some (m, rest') \<Rightarrow>
                   (case strp_day rest' of
                      None \<Rightarrow> None
                    | Some d \<Rightarrow> mk_date (int (nat_of_digits [y1, y2, y3, y4])) m d))
         else None
     | _ \<Rightarrow> None)"

section \<open>Calendar laws\<close>

lemma div_pred:
  assumes "0 < n"
  shows "(y::int) div n = (y - 1) div n + (if y mod n = 0 then 1 else 0)"
proof (cases "y mod n = 0")
  case True
  then have "y - 1 = n * (y div n - 1) + (n - 1)"
    using mult_div_mod_eq [of n y] by (simp add: algebra_simps)
  then have "(y - 1) div n = y div n - 1"
    using int_div_pos_eq [of "y - 1" n "y div n - 1" "n - 1"] assms by simp
  with True show ?thesis by simp
next
  case False
  with assms have "0 \<le> y mod n - 1" "y mod n - 1 < n"
    using pos_mod_sign [of n y] pos_mod_bound [of n y] by linarith+
  moreover have "y - 1 = n * (y div n) + (y mod n - 1)"
    using mult_div_mod_eq [of n y] by linarith
  ultimately have "(y - 1) div n = y div n" by (metis int_div_pos_eq)
  with False show ?thesis by simp
qed

lemma days_before_year_Suc:
  "days_before_year (y + 1) = days_before_year y + (if leap y then 366 else 365)"
proof -
  define a b c where "a = (y - 1) div 4" and "b = (y - 1) div 100" and "c = (y - 1) div 400"
  define p q r where "p \<longleftrightarrow> y mod 4 = 0" and "q \<longleftrightarrow> y mod 100 = 0" and "r \<longleftrightarrow> y mod 400 = 0"
  have rq: "r \<Longrightarrow> q" "q \<Longrightarrow> p"
    unfolding p_def q_def r_def mod_eq_0_iff_dvd by (auto elim: dvd_trans [rotated])
  have d: "y div 4 = a + (if p then 1 else 0)" "y div 100 = b + (if q then 1 else 0)"
    "y div 400 = c + (if r then 1 else 0)"
    unfolding a_def b_def c_def p_def q_def r_def by (rule div_pred, simp)+
  have "days_before_year (y + 1) = y * 365 + y div 4 - y div 100 + y div 400"
    by (simp only: days_before_year_def Let_def add_diff_cancel_right')
  moreover have "days_before_year y = (y - 1) * 365 + a - b + c"
    by (simp only: days_before_year_def Let_def a_def b_def c_def)
  moreover have "leap y \<longleftrightarrow> p \<and> (\<not> q \<or> r)" by (simp only: leap_def p_def q_def r_def simp_thms)
  ultimately show ?thesis unfolding d using rq by (cases p; cases q; cases r; simp)
qed

lemma days_before_year_mono: "y \<le> z \<Longrightarrow> days_before_year y \<le> days_before_year z"
proof -
  have "days_before_year y \<le> days_before_year (y + int k)" for k
  proof (induction k)
    case (Suc k)
    have "y + int (Suc k) = (y + int k) + 1" by simp
    then have "days_before_year (y + int k) \<le> days_before_year (y + int (Suc k))"
      by (simp only: days_before_year_Suc) simp
    with Suc show ?case by linarith
  qed simp
  from this [of "nat (z - y)"] show "y \<le> z \<Longrightarrow> days_before_year y \<le> days_before_year z" by simp
qed

lemma length_month_lengths [simp]: "length (month_lengths l) = 12"
  by (simp add: month_lengths_def)

lemma month_lengths_bounds: "n < 12 \<Longrightarrow> 28 \<le> month_lengths l ! n \<and> month_lengths l ! n \<le> 31"
proof -
  have "list_all (\<lambda>k. 28 \<le> k \<and> k \<le> 31) (month_lengths l)" by (simp add: month_lengths_def)
  then show "n < 12 \<Longrightarrow> 28 \<le> month_lengths l ! n \<and> month_lengths l ! n \<le> 31"
    by (simp add: list_all_length)
qed

lemma sum_month_lengths: "sum_list (month_lengths l) = (if l then 366 else 365)"
  by (simp add: month_lengths_def)

lemma days_before_month_1 [simp]: "days_before_month y 1 = 0"
  by (simp add: days_before_month_def)

lemma days_before_month_Suc:
  assumes "1 \<le> m" "m \<le> 12"
  shows "days_before_month y (m + 1) = days_before_month y m + days_in_month y m"
proof -
  have n: "nat (m + 1 - 1) = Suc (nat (m - 1))" "nat (m - 1) < 12" using assms by auto
  then show ?thesis
    by (simp only: days_before_month_def days_in_month_def) (simp add: take_Suc_conv_app_nth)
qed

lemma days_before_month_13: "days_before_month y 13 = (if leap y then 366 else 365)"
  by (simp add: days_before_month_def sum_month_lengths)

lemma days_in_month_pos: "1 \<le> m \<Longrightarrow> m \<le> 12 \<Longrightarrow> 28 \<le> days_in_month y m"
  using month_lengths_bounds [of "nat (m - 1)"] by (simp add: days_in_month_def)

lemma days_before_month_mono:
  assumes "1 \<le> m" "m \<le> k" "k \<le> 13"
  shows "days_before_month y m \<le> days_before_month y k"
proof -
  have "m + int j \<le> 13 \<Longrightarrow> days_before_month y m \<le> days_before_month y (m + int j)" for j
  proof (induction j)
    case (Suc j)
    have "days_before_month y (m + int (Suc j)) =
        days_before_month y (m + int j) + days_in_month y (m + int j)"
      using days_before_month_Suc [of "m + int j" y] assms Suc.prems by (simp add: ac_simps)
    with Suc days_in_month_pos [of "m + int j" y] assms show ?case by simp
  qed simp
  from this [of "nat (k - m)"] assms show ?thesis by simp
qed

lemma days_before_month_less:
  assumes "1 \<le> m" "m < k" "k \<le> 13"
  shows "days_before_month y m + days_in_month y m \<le> days_before_month y k"
  using days_before_month_Suc [of m y] days_before_month_mono [of "m + 1" k y] assms by simp

lemma days_before_month_bounds:
  assumes "1 \<le> m" "m \<le> 12" "1 \<le> d" "d \<le> days_in_month y m"
  shows "1 \<le> days_before_month y m + d" "days_before_month y m + d \<le> (if leap y then 366 else 365)"
proof -
  show "1 \<le> days_before_month y m + d"
    using days_before_month_mono [of 1 m y] assms by simp
  show "days_before_month y m + d \<le> (if leap y then 366 else 365)"
    using days_before_month_less [of m 13 y] assms by (simp add: days_before_month_13)
qed

lemma month_walk_spec:
  assumes "0 \<le> n" "n < sum_list ls" "list_all (\<lambda>l. 0 \<le> l) ls"
  shows "\<exists>i. i < length ls \<and> fst (month_walk ls m n) = m + int i \<and>
    1 \<le> snd (month_walk ls m n) \<and> snd (month_walk ls m n) \<le> ls ! i \<and>
    sum_list (take i ls) + snd (month_walk ls m n) = n + 1"
  using assms
proof (induction ls arbitrary: m n)
  case Nil
  then show ?case by simp
next
  case (Cons l ls)
  show ?case
  proof (cases "n < l")
    case True
    with Cons.prems show ?thesis by (intro exI [of _ 0]) auto
  next
    case False
    with Cons.prems obtain i where "i < length ls" "fst (month_walk ls (m + 1) (n - l)) = m + 1 + int i"
      "1 \<le> snd (month_walk ls (m + 1) (n - l))" "snd (month_walk ls (m + 1) (n - l)) \<le> ls ! i"
      "sum_list (take i ls) + snd (month_walk ls (m + 1) (n - l)) = n - l + 1"
      using Cons.IH [of "n - l" "m + 1"] by auto
    with False show ?thesis by (intro exI [of _ "Suc i"]) auto
  qed
qed

text \<open>Within one year, day number \<open>r\<close> (from zero) is the walked month and day.\<close>

lemma month_walk_year:
  assumes "0 \<le> r" "r < (if leap y then 366 else 365)"
  defines "md \<equiv> month_walk (month_lengths (leap y)) 1 r"
  shows "1 \<le> fst md" "fst md \<le> 12" "1 \<le> snd md" "snd md \<le> days_in_month y (fst md)"
    "days_before_month y (fst md) + snd md = r + 1"
proof -
  have "list_all (\<lambda>l. 0 \<le> l) (month_lengths (leap y))" by (simp add: month_lengths_def)
  then obtain i where i: "i < 12" "fst md = 1 + int i" "1 \<le> snd md" "snd md \<le> month_lengths (leap y) ! i"
    "sum_list (take i (month_lengths (leap y))) + snd md = r + 1"
    using month_walk_spec [of r "month_lengths (leap y)" 1] assms sum_month_lengths [of "leap y"]
    by (auto split: if_splits)
  then show "1 \<le> fst md" "fst md \<le> 12" "1 \<le> snd md" "snd md \<le> days_in_month y (fst md)"
    "days_before_month y (fst md) + snd md = r + 1"
    by (auto simp: days_in_month_def days_before_month_def)
qed

text \<open>
  The mixed-radix decomposition of \<open>fromordinal\<close>: with the quotients in their ranges the year
  found starts at or before the day, by less than its own length.
\<close>

lemma days_before_year_radix:
  assumes "0 \<le> b" "b \<le> 3" "0 \<le> c" "c \<le> 24" "0 \<le> d" "d \<le> (3::int)"
  shows "days_before_year (a * 400 + b * 100 + c * 4 + d + 1) = a * 146097 + b * 36524 + c * 1461 + d * 365"
    and "leap (a * 400 + b * 100 + c * 4 + d + 1) \<longleftrightarrow> d = 3 \<and> (c \<noteq> 24 \<or> b = 3)"
proof -
  let ?p = "a * 400 + b * 100 + c * 4 + d"
  have q: "?p div 4 = a * 100 + b * 25 + c" "?p div 100 = a * 4 + b" "?p div 400 = a"
    using assms by (auto intro!: int_div_pos_eq)
  then show "days_before_year (?p + 1) = a * 146097 + b * 36524 + c * 1461 + d * 365"
    by (simp add: days_before_year_def Let_def)
  have f: "(?p + 1) mod 4 = 0 \<longleftrightarrow> d = 3" "(?p + 1) mod 100 = 0 \<longleftrightarrow> d = 3 \<and> c = 24"
    "(?p + 1) mod 400 = 0 \<longleftrightarrow> d = 3 \<and> c = 24 \<and> b = 3"
  proof -
    show "(?p + 1) mod 4 = 0 \<longleftrightarrow> d = 3"
    proof (cases "d = 3")
      case True
      then have "?p + 1 = 4 * (a * 100 + b * 25 + c + 1) + 0" by simp
      then have "(?p + 1) mod 4 = 0" by (rule int_mod_pos_eq) auto
      with True show ?thesis by simp
    next
      case False
      have "?p + 1 = 4 * (a * 100 + b * 25 + c) + (d + 1)" by simp
      then have "(?p + 1) mod 4 = d + 1" by (rule int_mod_pos_eq) (use assms False in auto)
      with False assms show ?thesis by simp
    qed
    show "(?p + 1) mod 100 = 0 \<longleftrightarrow> d = 3 \<and> c = 24"
    proof (cases "d = 3 \<and> c = 24")
      case True
      then have "?p + 1 = 100 * (a * 4 + b + 1) + 0" by simp
      then have "(?p + 1) mod 100 = 0" by (rule int_mod_pos_eq) auto
      with True show ?thesis by simp
    next
      case False
      have "?p + 1 = 100 * (a * 4 + b) + (c * 4 + d + 1)" by simp
      then have "(?p + 1) mod 100 = c * 4 + d + 1" by (rule int_mod_pos_eq) (use assms False in auto)
      with False assms show ?thesis by simp
    qed
    show "(?p + 1) mod 400 = 0 \<longleftrightarrow> d = 3 \<and> c = 24 \<and> b = 3"
    proof (cases "d = 3 \<and> c = 24 \<and> b = 3")
      case True
      then have "?p + 1 = 400 * (a + 1) + 0" by simp
      then have "(?p + 1) mod 400 = 0" by (rule int_mod_pos_eq) auto
      with True show ?thesis by simp
    next
      case False
      have "?p + 1 = 400 * a + (b * 100 + c * 4 + d + 1)" by simp
      then have "(?p + 1) mod 400 = b * 100 + c * 4 + d + 1"
        by (rule int_mod_pos_eq) (use assms False in auto)
      with False assms show ?thesis by simp
    qed
  qed
  then show "leap (?p + 1) \<longleftrightarrow> d = 3 \<and> (c \<noteq> 24 \<or> b = 3)"
    unfolding leap_def by auto
qed

text \<open>\<open>fromordinal\<close> is a right inverse of \<open>toordinal\<close> and returns a calendar date.\<close>

lemma of_ord_correct:
  assumes n: "1 \<le> n"
  shows "ord_of (of_ord n) = n" and "1 \<le> dmonth (of_ord n)" and "dmonth (of_ord n) \<le> 12"
    and "1 \<le> dday (of_ord n)" and "dday (of_ord n) \<le> days_in_month (dyear (of_ord n)) (dmonth (of_ord n))"
    and "days_before_year (dyear (of_ord n)) < n"
    and "n \<le> days_before_year (dyear (of_ord n) + 1)"
proof -
  define a where "a = (n - 1) div 146097"
  define r where "r = (n - 1) mod 146097"
  define b where "b = min 3 (r div 36524)"
  define r100 where "r100 = r - b * 36524"
  define c where "c = r100 div 1461"
  define r4 where "r4 = r100 mod 1461"
  define d where "d = min 3 (r4 div 365)"
  define r1 where "r1 = r4 - d * 365"
  define y where "y = a * 400 + b * 100 + c * 4 + d + 1"
  define md where "md = month_walk (month_lengths (leap y)) 1 r1"
  have r: "0 \<le> r" "r < 146097" "n - 1 = a * 146097 + r" by (simp_all add: r_def a_def)
  then have b: "0 \<le> b" "b \<le> 3" "0 \<le> r100" "r100 < 36525" "b < 3 \<Longrightarrow> r100 < 36524"
    by (auto simp: b_def r100_def min_def) 
  have c: "0 \<le> c" "0 \<le> r4" "r4 < 1461" "r100 = c * 1461 + r4"
    using b by (simp_all add: c_def r4_def pos_imp_zdiv_nonneg_iff)
  have c24: "c \<le> 24" using b c by linarith
  have d: "0 \<le> d" "d \<le> 3" "0 \<le> r1" "r1 < 366" "d < 3 \<Longrightarrow> r1 < 365"
    using c by (auto simp: d_def r1_def min_def)
  note radix = days_before_year_radix [OF b(1,2) c(1) c24 d(1,2), of a, folded y_def]
  have dby: "days_before_year y + r1 = n - 1"
    using radix(1) r(3) c(4) by (simp add: r100_def r1_def)
  have r1: "r1 < (if leap y then 366 else 365)"
  proof (cases "leap y")
    case False
    then consider "d < 3" | "d = 3" "c = 24" "b < 3" using radix(2) d b by force
    then show ?thesis
    proof cases
      case 2
      then have "r4 < 1460" using b c by linarith
      with 2 False show ?thesis by (simp add: r1_def)
    qed (use d False in auto)
  qed (use d in auto)
  have ofn: "of_ord n = \<lparr>dyear = y, dmonth = fst md, dday = snd md\<rparr>"
    by (simp only: of_ord_def Let_def a_def [symmetric] r_def [symmetric] b_def [symmetric]
        r100_def [symmetric] c_def [symmetric] r4_def [symmetric] d_def [symmetric]
        r1_def [symmetric] y_def [symmetric] md_def [symmetric])
  note w = month_walk_year [OF d(3) r1, folded md_def]
  show "1 \<le> dmonth (of_ord n)" "dmonth (of_ord n) \<le> 12" "1 \<le> dday (of_ord n)"
    "dday (of_ord n) \<le> days_in_month (dyear (of_ord n)) (dmonth (of_ord n))"
    using w by (simp_all add: ofn)
  show "ord_of (of_ord n) = n" using w(5) dby by (simp add: ofn ord_of_def)
  show "days_before_year (dyear (of_ord n)) < n" "n \<le> days_before_year (dyear (of_ord n) + 1)"
    using dby d(3) r1 days_before_year_Suc [of y] unfolding ofn ymd.simps by linarith+
qed

lemma days_before_year_strict: "days_before_year y < days_before_year z \<Longrightarrow> y < z"
  using days_before_year_mono [of z y] by force

lemma of_ord_valid:
  assumes "1 \<le> n" "n \<le> max_ordinal"
  shows "valid_ymd (of_ord n)"
proof -
  note c = of_ord_correct [OF assms(1)]
  have "days_before_year 1 < days_before_year (dyear (of_ord n) + 1)"
    using c(7) assms(1) by (simp add: days_before_year_def Let_def)
  then have "1 < dyear (of_ord n) + 1" by (rule days_before_year_strict)
  moreover have "days_before_year (dyear (of_ord n)) < days_before_year 10000"
    using c(6) assms(2) by (simp add: max_ordinal_def days_before_year_def Let_def)
  then have "dyear (of_ord n) < 10000" by (rule days_before_year_strict)
  ultimately show ?thesis using c by (simp add: valid_ymd_def)
qed

lemma valid_ymd_ord_bounds:
  assumes "valid_ymd d"
  shows "days_before_year (dyear d) < ord_of d" "ord_of d \<le> days_before_year (dyear d + 1)"
  using assms days_before_month_bounds [of "dmonth d" "dday d" "dyear d"]
  by (auto simp: valid_ymd_def ord_of_def days_before_year_Suc)

lemma valid_ymd_ord_range:
  assumes "valid_ymd d"
  shows "1 \<le> ord_of d" "ord_of d \<le> max_ordinal"
proof -
  have "days_before_year 1 \<le> days_before_year (dyear d)" "days_before_year (dyear d + 1) \<le> days_before_year 10000"
    using assms by (auto simp: valid_ymd_def intro!: days_before_year_mono)
  moreover have "days_before_year 1 = 0" "days_before_year 10000 = max_ordinal"
    by (simp_all add: days_before_year_def max_ordinal_def Let_def)
  ultimately show "1 \<le> ord_of d" "ord_of d \<le> max_ordinal"
    using valid_ymd_ord_bounds [OF assms] by linarith+
qed

lemma ord_of_less_year: "valid_ymd d \<Longrightarrow> valid_ymd e \<Longrightarrow> dyear d < dyear e \<Longrightarrow> ord_of d < ord_of e"
  using valid_ymd_ord_bounds [of d] valid_ymd_ord_bounds [of e] days_before_year_mono [of "dyear d + 1" "dyear e"]
  by simp

lemma ord_of_less_month:
  "valid_ymd d \<Longrightarrow> valid_ymd e \<Longrightarrow> dyear d = dyear e \<Longrightarrow> dmonth d < dmonth e \<Longrightarrow> ord_of d < ord_of e"
  using days_before_month_less [of "dmonth d" "dmonth e" "dyear d"]
  by (auto simp: valid_ymd_def ord_of_def)

lemma ord_of_inject:
  assumes "valid_ymd d" "valid_ymd e" "ord_of d = ord_of e"
  shows "d = e"
proof -
  have y: "dyear d = dyear e"
    using ord_of_less_year [of d e] ord_of_less_year [of e d] assms by (metis less_irrefl linorder_neqE)
  then have m: "dmonth d = dmonth e"
    using ord_of_less_month [of d e] ord_of_less_month [of e d] assms by (metis less_irrefl linorder_neqE)
  from y m assms(3) have "dday d = dday e" by (simp add: ord_of_def)
  with y m show ?thesis by simp
qed

lemma of_ord_of: "valid_ymd d \<Longrightarrow> of_ord (ord_of d) = d"
  using of_ord_correct(1) of_ord_valid ord_of_inject valid_ymd_ord_range by metis

lemma date_add_Some:
  "date_add d k = Some e \<longleftrightarrow> 1 \<le> ord_of d + k \<and> ord_of d + k \<le> max_ordinal \<and> e = of_ord (ord_of d + k)"
  by (auto simp: date_add_def Let_def)

lemma date_add_SomeD:
  assumes "date_add d k = Some e"
  shows "valid_ymd e" "ord_of e = ord_of d + k"
  using assms of_ord_valid of_ord_correct(1) by (auto simp: date_add_Some)

lemma iso_week1_monday_mod: "(iso_week1_monday y + 6) mod 7 = 0"
proof -
  define f where "f = days_before_year y + 1"
  have "(f - (f + 6) mod 7 + 6) mod 7 = 0" by presburger
  moreover have "(f - (f + 6) mod 7 + 7 + 6) mod 7 = 0" by presburger
  ultimately show ?thesis by (simp add: iso_week1_monday_def Let_def f_def)
qed

section \<open>The ISO format\<close>

lemma digit_val_bound: "is_digit c \<Longrightarrow> digit_val c < 10"
  by (auto simp: is_digit_def between_def digit_val_def cp_def)

lemma digit_char_val: "is_digit c \<Longrightarrow> digit_char (digit_val c) = c"
  by (auto simp: is_digit_def between_def digit_val_def digit_char_def cp_def)

lemma nat_of_digits_inject:
  "length s = length t \<Longrightarrow> list_all is_digit s \<Longrightarrow> list_all is_digit t \<Longrightarrow>
   nat_of_digits s = nat_of_digits t \<Longrightarrow> s = t"
proof (induction s arbitrary: t rule: rev_induct)
  case (snoc c s)
  then obtain d u where t: "t = u @ [d]" by (cases t rule: rev_exhaust) auto
  have "digit_val c < 10" "digit_val d < 10" using snoc.prems t digit_val_bound by auto
  moreover have "10 * nat_of_digits s + digit_val c = 10 * nat_of_digits u + digit_val d"
    using snoc.prems t by simp
  ultimately have "nat_of_digits s = nat_of_digits u" "digit_val c = digit_val d" by presburger+
  moreover have "is_digit c" "is_digit d" using snoc.prems t by auto
  then have "c = d" using calculation(2) by (metis digit_char_val)
  ultimately show ?case using snoc t by simp
qed simp

lemma nat_of_digits_zeros: "nat_of_digits (replicate k (CHR ''0'') @ s) = nat_of_digits s"
proof -
  have "nat_of_digits (replicate k (CHR ''0'')) = 0"
    by (induction k) (simp_all add: nat_of_digits_def digit_val_def cp_def)
  then show ?thesis by (simp add: nat_of_digits_def)
qed

lemma length_dec_nat: "n < 10 ^ k \<Longrightarrow> 0 < k \<Longrightarrow> length (dec_nat n) \<le> k"
proof (induction k arbitrary: n)
  case (Suc k)
  show ?case
  proof (cases "n < 10")
    case False
    then have "0 < k" using Suc.prems by (cases k) auto
    moreover have "n div 10 < 10 ^ k" using Suc.prems by auto
    ultimately have "length (dec_nat (n div 10)) \<le> k" by (rule Suc.IH [rotated])
    then show ?thesis using False by (simp add: dec_nat.simps [of n])
  qed (simp add: dec_nat.simps [of n])
qed simp

lemma zero_pad_dec:
  assumes "n < 10 ^ w" "0 < w"
  shows "length (zero_pad w (dec_nat n)) = w" "list_all is_digit (zero_pad w (dec_nat n))"
    "nat_of_digits (zero_pad w (dec_nat n)) = n"
  using length_dec_nat [OF assms] dec_nat_digits [of n]
  by (auto simp: zero_pad_def nat_of_digits_zeros is_digit_def between_def list_all_iff cp_def)

lemma zero_pad_unique:
  assumes "list_all is_digit s" "s \<noteq> []"
  shows "zero_pad (length s) (dec_nat (nat_of_digits s)) = s"
proof -
  have "nat_of_digits s < 10 ^ length s" using assms(1)
  proof (induction s rule: rev_induct)
    case (snoc c s)
    then have "nat_of_digits s < 10 ^ length s" "digit_val c < 10" using digit_val_bound by auto
    then have "10 * nat_of_digits s + digit_val c < 10 * 10 ^ length s" by linarith
    then show ?case by simp
  qed (simp add: nat_of_digits_def)
  then show ?thesis using zero_pad_dec [of "nat_of_digits s" "length s"] assms
    by (intro nat_of_digits_inject) auto
qed

section \<open>Reading ISO dates\<close>

text \<open>
  \<open>date.fromisoformat\<close> accepts the documented ISO 8601 forms \<open>YYYY-MM-DD\<close>, \<open>YYYYMMDD\<close>,
  \<open>YYYY-Www-D\<close>, \<open>YYYY-Www\<close>, \<open>YYYYWwwD\<close> and \<open>YYYYWww\<close>, with ASCII digits.
\<close>

definition digits_int :: "string \<Rightarrow> int option" where
  "digits_int s = (if s \<noteq> [] \<and> list_all is_digit s then Some (int (nat_of_digits s)) else None)"

definition date_of_texts :: "(int \<Rightarrow> int \<Rightarrow> int \<Rightarrow> ymd option) \<Rightarrow> string \<Rightarrow> string \<Rightarrow> string \<Rightarrow> ymd option" where
  "date_of_texts f a b c =
     (case (digits_int a, digits_int b, digits_int c) of (Some x, Some y, Some z) \<Rightarrow> f x y z | _ \<Rightarrow> None)"

definition date_fromisoformat :: "string \<Rightarrow> ymd option" where
  "date_fromisoformat s =
     (let dash = CHR ''-''; year = take 4 s in
      if length s = 10 \<and> s ! 4 = dash \<and> s ! 7 = dash \<and> s ! 5 \<noteq> CHR ''W''
      then date_of_texts mk_date year (take 2 (drop 5 s)) (drop 8 s)
      else if length s = 10 \<and> s ! 4 = dash \<and> s ! 5 = CHR ''W'' \<and> s ! 8 = dash
      then date_of_texts fromisocalendar year (take 2 (drop 6 s)) (drop 9 s)
      else if length s = 8 \<and> s ! 4 = dash \<and> s ! 5 = CHR ''W''
      then date_of_texts fromisocalendar year (drop 6 s) ''1''
      else if length s = 8 \<and> s ! 4 = CHR ''W''
      then date_of_texts fromisocalendar year (take 2 (drop 5 s)) (drop 7 s)
      else if length s = 8 then date_of_texts mk_date year (take 2 (drop 4 s)) (drop 6 s)
      else if length s = 7 \<and> s ! 4 = CHR ''W'' then date_of_texts fromisocalendar year (drop 5 s) ''1''
      else None)"

lemma mk_date_valid: "mk_date y m d = Some e \<Longrightarrow> valid_ymd e"
  by (auto simp: mk_date_def Let_def split: if_splits)

lemma fromisocalendar_valid: "fromisocalendar y w d = Some e \<Longrightarrow> valid_ymd e"
  by (auto simp: fromisocalendar_def Let_def of_ord_valid split: if_splits)

lemma date_fromisoformat_valid: "date_fromisoformat s = Some d \<Longrightarrow> valid_ymd d"
  by (auto simp: date_fromisoformat_def date_of_texts_def Let_def dest: mk_date_valid fromisocalendar_valid
      split: if_splits option.splits)

lemma isoformat_parts:
  assumes "valid_ymd d"
  obtains y m e where "isoformat d = y @ [CHR ''-''] @ m @ [CHR ''-''] @ e" and "length y = 4" "length m = 2" "length e = 2"
    and "digits_int y = Some (dyear d)" "digits_int m = Some (dmonth d)" "digits_int e = Some (dday d)"
proof -
  have "days_in_month (dyear d) (dmonth d) \<le> 31"
    using assms month_lengths_bounds [of "nat (dmonth d - 1)" "leap (dyear d)"]
    by (auto simp: days_in_month_def valid_ymd_def)
  with assms have b: "0 \<le> dyear d" "nat (dyear d) < 10 ^ 4" "0 \<le> dmonth d" "nat (dmonth d) < 10 ^ 2"
      "0 \<le> dday d" "nat (dday d) < 10 ^ 2"
    by (auto simp: valid_ymd_def)
  have dec: "0 \<le> i \<Longrightarrow> dec_int i = dec_nat (nat i)" for i by (simp add: dec_int_def)
  have z: "0 \<le> i \<Longrightarrow> nat i < 10 ^ w \<Longrightarrow> 0 < w \<Longrightarrow>
      length (zero_pad w (dec_int i)) = w \<and> digits_int (zero_pad w (dec_int i)) = Some i" for i w
    using zero_pad_dec [of "nat i" w] by (auto simp: dec digits_int_def)
  show ?thesis
    by (rule that [of "zero_pad 4 (dec_int (dyear d))" "zero_pad 2 (dec_int (dmonth d))" "zero_pad 2 (dec_int (dday d))"])
      (use z [OF b(1,2)] z [OF b(3,4)] z [OF b(5,6)] in \<open>simp_all add: isoformat_def\<close>)
qed

lemma date_fromisoformat_isoformat: "valid_ymd d \<Longrightarrow> date_fromisoformat (isoformat d) = Some d"
proof -
  assume v: "valid_ymd d"
  then obtain y m e where iso: "isoformat d = y @ [CHR ''-''] @ m @ [CHR ''-''] @ e"
    and len: "length y = 4" "length m = 2" "length e = 2"
    and val: "digits_int y = Some (dyear d)" "digits_int m = Some (dmonth d)" "digits_int e = Some (dday d)"
    by (rule isoformat_parts)
  obtain m1 m2 where m: "m = [m1, m2]" using len(2) by (auto simp: length_Suc_conv numeral_2_eq_2)
  have "m1 \<noteq> CHR ''W''" using val(2) by (auto simp: m digits_int_def is_digit_def between_def cp_def split: if_splits)
  moreover have "mk_date (dyear d) (dmonth d) (dday d) = Some d"
    using v by (cases d) (simp add: mk_date_def)
  ultimately show ?thesis
    using len val by (simp add: date_fromisoformat_def iso m date_of_texts_def nth_append Let_def)
qed

end
