(* ===== verification/Validation.thy ===== *)
theory Validation
  imports PyText PyDate
begin

text \<open>
  \<open>gubbi/validation.py\<close>: the checks every tool and REST handler applies before a value reaches
  the storage layer.  Each \<open>ValueError\<close> of the source is a constructor of \<open>verror\<close>; the
  compiled patterns are \<open>rx\<close> terms with the names of the source.

  The lemmas show what an accepted topic path looks like (the traversal guarantee), that the
  hardened path of an untrusted source is exactly inside the pattern's language, the shape and
  idempotence of titles and slugs, and when a date string is accepted.
\<close>

datatype verror =
    ToolCallSyntax
  | InvalidTopic string
  | InvalidTitle
  | InvalidDate string
  | InvalidCalendarDate string

section \<open>Sanitising\<close>

definition control_chars :: "char \<Rightarrow> bool" where
  "control_chars c = (cp c \<le> 8 \<or> cp c = 11 \<or> cp c = 12 \<or> (14 \<le> cp c \<and> cp c \<le> 31) \<or> cp c = 127)"

definition safe_label :: "char \<Rightarrow> bool" where
  "safe_label c = (is_azAZ09 c \<or> c \<in> set '' ._-'')"

definition sanitize_label :: "string \<Rightarrow> int \<Rightarrow> string" where
  "sanitize_label v max_len =
     (let v1 = py_strip py_isspace (filter (\<lambda>c. \<not> control_chars c) v);
          v2 = filter safe_label v1
      in py_head max_len v2)"

definition sanitize_freetext :: "string \<Rightarrow> int \<Rightarrow> string" where
  "sanitize_freetext v max_len = py_head max_len (filter (\<lambda>c. \<not> control_chars c) v)"

text \<open>
  The three tool-call patterns.  A word boundary after \<open><parameter\<close> holds at the end of the
  string and before a character outside the word class.
\<close>

definition tool_call_pattern1 :: rx where
  "tool_call_pattern1 = Cat (rx_lit ''<parameter'') (Cat (rx_plus (Cls py_isspace)) (rx_lit ''name=''))"

definition tool_call_pattern2 :: rx where
  "tool_call_pattern2 = rx_lit ''</parameter>''"

definition tool_call_pattern3 :: rx where
  "tool_call_pattern3 = Cat (rx_lit ''<parameter'') (Cls (\<lambda>c. \<not> re_word c))"

definition search_pattern3 :: "string \<Rightarrow> bool" where
  "search_pattern3 s = (rx_search tool_call_pattern3 s \<or>
     drop (length s - length ''<parameter'') s = ''<parameter'')"

definition reject_tool_call_syntax :: "string \<Rightarrow> verror + unit" where
  "reject_tool_call_syntax s =
     (if rx_search tool_call_pattern1 s then Inl ToolCallSyntax
      else if rx_search tool_call_pattern2 s then Inl ToolCallSyntax
      else if search_pattern3 s then Inl ToolCallSyntax
      else Inr ())"

section \<open>Topic paths\<close>

definition topic_segment :: rx where
  "topic_segment = Cat (rx_plus (Cls is_az09)) (Many (Cat (rx_lit ''-'') (rx_plus (Cls is_az09))))"

definition TOPIC_PATTERN :: rx where
  "TOPIC_PATTERN = Cat topic_segment (rx_opt (Cat (rx_lit ''/'') topic_segment))"

definition validate_topic :: "string \<Rightarrow> verror + string" where
  "validate_topic value =
     (let v = py_lower value
      in if re_match_dollar TOPIC_PATTERN v then Inr v else Inl (InvalidTopic v))"

definition ascii_blank :: "char \<Rightarrow> bool" where
  "ascii_blank c = (cp c \<le> 32 \<or> cp c = 127)"

definition harden_llm_topic_path :: "string option \<Rightarrow> int \<Rightarrow> string option" where
  "harden_llm_topic_path raw max_len =
     (case raw of None \<Rightarrow> None
      | Some r \<Rightarrow>
          if r = [] \<or> int (length r) > max_len then None
          else let cleaned = filter (\<lambda>c. \<not> ascii_blank c) r
               in if cleaned = [] then None
                  else case validate_topic cleaned of Inl _ \<Rightarrow> None | Inr t \<Rightarrow> Some t)"

section \<open>Titles\<close>

definition title_char :: "char \<Rightarrow> bool" where
  "title_char c = (is_azAZ09 c \<or> c \<in> set '' _-'')"

definition TITLE_PATTERN1 :: rx where
  "TITLE_PATTERN1 = Cat (Cls is_azAZ09) (Cat (rx_upto 98 (Cls title_char)) (Cls is_azAZ09))"

definition TITLE_PATTERN2 :: rx where
  "TITLE_PATTERN2 = Cls is_azAZ09"

text \<open>\<open>re.sub(r" {2,}", " ", value)\<close>.\<close>

fun collapse_spaces :: "string \<Rightarrow> string" where
  "collapse_spaces (c # d # cs) =
     (if c = CHR '' '' \<and> d = CHR '' '' then collapse_spaces (d # cs) else c # collapse_spaces (d # cs))"
| "collapse_spaces s = s"

definition validate_title :: "string \<Rightarrow> verror + string" where
  "validate_title value =
     (let v1 = py_strip py_isspace value;
          v2 = py_strip py_isspace (filter title_char v1);
          v3 = collapse_spaces v2;
          v4 = py_head 100 v3
      in if v4 = [] \<or> \<not> (re_match_dollar TITLE_PATTERN1 v4 \<or> re_match_dollar TITLE_PATTERN2 v4)
         then Inl InvalidTitle else Inr v4)"

section \<open>Dates\<close>

definition DATE_PATTERN :: rx where
  "DATE_PATTERN =
     (let d = Cls is_digit in
      Cat d (Cat d (Cat d (Cat d (Cat (rx_lit ''-'') (Cat d (Cat d (Cat (rx_lit ''-'') (Cat d d)))))))))"

definition validate_date :: "string \<Rightarrow> verror + string" where
  "validate_date value =
     (if \<not> re_match_dollar DATE_PATTERN value then Inl (InvalidDate value)
      else case strptime_ymd value of
             None \<Rightarrow> Inl (InvalidCalendarDate value)
           | Some d \<Rightarrow> Inr value)"

text \<open>
  The zone database and the clock: \<open>zone_info\<close> is the constructor \<open>ZoneInfo\<close>, which
  raises \<open>ZoneInfoNotFoundError\<close> (a \<open>KeyError\<close>) for an unknown key and a plain
  \<open>ValueError\<close> for a key that is no normalised relative path; \<open>today_at\<close> is
  \<open>datetime.now(tz).date()\<close>.
\<close>

datatype zone_error = ZoneInfoNotFound | ZoneKeyError | ZoneValueError

datatype date_error = ZoneFailed zone_error | DateFormat

definition zone_or_utc :: "(string \<Rightarrow> zone_error + 'tz) \<Rightarrow> string \<Rightarrow> zone_error + 'tz" where
  "zone_or_utc zone_info timezone =
     (case zone_info timezone of
        Inl ZoneInfoNotFound \<Rightarrow> zone_info ''UTC''
      | Inl ZoneKeyError \<Rightarrow> zone_info ''UTC''
      | Inl ZoneValueError \<Rightarrow> Inl ZoneValueError
      | Inr tz \<Rightarrow> Inr tz)"

definition local_today ::
  "(string \<Rightarrow> zone_error + 'tz) \<Rightarrow> ('tz \<Rightarrow> ymd) \<Rightarrow> string \<Rightarrow> date_error + string" where
  "local_today zone_info today_at timezone =
     (case zone_or_utc zone_info timezone of
        Inl e \<Rightarrow> Inl (ZoneFailed e)
      | Inr tz \<Rightarrow> Inr (isoformat (today_at tz)))"

definition is_future_date ::
  "(string \<Rightarrow> zone_error + 'tz) \<Rightarrow> ('tz \<Rightarrow> ymd) \<Rightarrow> string \<Rightarrow> string \<Rightarrow> date_error + bool" where
  "is_future_date zone_info today_at value timezone =
     (case zone_or_utc zone_info timezone of
        Inl e \<Rightarrow> Inl (ZoneFailed e)
      | Inr tz \<Rightarrow>
          (case strptime_ymd value of
             None \<Rightarrow> Inl DateFormat
           | Some d \<Rightarrow> Inr (ord_of (today_at tz) < ord_of d)))"

section \<open>Slugs\<close>

text \<open>
  \<open>SLUG_PATTERN.sub("-", slug)\<close>: every maximal run of other characters becomes one hyphen.
  The flag says that the previous character already belonged to such a run.
\<close>

fun sub_slug :: "bool \<Rightarrow> string \<Rightarrow> string" where
  "sub_slug run [] = []"
| "sub_slug run (c # cs) =
     (if is_az09 c then c # sub_slug False cs
      else if run then sub_slug True cs else CHR ''-'' # sub_slug True cs)"

definition slugify :: "string \<Rightarrow> string" where
  "slugify text =
     (let slug = py_strip py_isspace (py_lower text)
      in py_strip (\<lambda>c. c = CHR ''-'') (sub_slug False slug))"

section \<open>What an accepted topic path looks like\<close>

text \<open>
  A segment: groups of lowercase letters and digits, joined by single hyphens.  The flag says
  that the previous character was alphanumeric.
\<close>

fun seg_auto :: "bool \<Rightarrow> string \<Rightarrow> bool" where
  "seg_auto prev [] = prev"
| "seg_auto prev (c # cs) =
     (if is_az09 c then seg_auto True cs else c = CHR ''-'' \<and> prev \<and> seg_auto False cs)"

definition segment_ok :: "string \<Rightarrow> bool" where
  "segment_ok s = seg_auto False s"

definition topic_path_ok :: "string \<Rightarrow> bool" where
  "topic_path_ok s =
     (let a = takeWhile (\<lambda>c. c \<noteq> CHR ''/'') s; r = dropWhile (\<lambda>c. c \<noteq> CHR ''/'') s
      in segment_ok a \<and> (r = [] \<or> segment_ok (tl r)))"

lemma not_az09_sep [simp]: "\<not> is_az09 (CHR ''-'')" "\<not> is_az09 (CHR ''/'')" "\<not> is_az09 nl"
  by (auto simp: is_az09_def is_az_def is_digit_def between_def cp_def nl_def)

lemma rx_in_many_cls: "rx_in (Many (Cls p)) s \<longleftrightarrow> list_all p s"
  by (induction s) (auto simp: rx_in_many_Cons intro: rx_in.intros)

lemma rx_in_plus_cls: "rx_in (rx_plus (Cls p)) s \<longleftrightarrow> s \<noteq> [] \<and> list_all p s"
  by (auto simp: rx_plus_def rx_in_Cat_Cls rx_in_many_cls neq_Nil_conv)

text \<open>The hyphenated groups after the first run of a segment.\<close>

definition hyphen_groups :: rx where
  "hyphen_groups = Many (Cat (rx_lit ''-'') (rx_plus (Cls is_az09)))"

lemma hyphen_groups_Nil [simp]: "rx_in hyphen_groups []"
  by (simp add: hyphen_groups_def rx_in.in_many0)

lemma hyphen_groups_Cons:
  "rx_in hyphen_groups (c # cs) \<longleftrightarrow>
     c = CHR ''-'' \<and> (\<exists>u v. cs = u @ v \<and> u \<noteq> [] \<and> list_all is_az09 u \<and> rx_in hyphen_groups v)"
  by (auto simp: hyphen_groups_def rx_in_many_Cons rx_in_Cat_lit rx_in_plus_cls)

lemma ex_split_Cons:
  "(\<exists>u v. c # cs = u @ v \<and> P u v) \<longleftrightarrow> P [] (c # cs) \<or> (\<exists>u v. cs = u @ v \<and> P (c # u) v)"
  by (auto simp: Cons_eq_append_conv)

lemma seg_auto_iff:
  "(seg_auto True s \<longleftrightarrow> (\<exists>u v. s = u @ v \<and> list_all is_az09 u \<and> rx_in hyphen_groups v)) \<and>
   (seg_auto False s \<longleftrightarrow> (\<exists>u v. s = u @ v \<and> u \<noteq> [] \<and> list_all is_az09 u \<and> rx_in hyphen_groups v))"
proof (induction s)
  case Nil
  then show ?case by simp
next
  case (Cons c cs)
  then show ?case
    unfolding ex_split_Cons by (cases "is_az09 c") (auto simp: hyphen_groups_Cons)
qed

lemma topic_segment_iff: "rx_in topic_segment s \<longleftrightarrow> segment_ok s"
  unfolding segment_ok_def using seg_auto_iff [of s]
  by (auto simp: topic_segment_def rx_in_cat rx_in_plus_cls hyphen_groups_def)

lemma seg_auto_chars: "seg_auto b s \<Longrightarrow> c \<in> set s \<Longrightarrow> is_az09 c \<or> c = CHR ''-''"
  by (induction b s rule: seg_auto.induct) (auto split: if_splits)

lemma segment_ok_no_slash: "segment_ok s \<Longrightarrow> CHR ''/'' \<notin> set s"
  unfolding segment_ok_def using seg_auto_chars not_az09_sep(2) by fastforce

lemma takeWhile_no_slash:
  assumes "CHR ''/'' \<notin> set a"
  shows "takeWhile (\<lambda>c. c \<noteq> CHR ''/'') (a @ CHR ''/'' # b) = a"
    "dropWhile (\<lambda>c. c \<noteq> CHR ''/'') (a @ CHR ''/'' # b) = CHR ''/'' # b"
    "takeWhile (\<lambda>c. c \<noteq> CHR ''/'') a = a" "dropWhile (\<lambda>c. c \<noteq> CHR ''/'') a = []"
  using assms by (auto simp: takeWhile_append takeWhile_eq_all_conv dropWhile_append dropWhile_eq_Nil_conv)

lemma dropWhile_slash:
  "dropWhile (\<lambda>c. c \<noteq> CHR ''/'') s = [] \<or>
   dropWhile (\<lambda>c. c \<noteq> CHR ''/'') s = CHR ''/'' # tl (dropWhile (\<lambda>c. c \<noteq> CHR ''/'') s)"
  by (induction s) auto

lemma TOPIC_PATTERN_iff: "rx_in TOPIC_PATTERN s \<longleftrightarrow> topic_path_ok s"
proof
  assume "rx_in TOPIC_PATTERN s"
  then consider "segment_ok s" | a b where "s = a @ CHR ''/'' # b" "segment_ok a" "segment_ok b"
    by (auto simp: TOPIC_PATTERN_def rx_in_cat [of topic_segment] rx_in_Cat_lit topic_segment_iff)
  then show "topic_path_ok s"
    by cases (auto simp: topic_path_ok_def takeWhile_no_slash segment_ok_no_slash)
next
  assume ok: "topic_path_ok s"
  let ?a = "takeWhile (\<lambda>c. c \<noteq> CHR ''/'') s" and ?r = "dropWhile (\<lambda>c. c \<noteq> CHR ''/'') s"
  have s: "s = ?a @ ?r" by simp
  have "rx_in (rx_opt (Cat (rx_lit ''/'') topic_segment)) ?r"
    using ok dropWhile_slash [of s] by (auto simp: topic_path_ok_def Let_def rx_in_Cat_lit topic_segment_iff)
  moreover have "rx_in topic_segment ?a"
    using ok by (simp add: topic_path_ok_def Let_def topic_segment_iff)
  ultimately have "rx_in TOPIC_PATTERN (?a @ ?r)"
    unfolding TOPIC_PATTERN_def by (rule rx_in.in_cat [rotated])
  then show "rx_in TOPIC_PATTERN s" by simp
qed

lemma topic_path_ok_chars:
  "topic_path_ok s \<Longrightarrow> c \<in> set s \<Longrightarrow> is_az09 c \<or> c = CHR ''-'' \<or> c = CHR ''/''"
proof -
  assume ok: "topic_path_ok s" and c: "c \<in> set s"
  let ?r = "dropWhile (\<lambda>c. c \<noteq> CHR ''/'') s"
  from c have "c \<in> set (takeWhile (\<lambda>c. c \<noteq> CHR ''/'') s) \<or> c \<in> set ?r"
    by (metis Un_iff set_append takeWhile_dropWhile_id)
  moreover have "c \<in> set ?r \<Longrightarrow> c = CHR ''/'' \<or> c \<in> set (tl ?r)"
    using dropWhile_slash [of s] by (metis empty_iff list.set(1) set_ConsD)
  moreover have "seg_auto False (takeWhile (\<lambda>c. c \<noteq> CHR ''/'') s)" "?r = [] \<or> seg_auto False (tl ?r)"
    using ok by (simp_all add: topic_path_ok_def Let_def segment_ok_def)
  ultimately show ?thesis by (metis empty_iff list.set(1) seg_auto_chars)
qed

lemma topic_path_ok_lower: "topic_path_ok s \<Longrightarrow> py_lower s = s"
  unfolding py_lower_def using topic_path_ok_chars py_lower_char_fix by (auto intro: map_idI)

lemma topic_path_ok_ends:
  assumes "topic_path_ok s"
  shows "s \<noteq> []" "is_az09 (hd s)"
proof -
  let ?a = "takeWhile (\<lambda>c. c \<noteq> CHR ''/'') s"
  have "seg_auto False ?a" using assms by (simp add: topic_path_ok_def Let_def segment_ok_def)
  then have "?a \<noteq> [] \<and> is_az09 (hd ?a)" by (cases ?a) (auto split: if_splits)
  then show "s \<noteq> []" "is_az09 (hd s)" by (cases s; auto split: if_splits)+
qed

lemma validate_topic_Inr:
  "validate_topic s = Inr t \<longleftrightarrow>
     t = py_lower s \<and> (topic_path_ok t \<or> (\<exists>u. t = u @ [nl] \<and> topic_path_ok u))"
  by (auto simp: validate_topic_def Let_def re_match_dollar_iff TOPIC_PATTERN_iff)

lemma harden_SomeD:
  assumes "harden_llm_topic_path (Some r) n = Some t"
  shows "int (length r) \<le> n" "t = py_lower (filter (\<lambda>c. \<not> ascii_blank c) r)" "topic_path_ok t"
proof -
  let ?c = "filter (\<lambda>c. \<not> ascii_blank c) r"
  from assms have len: "int (length r) \<le> n" and v: "validate_topic ?c = Inr t"
    by (auto simp: harden_llm_topic_path_def Let_def split: if_splits sum.splits)
  then have t: "t = py_lower ?c" "topic_path_ok t \<or> (\<exists>u. t = u @ [nl] \<and> topic_path_ok u)"
    unfolding validate_topic_Inr by blast+
  have "nl \<notin> set t"
  proof
    assume "nl \<in> set t"
    then obtain c where c: "\<not> ascii_blank c" "py_lower_char c = nl" by (auto simp: t(1) py_lower_def)
    then have "c = nl" using py_lower_char_cases [of c] by (auto simp: cp_def nl_def)
    with c(1) show False by (simp add: ascii_blank_def cp_def nl_def)
  qed
  with t show "topic_path_ok t" by auto
  from len t show "int (length r) \<le> n" "t = py_lower ?c" by simp_all
qed

section \<open>Slugs\<close>

lemma sub_slug_chars: "c \<in> set (sub_slug run s) \<Longrightarrow> is_az09 c \<or> c = CHR ''-''"
  by (induction run s rule: sub_slug.induct) (auto split: if_splits)

text \<open>No two adjacent hyphens, and none at the start inside a run.\<close>

definition no_hyphen_pair :: "string \<Rightarrow> bool" where
  "no_hyphen_pair s = successively (\<lambda>a b. \<not> (a = CHR ''-'' \<and> b = CHR ''-'')) s"

lemma sub_slug_no_pair:
  "no_hyphen_pair (sub_slug run s) \<and> (run \<longrightarrow> sub_slug run s = [] \<or> is_az09 (hd (sub_slug run s)))"
  by (induction run s rule: sub_slug.induct)
     (auto simp: no_hyphen_pair_def successively_Cons)

lemma segment_ok_iff:
  "segment_ok s \<longleftrightarrow> s \<noteq> [] \<and> hd s \<noteq> CHR ''-'' \<and> last s \<noteq> CHR ''-'' \<and> no_hyphen_pair s \<and>
     (\<forall>c \<in> set s. is_az09 c \<or> c = CHR ''-'')"
proof -
  have "seg_auto b s \<longleftrightarrow> (s = [] \<longrightarrow> b) \<and> (s \<noteq> [] \<longrightarrow> (\<not> b \<longrightarrow> hd s \<noteq> CHR ''-'') \<and> last s \<noteq> CHR ''-'') \<and>
      no_hyphen_pair s \<and> (\<forall>c \<in> set s. is_az09 c \<or> c = CHR ''-'')" for b
    by (induction b s rule: seg_auto.induct) (auto simp: no_hyphen_pair_def successively_Cons)
  then show ?thesis by (auto simp: segment_ok_def)
qed

lemma no_hyphen_pair_strip: "no_hyphen_pair s \<Longrightarrow> no_hyphen_pair (py_strip p s)"
proof -
  assume s: "no_hyphen_pair s"
  have "\<exists>a b. s = a @ py_strip p s @ b"
    unfolding py_strip_def py_lstrip_def py_rstrip_def
    by (metis rev_append rev_rev_ident takeWhile_dropWhile_id)
  then obtain a b where "s = a @ py_strip p s @ b" by blast
  with s show ?thesis unfolding no_hyphen_pair_def by (metis successively_append_iff)
qed

lemma slugify_shape: "slugify s = [] \<or> segment_ok (slugify s)"
proof -
  let ?u = "sub_slug False (py_strip py_isspace (py_lower s))"
  have "set (slugify s) \<subseteq> set ?u" by (simp add: slugify_def Let_def set_py_strip)
  then have "\<forall>c \<in> set (slugify s). is_az09 c \<or> c = CHR ''-''" using sub_slug_chars by blast
  moreover have "no_hyphen_pair (slugify s)"
    using sub_slug_no_pair by (simp add: slugify_def Let_def no_hyphen_pair_strip)
  moreover have "slugify s \<noteq> [] \<Longrightarrow> hd (slugify s) \<noteq> CHR ''-'' \<and> last (slugify s) \<noteq> CHR ''-''"
    using py_strip_no_edge [of "\<lambda>c. c = CHR ''-''" ?u] by (simp add: slugify_def Let_def)
  ultimately show ?thesis by (auto simp: segment_ok_iff)
qed

lemma sub_slug_segment: "seg_auto b s \<Longrightarrow> sub_slug (\<not> b) s = s"
  by (induction b s rule: seg_auto.induct) (auto split: if_splits)

lemma az09_not_space: "is_az09 c \<Longrightarrow> \<not> py_isspace c"
  by (auto simp: is_az09_def is_az_def is_digit_def between_def py_isspace_def cp_def)

lemma segment_ok_topic: "segment_ok s \<Longrightarrow> topic_path_ok s"
  by (simp add: topic_path_ok_def takeWhile_no_slash segment_ok_no_slash)

lemma slugify_segment: "segment_ok s \<Longrightarrow> slugify s = s"
proof -
  assume ok: "segment_ok s"
  then have l: "py_lower s = s" by (simp add: segment_ok_topic topic_path_ok_lower)
  from ok have ends: "s \<noteq> []" "is_az09 (hd s)" "is_az09 (last s)"
    by (auto simp: segment_ok_iff)
  then have "py_strip py_isspace s = s" by (intro py_strip_id) (auto dest: az09_not_space)
  moreover have "sub_slug False s = s"
    using ok sub_slug_segment [of False s] by (cases s) (auto simp: segment_ok_def split: if_splits)
  moreover have "py_strip (\<lambda>c. c = CHR ''-'') s = s"
    using ok by (intro py_strip_id) (simp add: segment_ok_iff)
  ultimately show ?thesis using l by (auto simp: slugify_def Let_def)
qed

section \<open>Titles\<close>

definition title_ok :: "string \<Rightarrow> bool" where
  "title_ok t = (t \<noteq> [] \<and> length t \<le> 100 \<and> is_azAZ09 (hd t) \<and> is_azAZ09 (last t) \<and> list_all title_char t)"

lemma rx_in_upto_cls: "rx_in (rx_upto n (Cls p)) s \<longleftrightarrow> length s \<le> n \<and> list_all p s"
proof (induction n arbitrary: s)
  case (Suc n)
  show ?case by (cases s) (auto simp: rx_in_Cat_Cls Suc.IH)
qed auto

lemma title_char_azAZ09 [simp]: "is_azAZ09 c \<Longrightarrow> title_char c"
  by (simp add: title_char_def)

lemma title_pattern_iff:
  "rx_in TITLE_PATTERN1 t \<or> rx_in TITLE_PATTERN2 t \<longleftrightarrow> title_ok t"
proof
  assume "rx_in TITLE_PATTERN1 t \<or> rx_in TITLE_PATTERN2 t"
  then consider c where "t = [c]" "is_azAZ09 c"
    | a u b where "t = a # u @ [b]" "is_azAZ09 a" "is_azAZ09 b" "length u \<le> 98" "list_all title_char u"
    by (auto simp: TITLE_PATTERN1_def TITLE_PATTERN2_def rx_in_Cat_Cls rx_in_cat [of "rx_upto 98 (Cls title_char)"]
        rx_in_upto_cls)
  then show "title_ok t" by cases (auto simp: title_ok_def)
next
  assume ok: "title_ok t"
  then obtain a r where t: "t = a # r" "is_azAZ09 a" by (cases t) (auto simp: title_ok_def)
  show "rx_in TITLE_PATTERN1 t \<or> rx_in TITLE_PATTERN2 t"
  proof (cases r rule: rev_exhaust)
    case Nil
    with t show ?thesis by (simp add: TITLE_PATTERN2_def)
  next
    case (snoc u b)
    with t ok have "length u \<le> 98" "list_all title_char u" "is_azAZ09 b" by (auto simp: title_ok_def)
    then have "rx_in (Cat (rx_upto 98 (Cls title_char)) (Cls is_azAZ09)) (u @ [b])"
      by (intro rx_in.in_cat) (simp_all add: rx_in_upto_cls)
    with t snoc show ?thesis by (auto simp: TITLE_PATTERN1_def rx_in_Cat_Cls)
  qed
qed

lemma set_collapse_spaces: "set (collapse_spaces s) = set s"
  by (induction s rule: collapse_spaces.induct) auto

lemma collapse_no_pair: "successively (\<lambda>a b. \<not> (a = CHR '' '' \<and> b = CHR '' '')) (collapse_spaces s)"
proof -
  have "collapse_spaces (d # cs) \<noteq> [] \<and> hd (collapse_spaces (d # cs)) = d" for d cs
    by (induction "d # cs" arbitrary: d cs rule: collapse_spaces.induct) auto
  then show ?thesis
    by (induction s rule: collapse_spaces.induct) (auto simp: successively_Cons)
qed

lemma collapse_id:
  "successively (\<lambda>a b. \<not> (a = CHR '' '' \<and> b = CHR '' '')) s \<Longrightarrow> collapse_spaces s = s"
  by (induction s rule: collapse_spaces.induct) (auto simp: successively_Cons)

lemma title_no_nl: "list_all title_char t \<Longrightarrow> t \<noteq> [] \<Longrightarrow> last t \<noteq> nl"
proof
  assume "list_all title_char t" "t \<noteq> []" "last t = nl"
  then have "title_char nl" by (metis last_in_set list_all_iff)
  then show False
    by (simp add: title_char_def is_azAZ09_def is_az_def is_AZ_def is_digit_def between_def cp_def nl_def)
qed

lemma azAZ09_not_space: "is_azAZ09 c \<Longrightarrow> \<not> py_isspace c"
  by (auto simp: is_azAZ09_def is_az_def is_AZ_def is_digit_def between_def py_isspace_def cp_def)

lemma validate_title_InrD:
  assumes "validate_title s = Inr t"
  shows "title_ok t" "successively (\<lambda>a b. \<not> (a = CHR '' '' \<and> b = CHR '' '')) t"
proof -
  let ?v2 = "py_strip py_isspace (filter title_char (py_strip py_isspace s))"
  have t: "t = py_head 100 (collapse_spaces ?v2)" "t \<noteq> []"
    "re_match_dollar TITLE_PATTERN1 t \<or> re_match_dollar TITLE_PATTERN2 t"
    using assms by (auto simp: validate_title_def Let_def split: if_splits)
  have "set t \<subseteq> set ?v2"
    unfolding t(1) using set_py_head [of 100 "collapse_spaces ?v2"] by (simp add: set_collapse_spaces)
  then have "list_all title_char t"
    using set_py_strip [of py_isspace "filter title_char (py_strip py_isspace s)"] by (auto simp: list_all_iff)
  then have "last t \<noteq> nl" using t(2) by (rule title_no_nl)
  with t(3) have "rx_in TITLE_PATTERN1 t \<or> rx_in TITLE_PATTERN2 t"
    by (auto simp: re_match_dollar_def rx_match_iff)
  then show "title_ok t" by (simp add: title_pattern_iff)
  show "successively (\<lambda>a b. \<not> (a = CHR '' '' \<and> b = CHR '' '')) t"
  proof -
    obtain r where "collapse_spaces ?v2 = t @ r"
      unfolding t(1) by (metis append_take_drop_id py_head_def not_numeral_less_zero)
    then show ?thesis using collapse_no_pair [of ?v2] by (simp add: successively_append_iff)
  qed
qed

lemma validate_title_fixed:
  assumes "title_ok t" "successively (\<lambda>a b. \<not> (a = CHR '' '' \<and> b = CHR '' '')) t"
  shows "validate_title t = Inr t"
proof -
  have "t \<noteq> []" "\<not> py_isspace (hd t)" "\<not> py_isspace (last t)"
    using assms(1) azAZ09_not_space by (auto simp: title_ok_def)
  then have s: "py_strip py_isspace t = t" by (intro py_strip_id) simp
  have f: "filter title_char t = t" using assms(1) by (simp add: title_ok_def list_all_iff)
  have h: "py_head 100 t = t" using assms(1) by (intro py_head_short) (simp add: title_ok_def)
  have m: "re_match_dollar TITLE_PATTERN1 t \<or> re_match_dollar TITLE_PATTERN2 t"
    using assms(1) by (auto simp: re_match_dollar_iff title_pattern_iff [symmetric])
  show ?thesis
    unfolding validate_title_def Let_def s f collapse_id [OF assms(2)] h using m \<open>t \<noteq> []\<close> by auto
qed

section \<open>Tool-call syntax\<close>

text \<open>The first pattern is subsumed by the third.\<close>

lemma space_not_word: "py_isspace c \<Longrightarrow> \<not> re_word c"
  by (auto simp: py_isspace_def re_word_def is_azAZ09_def is_az_def is_AZ_def is_digit_def between_def cp_def)

lemma pattern1_subsumed: "rx_search tool_call_pattern1 s \<Longrightarrow> rx_search tool_call_pattern3 s"
proof -
  assume "rx_search tool_call_pattern1 s"
  then obtain a c u v where "s = a @ ''<parameter'' @ c # u @ v" "py_isspace c"
    by (auto simp: rx_search_iff tool_call_pattern1_def rx_in_Cat_lit rx_plus_def
        rx_in_cat [of "Cat (Cls py_isspace) (Many (Cls py_isspace))"] rx_in_Cat_Cls)
  then have "s = a @ (''<parameter'' @ [c]) @ (u @ v)" "rx_in tool_call_pattern3 (''<parameter'' @ [c])"
    by (auto simp: tool_call_pattern3_def rx_in_Cat_lit space_not_word)
  then show ?thesis unfolding rx_search_iff by blast
qed

text \<open>What the check refuses, without the patterns.\<close>

definition has_tool_call :: "string \<Rightarrow> bool" where
  "has_tool_call s = (\<exists>a b. s = a @ ''</parameter>'' @ b \<or>
     (s = a @ ''<parameter'' @ b \<and> (b = [] \<or> \<not> re_word (hd b))))"

lemma suffix_drop: "drop (length s - length w) s = w \<longleftrightarrow> (\<exists>a. s = a @ w)"
  by (metis append_take_drop_id append_eq_conv_conj diff_diff_cancel length_append length_drop
      add_diff_cancel_right')

lemma ex_word_then_char:
  "(\<exists>a u v. s = a @ u @ v \<and> (\<exists>c. u = w @ [c] \<and> p c)) \<longleftrightarrow> (\<exists>a c v. s = a @ w @ c # v \<and> p c)"
proof
  assume "\<exists>a c v. s = a @ w @ c # v \<and> p c"
  then obtain a c v where "s = a @ w @ c # v" "p c" by blast
  then have "s = a @ (w @ [c]) @ v" by simp
  with \<open>p c\<close> show "\<exists>a u v. s = a @ u @ v \<and> (\<exists>c. u = w @ [c] \<and> p c)" by blast
next
  assume "\<exists>a u v. s = a @ u @ v \<and> (\<exists>c. u = w @ [c] \<and> p c)"
  then obtain a v c where "s = a @ w @ c # v" "p c" by auto
  then show "\<exists>a c v. s = a @ w @ c # v \<and> p c" by blast
qed

lemma reject_tool_call_iff: "reject_tool_call_syntax s = Inl ToolCallSyntax \<longleftrightarrow> has_tool_call s"
proof -
  have "rx_search tool_call_pattern2 s \<longleftrightarrow> (\<exists>a b. s = a @ ''</parameter>'' @ b)"
    by (auto simp: rx_search_iff tool_call_pattern2_def)
  moreover have "search_pattern3 s \<longleftrightarrow> (\<exists>a b. s = a @ ''<parameter'' @ b \<and> (b = [] \<or> \<not> re_word (hd b)))"
  proof -
    have p3: "rx_in tool_call_pattern3 u \<longleftrightarrow> (\<exists>c. u = ''<parameter'' @ [c] \<and> \<not> re_word c)" for u
      by (auto simp: tool_call_pattern3_def rx_in_Cat_lit)
    have "rx_search tool_call_pattern3 s \<longleftrightarrow> (\<exists>a c v. s = a @ ''<parameter'' @ c # v \<and> \<not> re_word c)"
      unfolding rx_search_iff p3 by (rule ex_word_then_char)
    moreover have "(\<exists>a b. s = a @ ''<parameter'' @ b \<and> (b = [] \<or> \<not> re_word (hd b))) \<longleftrightarrow>
        (\<exists>a. s = a @ ''<parameter'') \<or> (\<exists>a c v. s = a @ ''<parameter'' @ c # v \<and> \<not> re_word c)"
      by (metis append_Nil2 list.exhaust_sel list.sel(1))
    ultimately show ?thesis unfolding search_pattern3_def suffix_drop by blast
  qed
  moreover have "rx_search tool_call_pattern1 s \<Longrightarrow> search_pattern3 s"
    by (simp add: pattern1_subsumed search_pattern3_def)
  ultimately show ?thesis
    unfolding reject_tool_call_syntax_def has_tool_call_def by auto
qed

section \<open>Accepted dates\<close>

lemma rx_in_DATE_PATTERN:
  "rx_in DATE_PATTERN s \<longleftrightarrow>
     (\<exists>y1 y2 y3 y4 m1 m2 d1 d2. s = [y1, y2, y3, y4, CHR ''-'', m1, m2, CHR ''-'', d1, d2] \<and>
        list_all is_digit [y1, y2, y3, y4] \<and> list_all is_digit [m1, m2] \<and> list_all is_digit [d1, d2])"
  by (auto simp: DATE_PATTERN_def Let_def rx_in_Cat_Cls rx_in_Cat_lit)

lemma digit_eq_iff: "is_digit c \<Longrightarrow> n < 10 \<Longrightarrow> c = digit_char n \<longleftrightarrow> digit_val c = n"
  using digit_char_val by force

lemma strp_month_two:
  assumes "is_digit a" "is_digit b"
  defines "n \<equiv> 10 * int (digit_val a) + int (digit_val b)"
  shows "strp_month (a # b # CHR ''-'' # r) = (if 1 \<le> n \<and> n \<le> 12 then Some (n, r) else None)"
proof -
  have "b \<noteq> CHR ''-''" using assms digit_not_space by blast
  moreover have "(a = CHR ''1'' \<and> b \<in> set ''012'') \<or> (a = CHR ''0'' \<and> is_digit b \<and> b \<noteq> CHR ''0'')
      \<longleftrightarrow> 1 \<le> n \<and> n \<le> 12"
    using assms digit_val_bound [of a] digit_val_bound [of b]
    by (auto simp: digit_consts digit_eq_iff simp del: One_nat_def)
  ultimately show ?thesis by (simp add: strp_month_def n_def)
qed

lemma strp_day_two:
  assumes "is_digit a" "is_digit b"
  defines "n \<equiv> 10 * int (digit_val a) + int (digit_val b)"
  shows "strp_day [a, b] = (if 1 \<le> n \<and> n \<le> 31 then Some n else None)"
proof -
  have s: "a \<noteq> CHR '' ''" using assms(1) by (auto simp: is_digit_def between_def cp_def)
  have "(a = CHR ''3'' \<and> b \<in> set ''01'') \<or> a \<in> set ''12'' \<or> (a \<in> set ''0 '' \<and> b \<noteq> CHR ''0'')
      \<longleftrightarrow> 1 \<le> n \<and> n \<le> 31"
    using assms s digit_val_bound [of a] digit_val_bound [of b]
    by (auto simp: digit_consts digit_eq_iff simp del: One_nat_def)
  with assms s show ?thesis by (simp add: strp_day_def n_def)
qed

lemma days_in_month_le: "1 \<le> m \<Longrightarrow> m \<le> 12 \<Longrightarrow> days_in_month y m \<le> 31"
  using month_lengths_bounds [of "nat (m - 1)"] by (simp add: days_in_month_def)

lemma strptime_ten:
  assumes "list_all is_digit [y1, y2, y3, y4]" "list_all is_digit [m1, m2]" "list_all is_digit [d1, d2]"
  shows "strptime_ymd [y1, y2, y3, y4, CHR ''-'', m1, m2, CHR ''-'', d1, d2] =
    mk_date (int (nat_of_digits [y1, y2, y3, y4])) (int (nat_of_digits [m1, m2])) (int (nat_of_digits [d1, d2]))"
proof -
  have nd: "int (nat_of_digits [a, b]) = 10 * int (digit_val a) + int (digit_val b)" for a b
    by (simp add: nat_of_digits_def)
  show ?thesis
    using assms days_in_month_le [of "int (nat_of_digits [m1, m2])" "int (nat_of_digits [y1, y2, y3, y4])"]
    by (auto simp: strptime_ymd_def strp_month_two strp_day_two nd mk_date_def valid_ymd_def Let_def)
qed

lemma validate_date_Inr:
  "validate_date s = Inr t \<longleftrightarrow> t = s \<and> (\<exists>d. valid_ymd d \<and> s = isoformat d)"
proof
  assume v: "validate_date s = Inr t"
  then obtain d where t: "t = s" "strptime_ymd s = Some d" and m: "re_match_dollar DATE_PATTERN s"
    by (auto simp: validate_date_def split: if_splits option.splits)
  from m obtain y1 y2 y3 y4 m1 m2 d1 d2 where c: "list_all is_digit [y1, y2, y3, y4]"
      "list_all is_digit [m1, m2]" "list_all is_digit [d1, d2]"
    and s: "s = [y1, y2, y3, y4, CHR ''-'', m1, m2, CHR ''-'', d1, d2] \<or>
      s = [y1, y2, y3, y4, CHR ''-'', m1, m2, CHR ''-'', d1, d2, nl]"
    unfolding re_match_dollar_iff rx_in_DATE_PATTERN by auto
  have "strptime_ymd [y1, y2, y3, y4, CHR ''-'', m1, m2, CHR ''-'', d1, d2, nl] = None"
    using c by (auto simp: strptime_ymd_def strp_month_two strp_day_def)
  with s t have s: "s = [y1, y2, y3, y4, CHR ''-'', m1, m2, CHR ''-'', d1, d2]" by auto
  let ?e = "\<lparr>dyear = int (nat_of_digits [y1, y2, y3, y4]), dmonth = int (nat_of_digits [m1, m2]),
    dday = int (nat_of_digits [d1, d2])\<rparr>"
  have e: "valid_ymd ?e"
    using t(2) unfolding s strptime_ten [OF c] by (auto simp: mk_date_def Let_def split: if_splits)
  have "isoformat ?e = s"
    using zero_pad_unique [OF c(1)] zero_pad_unique [OF c(2)] zero_pad_unique [OF c(3)]
    by (simp add: isoformat_def dec_int_def s numeral_eq_Suc)
  with e t(1) show "t = s \<and> (\<exists>d. valid_ymd d \<and> s = isoformat d)" by blast
next
  assume "t = s \<and> (\<exists>d. valid_ymd d \<and> s = isoformat d)"
  then obtain d where d: "t = s" "valid_ymd d" "s = isoformat d" by blast
  define Y M D where "Y = zero_pad 4 (dec_nat (nat (dyear d)))" "M = zero_pad 2 (dec_nat (nat (dmonth d)))"
    "D = zero_pad 2 (dec_nat (nat (dday d)))"
  have b: "0 \<le> dyear d" "nat (dyear d) < 10 ^ 4" "0 \<le> dmonth d" "nat (dmonth d) < 10 ^ 2"
    "0 \<le> dday d" "nat (dday d) < 10 ^ 2"
    using d(2) days_in_month_le [of "dmonth d" "dyear d"] by (auto simp: valid_ymd_def)
  note z = zero_pad_dec [OF b(2), folded Y_M_D_def] zero_pad_dec [OF b(4), folded Y_M_D_def]
    zero_pad_dec [OF b(6), folded Y_M_D_def]
  obtain y1 y2 y3 y4 m1 m2 d1 d2 where l: "Y = [y1, y2, y3, y4]" "M = [m1, m2]" "D = [d1, d2]"
    using z(1,4,7) by (auto simp: numeral_eq_Suc length_Suc_conv)
  have s: "s = [y1, y2, y3, y4, CHR ''-'', m1, m2, CHR ''-'', d1, d2]"
    using d(3) b(1,3,5) l by (simp add: isoformat_def dec_int_def Y_M_D_def)
  have "nat_of_digits Y = nat (dyear d)" "nat_of_digits M = nat (dmonth d)" "nat_of_digits D = nat (dday d)"
    using z by simp_all
  moreover have r: "\<lparr>dyear = dyear d, dmonth = dmonth d, dday = dday d\<rparr> = d"
    by (cases d) simp
  ultimately have "strptime_ymd s = Some d"
    using z(2,5,8) d(2) b(1,3,5) unfolding s l by (subst strptime_ten) (auto simp: mk_date_def Let_def r simp del: ymd.surjective)
  moreover have "rx_in DATE_PATTERN s"
    using z(2,5,8) unfolding rx_in_DATE_PATTERN l s by auto
  ultimately show "validate_date s = Inr t"
    using d(1) by (simp add: validate_date_def re_match_dollar_iff)
qed

section \<open>Properties\<close>

text \<open>
  \<open>validate_topic\<close> returns exactly the lowercased inputs that are one or two
  segments of letters and digits joined by single hyphens (so no dot, no leading slash and no
  third level gets through), or such a path followed by one final newline, which the \<open>$\<close> of
  the pattern lets pass.
\<close>

theorem validate_topic_exact:
  "validate_topic s = Inr t \<longleftrightarrow>
     t = py_lower s \<and> (topic_path_ok t \<or> (\<exists>u. t = u @ [nl] \<and> topic_path_ok u))"
  by (rule validate_topic_Inr)

text \<open>
  \<open>harden_llm_topic_path\<close>, which guards the paths an LLM proposes, accepts
  exactly the inputs of at most \<open>max_len\<close> characters that are a proper topic path once
  blanks and control characters are dropped and letters are lowered; the newline that
  \<open>validate_topic\<close> lets pass never survives it.
\<close>

theorem harden_llm_topic_path_exact:
  "harden_llm_topic_path (Some r) n = Some t \<longleftrightarrow>
     int (length r) \<le> n \<and> t = py_lower (filter (\<lambda>c. \<not> ascii_blank c) r) \<and> topic_path_ok t"
proof
  assume "harden_llm_topic_path (Some r) n = Some t"
  then show "int (length r) \<le> n \<and> t = py_lower (filter (\<lambda>c. \<not> ascii_blank c) r) \<and> topic_path_ok t"
    using harden_SomeD by blast
next
  let ?c = "filter (\<lambda>c. \<not> ascii_blank c) r"
  assume h: "int (length r) \<le> n \<and> t = py_lower ?c \<and> topic_path_ok t"
  then have "?c \<noteq> []" using topic_path_ok_ends(1) [of t] by (auto simp: py_lower_def)
  moreover from this have "r \<noteq> []" by auto
  moreover have "validate_topic ?c = Inr t" unfolding validate_topic_Inr using h by blast
  ultimately show "harden_llm_topic_path (Some r) n = Some t"
    using h by (simp add: harden_llm_topic_path_def)
qed

text \<open>
  A title that \<open>validate_title\<close> returns has 1 to 100 characters, starts and ends
  with a letter or digit, holds only letters, digits, spaces, hyphens and underscores with no
  double space, and validates to itself (the sanitiser is idempotent).
\<close>

theorem validate_title_stable:
  assumes "validate_title s = Inr t"
  shows "title_ok t \<and> successively (\<lambda>a b. \<not> (a = CHR '' '' \<and> b = CHR '' '')) t \<and> validate_title t = Inr t"
  using validate_title_InrD [OF assms] validate_title_fixed by blast

theorem validate_title_stable_witness:
  "title_ok ''Home server'' \<and>
   successively (\<lambda>a b. \<not> (a = CHR '' '' \<and> b = CHR '' '')) ''Home server'' \<and>
   validate_title ''Home server'' = Inr ''Home server''"
proof -
  have "validate_title '' Home:  server'' = Inr ''Home server''" by code_simp
  then show ?thesis by (rule validate_title_stable)
qed

text \<open>
  \<open>slugify\<close> yields the empty string or a well-formed path segment, is
  idempotent, and its non-empty results are topics that \<open>validate_topic\<close> accepts unchanged.
\<close>

theorem slugify_canonical:
  "slugify s = [] \<or>
   (segment_ok (slugify s) \<and> slugify (slugify s) = slugify s \<and>
    validate_topic (slugify s) = Inr (slugify s))"
proof (cases "slugify s = []")
  case False
  with slugify_shape have ok: "segment_ok (slugify s)" by blast
  then have "topic_path_ok (slugify s)" by (rule segment_ok_topic)
  with ok show ?thesis by (simp add: slugify_segment validate_topic_Inr topic_path_ok_lower)
qed simp

text \<open>
  \<open>validate_date\<close> accepts exactly the ISO forms \<open>YYYY-MM-DD\<close> of the calendar
  dates of the years 1 to 9999 and returns them unchanged: no impossible month or day, no
  unpadded field and no final newline is accepted.
\<close>

theorem validate_date_exact:
  "validate_date s = Inr t \<longleftrightarrow> t = s \<and> (\<exists>d. valid_ymd d \<and> s = isoformat d)"
  by (rule validate_date_Inr)

text \<open>
  \<open>reject_tool_call_syntax\<close> raises exactly when the text holds
  \<open></parameter>\<close>, or \<open><parameter\<close> followed by the end or by a character that is no word
  character (so \<open><parameters>\<close> is let through).
\<close>

theorem reject_tool_call_syntax_exact:
  "reject_tool_call_syntax s = Inl ToolCallSyntax \<longleftrightarrow> has_tool_call s"
  by (rule reject_tool_call_iff)

section \<open>Two observations\<close>

text \<open>A topic typed with a final newline is stored with it.\<close>

lemma validate_topic_accepts_newline: "validate_topic (''work'' @ [nl]) = Inr (''work'' @ [nl])"
  by code_simp

text \<open>
  The cut at 100 characters can leave a title that ends in a space, which the pattern then
  refuses, so a long title is rejected instead of shortened.
\<close>

lemma validate_title_cut_at_space:
  "validate_title (replicate 99 (CHR ''a'') @ '' b'') = Inl InvalidTitle"
proof -
  let ?s = "replicate 99 (CHR ''a'') @ '' b''" and ?t = "replicate 99 (CHR ''a'') @ '' ''"
  have steps: "py_strip py_isspace ?s = ?s" "filter title_char ?s = ?s" "collapse_spaces ?s = ?s"
    "py_head 100 ?s = ?t"
    by code_simp+
  have "\<not> title_ok ?t" and last: "last ?t \<noteq> nl"
    by (simp_all add: title_ok_def is_azAZ09_def is_az_def is_AZ_def is_digit_def between_def cp_def nl_def)
  then have "\<not> (re_match_dollar TITLE_PATTERN1 ?t \<or> re_match_dollar TITLE_PATTERN2 ?t)"
    using title_pattern_iff [of ?t] unfolding re_match_dollar_def rx_match_iff by blast
  then show ?thesis unfolding validate_title_def Let_def steps by (simp only: simp_thms if_True)
qed

end
