(* ===== verification/Utf8.thy ===== *)
theory Utf8
  imports Prelude "HOL-Library.Word"
begin

text \<open>
  UTF-8 as Python's \<open>str.encode\<close> and \<open>bytes.decode\<close> (strict error handling): a text is a list
  of code points, a byte string a list of 8-bit words.  \<open>None\<close> is the \<open>UnicodeError\<close>
  (a \<open>ValueError\<close>): surrogates cannot be encoded; overlong forms, surrogates, stray or missing
  continuation bytes and values above U+10FFFF cannot be decoded.
\<close>

type_synonym bytes = "8 word list"
type_synonym ptext = "nat list"

definition scalar_value :: "nat \<Rightarrow> bool" where
  "scalar_value c = (c < 55296 \<or> (57344 \<le> c \<and> c < 1114112))"

definition utf8_char :: "nat \<Rightarrow> nat list" where
  "utf8_char c =
     (if c < 128 then [c]
      else if c < 2048 then [192 + c div 64, 128 + c mod 64]
      else if c < 65536 then [224 + c div 4096, 128 + c div 64 mod 64, 128 + c mod 64]
      else [240 + c div 262144, 128 + c div 4096 mod 64, 128 + c div 64 mod 64, 128 + c mod 64])"

fun utf8_encode_nat :: "ptext \<Rightarrow> nat list option" where
  "utf8_encode_nat [] = Some []"
| "utf8_encode_nat (c # cs) =
     (if scalar_value c then map_option (\<lambda>bs. utf8_char c @ bs) (utf8_encode_nat cs) else None)"

definition cont_byte :: "nat \<Rightarrow> bool" where
  "cont_byte b = (128 \<le> b \<and> b < 192)"

text \<open>One code point from the front: its value and the number of bytes it took.\<close>

definition utf8_next :: "nat list \<Rightarrow> (nat \<times> nat) option" where
  "utf8_next s = (case s of
     [] \<Rightarrow> None
   | b # r \<Rightarrow>
      if b < 128 then Some (b, 1)
      else if 192 \<le> b \<and> b < 224 then
        (case r of c1 # _ \<Rightarrow>
           let v = (b - 192) * 64 + (c1 - 128)
           in if cont_byte c1 \<and> 128 \<le> v then Some (v, 2) else None
         | _ \<Rightarrow> None)
      else if 224 \<le> b \<and> b < 240 then
        (case r of c1 # c2 # _ \<Rightarrow>
           let v = (b - 224) * 4096 + (c1 - 128) * 64 + (c2 - 128)
           in if cont_byte c1 \<and> cont_byte c2 \<and> 2048 \<le> v \<and> scalar_value v then Some (v, 3) else None
         | _ \<Rightarrow> None)
      else if 240 \<le> b \<and> b < 248 then
        (case r of c1 # c2 # c3 # _ \<Rightarrow>
           let v = (b - 240) * 262144 + (c1 - 128) * 4096 + (c2 - 128) * 64 + (c3 - 128)
           in if cont_byte c1 \<and> cont_byte c2 \<and> cont_byte c3 \<and> 65536 \<le> v \<and> scalar_value v
              then Some (v, 4) else None
         | _ \<Rightarrow> None)
      else None)"

text \<open>The fuel is the number of bytes, which is enough since every code point takes at least one.\<close>

fun utf8_decode_fuel :: "nat \<Rightarrow> nat list \<Rightarrow> ptext option" where
  "utf8_decode_fuel k [] = Some []"
| "utf8_decode_fuel 0 (b # r) = None"
| "utf8_decode_fuel (Suc k) (b # r) =
     (case utf8_next (b # r) of
        None \<Rightarrow> None
      | Some (v, n) \<Rightarrow> map_option ((#) v) (utf8_decode_fuel k (drop n (b # r))))"

definition utf8_encode :: "ptext \<Rightarrow> bytes option" where
  "utf8_encode s = map_option (map word_of_nat) (utf8_encode_nat s)"

definition utf8_decode :: "bytes \<Rightarrow> ptext option" where
  "utf8_decode bs = utf8_decode_fuel (length bs) (map unat bs)"

section \<open>Decoding inverts encoding\<close>

lemma div_64: "c div 4096 = c div 64 div (64::nat)" "c div 262144 = c div 64 div 64 div (64::nat)"
  by (simp_all add: div_mult2_eq [symmetric])

lemma utf8_char_bytes: "scalar_value c \<Longrightarrow> b \<in> set (utf8_char c) \<Longrightarrow> b < 256"
  by (auto simp: utf8_char_def scalar_value_def split: if_splits)

lemma utf8_recombine3: "(c::nat) div 4096 * 4096 + c div 64 mod 64 * 64 + c mod 64 = c"
  unfolding div_64 using div_mult_mod_eq [of c 64] div_mult_mod_eq [of "c div 64" 64] by linarith

lemma utf8_recombine4:
  "(c::nat) div 262144 * 262144 + c div 4096 mod 64 * 4096 + c div 64 mod 64 * 64 + c mod 64 = c"
  unfolding div_64
  using div_mult_mod_eq [of c 64] div_mult_mod_eq [of "c div 64" 64] div_mult_mod_eq [of "c div 64 div 64" 64]
  by linarith

lemma radix_64: "y < 64 \<Longrightarrow> (x * 64 + y) div 64 = x \<and> (x * 64 + y) mod 64 = (y::nat)"
  by simp

lemma utf8_next_char:
  assumes "scalar_value c"
  shows "utf8_next (utf8_char c @ r) = Some (c, length (utf8_char c))"
proof -
  consider "c < 128" | "128 \<le> c" "c < 2048" | "2048 \<le> c" "c < 65536" | "65536 \<le> c" "c < 1114112"
    using assms unfolding scalar_value_def by linarith
  then show ?thesis
  proof cases
    case 1
    then show ?thesis by (simp add: utf8_char_def utf8_next_def)
  next
    case 2
    then have "c div 64 < 32" by auto
    with 2 show ?thesis by (simp add: utf8_char_def utf8_next_def cont_byte_def)
  next
    case 3
    then have "c div 4096 < 16" by auto
    with 3 assms show ?thesis
      by (simp add: utf8_char_def utf8_next_def cont_byte_def utf8_recombine3)
  next
    case 4
    then have "c div 262144 < 8" by auto
    with 4 assms show ?thesis
      by (simp add: utf8_char_def utf8_next_def cont_byte_def utf8_recombine4)
  qed
qed

lemma utf8_char_nonempty: "utf8_char c \<noteq> []"
  by (simp add: utf8_char_def)

lemma utf8_decode_fuel_encode:
  "utf8_encode_nat s = Some bs \<Longrightarrow> length bs \<le> k \<Longrightarrow> utf8_decode_fuel k bs = Some s"
proof (induction s arbitrary: bs k)
  case (Cons c cs)
  then obtain r where r: "scalar_value c" "utf8_encode_nat cs = Some r" "bs = utf8_char c @ r"
    by (auto split: if_splits)
  obtain b u where u: "utf8_char c = b # u" using utf8_char_nonempty by (cases "utf8_char c") auto
  with r Cons.prems obtain k' where k: "k = Suc k'" "length r \<le> k'" by (cases k) auto
  have "utf8_next bs = Some (c, length (utf8_char c))" using utf8_next_char r by simp
  then show ?case using Cons.IH [OF r(2) k(2)] u r(3) k(1) by simp
qed simp

lemma utf8_encode_bytes: "utf8_encode_nat s = Some bs \<Longrightarrow> b \<in> set bs \<Longrightarrow> b < 256"
proof (induction s arbitrary: bs)
  case (Cons c cs)
  then show ?case using utf8_char_bytes [of c b] by (auto split: if_splits)
qed simp

lemma utf8_roundtrip: "utf8_encode s = Some bs \<Longrightarrow> utf8_decode bs = Some s"
proof -
  assume "utf8_encode s = Some bs"
  then obtain ns where ns: "utf8_encode_nat s = Some ns" "bs = map word_of_nat ns"
    by (auto simp: utf8_encode_def)
  have "map unat bs = ns"
    using utf8_encode_bytes [OF ns(1)] unfolding ns(2) by (auto simp: unat_of_nat intro!: map_idI)
  with ns show ?thesis by (simp add: utf8_decode_def utf8_decode_fuel_encode)
qed

lemma three_byte_bound: "x \<le> 15 \<Longrightarrow> y \<le> 63 \<Longrightarrow> z \<le> 63 \<Longrightarrow> (x * 64 + y) * 64 + z < (65536::nat)"
  by simp

text \<open>Decoding is injective: a decoded text encodes to the bytes it came from.\<close>

lemma utf8_next_char_inv:
  assumes "utf8_next s = Some (v, n)"
  shows "scalar_value v \<and> s = utf8_char v @ drop n s"
proof -
  from assms obtain b r where s: "s = b # r" by (cases s) (auto simp: utf8_next_def)
  show ?thesis
  proof (cases "b < 192")
    case True
    then show ?thesis
      using assms s by (auto simp: utf8_next_def utf8_char_def scalar_value_def split: if_splits)
  next
    case b192: False
    show ?thesis
    proof (cases "b < 224")
      case True
      with b192 s assms obtain c1 t where c: "r = c1 # t" "cont_byte c1" "128 \<le> v"
          "v = (b - 192) * 64 + (c1 - 128)" "n = 2"
        by (auto simp: utf8_next_def Let_def split: list.splits if_splits)
      then have "v div 64 = b - 192" "v mod 64 = c1 - 128" "v < 2048"
        using True b192 radix_64 [of "c1 - 128" "b - 192"] by (auto simp: cont_byte_def)
      with c s b192 show ?thesis by (auto simp: utf8_char_def scalar_value_def cont_byte_def)
    next
      case b224: False
      show ?thesis
      proof (cases "b < 240")
        case True
        with b224 s assms obtain c1 c2 t where c: "r = c1 # c2 # t" "cont_byte c1" "cont_byte c2" "2048 \<le> v"
            "v = (b - 224) * 4096 + (c1 - 128) * 64 + (c2 - 128)" "n = 3" "scalar_value v"
          by (auto simp: utf8_next_def Let_def split: list.splits if_splits)
        then have v: "v = ((b - 224) * 64 + (c1 - 128)) * 64 + (c2 - 128)" by simp
        then have d: "v div 64 = (b - 224) * 64 + (c1 - 128)" "v mod 64 = c2 - 128"
          using c(3) radix_64 [of "c2 - 128" "(b - 224) * 64 + (c1 - 128)"] by (auto simp: cont_byte_def)
        then have e: "v div 64 div 64 = b - 224" "v div 64 mod 64 = c1 - 128"
          using c(2) radix_64 [of "c1 - 128" "b - 224"] by (auto simp: cont_byte_def)
        have "b - 224 \<le> 15" "c1 - 128 \<le> 63" "c2 - 128 \<le> 63" using c(2,3) True by (auto simp: cont_byte_def)
        then have "v < 65536" unfolding v by (rule three_byte_bound)
        then have "utf8_char v = [224 + v div 64 div 64, 128 + v div 64 mod 64, 128 + v mod 64]"
          using c(4) unfolding utf8_char_def div_64 by simp
        also have "\<dots> = [b, c1, c2]"
          unfolding e d(2) using b224 c(2,3) by (auto simp: cont_byte_def)
        finally have "s = utf8_char v @ drop n s" unfolding c(1,6) s by simp
        with c(7) show ?thesis ..
      next
        case b240: False
        with s assms obtain c1 c2 c3 t where c: "r = c1 # c2 # c3 # t" "cont_byte c1" "cont_byte c2"
            "cont_byte c3" "65536 \<le> v" "n = 4" "scalar_value v"
            "v = (b - 240) * 262144 + (c1 - 128) * 4096 + (c2 - 128) * 64 + (c3 - 128)"
          by (auto simp: utf8_next_def Let_def split: list.splits if_splits)
        then have v: "v = (((b - 240) * 64 + (c1 - 128)) * 64 + (c2 - 128)) * 64 + (c3 - 128)" by simp
        have lt: "c1 - 128 < 64" "c2 - 128 < 64" "c3 - 128 < 64" using c(2-4) by (auto simp: cont_byte_def)
        have d: "v div 64 = ((b - 240) * 64 + (c1 - 128)) * 64 + (c2 - 128)" "v mod 64 = c3 - 128"
          unfolding v by (simp_all only: radix_64 [OF lt(3)])
        have e: "v div 64 div 64 = (b - 240) * 64 + (c1 - 128)" "v div 64 mod 64 = c2 - 128"
          unfolding d(1) by (simp_all only: radix_64 [OF lt(2)])
        have f: "v div 64 div 64 div 64 = b - 240" "v div 64 div 64 mod 64 = c1 - 128"
          unfolding e(1) by (simp_all only: radix_64 [OF lt(1)])
        have "utf8_char v = [240 + v div 64 div 64 div 64, 128 + v div 64 div 64 mod 64,
            128 + v div 64 mod 64, 128 + v mod 64]"
          using c(5) unfolding utf8_char_def div_64 by simp
        also have "\<dots> = [b, c1, c2, c3]"
          unfolding f e(2) d(2) using b240 c(2-4) by (auto simp: cont_byte_def)
        finally have "s = utf8_char v @ drop n s" unfolding c(1,6) s by simp
        with c(7) show ?thesis ..
      qed
    qed
  qed
qed

lemma utf8_decode_fuel_inv: "utf8_decode_fuel k bs = Some s \<Longrightarrow> utf8_encode_nat s = Some bs"
proof (induction k bs arbitrary: s rule: utf8_decode_fuel.induct)
  case (3 k b r)
  then obtain v n s' where n: "utf8_next (b # r) = Some (v, n)" "s = v # s'"
      "utf8_decode_fuel k (drop n (b # r)) = Some s'"
    by (auto split: option.splits)
  with "3.IH" [OF n(1) refl] have "utf8_encode_nat s' = Some (drop n (b # r))" by blast
  with n(2) utf8_next_char_inv [OF n(1)] show ?case by auto
qed auto

lemma utf8_decode_inv: "utf8_decode bs = Some s \<Longrightarrow> utf8_encode s = Some bs"
  using utf8_decode_fuel_inv [of "length bs" "map unat bs" s]
  by (simp add: utf8_decode_def utf8_encode_def o_def)

end
