(* ===== verification/Cipher.thy ===== *)
theory Cipher
  imports PyDate Utf8 "HOL-Library.AList"
begin

text \<open>
  \<open>gubbi/crypto/cipher.py\<close> and \<open>gubbi/crypto/guard.py\<close>: AES-256-GCM with the key version in
  byte 0 of the nonce, and the loading of the master keys from the environment.

  \<open>AESGCM\<close> belongs to the library \<open>cryptography\<close>; it is the argument \<open>aead\<close>, a pair of
  functions of key, nonce and data, of which \<open>aead_ok\<close> states what the library documents:
  decryption inverts encryption, and an accepted ciphertext is the one that encrypting its
  plaintext yields.  \<open>secrets.token_bytes\<close> is the argument \<open>rnd\<close>.  Telemetry spans carry
  no state of the cipher and are left out.

  The lemmas show: which key maps the constructor accepts, that every map the environment
  loader returns is one of them, round trips (also across a key rotation), that what decrypts
  is exactly what was sealed, and that the repository-level wrappers show one opaque error.
\<close>

section \<open>The library's authenticated encryption\<close>

record aead =
  gcm_encrypt :: "bytes \<Rightarrow> bytes \<Rightarrow> bytes \<Rightarrow> bytes"
  gcm_decrypt :: "bytes \<Rightarrow> bytes \<Rightarrow> bytes \<Rightarrow> bytes option"

definition aead_ok :: "aead \<Rightarrow> bool" where
  "aead_ok a \<longleftrightarrow> (\<forall>k n p. gcm_decrypt a k n (gcm_encrypt a k n p) = Some p) \<and>
     (\<forall>k n c p. gcm_decrypt a k n c = Some p \<longrightarrow> c = gcm_encrypt a k n p)"

section \<open>The cipher object\<close>

definition KEY_LEN :: nat where "KEY_LEN = 32"
definition NONCE_LEN :: nat where "NONCE_LEN = 12"
definition VERSION_MIN :: int where "VERSION_MIN = 1"
definition VERSION_MAX :: int where "VERSION_MAX = 255"

datatype cerror =
    NoKeys | VersionOutOfRange int | KeyLength int nat | UnknownVersion int | NonceLength
  | InvalidTag | UnicodeErr | LeadingZeros string | InvalidBase64 string | DecodedLength string nat
  | DecryptionError | CipherRequired

record content_cipher =
  cc_keys :: "(int \<times> bytes) list"
  cc_active :: int

fun check_keys :: "(int \<times> bytes) list \<Rightarrow> cerror + unit" where
  "check_keys [] = Inr ()"
| "check_keys ((version, key) # rest) =
     (if \<not> (VERSION_MIN \<le> version \<and> version \<le> VERSION_MAX) then Inl (VersionOutOfRange version)
      else if length key \<noteq> KEY_LEN then Inl (KeyLength version (length key))
      else check_keys rest)"

definition new_cipher :: "(int \<times> bytes) list \<Rightarrow> cerror + content_cipher" where
  "new_cipher master_keys =
     (if master_keys = [] then Inl NoKeys
      else rbind (check_keys master_keys) (\<lambda>_.
        Inr \<lparr>cc_keys = master_keys, cc_active = Max (fst ` set master_keys)\<rparr>))"

definition encrypt_with_version ::
  "aead \<Rightarrow> content_cipher \<Rightarrow> bytes \<Rightarrow> ptext \<Rightarrow> int \<Rightarrow> cerror + (bytes \<times> bytes)" where
  "encrypt_with_version a c rnd plaintext version =
     (case map_of (cc_keys c) version of
        None \<Rightarrow> Inl (UnknownVersion version)
      | Some key \<Rightarrow>
          (let nonce = word_of_int version # rnd in
           case utf8_encode plaintext of
             None \<Rightarrow> Inl UnicodeErr
           | Some data \<Rightarrow> Inr (gcm_encrypt a key nonce data, nonce)))"

definition encrypt :: "aead \<Rightarrow> content_cipher \<Rightarrow> bytes \<Rightarrow> ptext \<Rightarrow> cerror + (bytes \<times> bytes)" where
  "encrypt a c rnd plaintext =
     (let version = cc_active c in
      case utf8_encode plaintext of
        None \<Rightarrow> Inl UnicodeErr
      | Some data \<Rightarrow> encrypt_with_version a c rnd plaintext version)"

definition decrypt :: "aead \<Rightarrow> content_cipher \<Rightarrow> bytes \<Rightarrow> bytes \<Rightarrow> cerror + ptext" where
  "decrypt a c ciphertext nonce =
     (if length nonce \<noteq> NONCE_LEN then Inl NonceLength
      else let version = uint (nonce ! 0) in
        case map_of (cc_keys c) version of
          None \<Rightarrow> Inl (UnknownVersion version)
        | Some key \<Rightarrow>
            (case gcm_decrypt a key nonce ciphertext of
               None \<Rightarrow> Inl InvalidTag
             | Some data \<Rightarrow>
                 (case utf8_decode data of None \<Rightarrow> Inl UnicodeErr | Some s \<Rightarrow> Inr s)))"

section \<open>Wrappers of the repository layer\<close>

text \<open>The errors caught are \<open>ValueError\<close> (nonce, version, Unicode) and \<open>InvalidTag\<close>.\<close>

fun is_value_error :: "cerror \<Rightarrow> bool" where
  "is_value_error NonceLength = True"
| "is_value_error (UnknownVersion v) = True"
| "is_value_error UnicodeErr = True"
| "is_value_error e = False"

definition decrypt_or_raise :: "aead \<Rightarrow> content_cipher \<Rightarrow> bytes \<Rightarrow> bytes \<Rightarrow> cerror + ptext" where
  "decrypt_or_raise a c ciphertext nonce =
     (case decrypt a c ciphertext nonce of
        Inr s \<Rightarrow> Inr s
      | Inl e \<Rightarrow> if is_value_error e \<or> e = InvalidTag then Inl DecryptionError else Inl e)"

text \<open>A column pair of a row: both values as the row holds them, NULL as \<open>None\<close>.\<close>

definition decrypt_content_field ::
  "aead \<Rightarrow> content_cipher \<Rightarrow> bytes option \<Rightarrow> bytes option \<Rightarrow> cerror + ptext option" where
  "decrypt_content_field a c ct nonce =
     (case (ct, nonce) of
        (Some x, Some n) \<Rightarrow> rmap Some (decrypt_or_raise a c x n)
      | (None, None) \<Rightarrow> Inr None
      | _ \<Rightarrow> Inl DecryptionError)"

definition require_cipher :: "content_cipher option \<Rightarrow> cerror + content_cipher" where
  "require_cipher app_cipher = (case app_cipher of None \<Rightarrow> Inl CipherRequired | Some c \<Rightarrow> Inr c)"

section \<open>Loading the keys\<close>

text \<open>\<open>base64.b64decode(value, validate=True)\<close>.\<close>

definition b64_val :: "char \<Rightarrow> nat option" where
  "b64_val c =
     (if is_AZ c then Some (cp c - 65)
      else if is_az c then Some (cp c - 71)
      else if is_digit c then Some (cp c + 4)
      else if c = CHR ''+'' then Some 62
      else if c = CHR ''/'' then Some 63
      else None)"

definition b64_bytes :: "nat list \<Rightarrow> bytes" where
  "b64_bytes vs =
     (case vs of
        [a, b] \<Rightarrow> [word_of_nat (a * 4 + b div 16)]
      | [a, b, c] \<Rightarrow> [word_of_nat (a * 4 + b div 16), word_of_nat (b mod 16 * 16 + c div 4)]
      | [a, b, c, d] \<Rightarrow> [word_of_nat (a * 4 + b div 16), word_of_nat (b mod 16 * 16 + c div 4),
                        word_of_nat (c mod 4 * 64 + d)]
      | _ \<Rightarrow> [])"

fun b64_all :: "string \<Rightarrow> nat list option" where
  "b64_all [] = Some []"
| "b64_all (c # cs) =
     (case b64_val c of None \<Rightarrow> None | Some v \<Rightarrow> map_option ((#) v) (b64_all cs))"

fun b64decode :: "string \<Rightarrow> bytes option" where
  "b64decode [] = Some []"
| "b64decode (a # b # c # d # r) =
     (if d = CHR ''='' \<and> r = [] then
        map_option b64_bytes (b64_all (if c = CHR ''='' then [a, b] else [a, b, c]))
      else (case b64_all [a, b, c, d] of
              None \<Rightarrow> None
            | Some vs \<Rightarrow> map_option (\<lambda>bs. b64_bytes vs @ bs) (b64decode r)))"
| "b64decode s = None"

definition KEY_ENV_PREFIX :: string where
  "KEY_ENV_PREFIX = ''JOURNAL_ENCRYPTION_MASTER_KEY_V''"

text \<open>
  \<open>_KEY_ENV_PATTERN.match(name)\<close> and its group 1; \<open>$\<close> admits one final newline.
\<close>

definition key_env_version :: "string \<Rightarrow> string option" where
  "key_env_version name =
     (if py_startswith name KEY_ENV_PREFIX then
        let rest = drop (length KEY_ENV_PREFIX) name;
            ds = (if rest \<noteq> [] \<and> last rest = nl then butlast rest else rest)
        in if ds \<noteq> [] \<and> list_all is_digit ds then Some ds else None
      else None)"

definition load_one :: "string \<times> string \<Rightarrow> (int \<times> bytes) list \<Rightarrow> cerror + (int \<times> bytes) list" where
  "load_one nv keys =
     (let (name, value) = nv in
      case key_env_version name of
        None \<Rightarrow> Inr keys
      | Some raw_version \<Rightarrow>
          if length raw_version > 1 \<and> hd raw_version = CHR ''0'' then Inl (LeadingZeros name)
          else let version = int (nat_of_digits raw_version) in
            if \<not> (VERSION_MIN \<le> version \<and> version \<le> VERSION_MAX) then Inl (VersionOutOfRange version)
            else case b64decode value of
              None \<Rightarrow> Inl (InvalidBase64 name)
            | Some raw \<Rightarrow>
                if length raw \<noteq> KEY_LEN then Inl (DecodedLength name (length raw))
                else Inr (AList.update version raw keys))"

definition load_master_keys_from_env :: "(string \<times> string) list \<Rightarrow> cerror + (int \<times> bytes) list" where
  "load_master_keys_from_env env = rfold load_one env []"

section \<open>Lemmas\<close>

lemma check_keys_iff:
  "check_keys ks = Inr u \<longleftrightarrow> list_all (\<lambda>(v, k). 1 \<le> v \<and> v \<le> 255 \<and> length k = 32) ks"
  by (induction ks rule: check_keys.induct)
     (auto simp: VERSION_MIN_def VERSION_MAX_def KEY_LEN_def)

lemma new_cipher_Inr:
  "new_cipher ks = Inr c \<longleftrightarrow>
     ks \<noteq> [] \<and> list_all (\<lambda>(v, k). 1 \<le> v \<and> v \<le> 255 \<and> length k = 32) ks \<and>
     c = \<lparr>cc_keys = ks, cc_active = Max (fst ` set ks)\<rparr>"
  by (auto simp: new_cipher_def res_simps check_keys_iff)

definition known_versions :: "content_cipher \<Rightarrow> int set" where
  "known_versions c = fst ` set (cc_keys c)"

lemma new_cipher_versions:
  assumes "new_cipher ks = Inr c"
  shows "v \<in> known_versions c \<Longrightarrow> 1 \<le> v \<and> v \<le> 255"
    and "cc_active c \<in> known_versions c" and "v \<in> known_versions c \<Longrightarrow> v \<le> cc_active c"
  using assms by (auto simp: new_cipher_Inr known_versions_def list_all_iff)

lemma uint_version: "1 \<le> v \<Longrightarrow> v \<le> 255 \<Longrightarrow> uint (word_of_int v :: 8 word) = v"
  by (simp add: uint_word_of_int take_bit_eq_mod)

lemma known_versions_lookup: "v \<in> known_versions c \<longleftrightarrow> map_of (cc_keys c) v \<noteq> None"
  by (simp add: known_versions_def map_of_eq_None_iff)

lemma encrypt_with_version_Inr:
  "encrypt_with_version a c rnd t v = Inr (ct, n) \<longleftrightarrow>
     (\<exists>key d. map_of (cc_keys c) v = Some key \<and> utf8_encode t = Some d \<and>
        n = word_of_int v # rnd \<and> ct = gcm_encrypt a key n d)"
  by (auto simp: encrypt_with_version_def Let_def split: option.splits)

lemma decrypt_Inr:
  "decrypt a c ct n = Inr t \<longleftrightarrow>
     length n = 12 \<and> (\<exists>key d. map_of (cc_keys c) (uint (n ! 0)) = Some key \<and>
        gcm_decrypt a key n ct = Some d \<and> utf8_decode d = Some t)"
  by (auto simp: decrypt_def Let_def NONCE_LEN_def split: option.splits)

lemma seal_then_open:
  assumes "aead_ok a" "1 \<le> v" "v \<le> 255" "length rnd = 11"
    and "encrypt_with_version a c rnd t v = Inr (ct, n)"
    and "map_of (cc_keys c) \<subseteq>\<^sub>m map_of (cc_keys c')"
  shows "decrypt a c' ct n = Inr t" "uint (n ! 0) = v" "length n = 12"
proof -
  from assms(5) obtain key d where k: "map_of (cc_keys c) v = Some key" "utf8_encode t = Some d"
      "n = word_of_int v # rnd" "ct = gcm_encrypt a key n d"
    unfolding encrypt_with_version_Inr by blast
  then show len: "length n = 12" and v: "uint (n ! 0) = v"
    using assms(2-4) by (simp_all add: uint_version)
  have "map_of (cc_keys c') v = Some key" using assms(6) k(1) by (metis domI map_le_def)
  moreover have "gcm_decrypt a key n ct = Some d" using assms(1) k(4) by (simp add: aead_ok_def)
  moreover have "utf8_decode d = Some t" using k(2) by (rule utf8_roundtrip)
  ultimately show "decrypt a c' ct n = Inr t" unfolding decrypt_Inr v using len by blast
qed

lemma encrypt_is_active: "encrypt a c rnd t = Inr p \<Longrightarrow> encrypt_with_version a c rnd t (cc_active c) = Inr p"
  by (auto simp: encrypt_def Let_def split: option.splits)

lemma decrypt_errors: "decrypt a c ct n = Inl e \<Longrightarrow> is_value_error e \<or> e = InvalidTag"
  by (auto simp: decrypt_def Let_def split: if_splits option.splits)

lemma decrypt_or_raise_Inl:
  "decrypt_or_raise a c ct n = Inl e \<longleftrightarrow> e = DecryptionError \<and> (\<exists>e'. decrypt a c ct n = Inl e')"
  using decrypt_errors [of a c ct n] by (auto simp: decrypt_or_raise_def split: sum.splits)

lemma decrypt_or_raise_Inr: "decrypt_or_raise a c ct n = Inr t \<longleftrightarrow> decrypt a c ct n = Inr t"
  by (auto simp: decrypt_or_raise_def split: sum.splits if_splits)

lemma load_one_keeps:
  assumes "load_one nv ks = Inr ks'" "list_all (\<lambda>(v, k). 1 \<le> v \<and> v \<le> 255 \<and> length k = 32) ks"
    and "distinct (map fst ks)"
  shows "list_all (\<lambda>(v, k). 1 \<le> v \<and> v \<le> 255 \<and> length k = 32) ks' \<and> distinct (map fst ks')"
proof (cases "key_env_version (fst nv)")
  case None
  with assms show ?thesis by (auto simp: load_one_def split: prod.splits)
next
  case (Some ds)
  with assms(1) obtain v raw where v: "ks' = AList.update v raw ks" "1 \<le> v" "v \<le> 255" "length raw = 32"
    by (auto simp: load_one_def Let_def VERSION_MIN_def VERSION_MAX_def KEY_LEN_def
        split: prod.splits if_splits option.splits)
  have "set ks' \<subseteq> insert (v, raw) (set ks)"
    unfolding v(1) by (induction ks) auto
  then have "list_all (\<lambda>(v, k). 1 \<le> v \<and> v \<le> 255 \<and> length k = 32) ks'"
    using assms(2) v(2-4) unfolding list_all_iff by blast
  moreover have "distinct (map fst ks')" unfolding v(1) using assms(3) by (rule distinct_update)
  ultimately show ?thesis by blast
qed

lemma load_keys_wf:
  assumes "load_master_keys_from_env env = Inr ks"
  shows "list_all (\<lambda>(v, k). 1 \<le> v \<and> v \<le> 255 \<and> length k = 32) ks \<and> distinct (map fst ks)"
  using assms unfolding load_master_keys_from_env_def
  by (rule rfold_invariant) (auto dest: load_one_keeps)

text \<open>A digit string without leading zeros is the decimal text of its value.\<close>

lemma dec_nat_canonical:
  "list_all is_digit s \<Longrightarrow> s \<noteq> [] \<Longrightarrow> length s > 1 \<longrightarrow> hd s \<noteq> CHR ''0'' \<Longrightarrow> dec_nat (nat_of_digits s) = s"
proof (induction s rule: rev_induct)
  case (snoc c s)
  show ?case
  proof (cases "s = []")
    case True
    with snoc.prems digit_val_bound [of c] digit_char_val [of c] show ?thesis
      by (simp add: dec_nat.simps nat_of_digits_def)
  next
    case False
    then have "hd s \<noteq> CHR ''0''" using snoc.prems(3) by simp
    then have IH: "dec_nat (nat_of_digits s) = s" using snoc False by simp
    have "nat_of_digits s \<noteq> 0"
    proof
      assume "nat_of_digits s = 0"
      then have "s = [CHR ''0'']" using IH by (simp add: dec_nat.simps digit_consts)
      with \<open>hd s \<noteq> CHR ''0''\<close> show False by simp
    qed
    then have n: "\<not> 10 * nat_of_digits s + digit_val c < 10" by simp
    have "digit_val c < 10" "digit_char (digit_val c) = c"
      using snoc.prems(1) digit_val_bound digit_char_val by auto
    then have "(10 * nat_of_digits s + digit_val c) div 10 = nat_of_digits s"
      "digit_char ((10 * nat_of_digits s + digit_val c) mod 10) = c" by simp_all
    with n IH show ?thesis by (simp add: dec_nat.simps [of "10 * nat_of_digits s + digit_val c"])
  qed
qed simp

lemma key_env_version_Some:
  assumes "key_env_version name = Some ds" "nl \<notin> set name"
  shows "name = KEY_ENV_PREFIX @ ds" "ds \<noteq> []" "list_all is_digit ds"
proof -
  let ?r = "drop (length KEY_ENV_PREFIX) name"
  have "?r \<noteq> [] \<Longrightarrow> last ?r \<noteq> nl" using assms(2) by (metis in_set_dropD last_in_set)
  with assms(1) show "ds \<noteq> []" "list_all is_digit ds" "name = KEY_ENV_PREFIX @ ds"
    by (auto simp: key_env_version_def Let_def py_startswith_def split: if_splits)
       (metis append_take_drop_id)
qed

section \<open>Properties\<close>

text \<open>
  Property C4. What a cipher seals with its active key stays readable after a rotation: any
  cipher that still holds the old versions (with possibly newer ones added) opens the pair to
  the same text, for every Unicode text; the nonce has 12 bytes and its first byte is the
  highest key version of the sealing cipher.
\<close>

theorem encrypt_survives_rotation:
  assumes "aead_ok a" and "new_cipher ks = Inr c" and "length rnd = 11"
    and "encrypt a c rnd t = Inr (ct, n)"
    and "map_of ks \<subseteq>\<^sub>m map_of ks'" and "new_cipher ks' = Inr c'"
  shows "decrypt a c' ct n = Inr t \<and> length n = 12 \<and> uint (n ! 0) = Max (fst ` set ks)"
proof -
  have k: "cc_keys c = ks" "cc_active c = Max (fst ` set ks)" "cc_keys c' = ks'"
    using assms(2,6) by (auto simp: new_cipher_Inr)
  have "1 \<le> cc_active c" "cc_active c \<le> 255"
    using new_cipher_versions [OF assms(2)] by blast+
  from seal_then_open [OF assms(1) this assms(3) encrypt_is_active [OF assms(4)], of c'] assms(5)
  show ?thesis by (simp add: k)
qed

text \<open>A concrete AEAD for the witnesses: the tag is the key and nonce themselves.\<close>

definition demo_aead :: aead where
  "demo_aead =
     \<lparr>gcm_encrypt = (\<lambda>k n p. p @ k @ n),
      gcm_decrypt = (\<lambda>k n c. let p = take (length c - length (k @ n)) c in
                       if c = p @ k @ n then Some p else None)\<rparr>"

lemma demo_aead_ok: "aead_ok demo_aead"
  by (auto simp: aead_ok_def demo_aead_def Let_def split: if_splits)

definition demo_keys :: "nat \<Rightarrow> (int \<times> bytes) list" where
  "demo_keys m = map (\<lambda>v. (int v, replicate 32 (word_of_nat v))) [1..<Suc m]"

theorem encrypt_survives_rotation_witness:
  "\<exists>ct n c'. decrypt demo_aead c' ct n = Inr [72, 233, 8364] \<and> length n = 12 \<and>
     uint (n ! 0) = Max (fst ` set (demo_keys 1))"
proof -
  let ?ks = "demo_keys 1" and ?ks' = "demo_keys 2"
  let ?c = "\<lparr>cc_keys = ?ks, cc_active = Max (fst ` set ?ks)\<rparr>"
  let ?c' = "\<lparr>cc_keys = ?ks', cc_active = Max (fst ` set ?ks')\<rparr>"
  have c: "new_cipher ?ks = Inr ?c" "new_cipher ?ks' = Inr ?c'"
    unfolding new_cipher_Inr by (simp_all add: demo_keys_def upt_rec)
  have le: "map_of ?ks \<subseteq>\<^sub>m map_of ?ks'" by (simp add: demo_keys_def upt_rec map_le_def)
  have "\<exists>ct n. encrypt demo_aead ?c (replicate 11 0) [72, 233, 8364] = Inr (ct, n)"
    by (simp add: encrypt_def encrypt_with_version_def demo_keys_def upt_rec utf8_encode_def scalar_value_def Let_def)
  then obtain ct n where e: "encrypt demo_aead ?c (replicate 11 0) [72, 233, 8364] = Inr (ct, n)" by blast
  from encrypt_survives_rotation [OF demo_aead_ok c(1) _ e le c(2)] show ?thesis by fastforce
qed

text \<open>
  Whatever \<open>decrypt\<close> returns, the stored pair is exactly the sealing of that text under that nonce
  and the key its first byte names.
\<close>

theorem decrypt_only_genuine:
  assumes "aead_ok a" and "decrypt a c ct n = Inr t"
  shows "length n = 12 \<and>
    (\<exists>key d. map_of (cc_keys c) (uint (n ! 0)) = Some key \<and> utf8_encode t = Some d \<and>
       ct = gcm_encrypt a key n d)"
  using assms utf8_decode_inv unfolding decrypt_Inr aead_ok_def by blast

theorem decrypt_only_genuine_witness:
  "\<exists>(c::content_cipher) ct n. length n = 12 \<and>
    (\<exists>key d. map_of (cc_keys c) (uint (n ! 0)) = Some key \<and> utf8_encode [111, 107] = Some d \<and>
       ct = gcm_encrypt demo_aead key n d)"
proof -
  let ?c = "\<lparr>cc_keys = demo_keys 1, cc_active = 1\<rparr>"
  let ?n = "1 # replicate 11 0 :: bytes"
  have "gcm_decrypt demo_aead (replicate 32 1) ?n (gcm_encrypt demo_aead (replicate 32 1) ?n [111, 107]) = Some [111, 107]"
    using demo_aead_ok by (simp only: aead_ok_def)
  moreover have "utf8_decode [111, 107] = Some [111, 107]" by (simp add: utf8_decode_def utf8_next_def)
  moreover have "map_of (cc_keys ?c) (uint (?n ! 0)) = Some (replicate 32 1)" by (simp add: demo_keys_def)
  ultimately have d: "decrypt demo_aead ?c (gcm_encrypt demo_aead (replicate 32 1) ?n [111, 107]) ?n = Inr [111, 107]"
    unfolding decrypt_Inr by simp
  show ?thesis by (intro exI, rule decrypt_only_genuine [OF demo_aead_ok d])
qed

text \<open>
  Every key set that \<open>load_master_keys_from_env\<close> returns, when it is not empty, is
  accepted by the constructor of \<open>ContentCipher\<close>: versions are distinct and within 1 to 255
  and every key has 32 bytes.
\<close>

theorem loaded_keys_build_cipher:
  assumes "load_master_keys_from_env env = Inr ks" and "ks \<noteq> []"
  shows "\<exists>c. new_cipher ks = Inr c \<and> cc_keys c = ks \<and> distinct (map fst ks)"
  using load_keys_wf [OF assms(1)] assms(2) by (simp add: new_cipher_Inr)

definition demo_env :: "(string \<times> string) list" where
  "demo_env = [(''PATH'', ''/bin''),
     (''JOURNAL_ENCRYPTION_MASTER_KEY_V2'', replicate 43 (CHR ''A'') @ ''='')]"

theorem loaded_keys_build_cipher_witness:
  "\<exists>c. new_cipher [(2, replicate 32 0)] = Inr c \<and> cc_keys c = [(2, replicate 32 0)] \<and>
     distinct (map fst [(2::int, replicate 32 (0 :: 8 word))])"
proof -
  have b: "b64decode (replicate 43 (CHR ''A'') @ ''='') = Some (replicate 32 0)"
    by code_simp
  have v: "key_env_version ''JOURNAL_ENCRYPTION_MASTER_KEY_V2'' = Some ''2''"
    "key_env_version ''PATH'' = None"
    by (simp_all add: key_env_version_def KEY_ENV_PREFIX_def py_startswith_def is_digit_def between_def cp_def nl_def)
  have "load_master_keys_from_env demo_env = Inr [(2, replicate 32 0)]"
    by (simp add: load_master_keys_from_env_def demo_env_def load_one_def v b nat_of_digits_def digit_val_def cp_def
        VERSION_MIN_def VERSION_MAX_def KEY_LEN_def)
  then show ?thesis by (rule loaded_keys_build_cipher) simp
qed

text \<open>
  Two environment names never alias onto one key version: names of the pattern
  that pass the leading-zero check and denote the same number are the same name (for names
  without a newline).
\<close>

theorem key_names_never_alias:
  assumes "key_env_version n1 = Some d1" and "key_env_version n2 = Some d2"
    and "nl \<notin> set n1" and "nl \<notin> set n2"
    and "\<not> (length d1 > 1 \<and> hd d1 = CHR ''0'')" and "\<not> (length d2 > 1 \<and> hd d2 = CHR ''0'')"
    and "nat_of_digits d1 = nat_of_digits d2"
  shows "n1 = n2"
proof -
  note k1 = key_env_version_Some [OF assms(1,3)] and k2 = key_env_version_Some [OF assms(2,4)]
  have "d1 = dec_nat (nat_of_digits d1)" using k1 assms(5) by (intro dec_nat_canonical [symmetric]) auto
  also have "\<dots> = d2" unfolding assms(7) using k2 assms(6) by (intro dec_nat_canonical) auto
  finally show ?thesis using k1(1) k2(1) by simp
qed

theorem key_names_never_alias_witness:
  "''JOURNAL_ENCRYPTION_MASTER_KEY_V7'' = ''JOURNAL_ENCRYPTION_MASTER_KEY_V7''"
proof -
  have v: "key_env_version ''JOURNAL_ENCRYPTION_MASTER_KEY_V7'' = Some ''7''"
    by (simp add: key_env_version_def KEY_ENV_PREFIX_def py_startswith_def is_digit_def between_def cp_def nl_def)
  show ?thesis by (rule key_names_never_alias [OF v v]) (simp_all add: nl_def)
qed

text \<open>
  The column-pair helper shows one opaque error: it raises only
  \<open>DecryptionError\<close>, and does so exactly when one of the two columns alone is NULL or the
  cipher refuses the pair, whatever the cause (nonce shape, unknown version, tag, encoding).
\<close>

theorem decrypt_content_field_opaque:
  "decrypt_content_field a c ct n = Inl e \<longleftrightarrow>
     e = DecryptionError \<and> ((\<exists>x. ct = Some x \<and> n = None) \<or> (\<exists>y. ct = None \<and> n = Some y) \<or>
       (\<exists>x y e'. ct = Some x \<and> n = Some y \<and> decrypt a c x y = Inl e'))"
  by (cases ct; cases n) (auto simp: decrypt_content_field_def res_simps decrypt_or_raise_Inl)

end
