(* ===== verification/Journal.thy ===== *)
theory Journal
  imports Complex_Main Validation Cipher "HOL-Library.Product_Lexorder"
begin

text \<open>
  The PostgreSQL side of the journal: the tables of \<open>gubbi/alembic/baseline_schema.sql\<close> that the
  repositories of \<open>gubbi/storage/repositories\<close> read and write, their keys, and the row-level
  security of a user-scoped connection.

  A connection is a \<open>session\<close>: the user id bound to \<open>app.current_user_id\<close> and whether that
  user is active (\<open>app_current_user_active()\<close> is NULL for a deleted one).  A statement sees a
  row when \<open>vis\<close> holds of its \<open>user_id\<close>, and may write it only then.  Timestamps are integers,
  dates \<open>ymd\<close> values; a \<open>tsvector\<close> column is the text it was computed from; a stored vector is
  a list of rationals.  Identity columns count in \<open>next_\<close> fields.

  A repository function runs in the transaction its caller opened.  It returns \<open>Inl\<close> of the
  exception, and then the transaction is rolled back, or \<open>Inr\<close> of its result and the new
  database.
\<close>

type_synonym vec = "rat list"
type_synonym sealed = "bytes \<times> bytes"

record topic_row =
  tp_id :: int
  tp_path :: string
  tp_title :: string
  tp_description :: string
  tp_created :: int
  tp_updated :: int
  tp_user :: nat

record conv_row =
  cv_id :: int
  cv_topic :: int
  cv_slug :: string
  cv_source :: string
  cv_tags :: "ptext list"
  cv_participants :: "string list"
  cv_message_count :: nat
  cv_json_path :: "string option"
  cv_created :: int
  cv_updated :: int
  cv_user :: nat
  cv_search :: "ptext option"
  cv_title :: sealed
  cv_summary :: sealed
  cv_platform :: "string option"
  cv_platform_id :: "string option"
  cv_processed :: "int option"

record msg_row =
  mg_conv :: int
  mg_role :: string
  mg_timestamp :: "int option"
  mg_position :: nat
  mg_user :: nat
  mg_content :: sealed
  mg_search :: "ptext option"

record entry_row =
  en_id :: int
  en_topic :: int
  en_date :: ymd
  en_conv :: "int option"
  en_tags :: "ptext list"
  en_created :: int
  en_updated :: int
  en_deleted :: "int option"
  en_indexed :: "int option"
  en_user :: nat
  en_content :: sealed
  en_reasoning :: "sealed option"
  en_search :: "ptext option"

record emb_row =
  em_entry :: int
  em_vec :: vec
  em_indexed :: int
  em_user :: nat

record job_row =
  jb_id :: nat
  jb_user :: nat
  jb_conv :: int
  jb_source :: string
  jb_status :: string
  jb_topics_created :: int
  jb_entries_created :: int
  jb_cents_spent :: int
  jb_error_code :: "string option"
  jb_created :: int
  jb_started :: "int option"
  jb_completed :: "int option"
  jb_period_start :: ymd

text \<open>The actions of \<open>gubbi_common.audit.actions\<close> used here, with the metadata the code writes.\<close>

datatype audit_action = TopicRenamed | TopicDeleted | TopicMerged | EntryMoved |
  ConversationExtracted | JobCreated | JobCompleted | JobFailed

record audit_row =
  au_actor :: nat
  au_action :: audit_action
  au_target :: int
  au_paths :: "string list"
  au_counts :: "nat list"
  au_refs :: "int list"

record jdb =
  topics :: "topic_row list"
  convs :: "conv_row list"
  msgs :: "msg_row list"
  entries :: "entry_row list"
  embs :: "emb_row list"
  jobs :: "job_row list"
  audit :: "audit_row list"
  next_topic :: int
  next_conv :: int
  next_entry :: int

datatype jerror =
    TopicNotFound string
  | TopicIdNotFound int
  | TopicAlreadyExists string
  | TopicMergeConflict
  | EntryNotFound int
  | EntriesMoveNotFound "int list"
  | ConversationNotFound
  | ExtractionJobAlreadyInFlight nat
  | JValueError string
  | JInvalid verror
  | JCrypto cerror
  | JRuntimeError
  | PostgresError string
  | UniqueViolation
  | ForeignKeyViolation
  | InsufficientPrivilege

section \<open>Sessions and row-level security\<close>

record session =
  gs_user :: nat
  gs_active :: bool

definition vis :: "session \<Rightarrow> nat \<Rightarrow> bool" where
  "vis s owner = (gs_active s \<and> owner = gs_user s)"

definition topic_by_id :: "session \<Rightarrow> int \<Rightarrow> jdb \<Rightarrow> topic_row option" where
  "topic_by_id s i db = sql_first (\<lambda>t. vis s (tp_user t) \<and> tp_id t = i) (topics db)"

definition topic_by_path :: "session \<Rightarrow> string \<Rightarrow> jdb \<Rightarrow> topic_row option" where
  "topic_by_path s p db = sql_first (\<lambda>t. vis s (tp_user t) \<and> tp_path t = p) (topics db)"

definition live_entry :: "session \<Rightarrow> int \<Rightarrow> jdb \<Rightarrow> entry_row option" where
  "live_entry s i db = sql_first (\<lambda>e. vis s (en_user e) \<and> en_id e = i \<and> en_deleted e = None) (entries db)"

fun lift_invalid :: "verror + 'a \<Rightarrow> jerror + 'a" where
  "lift_invalid (Inl e) = Inl (JInvalid e)"
| "lift_invalid (Inr a) = Inr a"

fun lift_crypto :: "cerror + 'a \<Rightarrow> jerror + 'a" where
  "lift_crypto (Inl e) = Inl (JCrypto e)"
| "lift_crypto (Inr a) = Inr a"

lemma lift_Inr [res_simps]: "lift_invalid r = Inr a \<longleftrightarrow> r = Inr a" "lift_crypto q = Inr b \<longleftrightarrow> q = Inr b"
  by (cases r; simp) (cases q; simp)

text \<open>\<open>LIMIT\<close> and \<open>OFFSET\<close>; a NULL limit is none.\<close>

definition page :: "nat option \<Rightarrow> nat \<Rightarrow> 'a list \<Rightarrow> 'a list" where
  "page limit offset xs = (case limit of None \<Rightarrow> drop offset xs | Some n \<Rightarrow> take n (drop offset xs))"

section \<open>Prefix filters\<close>

text \<open>
  \<open>LIKE pattern ESCAPE '!'\<close>: \<open>%\<close> matches any text, \<open>_\<close> one character, and \<open>!\<close> makes the
  character after it literal (a pattern that ends in it is an error, here no match).
\<close>

fun sql_like :: "string \<Rightarrow> string \<Rightarrow> bool" where
  "sql_like [] s = (s = [])"
| "sql_like (p # ps) s =
     (if p = CHR ''!'' then
        (case ps of [] \<Rightarrow> False | q # qs \<Rightarrow> (case s of [] \<Rightarrow> False | c # cs \<Rightarrow> c = q \<and> sql_like qs cs))
      else if p = CHR ''%'' then (sql_like ps s \<or> (case s of [] \<Rightarrow> False | c # cs \<Rightarrow> sql_like (p # ps) cs))
      else if p = CHR ''_'' then (case s of [] \<Rightarrow> False | c # cs \<Rightarrow> sql_like ps cs)
      else (case s of [] \<Rightarrow> False | c # cs \<Rightarrow> c = p \<and> sql_like ps cs))"

text \<open>\<open>s.replace(a, b)\<close> for a one-character \<open>a\<close>.\<close>

definition replace_char :: "char \<Rightarrow> string \<Rightarrow> string \<Rightarrow> string" where
  "replace_char a b s = concat (map (\<lambda>c. if c = a then b else [c]) s)"

definition escape_like :: "string \<Rightarrow> string" where
  "escape_like s = replace_char (CHR ''_'') ''!_'' (replace_char (CHR ''%'') ''!%'' (replace_char (CHR ''!'') ''!!'' s))"

lemma replace_char_simps [simp]:
  "replace_char a b [] = []"
  "replace_char a b (c # s) = (if c = a then b else [c]) @ replace_char a b s"
  by (simp_all add: replace_char_def)

lemma replace_char_append: "replace_char a b (s @ t) = replace_char a b s @ replace_char a b t"
  by (simp add: replace_char_def)

lemma escape_like_Cons:
  "escape_like (c # s) =
     (if c = CHR ''!'' \<or> c = CHR ''%'' \<or> c = CHR ''_'' then [CHR ''!'', c] else [c]) @ escape_like s"
  by (simp add: escape_like_def replace_char_append)

lemma sql_like_any: "sql_like ''%'' s"
  by (induction s) simp_all

text \<open>
  The prefix filter built from any text selects exactly the paths that start with
  that text: no character of it acts as a wildcard.
\<close>

lemma prefix_filter_exact: "sql_like (escape_like prefix @ ''%'') path \<longleftrightarrow> py_startswith path prefix"
proof (induction prefix arbitrary: path)
  case Nil
  show ?case using sql_like_any [of path] by (simp add: escape_like_def py_startswith_def)
next
  case (Cons c cs)
  show ?case
  proof (cases path)
    case Nil
    then show ?thesis by (auto simp: escape_like_Cons py_startswith_def)
  next
    case (Cons d ds)
    then show ?thesis
      using Cons.IH [of ds] by (auto simp: escape_like_Cons py_startswith_def)
  qed
qed

section \<open>Integrity\<close>

text \<open>
  The constraints of the schema and the ownership that row-level security presupposes: keys are
  unique, references resolve, and a row belongs to the user of the row it refers to.
\<close>

definition topic_keys :: "jdb \<Rightarrow> (int \<times> nat) set" where
  "topic_keys db = (\<lambda>t. (tp_id t, tp_user t)) ` set (topics db)"

definition conv_keys :: "jdb \<Rightarrow> (int \<times> nat) set" where
  "conv_keys db = (\<lambda>c. (cv_id c, cv_user c)) ` set (convs db)"

definition entry_keys :: "jdb \<Rightarrow> (int \<times> nat) set" where
  "entry_keys db = (\<lambda>e. (en_id e, en_user e)) ` set (entries db)"

definition topics_ok :: "jdb \<Rightarrow> bool" where
  "topics_ok db = (unique_key tp_id (topics db) \<and> unique_key (\<lambda>t. (tp_user t, tp_path t)) (topics db) \<and>
     (\<forall>t \<in> set (topics db). tp_id t < next_topic db))"

definition convs_ok :: "jdb \<Rightarrow> bool" where
  "convs_ok db = (unique_key cv_id (convs db) \<and> unique_key (\<lambda>c. (cv_topic c, cv_slug c)) (convs db) \<and>
     (\<forall>c \<in> set (convs db). cv_id c < next_conv db \<and> (cv_topic c, cv_user c) \<in> topic_keys db))"

definition entries_ok :: "jdb \<Rightarrow> bool" where
  "entries_ok db = (unique_key en_id (entries db) \<and>
     (\<forall>e \<in> set (entries db). en_id e < next_entry db \<and> (en_topic e, en_user e) \<in> topic_keys db \<and>
        (\<forall>c. en_conv e = Some c \<longrightarrow> (c, en_user e) \<in> conv_keys db)))"

definition embs_ok :: "jdb \<Rightarrow> bool" where
  "embs_ok db = (unique_key em_entry (embs db) \<and>
     (\<forall>b \<in> set (embs db). (em_entry b, em_user b) \<in> entry_keys db))"

definition msgs_ok :: "jdb \<Rightarrow> bool" where
  "msgs_ok db = (\<forall>m \<in> set (msgs db). (mg_conv m, mg_user m) \<in> conv_keys db)"

definition jdb_ok :: "jdb \<Rightarrow> bool" where
  "jdb_ok db = (topics_ok db \<and> convs_ok db \<and> entries_ok db \<and> embs_ok db \<and> msgs_ok db)"

definition empty_jdb :: jdb where
  "empty_jdb = \<lparr>topics = [], convs = [], msgs = [], entries = [], embs = [], jobs = [], audit = [],
     next_topic = 1, next_conv = 1, next_entry = 1\<rparr>"

lemma empty_jdb_ok: "jdb_ok empty_jdb"
  by (simp add: jdb_ok_def topics_ok_def convs_ok_def entries_ok_def embs_ok_def msgs_ok_def empty_jdb_def)

text \<open>The rows that belong to users other than \<open>u\<close>.\<close>

definition others :: "nat \<Rightarrow> jdb \<Rightarrow> jdb" where
  "others u db = \<lparr>topics = filter (\<lambda>t. tp_user t \<noteq> u) (topics db),
     convs = filter (\<lambda>c. cv_user c \<noteq> u) (convs db), msgs = filter (\<lambda>m. mg_user m \<noteq> u) (msgs db),
     entries = filter (\<lambda>e. en_user e \<noteq> u) (entries db), embs = filter (\<lambda>b. em_user b \<noteq> u) (embs db),
     jobs = filter (\<lambda>j. jb_user j \<noteq> u) (jobs db), audit = filter (\<lambda>a. au_actor a \<noteq> u) (audit db),
     next_topic = 0, next_conv = 0, next_entry = 0\<rparr>"

named_theorems other_rules \<open>what a statement of a session leaves of the rows of other users\<close>

lemma filter_update_other [other_rules]:
  assumes "\<And>r. P r \<Longrightarrow> owner r = u" and "\<And>r. owner (f r) = owner r"
  shows "filter (\<lambda>r. owner r \<noteq> u) (sql_update P f t) = filter (\<lambda>r. owner r \<noteq> u) t"
  using assms by (induction t) (auto simp: sql_update_def)

lemma filter_delete_other [other_rules]:
  assumes "\<And>r. P r \<Longrightarrow> owner r = u"
  shows "filter (\<lambda>r. owner r \<noteq> u) (sql_delete P t) = filter (\<lambda>r. owner r \<noteq> u) t"
  using assms by (induction t) (auto simp: sql_delete_def)

lemma filter_insert_other [other_rules]:
  "owner r = u \<Longrightarrow> filter (\<lambda>r. owner r \<noteq> u) (sql_insert r t) = filter (\<lambda>r. owner r \<noteq> u) t"
  by (simp add: sql_insert_def)

lemma visD: "vis s owner \<Longrightarrow> owner = gs_user s"
  by (simp add: vis_def)

lemma topic_by_id_SomeD: "topic_by_id s i db = Some t \<Longrightarrow> t \<in> set (topics db) \<and> tp_id t = i \<and> tp_user t = gs_user s \<and> gs_active s"
  by (auto simp: topic_by_id_def vis_def dest: sql_first_SomeD)

lemma topic_by_path_SomeD: "topic_by_path s p db = Some t \<Longrightarrow> t \<in> set (topics db) \<and> tp_path t = p \<and> tp_user t = gs_user s \<and> gs_active s"
  by (auto simp: topic_by_path_def vis_def dest: sql_first_SomeD)

lemma live_entry_SomeD: "live_entry s i db = Some e \<Longrightarrow>
    e \<in> set (entries db) \<and> en_id e = i \<and> en_user e = gs_user s \<and> en_deleted e = None \<and> gs_active s"
  by (auto simp: live_entry_def vis_def dest: sql_first_SomeD)

text \<open>A small journal in order: two users, three topics, two conversations and three entries.\<close>

definition sample_jdb :: jdb where
  "sample_jdb = empty_jdb\<lparr>
     topics := [\<lparr>tp_id = 1, tp_path = ''work'', tp_title = ''Work'', tp_description = [], tp_created = 0, tp_updated = 5, tp_user = 7\<rparr>,
                \<lparr>tp_id = 2, tp_path = ''work/lab'', tp_title = ''Lab'', tp_description = [], tp_created = 1, tp_updated = 6, tp_user = 7\<rparr>,
                \<lparr>tp_id = 3, tp_path = ''work'', tp_title = ''Work'', tp_description = [], tp_created = 2, tp_updated = 7, tp_user = 8\<rparr>],
     convs := [\<lparr>cv_id = 1, cv_topic = 1, cv_slug = ''plan'', cv_source = ''claude'', cv_tags = [], cv_participants = [],
                cv_message_count = 0, cv_json_path = None, cv_created = 3, cv_updated = 3, cv_user = 7, cv_search = None,
                cv_title = ([1], [2]), cv_summary = ([3], [4]), cv_platform = None, cv_platform_id = None, cv_processed = None\<rparr>,
               \<lparr>cv_id = 2, cv_topic = 3, cv_slug = ''plan'', cv_source = ''claude'', cv_tags = [], cv_participants = [],
                cv_message_count = 0, cv_json_path = None, cv_created = 4, cv_updated = 4, cv_user = 8, cv_search = None,
                cv_title = ([5], [6]), cv_summary = ([7], [8]), cv_platform = None, cv_platform_id = None, cv_processed = None\<rparr>],
     entries := [\<lparr>en_id = 1, en_topic = 1, en_date = \<lparr>dyear = 2026, dmonth = 1, dday = 2\<rparr>, en_conv = Some 1, en_tags = [], en_created = 8, en_updated = 8,
                en_deleted = None, en_indexed = Some 9, en_user = 7, en_content = ([1, 2], [3]), en_reasoning = None, en_search = None\<rparr>,
               \<lparr>en_id = 2, en_topic = 2, en_date = \<lparr>dyear = 2026, dmonth = 1, dday = 3\<rparr>, en_conv = None, en_tags = [], en_created = 9, en_updated = 9,
                en_deleted = None, en_indexed = None, en_user = 7, en_content = ([4, 5], [6]), en_reasoning = None, en_search = None\<rparr>,
               \<lparr>en_id = 3, en_topic = 3, en_date = \<lparr>dyear = 2026, dmonth = 1, dday = 4\<rparr>, en_conv = Some 2, en_tags = [], en_created = 10, en_updated = 10,
                en_deleted = None, en_indexed = None, en_user = 8, en_content = ([7], [8]), en_reasoning = None, en_search = None\<rparr>],
     embs := [\<lparr>em_entry = 1, em_vec = [1, 0], em_indexed = 9, em_user = 7\<rparr>],
     next_topic := 4, next_conv := 3, next_entry := 4\<rparr>"

lemma sample_jdb_ok: "jdb_ok sample_jdb"
  by (simp add: jdb_ok_def topics_ok_def convs_ok_def entries_ok_def embs_ok_def msgs_ok_def topic_keys_def
      conv_keys_def entry_keys_def sample_jdb_def empty_jdb_def unique_key_def)

end
