(* ===== verification/Topics.thy ===== *)
theory Topics
  imports Journal
begin

text \<open>
  \<open>gubbi/storage/repositories/topics.py\<close>: looking topics up, creating and listing them, and the
  three mutations of a topic tree, \<open>rename\<close>, \<open>delete_with_reassign\<close> and \<open>merge\<close>.

  A timestamp counts microseconds from 1970-01-01 UTC, so its date is a day number.  Each
  mutation writes its audit rows in the same transaction.
\<close>

record topic_meta =
  tm_id :: int
  tm_topic :: string
  tm_title :: string
  tm_description :: string
  tm_created :: string
  tm_updated :: string
  tm_entry_count :: nat

record move_counts =
  mc_entries :: nat
  mc_conversations :: nat

definition ts_date :: "int \<Rightarrow> ymd" where
  "ts_date t = of_ord (719163 + t div 86400000000)"

definition entry_count :: "session \<Rightarrow> jdb \<Rightarrow> int \<Rightarrow> nat" where
  "entry_count s db i = sql_count (\<lambda>e. vis s (en_user e) \<and> en_topic e = i \<and> en_deleted e = None) (entries db)"

text \<open>The \<open>TopicMeta\<close> model validates the path again.\<close>

definition row_to_topic_meta :: "topic_row \<Rightarrow> nat \<Rightarrow> jerror + topic_meta" where
  "row_to_topic_meta row n =
     rmap (\<lambda>path. \<lparr>tm_id = tp_id row, tm_topic = path, tm_title = tp_title row,
       tm_description = tp_description row, tm_created = isoformat (ts_date (tp_created row)),
       tm_updated = isoformat (ts_date (tp_updated row)), tm_entry_count = n\<rparr>)
     (lift_invalid (validate_topic (tp_path row)))"

fun rmap_list :: "('a \<Rightarrow> 'e + 'b) \<Rightarrow> 'a list \<Rightarrow> 'e + 'b list" where
  "rmap_list f [] = Inr []"
| "rmap_list f (x # xs) = rbind (f x) (\<lambda>y. rmap (\<lambda>ys. y # ys) (rmap_list f xs))"

section \<open>Reading\<close>

definition get_id :: "session \<Rightarrow> string \<Rightarrow> jdb \<Rightarrow> jerror + int" where
  "get_id s topic db =
     rbind (lift_invalid (validate_topic topic)) (\<lambda>path.
     case topic_by_path s path db of
       Some t \<Rightarrow> Inr (tp_id t)
     | None \<Rightarrow> Inl (TopicNotFound path))"

definition get_topic :: "session \<Rightarrow> string \<Rightarrow> jdb \<Rightarrow> jerror + topic_meta option" where
  "get_topic s topic db =
     rbind (lift_invalid (validate_topic topic)) (\<lambda>path.
     case topic_by_path s path db of
       None \<Rightarrow> Inr None
     | Some t \<Rightarrow> rmap Some (row_to_topic_meta t (entry_count s db (tp_id t))))"

text \<open>The rows a list query selects: visible topics under an optional prefix.\<close>

definition topics_under :: "session \<Rightarrow> string option \<Rightarrow> jdb \<Rightarrow> topic_row list" where
  "topics_under s like_pattern db =
     sql_select (\<lambda>t. vis s (tp_user t) \<and> (case like_pattern of None \<Rightarrow> True | Some p \<Rightarrow> sql_like p (tp_path t)))
       (topics db)"

text \<open>\<open>if topic_prefix:\<close> the prefix is validated and escaped; an empty one is no filter.\<close>

definition prefix_pattern :: "string option \<Rightarrow> jerror + string option" where
  "prefix_pattern topic_prefix =
     (case topic_prefix of
        None \<Rightarrow> Inr None
      | Some p \<Rightarrow> if p = [] then Inr None
          else rmap (\<lambda>path. Some (escape_like path @ ''%'')) (lift_invalid (validate_topic p)))"

definition count_topics :: "session \<Rightarrow> string option \<Rightarrow> jdb \<Rightarrow> jerror + nat" where
  "count_topics s topic_prefix db =
     rmap (\<lambda>pattern. length (topics_under s pattern db)) (prefix_pattern topic_prefix)"

definition newest_topics :: "topic_row list \<Rightarrow> topic_row list" where
  "newest_topics ts = sort_key (\<lambda>t. (- tp_updated t, - tp_id t)) ts"

definition list_all_topics ::
  "session \<Rightarrow> string option \<Rightarrow> nat option \<Rightarrow> nat \<Rightarrow> jdb \<Rightarrow> jerror + (topic_meta list \<times> nat)" where
  "list_all_topics s topic_prefix limit offset db =
     rbind (prefix_pattern topic_prefix) (\<lambda>pattern.
     (let found = newest_topics (topics_under s pattern db);
          rows = page limit offset found
      in rbind (if rows \<noteq> [] then Inr (length found) else count_topics s topic_prefix db) (\<lambda>total.
         rmap (\<lambda>metas. (metas, total))
           (rmap_list (\<lambda>t. row_to_topic_meta t (entry_count s db (tp_id t))) rows))))"

section \<open>Creating\<close>

definition create_topic ::
  "session \<Rightarrow> int \<Rightarrow> string \<Rightarrow> string \<Rightarrow> string \<Rightarrow> int option \<Rightarrow> jdb \<Rightarrow> jerror + (int \<times> jdb)" where
  "create_topic s now topic title description created_at db =
     rbind (lift_invalid (validate_topic topic)) (\<lambda>path.
     if \<not> gs_active s then Inl InsufficientPrivilege
     else if list_ex (\<lambda>t. tp_user t = gs_user s \<and> tp_path t = path) (topics db) then Inl (TopicAlreadyExists path)
     else Inr (next_topic db,
       db\<lparr>topics := sql_insert \<lparr>tp_id = next_topic db, tp_path = path, tp_title = title,
            tp_description = description, tp_created = (case created_at of None \<Rightarrow> now | Some t \<Rightarrow> t),
            tp_updated = now, tp_user = gs_user s\<rparr> (topics db),
          next_topic := next_topic db + 1\<rparr>))"

section \<open>Mutations\<close>

definition require_path :: "session \<Rightarrow> int \<Rightarrow> jdb \<Rightarrow> jerror + string" where
  "require_path s topic_id db =
     (case topic_by_id s topic_id db of None \<Rightarrow> Inl (TopicIdNotFound topic_id) | Some t \<Rightarrow> Inr (tp_path t))"

definition count_moves :: "session \<Rightarrow> int \<Rightarrow> jdb \<Rightarrow> move_counts" where
  "count_moves s topic_id db =
     \<lparr>mc_entries = sql_count (\<lambda>e. vis s (en_user e) \<and> en_topic e = topic_id) (entries db),
      mc_conversations = sql_count (\<lambda>c. vis s (cv_user c) \<and> cv_topic c = topic_id) (convs db)\<rparr>"

text \<open>The two UPDATE statements; a pair (topic, slug) taken twice is the unique violation.\<close>

definition reassign_rows :: "session \<Rightarrow> int \<Rightarrow> int \<Rightarrow> int \<Rightarrow> jdb \<Rightarrow> jerror + (move_counts \<times> jdb)" where
  "reassign_rows s now source dest db =
     (let convs' = sql_update (\<lambda>c. vis s (cv_user c) \<and> cv_topic c = source)
                     (\<lambda>c. c\<lparr>cv_topic := dest, cv_updated := now\<rparr>) (convs db);
          entries' = sql_update (\<lambda>e. vis s (en_user e) \<and> en_topic e = source)
                     (\<lambda>e. e\<lparr>en_topic := dest, en_updated := now\<rparr>) (entries db)
      in if \<not> unique_key (\<lambda>c. (cv_topic c, cv_slug c)) convs' then Inl TopicMergeConflict
         else Inr (count_moves s source db, db\<lparr>convs := convs', entries := entries'\<rparr>))"

text \<open>\<open>DELETE FROM topics\<close> under the restricting foreign keys of entries and conversations.\<close>

definition delete_topic_row :: "session \<Rightarrow> int \<Rightarrow> jdb \<Rightarrow> jerror + jdb" where
  "delete_topic_row s topic_id db =
     (if topic_by_id s topic_id db \<noteq> None \<and>
         (list_ex (\<lambda>e. en_topic e = topic_id) (entries db) \<or> list_ex (\<lambda>c. cv_topic c = topic_id) (convs db))
      then Inl ForeignKeyViolation
      else Inr (db\<lparr>topics := sql_delete (\<lambda>t. vis s (tp_user t) \<and> tp_id t = topic_id) (topics db)\<rparr>))"

definition touch_topic :: "session \<Rightarrow> int \<Rightarrow> int \<Rightarrow> jdb \<Rightarrow> jdb" where
  "touch_topic s now topic_id db =
     db\<lparr>topics := sql_update (\<lambda>t. vis s (tp_user t) \<and> tp_id t = topic_id) (\<lambda>t. t\<lparr>tp_updated := now\<rparr>) (topics db)\<rparr>"

text \<open>The policy of \<open>audit_log\<close> admits a row only for the session's own user.\<close>

definition record_audit ::
  "session \<Rightarrow> nat \<Rightarrow> audit_action \<Rightarrow> int \<Rightarrow> string list \<Rightarrow> nat list \<Rightarrow> int list \<Rightarrow> jdb \<Rightarrow> jerror + jdb" where
  "record_audit s actor action target paths counts refs db =
     (if actor \<noteq> gs_user s then Inl InsufficientPrivilege
      else Inr (db\<lparr>audit := sql_insert \<lparr>au_actor = actor, au_action = action, au_target = target,
              au_paths = paths, au_counts = counts, au_refs = refs\<rparr> (audit db)\<rparr>))"

definition write_audit ::
  "session \<Rightarrow> nat \<Rightarrow> audit_action \<Rightarrow> int \<Rightarrow> string list \<Rightarrow> nat list \<Rightarrow> jdb \<Rightarrow> jerror + jdb" where
  "write_audit s actor action target paths counts db = record_audit s actor action target paths counts [] db"

definition renamed :: "int \<Rightarrow> string \<Rightarrow> string option \<Rightarrow> topic_row \<Rightarrow> topic_row" where
  "renamed now path title t =
     t\<lparr>tp_path := path, tp_title := (case title of None \<Rightarrow> tp_title t | Some x \<Rightarrow> x), tp_updated := now\<rparr>"

definition rename_topic ::
  "session \<Rightarrow> int \<Rightarrow> nat \<Rightarrow> int \<Rightarrow> string \<Rightarrow> string option \<Rightarrow> jdb \<Rightarrow> jerror + (topic_meta \<times> jdb)" where
  "rename_topic s now actor topic_id new_path new_title db =
     rbind (lift_invalid (validate_topic new_path)) (\<lambda>path.
     rbind (require_path s topic_id db) (\<lambda>old_path.
     rbind (case new_title of None \<Rightarrow> Inr None | Some t \<Rightarrow> rmap Some (lift_invalid (validate_title t))) (\<lambda>title.
     (let topics' = sql_update (\<lambda>t. vis s (tp_user t) \<and> tp_id t = topic_id) (renamed now path title) (topics db)
      in if \<not> unique_key (\<lambda>t. (tp_user t, tp_path t)) topics' then Inl (TopicAlreadyExists path)
         else case sql_first (\<lambda>t. vis s (tp_user t) \<and> tp_id t = topic_id) topics' of
                None \<Rightarrow> Inl (TopicIdNotFound topic_id)
              | Some row \<Rightarrow>
                  rbind (write_audit s actor TopicRenamed topic_id [old_path, path] [] (db\<lparr>topics := topics'\<rparr>)) (\<lambda>db'.
                  rmap (\<lambda>meta. (meta, db')) (row_to_topic_meta row 0))))))"

definition delete_with_reassign ::
  "session \<Rightarrow> int \<Rightarrow> nat \<Rightarrow> int \<Rightarrow> int option \<Rightarrow> jdb \<Rightarrow> jerror + (move_counts \<times> jdb)" where
  "delete_with_reassign s now actor topic_id move_entries_to db =
     rbind (require_path s topic_id db) (\<lambda>source_path.
     (let counts = count_moves s topic_id db in
      if mc_entries counts = 0 \<and> mc_conversations counts = 0
      then rbind (delete_topic_row s topic_id db) (\<lambda>db1.
           rmap (\<lambda>db2. (\<lparr>mc_entries = 0, mc_conversations = 0\<rparr>, db2))
             (write_audit s actor TopicDeleted topic_id [source_path] [0, 0] db1))
      else case move_entries_to of
             None \<Rightarrow> Inl (JValueError ''entries need a destination'')
           | Some dest \<Rightarrow>
               if dest = topic_id then Inl (JValueError ''Cannot reassign a topic to itself'')
               else rbind (require_path s dest db) (\<lambda>dest_path.
                    rbind (reassign_rows s now topic_id dest db) (\<lambda>(moved, db1).
                    rbind (delete_topic_row s topic_id db1) (\<lambda>db2.
                    rbind (write_audit s actor EntryMoved dest [source_path, dest_path]
                             [mc_entries moved, mc_conversations moved] (touch_topic s now dest db2)) (\<lambda>db3.
                    rmap (\<lambda>db4. (moved, db4))
                      (write_audit s actor TopicDeleted topic_id [source_path, dest_path]
                         [mc_entries moved, mc_conversations moved] db3)))))))"

definition merge_topics ::
  "session \<Rightarrow> int \<Rightarrow> nat \<Rightarrow> int \<Rightarrow> int \<Rightarrow> jdb \<Rightarrow> jerror + (move_counts \<times> jdb)" where
  "merge_topics s now actor source into db =
     (if source = into then Inl (JValueError ''Cannot merge a topic into itself'')
      else rbind (require_path s source db) (\<lambda>source_path.
           rbind (require_path s into db) (\<lambda>dest_path.
           rbind (reassign_rows s now source into db) (\<lambda>(moved, db1).
           rbind (delete_topic_row s source db1) (\<lambda>db2.
           rmap (\<lambda>db3. (moved, db3))
             (write_audit s actor TopicMerged into [source_path, dest_path]
                [mc_entries moved, mc_conversations moved] (touch_topic s now into db2)))))))"

section \<open>Integrity and isolation\<close>

lemma map_update: "(\<And>r. g (f r) = g r) \<Longrightarrow> map g (sql_update P f t) = map g t"
  by (induction t) (auto simp: sql_update_def)

lemma image_update: "(\<And>r. g (f r) = g r) \<Longrightarrow> g ` set (sql_update P f t) = g ` set t"
  by (metis map_update list.set_map)

lemma unique_key_update_iff: "(\<And>r. g (f r) = g r) \<Longrightarrow> unique_key g (sql_update P f t) = unique_key g t"
  by (simp add: unique_key_def map_update)

text \<open>Changing topics only: the other tables stay in order while the keys they refer to remain.\<close>

lemma jdb_ok_topics:
  assumes "jdb_ok db" and "topics_ok (db\<lparr>topics := ts, next_topic := n\<rparr>)"
    and "\<And>c. c \<in> set (convs db) \<Longrightarrow> (cv_topic c, cv_user c) \<in> (\<lambda>t. (tp_id t, tp_user t)) ` set ts"
    and "\<And>e. e \<in> set (entries db) \<Longrightarrow> (en_topic e, en_user e) \<in> (\<lambda>t. (tp_id t, tp_user t)) ` set ts"
  shows "jdb_ok (db\<lparr>topics := ts, next_topic := n\<rparr>)"
  using assms
  by (auto simp: jdb_ok_def convs_ok_def entries_ok_def embs_ok_def msgs_ok_def topic_keys_def
      conv_keys_def entry_keys_def)

lemma jdb_ok_topics_update:
  assumes "jdb_ok db" and "\<And>t. tp_id (f t) = tp_id t" and "\<And>t. tp_user (f t) = tp_user t"
    and "unique_key (\<lambda>t. (tp_user t, tp_path t)) (sql_update P f (topics db))"
  shows "jdb_ok (db\<lparr>topics := sql_update P f (topics db)\<rparr>)"
proof -
  have keys: "(\<lambda>t. (tp_id t, tp_user t)) ` set (sql_update P f (topics db)) = (\<lambda>t. (tp_id t, tp_user t)) ` set (topics db)"
    using assms(2,3) by (intro image_update) simp
  have "unique_key tp_id (sql_update P f (topics db)) = unique_key tp_id (topics db)"
    using assms(2) by (rule unique_key_update_iff)
  moreover have "\<forall>t \<in> set (sql_update P f (topics db)). tp_id t < next_topic db"
    using assms(1,2) by (auto simp: jdb_ok_def topics_ok_def sql_simps)
  ultimately have "topics_ok (db\<lparr>topics := sql_update P f (topics db), next_topic := next_topic db\<rparr>)"
    using assms(1,4) by (simp add: topics_ok_def jdb_ok_def)
  then have "jdb_ok (db\<lparr>topics := sql_update P f (topics db), next_topic := next_topic db\<rparr>)"
    using assms(1)
    by (intro jdb_ok_topics) (auto simp: keys jdb_ok_def convs_ok_def entries_ok_def topic_keys_def)
  then show ?thesis by simp
qed

lemma touch_topic_ok: "jdb_ok db \<Longrightarrow> jdb_ok (touch_topic s now i db)"
  unfolding touch_topic_def
  by (rule jdb_ok_topics_update) (auto simp: unique_key_update_iff jdb_ok_def topics_ok_def)

lemma jdb_ok_frame [simp]:
  "jdb_ok (db\<lparr>audit := a\<rparr>) = jdb_ok db" "jdb_ok (db\<lparr>jobs := j\<rparr>) = jdb_ok db"
  by (simp_all add: jdb_ok_def topics_ok_def convs_ok_def entries_ok_def embs_ok_def msgs_ok_def
      topic_keys_def conv_keys_def entry_keys_def)

lemma create_topic_ok:
  assumes "jdb_ok db" and "create_topic s now topic title desc created db = Inr (i, db')"
  shows "jdb_ok db'" and "others (gs_user s) db' = others (gs_user s) db"
proof -
  from assms(2) obtain row where db': "db' = db\<lparr>topics := sql_insert row (topics db), next_topic := next_topic db + 1\<rparr>"
    and row: "tp_id row = next_topic db" "tp_user row = gs_user s"
    and new: "\<And>t. t \<in> set (topics db) \<Longrightarrow> tp_user t = gs_user s \<Longrightarrow> tp_path t \<noteq> tp_path row"
    by (fastforce simp: create_topic_def res_simps list_ex_iff split: if_splits)
  have "unique_key tp_id (sql_insert row (topics db))"
    "unique_key (\<lambda>t. (tp_user t, tp_path t)) (sql_insert row (topics db))"
    using assms(1) row new by (auto intro!: unique_key_insert simp: jdb_ok_def topics_ok_def)
  then have "topics_ok db'"
    using assms(1) row by (auto simp: db' topics_ok_def jdb_ok_def sql_simps)
  then show "jdb_ok db'"
    using assms(1) unfolding db'
    by (intro jdb_ok_topics) (auto simp: sql_simps jdb_ok_def convs_ok_def entries_ok_def topic_keys_def)
  show "others (gs_user s) db' = others (gs_user s) db"
    using row by (auto simp: db' others_def intro!: other_rules)
qed

lemma reassign_rows_ok:
  assumes "jdb_ok db" and "topic_by_id s dest db = Some t" and "reassign_rows s now source dest db = Inr (m, db')"
  shows "jdb_ok db'" and "others (gs_user s) db' = others (gs_user s) db" and "topics db' = topics db"
    and "audit db' = audit db"
proof -
  let ?C = "sql_update (\<lambda>c. vis s (cv_user c) \<and> cv_topic c = source) (\<lambda>c. c\<lparr>cv_topic := dest, cv_updated := now\<rparr>) (convs db)"
    and ?E = "sql_update (\<lambda>e. vis s (en_user e) \<and> en_topic e = source) (\<lambda>e. e\<lparr>en_topic := dest, en_updated := now\<rparr>) (entries db)"
  have db': "db' = db\<lparr>convs := ?C, entries := ?E\<rparr>" and slugs: "unique_key (\<lambda>c. (cv_topic c, cv_slug c)) ?C"
    using assms(3) by (auto simp: reassign_rows_def Let_def split: if_splits)
  have dest: "(dest, gs_user s) \<in> topic_keys db"
    using topic_by_id_SomeD [OF assms(2)] by (force simp: topic_keys_def)
  have ck: "conv_keys db' = conv_keys db" and ek: "entry_keys db' = entry_keys db"
    by (simp_all add: db' conv_keys_def entry_keys_def image_update)
  have tk: "topic_keys db' = topic_keys db" by (simp add: db' topic_keys_def)
  have "convs_ok db'"
    using assms(1) dest slugs
    by (auto simp: convs_ok_def jdb_ok_def tk) (auto simp: db' unique_key_update_iff sql_simps vis_def)
  moreover have "entries_ok db'"
    using assms(1) dest
    by (auto simp: entries_ok_def jdb_ok_def tk ck) (auto simp: db' unique_key_update_iff sql_simps vis_def)
  ultimately show "jdb_ok db'"
    using assms(1) ek ck by (simp add: jdb_ok_def embs_ok_def msgs_ok_def topics_ok_def) (simp add: db')
  show "others (gs_user s) db' = others (gs_user s) db"
    by (auto simp: db' others_def vis_def intro!: other_rules)
  show "topics db' = topics db" "audit db' = audit db" by (simp_all add: db')
qed

lemma delete_topic_row_ok:
  assumes "jdb_ok db" and "delete_topic_row s i db = Inr db'"
  shows "jdb_ok db'" and "others (gs_user s) db' = others (gs_user s) db"
proof -
  have db': "db' = db\<lparr>topics := sql_delete (\<lambda>t. vis s (tp_user t) \<and> tp_id t = i) (topics db)\<rparr>"
    and unused: "topic_by_id s i db = None \<or>
      (\<forall>e \<in> set (entries db). en_topic e \<noteq> i) \<and> (\<forall>c \<in> set (convs db). cv_topic c \<noteq> i)"
    using assms(2) by (auto simp: delete_topic_row_def list_ex_iff split: if_splits)
  have gone: "topic_by_id s i db = None \<Longrightarrow> sql_delete (\<lambda>t. vis s (tp_user t) \<and> tp_id t = i) (topics db) = topics db"
    by (auto simp: topic_by_id_def sql_simps sql_delete_def filter_id_conv)
  have ok: "topics_ok (db\<lparr>topics := sql_delete (\<lambda>t. vis s (tp_user t) \<and> tp_id t = i) (topics db), next_topic := next_topic db\<rparr>)"
    using assms(1) by (auto simp: jdb_ok_def topics_ok_def sql_simps)
  have "jdb_ok (db\<lparr>topics := sql_delete (\<lambda>t. vis s (tp_user t) \<and> tp_id t = i) (topics db), next_topic := next_topic db\<rparr>)"
  proof (cases "topic_by_id s i db = None")
    case True
    then show ?thesis using assms(1) by (simp add: gone)
  next
    case False
    with unused assms(1) show ?thesis
      by (intro jdb_ok_topics [OF assms(1) ok])
        (auto simp: jdb_ok_def convs_ok_def entries_ok_def topic_keys_def sql_simps image_iff; metis)+
  qed
  then show "jdb_ok db'" by (simp add: db')
  show "others (gs_user s) db' = others (gs_user s) db"
    by (auto simp: db' others_def vis_def intro!: other_rules)
qed

lemma record_audit_ok:
  assumes "record_audit s actor action target paths counts refs db = Inr db'"
  shows "jdb_ok db' = jdb_ok db" and "others (gs_user s) db' = others (gs_user s) db"
  using assms by (auto simp: record_audit_def others_def split: if_splits intro!: other_rules)

lemma write_audit_ok:
  assumes "write_audit s actor action target paths counts db = Inr db'"
  shows "jdb_ok db' = jdb_ok db" and "others (gs_user s) db' = others (gs_user s) db"
  using record_audit_ok [OF assms [unfolded write_audit_def]] by simp_all

lemma touch_topic_others: "others (gs_user s) (touch_topic s now i db) = others (gs_user s) db"
  by (auto simp: touch_topic_def others_def vis_def intro!: other_rules)

lemma require_path_Inr: "require_path s i db = Inr p \<longleftrightarrow> (\<exists>t. topic_by_id s i db = Some t \<and> p = tp_path t)"
  by (auto simp: require_path_def split: option.splits)

lemma rename_topic_Inr:
  assumes "rename_topic s now actor i new_path new_title db = Inr (m, db')"
  obtains path title old ts where "ts = sql_update (\<lambda>t. vis s (tp_user t) \<and> tp_id t = i) (renamed now path title) (topics db)"
    and "unique_key (\<lambda>t. (tp_user t, tp_path t)) ts"
    and "write_audit s actor TopicRenamed i [old, path] [] (db\<lparr>topics := ts\<rparr>) = Inr db'"
  using assms by (auto simp: rename_topic_def res_simps Let_def split: if_splits option.splits)

lemma rename_topic_ok:
  assumes "jdb_ok db" and "rename_topic s now actor i new_path new_title db = Inr (m, db')"
  shows "jdb_ok db' \<and> others (gs_user s) db' = others (gs_user s) db"
  using assms(2)
proof (rule rename_topic_Inr)
  fix path title old ts
  assume ts: "ts = sql_update (\<lambda>t. vis s (tp_user t) \<and> tp_id t = i) (renamed now path title) (topics db)"
    and u: "unique_key (\<lambda>t. (tp_user t, tp_path t)) ts"
    and a: "write_audit s actor TopicRenamed i [old, path] [] (db\<lparr>topics := ts\<rparr>) = Inr db'"
  have "jdb_ok (db\<lparr>topics := ts\<rparr>)"
    unfolding ts by (rule jdb_ok_topics_update [OF assms(1) _ _ u [unfolded ts]]) (simp_all add: renamed_def)
  moreover have "others (gs_user s) (db\<lparr>topics := ts\<rparr>) = others (gs_user s) db"
    unfolding ts by (auto simp: others_def vis_def renamed_def intro!: other_rules)
  ultimately show ?thesis using write_audit_ok [OF a] by simp
qed

lemma delete_with_reassign_ok:
  assumes "jdb_ok db" and "delete_with_reassign s now actor i dest db = Inr (m, db')"
  shows "jdb_ok db' \<and> others (gs_user s) db' = others (gs_user s) db"
proof (cases "mc_entries (count_moves s i db) = 0 \<and> mc_conversations (count_moves s i db) = 0")
  case True
  then obtain db1 paths where steps: "delete_topic_row s i db = Inr db1"
    "write_audit s actor TopicDeleted i paths [0, 0] db1 = Inr db'"
    using assms(2) by (auto simp: delete_with_reassign_def res_simps Let_def)
  show ?thesis using delete_topic_row_ok [OF assms(1) steps(1)] write_audit_ok [OF steps(2)] by simp
next
  case False
  note run = assms(2) [unfolded delete_with_reassign_def Let_def if_not_P [OF False]]
  obtain j where dest: "dest = Some j"
    using run by (cases dest) (simp_all add: res_simps)
  have "j \<noteq> i" using run by (auto simp: dest res_simps)
  then obtain t db1 db2 db3 n p1 p2 where steps: "topic_by_id s j db = Some t"
    "reassign_rows s now i j db = Inr (n, db1)" "delete_topic_row s i db1 = Inr db2"
    "write_audit s actor EntryMoved j p1 [mc_entries n, mc_conversations n] (touch_topic s now j db2) = Inr db3"
    "write_audit s actor TopicDeleted i p2 [mc_entries n, mc_conversations n] db3 = Inr db'"
    using run by (simp add: dest res_simps require_path_Inr split_beta) blast
  have "jdb_ok db1 \<and> others (gs_user s) db1 = others (gs_user s) db"
    using reassign_rows_ok(1,2) [OF assms(1) steps(1,2)] by simp
  then have "jdb_ok db2 \<and> others (gs_user s) db2 = others (gs_user s) db"
    using delete_topic_row_ok [OF _ steps(3)] by simp
  then show ?thesis
    using write_audit_ok [OF steps(4)] write_audit_ok [OF steps(5)] by (simp add: touch_topic_ok touch_topic_others)
qed

lemma merge_topics_Inr:
  assumes "merge_topics s now actor source into db = Inr (m, db')"
  obtains t u db1 db2 paths where "source \<noteq> into" and "topic_by_id s source db = Some u"
    and "topic_by_id s into db = Some t" and "reassign_rows s now source into db = Inr (m, db1)"
    and "delete_topic_row s source db1 = Inr db2"
    and "write_audit s actor TopicMerged into paths [mc_entries m, mc_conversations m] (touch_topic s now into db2) = Inr db'"
    and "paths = [tp_path u, tp_path t]"
  using assms by (auto simp: merge_topics_def res_simps require_path_Inr split: if_splits prod.splits)

lemma merge_topics_ok:
  assumes "jdb_ok db" and "merge_topics s now actor source into db = Inr (m, db')"
  shows "jdb_ok db' \<and> others (gs_user s) db' = others (gs_user s) db"
  using assms(2)
proof (rule merge_topics_Inr)
  fix t u db1 db2 paths
  assume steps: "topic_by_id s into db = Some t" "reassign_rows s now source into db = Inr (m, db1)"
    "delete_topic_row s source db1 = Inr db2"
    "write_audit s actor TopicMerged into paths [mc_entries m, mc_conversations m] (touch_topic s now into db2) = Inr db'"
  have "jdb_ok db1 \<and> others (gs_user s) db1 = others (gs_user s) db"
    using reassign_rows_ok(1,2) [OF assms(1) steps(1,2)] by simp
  then have "jdb_ok db2 \<and> others (gs_user s) db2 = others (gs_user s) db"
    using delete_topic_row_ok [OF _ steps(3)] by simp
  then show ?thesis using write_audit_ok [OF steps(4)] by (simp add: touch_topic_ok touch_topic_others)
qed

text \<open>In a database in order the rows of a visible topic are the visible rows of it.\<close>

lemma topic_rows_visible:
  assumes "jdb_ok db" and "topic_by_id s i db = Some t"
  shows "e \<in> set (entries db) \<Longrightarrow> en_topic e = i \<Longrightarrow> vis s (en_user e)"
    and "c \<in> set (convs db) \<Longrightarrow> cv_topic c = i \<Longrightarrow> vis s (cv_user c)"
proof -
  note t = topic_by_id_SomeD [OF assms(2)]
  have owner: "(i, u) \<in> topic_keys db \<Longrightarrow> u = gs_user s" for u
    using t assms(1) by (auto simp: topic_keys_def jdb_ok_def topics_ok_def dest: unique_keyD)
  show "e \<in> set (entries db) \<Longrightarrow> en_topic e = i \<Longrightarrow> vis s (en_user e)"
    using assms(1) owner t by (auto simp: jdb_ok_def entries_ok_def vis_def)
  show "c \<in> set (convs db) \<Longrightarrow> cv_topic c = i \<Longrightarrow> vis s (cv_user c)"
    using assms(1) owner t by (auto simp: jdb_ok_def convs_ok_def vis_def)
qed

definition slug_clash :: "int \<Rightarrow> int \<Rightarrow> jdb \<Rightarrow> bool" where
  "slug_clash source dest db =
     list_ex (\<lambda>c. cv_topic c = source \<and> list_ex (\<lambda>d. cv_topic d = dest \<and> cv_slug d = cv_slug c) (convs db)) (convs db)"

lemma unique_key_move:
  assumes "unique_key (\<lambda>c. (cv_topic c, cv_slug c)) cs" and "source \<noteq> dest"
  shows "unique_key (\<lambda>c. (cv_topic c, cv_slug c))
      (map (\<lambda>c. if cv_topic c = source then c\<lparr>cv_topic := dest, cv_updated := now\<rparr> else c) cs) \<longleftrightarrow>
    \<not> (\<exists>c \<in> set cs. \<exists>d \<in> set cs. cv_topic c = source \<and> cv_topic d = dest \<and> cv_slug d = cv_slug c)"
  using assms
proof (induction cs)
  case Nil
  then show ?case by simp
next
  case (Cons a cs)
  then show ?case by (auto simp: unique_key_def image_iff split: if_splits)
qed

lemma update_visible:
  assumes "\<And>r. r \<in> set t \<Longrightarrow> key r = i \<Longrightarrow> vis s (owner r)"
  shows "sql_update (\<lambda>r. vis s (owner r) \<and> key r = i) f t = map (\<lambda>r. if key r = i then f r else r) t"
  using assms by (auto simp: sql_update_def)

lemma count_visible:
  assumes "\<And>r. r \<in> set t \<Longrightarrow> key r = i \<Longrightarrow> vis s (owner r)"
  shows "sql_count (\<lambda>r. vis s (owner r) \<and> key r = i) t = length (filter (\<lambda>r. key r = i) t)"
proof -
  have "filter (\<lambda>r. vis s (owner r) \<and> key r = i) t = filter (\<lambda>r. key r = i) t"
    using assms by (auto intro: filter_cong)
  then show ?thesis by (simp add: sql_count_def)
qed

text \<open>
  Moving all rows of one visible topic to another: the only obstacle is a slug both hold, and
  afterwards the source is free of rows, so that deleting it cannot violate a foreign key.
\<close>

lemma reassign_rows_exact:
  assumes "jdb_ok db" and "topic_by_id s source db = Some t" and "source \<noteq> dest"
  shows "reassign_rows s now source dest db =
    (if slug_clash source dest db then Inl TopicMergeConflict
     else Inr (\<lparr>mc_entries = length (filter (\<lambda>e. en_topic e = source) (entries db)),
                mc_conversations = length (filter (\<lambda>c. cv_topic c = source) (convs db))\<rparr>,
          db\<lparr>convs := map (\<lambda>c. if cv_topic c = source then c\<lparr>cv_topic := dest, cv_updated := now\<rparr> else c) (convs db),
             entries := map (\<lambda>e. if en_topic e = source then e\<lparr>en_topic := dest, en_updated := now\<rparr> else e) (entries db)\<rparr>))"
proof -
  note rows = topic_rows_visible [OF assms(1,2)]
  have slugs: "unique_key (\<lambda>c. (cv_topic c, cv_slug c)) (convs db)"
    using assms(1) by (simp add: jdb_ok_def convs_ok_def)
  have c: "sql_update (\<lambda>c. vis s (cv_user c) \<and> cv_topic c = source) f (convs db) =
      map (\<lambda>c. if cv_topic c = source then f c else c) (convs db)" for f
    by (rule update_visible) (use rows in auto)
  have e: "sql_update (\<lambda>e. vis s (en_user e) \<and> en_topic e = source) f (entries db) =
      map (\<lambda>e. if en_topic e = source then f e else e) (entries db)" for f
    by (rule update_visible) (use rows in auto)
  have n: "count_moves s source db = \<lparr>mc_entries = length (filter (\<lambda>e. en_topic e = source) (entries db)),
      mc_conversations = length (filter (\<lambda>c. cv_topic c = source) (convs db))\<rparr>"
    unfolding count_moves_def
    by (simp add: count_visible [where key = en_topic and owner = en_user] rows
        count_visible [where key = cv_topic and owner = cv_user])
  have "slug_clash source dest db \<longleftrightarrow>
      (\<exists>c \<in> set (convs db). \<exists>d \<in> set (convs db). cv_topic c = source \<and> cv_topic d = dest \<and> cv_slug d = cv_slug c)"
    by (auto simp: slug_clash_def list_ex_iff)
  then show ?thesis
    unfolding reassign_rows_def c e n Let_def
    using unique_key_move [OF slugs assms(3), of now] by simp
qed

text \<open>
  Property C14. In a database whose constraints hold, \<open>merge\<close> of one topic into another
  succeeds exactly when the two ids differ, both topics are visible to the session, no
  conversation slug occurs in both, and the actor is the session's user; the error names the
  first condition that fails.  On success every entry and conversation of the source, and
  nothing else, is re-filed under the destination with a new update time, the source topic is
  gone, the destination is touched, one audit row records both paths and the exact numbers of
  rows moved, and the foreign keys never stop the deletion.
\<close>

theorem merge_topics_exact:
  assumes "jdb_ok db"
  shows "merge_topics s now actor source into db =
    (if source = into then Inl (JValueError ''Cannot merge a topic into itself'')
     else case topic_by_id s source db of None \<Rightarrow> Inl (TopicIdNotFound source)
     | Some from \<Rightarrow> (case topic_by_id s into db of None \<Rightarrow> Inl (TopicIdNotFound into)
     | Some to \<Rightarrow>
       if slug_clash source into db then Inl TopicMergeConflict
       else if actor \<noteq> gs_user s then Inl InsufficientPrivilege
       else (let n = length (filter (\<lambda>e. en_topic e = source) (entries db));
                 k = length (filter (\<lambda>c. cv_topic c = source) (convs db))
         in Inr (\<lparr>mc_entries = n, mc_conversations = k\<rparr>,
           db\<lparr>convs := map (\<lambda>c. if cv_topic c = source then c\<lparr>cv_topic := into, cv_updated := now\<rparr> else c) (convs db),
              entries := map (\<lambda>e. if en_topic e = source then e\<lparr>en_topic := into, en_updated := now\<rparr> else e) (entries db),
              topics := map (\<lambda>t. if tp_id t = into then t\<lparr>tp_updated := now\<rparr> else t)
                          (filter (\<lambda>t. tp_id t \<noteq> source) (topics db)),
              audit := audit db @ [\<lparr>au_actor = gs_user s, au_action = TopicMerged, au_target = into,
                          au_paths = [tp_path from, tp_path to], au_counts = [n, k], au_refs = []\<rparr>]\<rparr>))))"
proof (cases "source \<noteq> into \<and> topic_by_id s source db \<noteq> None \<and> topic_by_id s into db \<noteq> None \<and>
    \<not> slug_clash source into db")
  case False
  then show ?thesis
    using reassign_rows_exact [OF assms]
    by (auto simp: merge_topics_def require_path_def split: option.splits)
next
  case True
  then obtain t u where t: "topic_by_id s source db = Some t" and u: "topic_by_id s into db = Some u" by auto
  let ?C = "map (\<lambda>c. if cv_topic c = source then c\<lparr>cv_topic := into, cv_updated := now\<rparr> else c) (convs db)"
    and ?E = "map (\<lambda>e. if en_topic e = source then e\<lparr>en_topic := into, en_updated := now\<rparr> else e) (entries db)"
    and ?T = "filter (\<lambda>t. tp_id t \<noteq> source) (topics db)"
  have owned: "r \<in> set (topics db) \<Longrightarrow> tp_id r = i \<Longrightarrow> topic_by_id s i db = Some q \<Longrightarrow> vis s (tp_user r)" for r i q
    using assms topic_by_id_SomeD [of s i db q]
    by (auto simp: jdb_ok_def topics_ok_def vis_def dest: unique_keyD)
  have "\<not> list_ex (\<lambda>e. en_topic e = source) ?E" "\<not> list_ex (\<lambda>c. cv_topic c = source) ?C"
    using True by (auto simp: list_ex_iff)
  moreover have "sql_delete (\<lambda>t. vis s (tp_user t) \<and> tp_id t = source) (topics db) = ?T"
    unfolding sql_delete_def using owned [OF _ _ t] by (auto intro: filter_cong)
  ultimately have del: "delete_topic_row s source (db\<lparr>convs := ?C, entries := ?E\<rparr>) =
      Inr (db\<lparr>convs := ?C, entries := ?E, topics := ?T\<rparr>)"
    by (simp add: delete_topic_row_def)
  have touch: "sql_update (\<lambda>t. vis s (tp_user t) \<and> tp_id t = into) (\<lambda>t. t\<lparr>tp_updated := now\<rparr>) ?T =
      map (\<lambda>t. if tp_id t = into then t\<lparr>tp_updated := now\<rparr> else t) ?T"
    by (rule update_visible) (use owned [OF _ _ u] in auto)
  show ?thesis
    using True reassign_rows_exact [OF assms t, of into now]
    by (simp add: merge_topics_def require_path_def t u del touch touch_topic_def write_audit_def record_audit_def sql_insert_def Let_def)
qed

lemma merge_topics_exact_witness:
  "jdb_ok sample_jdb \<and>
   (\<exists>db'. merge_topics \<lparr>gs_user = 7, gs_active = True\<rparr> 100 7 1 2 sample_jdb =
      Inr (\<lparr>mc_entries = 1, mc_conversations = 1\<rparr>, db') \<and> map en_topic (entries db') = [2, 2, 3])"
  using sample_jdb_ok merge_topics_exact [OF sample_jdb_ok, of "\<lparr>gs_user = 7, gs_active = True\<rparr>" 100 7 1 2]
  by (simp add: sample_jdb_def empty_jdb_def topic_by_id_def vis_def sql_first_def slug_clash_def)

end
