(* ===== verification/Entries.thy ===== *)
theory Entries
  imports Topics
begin

text \<open>
  \<open>gubbi/storage/repositories/entries.py\<close>: every operation on the entries table, with the
  embedding rows of \<open>gubbi/storage/embedding_service.py\<close> that hang off it.

  The clock (\<open>now\<close>, \<open>today\<close>) and the random nonces are arguments, one nonce per call of the
  cipher in the order the code makes them.  The text search vector of a row is the text it is
  computed from.  The operations of the reindex worker run on a connection that bypasses
  row-level security and so take no session.

  Calendar dates compare by their ordinal.
\<close>

definition text_of :: "string \<Rightarrow> ptext" where
  "text_of s = map cp s"

text \<open>\<open>str.strip()\<close> on text: the white space of Unicode.\<close>

definition is_white :: "nat \<Rightarrow> bool" where
  "is_white c = ((9 \<le> c \<and> c \<le> 13) \<or> (28 \<le> c \<and> c \<le> 32) \<or> c \<in> {133, 160, 5760} \<or> (8192 \<le> c \<and> c \<le> 8202) \<or>
     c \<in> {8232, 8233, 8239, 8287, 12288})"

definition text_strip :: "ptext \<Rightarrow> ptext" where
  "text_strip s = rev (dropWhile is_white (rev (dropWhile is_white s)))"

definition decryption_failed_text :: ptext where
  "decryption_failed_text = text_of ''[decryption-failed]''"

record entry_out =
  eo_id :: int
  eo_date :: string
  eo_content :: ptext
  eo_reasoning :: "ptext option"
  eo_conv :: "int option"
  eo_tags :: "ptext list"

section \<open>Columns\<close>

text \<open>A pair of encrypted columns: NULL is \<open>None\<close>.\<close>

definition open_column :: "aead \<Rightarrow> content_cipher \<Rightarrow> sealed option \<Rightarrow> jerror + ptext option" where
  "open_column a c col = lift_crypto (decrypt_content_field a c (map_option fst col) (map_option snd col))"

text \<open>A value the code has found not to be NULL, or the \<open>RuntimeError\<close> it raises otherwise.\<close>

fun not_null :: "'a option \<Rightarrow> jerror + 'a" where
  "not_null None = Inl JRuntimeError"
| "not_null (Some x) = Inr x"

definition seal_opt :: "aead \<Rightarrow> content_cipher \<Rightarrow> bytes \<Rightarrow> ptext option \<Rightarrow> jerror + sealed option" where
  "seal_opt a c rnd p = (case p of None \<Rightarrow> Inr None | Some x \<Rightarrow> rmap Some (lift_crypto (encrypt a c rnd x)))"

definition parse_date :: "string \<Rightarrow> jerror + ymd" where
  "parse_date s = (case date_fromisoformat s of None \<Rightarrow> Inl (JValueError ''Invalid isoformat string'') | Some d \<Rightarrow> Inr d)"

text \<open>An optional date filter, an empty text being none: validated, then parsed.\<close>

definition date_bound :: "string option \<Rightarrow> jerror + ymd option" where
  "date_bound s =
     (case s of None \<Rightarrow> Inr None
      | Some x \<Rightarrow> if x = [] then Inr None
                  else rbind (lift_invalid (validate_date x)) (\<lambda>_. rmap Some (parse_date x)))"

section \<open>Writing entries\<close>

definition insert_entry :: "session \<Rightarrow> (int \<Rightarrow> entry_row) \<Rightarrow> jdb \<Rightarrow> jerror + (int \<times> jdb)" where
  "insert_entry s row db =
     (if \<not> gs_active s then Inl InsufficientPrivilege
      else Inr (next_entry db, db\<lparr>entries := sql_insert (row (next_entry db)) (entries db), next_entry := next_entry db + 1\<rparr>))"

definition append_entry ::
  "session \<Rightarrow> aead \<Rightarrow> content_cipher \<Rightarrow> int \<Rightarrow> ymd \<Rightarrow> bytes \<Rightarrow> bytes \<Rightarrow> string \<Rightarrow> ptext \<Rightarrow> ptext option \<Rightarrow>
   ptext list option \<Rightarrow> string option \<Rightarrow> jdb \<Rightarrow> jerror + (int \<times> jdb)" where
  "append_entry s a c now today rnd1 rnd2 topic content reasoning tags date db =
     rbind (get_id s topic db) (\<lambda>topic_id.
     rbind (case date of None \<Rightarrow> Inr today | Some x \<Rightarrow> if x = [] then Inr today else parse_date x) (\<lambda>d.
     rbind (lift_crypto (encrypt a c rnd1 content)) (\<lambda>sealed_content.
     rbind (seal_opt a c rnd2 reasoning) (\<lambda>sealed_reasoning.
     rmap (\<lambda>(i, db'). (i, touch_topic s now topic_id db'))
       (insert_entry s (\<lambda>i. \<lparr>en_id = i, en_topic = topic_id, en_date = d, en_conv = None,
          en_tags = (case tags of None \<Rightarrow> [] | Some ts \<Rightarrow> ts), en_created = now, en_updated = now, en_deleted = None,
          en_indexed = None, en_user = gs_user s, en_content = sealed_content, en_reasoning = sealed_reasoning,
          en_search = Some content\<rparr>) db)))))"

text \<open>
  \<open>update\<close>: the plaintext the content column gets (\<open>None\<close> when it is not touched), the one of
  the reasoning column, and the statement.
\<close>

definition joined :: "ptext \<Rightarrow> ptext \<Rightarrow> ptext" where
  "joined old new = text_strip (old @ [10, 10] @ new)"

definition new_content ::
  "aead \<Rightarrow> content_cipher \<Rightarrow> entry_row \<Rightarrow> string \<Rightarrow> ptext option \<Rightarrow> jerror + ptext option" where
  "new_content a c row mode content =
     (case content of
        None \<Rightarrow> Inr None
      | Some t \<Rightarrow>
          if mode = ''append'' then
            rbind (open_column a c (Some (en_content row))) (\<lambda>old.
            rmap (\<lambda>o'. Some (joined o' t)) (not_null old))
          else if mode = ''replace'' then Inr (Some t)
          else Inl (JValueError ''Invalid mode''))"

definition new_reasoning ::
  "aead \<Rightarrow> content_cipher \<Rightarrow> entry_row \<Rightarrow> string \<Rightarrow> ptext option \<Rightarrow> jerror + ptext option" where
  "new_reasoning a c row mode reasoning =
     (case reasoning of
        None \<Rightarrow> Inr None
      | Some t \<Rightarrow>
          if mode = ''append'' then
            rmap (\<lambda>old. case old of None \<Rightarrow> Some t | Some o' \<Rightarrow> if o' = [] then Some t else Some (joined o' t))
              (open_column a c (en_reasoning row))
          else Inr (Some t))"

definition set_entry ::
  "int \<Rightarrow> (sealed \<times> ptext) option \<Rightarrow> sealed option \<Rightarrow> ymd option \<Rightarrow> ptext list option \<Rightarrow> entry_row \<Rightarrow> entry_row" where
  "set_entry now content reasoning date tags e =
     e\<lparr>en_updated := now,
       en_content := (case content of None \<Rightarrow> en_content e | Some (x, _) \<Rightarrow> x),
       en_search := (case content of None \<Rightarrow> en_search e | Some (_, t) \<Rightarrow> Some t),
       en_reasoning := (case reasoning of None \<Rightarrow> en_reasoning e | Some x \<Rightarrow> Some x),
       en_date := (case date of None \<Rightarrow> en_date e | Some d \<Rightarrow> d),
       en_tags := (case tags of None \<Rightarrow> en_tags e | Some ts \<Rightarrow> ts),
       en_indexed := (if content \<noteq> None \<or> reasoning \<noteq> None then None else en_indexed e)\<rparr>"

definition delete_embedding :: "session \<Rightarrow> int \<Rightarrow> jdb \<Rightarrow> jdb" where
  "delete_embedding s i db = db\<lparr>embs := sql_delete (\<lambda>b. vis s (em_user b) \<and> em_entry b = i) (embs db)\<rparr>"

definition update_entry ::
  "session \<Rightarrow> aead \<Rightarrow> content_cipher \<Rightarrow> int \<Rightarrow> bytes \<Rightarrow> bytes \<Rightarrow> int \<Rightarrow> ptext option \<Rightarrow> ptext option \<Rightarrow> string \<Rightarrow>
   string option \<Rightarrow> ptext list option \<Rightarrow> jdb \<Rightarrow> jerror + jdb" where
  "update_entry s a c now rnd1 rnd2 entry_id content reasoning mode date tags db =
     (case live_entry s entry_id db of
        None \<Rightarrow> Inl (EntryNotFound entry_id)
      | Some row \<Rightarrow>
          rbind (new_content a c row mode content) (\<lambda>content'.
          rbind (new_reasoning a c row mode reasoning) (\<lambda>reasoning'.
          rbind (case content' of None \<Rightarrow> Inr None
                 | Some t \<Rightarrow> rmap (\<lambda>x. Some (x, t)) (lift_crypto (encrypt a c rnd1 t))) (\<lambda>sealed_content.
          rbind (seal_opt a c rnd2 reasoning') (\<lambda>sealed_reasoning.
          rbind (case date of None \<Rightarrow> Inr None | Some x \<Rightarrow> rmap Some (parse_date x)) (\<lambda>date'.
          (let db1 = touch_topic s now (en_topic row)
                 (db\<lparr>entries := sql_update (\<lambda>e. vis s (en_user e) \<and> en_id e = entry_id)
                       (set_entry now sealed_content sealed_reasoning date' tags) (entries db)\<rparr>)
           in Inr (if content \<noteq> None \<or> reasoning \<noteq> None then delete_embedding s entry_id db1 else db1))))))))"

definition delete_entry :: "session \<Rightarrow> int \<Rightarrow> int \<Rightarrow> jdb \<Rightarrow> jerror + (int \<times> jdb)" where
  "delete_entry s now entry_id db =
     (case live_entry s entry_id db of
        None \<Rightarrow> Inl (EntryNotFound entry_id)
      | Some row \<Rightarrow> Inr (en_topic row, touch_topic s now (en_topic row) (delete_embedding s entry_id
          (db\<lparr>entries := sql_update (\<lambda>e. vis s (en_user e) \<and> en_id e = entry_id \<and> en_deleted e = None)
                (\<lambda>e. e\<lparr>en_deleted := Some now, en_updated := now\<rparr>) (entries db)\<rparr>))))"

text \<open>\<open>list(dict.fromkeys(ids))\<close>: the first occurrence of each id, in order.\<close>

definition dedup :: "'a list \<Rightarrow> 'a list" where
  "dedup xs = rev (remdups (rev xs))"

definition MAX_MOVE_IDS :: nat where "MAX_MOVE_IDS = 100"

definition move_entries_to_topic :: "session \<Rightarrow> int \<Rightarrow> nat \<Rightarrow> int list \<Rightarrow> int \<Rightarrow> jdb \<Rightarrow> jerror + (nat \<times> jdb)" where
  "move_entries_to_topic s now actor entry_ids dest db =
     (let ids = dedup entry_ids in
      if ids = [] then Inl (JValueError ''No entry ids supplied'')
      else if length ids > MAX_MOVE_IDS then Inl (JValueError ''Cannot move more than 100 entries at once'')
      else rbind (require_path s dest db) (\<lambda>dest_path.
        (let movable = (\<lambda>e. vis s (en_user e) \<and> en_id e \<in> set ids \<and> en_deleted e = None);
             moved_ids = map en_id (sql_select movable (entries db));
             missing = filter (\<lambda>i. i \<notin> set moved_ids) ids
         in if missing \<noteq> [] then Inl (EntriesMoveNotFound missing)
            else rmap (\<lambda>db'. (length ids, db'))
              (write_audit s actor EntryMoved dest [dest_path] [length ids]
                (touch_topic s now dest
                  (db\<lparr>entries := sql_update movable (\<lambda>e. e\<lparr>en_topic := dest, en_updated := now\<rparr>) (entries db)\<rparr>))))))"

section \<open>Reading entries\<close>

definition in_range :: "ymd option \<Rightarrow> ymd option \<Rightarrow> ymd \<Rightarrow> bool" where
  "in_range lo hi d =
     ((case lo of None \<Rightarrow> True | Some x \<Rightarrow> ord_of x \<le> ord_of d) \<and> (case hi of None \<Rightarrow> True | Some x \<Rightarrow> ord_of d \<le> ord_of x))"

definition newest_first :: "entry_row list \<Rightarrow> entry_row list" where
  "newest_first es = sort_key (\<lambda>e. (- ord_of (en_date e), - en_created e, - en_id e)) es"

definition oldest_first :: "entry_row list \<Rightarrow> entry_row list" where
  "oldest_first es = sort_key (\<lambda>e. (ord_of (en_date e), en_created e, en_id e)) es"

text \<open>\<open>LIMIT\<close> and \<open>OFFSET\<close> given as Python integers: a negative one is an error of the server.\<close>

definition pg_page :: "int option \<Rightarrow> int \<Rightarrow> 'a list \<Rightarrow> jerror + 'a list" where
  "pg_page limit offset xs =
     (if offset < 0 then Inl (PostgresError ''OFFSET must not be negative'')
      else case limit of
        None \<Rightarrow> Inr (drop (nat offset) xs)
      | Some n \<Rightarrow> if n < 0 then Inl (PostgresError ''LIMIT must not be negative'')
                  else Inr (take (nat n) (drop (nat offset) xs)))"

text \<open>A tag longer than 128 characters fails the validation of the \<open>Entry\<close> model.\<close>

definition build_entry :: "aead \<Rightarrow> content_cipher \<Rightarrow> entry_row \<Rightarrow> jerror + entry_out" where
  "build_entry a c e =
     (if list_ex (\<lambda>t. 128 < length t) (en_tags e) then Inl (JValueError ''tags'')
      else (let out = \<lparr>eo_id = en_id e, eo_date = isoformat (en_date e), eo_content = decryption_failed_text,
                       eo_reasoning = None, eo_conv = en_conv e, eo_tags = en_tags e\<rparr>
        in case (open_column a c (Some (en_content e)), open_column a c (en_reasoning e)) of
             (Inr (Some content), Inr reasoning) \<Rightarrow> Inr (out\<lparr>eo_content := content, eo_reasoning := reasoning\<rparr>)
           | _ \<Rightarrow> Inr out))"

definition entries_of_topic :: "session \<Rightarrow> int \<Rightarrow> ymd option \<Rightarrow> ymd option \<Rightarrow> jdb \<Rightarrow> entry_row list" where
  "entries_of_topic s topic_id lo hi db =
     sql_select (\<lambda>e. vis s (en_user e) \<and> en_topic e = topic_id \<and> en_deleted e = None \<and> in_range lo hi (en_date e)) (entries db)"

definition read_entries ::
  "session \<Rightarrow> aead \<Rightarrow> content_cipher \<Rightarrow> string \<Rightarrow> int option \<Rightarrow> string option \<Rightarrow> string option \<Rightarrow> int \<Rightarrow> jdb \<Rightarrow>
   jerror + (topic_meta \<times> entry_out list \<times> nat)" where
  "read_entries s a c topic limit date_from date_to offset db =
     rbind (date_bound date_from) (\<lambda>lo.
     rbind (date_bound date_to) (\<lambda>hi.
     rbind (get_topic s topic db) (\<lambda>found. case found of
       None \<Rightarrow> Inl (TopicNotFound topic)
     | Some meta \<Rightarrow>
         (let matching = newest_first (entries_of_topic s (tm_id meta) lo hi db);
              sql_limit = (case limit of None \<Rightarrow> None | Some n \<Rightarrow> if n > 0 then Some n else None);
              sql_offset = (if offset > 0 then offset else 0)
          in rbind (pg_page sql_limit sql_offset matching) (\<lambda>rows.
             (let total = (if rows \<noteq> [] then length matching
                           else length (entries_of_topic s (tm_id meta) lo hi db))
              in rmap (\<lambda>es. (meta, es, total)) (rmap_list (build_entry a c) rows)))))))"

text \<open>The row a join of entries, topics and conversations selects.\<close>

definition entry_path :: "session \<Rightarrow> jdb \<Rightarrow> entry_row \<Rightarrow> string option" where
  "entry_path s db e = map_option tp_path (topic_by_id s (en_topic e) db)"

definition conv_by_id :: "session \<Rightarrow> int \<Rightarrow> jdb \<Rightarrow> conv_row option" where
  "conv_by_id s i db = sql_first (\<lambda>c. vis s (cv_user c) \<and> cv_id c = i) (convs db)"

definition entry_source :: "session \<Rightarrow> jdb \<Rightarrow> entry_row \<Rightarrow> string option" where
  "entry_source s db e =
     (case en_conv e of None \<Rightarrow> None | Some i \<Rightarrow> map_option cv_source (conv_by_id s i db))"

definition list_matches ::
  "session \<Rightarrow> jdb \<Rightarrow> string option \<Rightarrow> ymd option \<Rightarrow> ymd option \<Rightarrow> ptext list \<Rightarrow> string option \<Rightarrow> entry_row \<Rightarrow> bool" where
  "list_matches s db topic lo hi tags source e =
     (vis s (en_user e) \<and> en_deleted e = None \<and> entry_path s db e \<noteq> None \<and>
      (case topic of None \<Rightarrow> True | Some p \<Rightarrow> entry_path s db e = Some p) \<and>
      in_range lo hi (en_date e) \<and>
      list_all (\<lambda>t. t \<in> set (en_tags e)) tags \<and>
      (case source of None \<Rightarrow> True | Some x \<Rightarrow> entry_source s db e = Some x))"

definition non_empty :: "'a list option \<Rightarrow> 'a list option" where
  "non_empty x = (if x = Some [] then None else x)"

definition list_entries ::
  "session \<Rightarrow> string option \<Rightarrow> string option \<Rightarrow> string option \<Rightarrow> ptext list option \<Rightarrow> string option \<Rightarrow> string \<Rightarrow>
   int option \<Rightarrow> int \<Rightarrow> jdb \<Rightarrow> jerror + ((entry_row \<times> string) list \<times> nat)" where
  "list_entries s topic date_from date_to tags source order limit offset db =
     rbind (date_bound date_from) (\<lambda>lo.
     rbind (date_bound date_to) (\<lambda>hi.
     if order \<noteq> ''newest'' \<and> order \<noteq> ''oldest'' then Inl (JValueError ''Invalid sort'')
     else rbind (case non_empty topic of None \<Rightarrow> Inr None | Some t \<Rightarrow> rmap Some (lift_invalid (validate_topic t))) (\<lambda>path.
       (let matching = sql_select (list_matches s db path lo hi (case tags of None \<Rightarrow> [] | Some ts \<Rightarrow> ts) (non_empty source)) (entries db);
            sorted_rows = (if order = ''newest'' then newest_first matching else oldest_first matching);
            offset' = (if limit = None \<and> offset \<le> 0 then 0 else offset)
        in rmap (\<lambda>rows. (map (\<lambda>e. (e, the (entry_path s db e))) rows, length matching))
             (pg_page limit offset' sorted_rows)))))"

definition get_entry_by_id :: "session \<Rightarrow> int \<Rightarrow> jdb \<Rightarrow> (entry_row \<times> string) option" where
  "get_entry_by_id s i db =
     (case live_entry s i db of None \<Rightarrow> None | Some e \<Rightarrow> map_option (\<lambda>p. (e, p)) (entry_path s db e))"

definition get_text :: "session \<Rightarrow> aead \<Rightarrow> content_cipher \<Rightarrow> int \<Rightarrow> jdb \<Rightarrow> jerror + (ptext option \<times> ptext option) option" where
  "get_text s a c i db =
     (case live_entry s i db of
        None \<Rightarrow> Inr None
      | Some e \<Rightarrow> rbind (open_column a c (Some (en_content e))) (\<lambda>content.
                  rmap (\<lambda>reasoning. Some (content, reasoning)) (open_column a c (en_reasoning e))))"

definition entry_texts :: "aead \<Rightarrow> content_cipher \<Rightarrow> entry_row \<Rightarrow> ptext option \<times> ptext option" where
  "entry_texts a c e =
     (case (open_column a c (Some (en_content e)), open_column a c (en_reasoning e)) of
        (Inr content, Inr reasoning) \<Rightarrow> (content, reasoning)
      | _ \<Rightarrow> (Some decryption_failed_text, None))"

definition get_texts :: "session \<Rightarrow> aead \<Rightarrow> content_cipher \<Rightarrow> int list \<Rightarrow> jdb \<Rightarrow> (int \<times> ptext option \<times> ptext option) list" where
  "get_texts s a c ids db =
     map (\<lambda>e. (en_id e, entry_texts a c e))
       (sql_select (\<lambda>e. vis s (en_user e) \<and> en_id e \<in> set ids \<and> en_deleted e = None) (entries db))"

section \<open>Integrity and isolation\<close>

lemma jdb_ok_entries_update:
  assumes "jdb_ok db" and "\<And>e. en_id (f e) = en_id e" "\<And>e. en_user (f e) = en_user e" "\<And>e. en_conv (f e) = en_conv e"
    and "\<And>e. e \<in> set (entries db) \<Longrightarrow> P e \<Longrightarrow> (en_topic (f e), en_user e) \<in> topic_keys db"
  shows "jdb_ok (db\<lparr>entries := sql_update P f (entries db)\<rparr>)"
proof -
  let ?db = "db\<lparr>entries := sql_update P f (entries db)\<rparr>"
  have keys: "topic_keys ?db = topic_keys db" "conv_keys ?db = conv_keys db" "entry_keys ?db = entry_keys db"
    using assms(2,3) by (simp_all add: topic_keys_def conv_keys_def entry_keys_def image_update)
  have "entries_ok ?db"
    using assms unfolding entries_ok_def jdb_ok_def keys by (auto simp: unique_key_update_iff sql_simps)
  then show ?thesis
    using assms(1) by (simp add: jdb_ok_def topics_ok_def convs_ok_def embs_ok_def msgs_ok_def keys)
qed

lemma jdb_ok_embs:
  assumes "jdb_ok db" and "unique_key em_entry es" and "\<And>b. b \<in> set es \<Longrightarrow> (em_entry b, em_user b) \<in> entry_keys db"
  shows "jdb_ok (db\<lparr>embs := es\<rparr>)"
  using assms
  by (simp add: jdb_ok_def topics_ok_def convs_ok_def entries_ok_def embs_ok_def msgs_ok_def topic_keys_def
      conv_keys_def entry_keys_def)

lemma insert_entry_ok:
  assumes "jdb_ok db" and "insert_entry s row db = Inr (i, db')"
    and "en_id (row (next_entry db)) = next_entry db" "en_user (row (next_entry db)) = gs_user s"
    and "(en_topic (row (next_entry db)), gs_user s) \<in> topic_keys db"
    and "\<And>c. en_conv (row (next_entry db)) = Some c \<Longrightarrow> (c, gs_user s) \<in> conv_keys db"
  shows "jdb_ok db'" and "others (gs_user s) db' = others (gs_user s) db"
proof -
  let ?r = "row (next_entry db)"
  have db': "db' = db\<lparr>entries := sql_insert ?r (entries db), next_entry := next_entry db + 1\<rparr>"
    using assms(2) by (auto simp: insert_entry_def split: if_splits)
  have keys: "topic_keys db' = topic_keys db" "conv_keys db' = conv_keys db" "entry_keys db \<subseteq> entry_keys db'"
    by (auto simp: db' topic_keys_def conv_keys_def entry_keys_def sql_simps)
  have "unique_key en_id (sql_insert ?r (entries db))"
    using assms(1,3) by (auto intro!: unique_key_insert simp: jdb_ok_def entries_ok_def)
  then have "entries_ok db'"
    using assms unfolding entries_ok_def jdb_ok_def keys by (auto simp: db' sql_simps)
  then show "jdb_ok db'"
    using assms(1) subsetD [OF keys(3)]
    by (simp add: jdb_ok_def topics_ok_def convs_ok_def embs_ok_def msgs_ok_def keys) (simp add: db')
  show "others (gs_user s) db' = others (gs_user s) db"
    using assms(4) by (auto simp: db' others_def intro!: other_rules)
qed

lemma delete_embedding_ok: "jdb_ok db \<Longrightarrow> jdb_ok (delete_embedding s i db)"
  unfolding delete_embedding_def
  by (rule jdb_ok_embs) (auto simp: jdb_ok_def embs_ok_def sql_simps)

lemma delete_embedding_others: "others (gs_user s) (delete_embedding s i db) = others (gs_user s) db"
  by (auto simp: delete_embedding_def others_def vis_def intro!: other_rules)

lemma get_id_Inr:
  "get_id s topic db = Inr i \<longleftrightarrow> (\<exists>p t. validate_topic topic = Inr p \<and> topic_by_path s p db = Some t \<and> tp_id t = i)"
  by (auto simp: get_id_def res_simps split: option.splits)

lemma get_id_key: "get_id s topic db = Inr i \<Longrightarrow> (i, gs_user s) \<in> topic_keys db \<and> gs_active s"
  by (auto simp: get_id_Inr topic_keys_def dest!: topic_by_path_SomeD)

lemma append_entry_ok:
  assumes "jdb_ok db" and "append_entry s a c now today r1 r2 topic content reasoning tags date db = Inr (i, db')"
  shows "jdb_ok db' \<and> others (gs_user s) db' = others (gs_user s) db"
proof -
  from assms(2) obtain topic_id row db1 where t: "get_id s topic db = Inr topic_id"
    and ins: "insert_entry s row db = Inr (i, db1)" and db': "db' = touch_topic s now topic_id db1"
    and row: "\<And>i. en_id (row i) = i" "\<And>i. en_user (row i) = gs_user s" "\<And>i. en_topic (row i) = topic_id" "\<And>i. en_conv (row i) = None"
    by (auto simp: append_entry_def res_simps split_beta)
  have "jdb_ok db1" "others (gs_user s) db1 = others (gs_user s) db"
    using insert_entry_ok [OF assms(1) ins] get_id_key [OF t] row by simp_all
  then show ?thesis by (simp add: db' touch_topic_ok touch_topic_others)
qed

lemma set_entry_frame [simp]:
  "en_id (set_entry now x r d ts e) = en_id e" "en_user (set_entry now x r d ts e) = en_user e"
  "en_conv (set_entry now x r d ts e) = en_conv e" "en_topic (set_entry now x r d ts e) = en_topic e"
  "en_deleted (set_entry now x r d ts e) = en_deleted e" "en_created (set_entry now x r d ts e) = en_created e"
  by (simp_all add: set_entry_def)

lemma entry_topic_key: "jdb_ok db \<Longrightarrow> e \<in> set (entries db) \<Longrightarrow> (en_topic e, en_user e) \<in> topic_keys db"
  by (simp add: jdb_ok_def entries_ok_def)

lemma new_content_None: "new_content a c row mode content = Inr z \<Longrightarrow> z = None \<longleftrightarrow> content = None"
  by (auto simp: new_content_def res_simps split: option.splits if_splits)

lemma new_reasoning_None: "new_reasoning a c row mode reasoning = Inr z \<Longrightarrow> z = None \<longleftrightarrow> reasoning = None"
  by (auto simp: new_reasoning_def res_simps split: option.splits if_splits)

lemma seal_opt_None: "seal_opt a c rnd p = Inr z \<Longrightarrow> z = None \<longleftrightarrow> p = None"
  by (auto simp: seal_opt_def res_simps split: option.splits)

lemma update_entry_Inr:
  assumes "update_entry s a c now r1 r2 i content reasoning mode date tags db = Inr db'"
  obtains row x r d content' reasoning' where "live_entry s i db = Some row"
    and "new_content a c row mode content = Inr content'"
    and "new_reasoning a c row mode reasoning = Inr reasoning'"
    and "(case content' of None \<Rightarrow> x = None
          | Some t \<Rightarrow> (\<exists>y. x = Some (y, t) \<and> lift_crypto (encrypt a c r1 t) = Inr y))"
    and "seal_opt a c r2 reasoning' = Inr r"
    and "(case date of None \<Rightarrow> d = None | Some y \<Rightarrow> (\<exists>z. d = Some z \<and> parse_date y = Inr z))"
    and "db' = (let db1 = touch_topic s now (en_topic row)
        (db\<lparr>entries := sql_update (\<lambda>e. vis s (en_user e) \<and> en_id e = i) (set_entry now x r d tags) (entries db)\<rparr>)
      in if content \<noteq> None \<or> reasoning \<noteq> None then delete_embedding s i db1 else db1)"
proof -
  obtain row where row: "live_entry s i db = Some row"
    using assms by (auto simp: update_entry_def split: option.splits)
  obtain content' reasoning' x r d where steps: "new_content a c row mode content = Inr content'"
      "new_reasoning a c row mode reasoning = Inr reasoning'"
      "(case content' of None \<Rightarrow> Inr None | Some t \<Rightarrow> rmap (\<lambda>x. Some (x, t)) (lift_crypto (encrypt a c r1 t))) = Inr x"
      "seal_opt a c r2 reasoning' = Inr r"
      "(case date of None \<Rightarrow> Inr None | Some x \<Rightarrow> rmap Some (parse_date x)) = Inr d"
    and db': "db' = (let db1 = touch_topic s now (en_topic row)
        (db\<lparr>entries := sql_update (\<lambda>e. vis s (en_user e) \<and> en_id e = i) (set_entry now x r d tags) (entries db)\<rparr>)
      in if content \<noteq> None \<or> reasoning \<noteq> None then delete_embedding s i db1 else db1)"
    using assms unfolding update_entry_def row option.case rbind_eq_Inr Let_def by blast
  show ?thesis
    by (rule that [OF row steps(1,2) _ steps(4) _ db'])
      (use steps(3,5) in \<open>auto simp: res_simps split: option.splits\<close>)
qed

lemma update_entry_ok:
  assumes "jdb_ok db" and "update_entry s a c now r1 r2 i content reasoning mode date tags db = Inr db'"
  shows "jdb_ok db' \<and> others (gs_user s) db' = others (gs_user s) db"
  using assms(2)
proof (rule update_entry_Inr)
  fix row x r d content' reasoning'
  let ?db = "db\<lparr>entries := sql_update (\<lambda>e. vis s (en_user e) \<and> en_id e = i) (set_entry now x r d tags) (entries db)\<rparr>"
  assume db': "db' = (let db1 = touch_topic s now (en_topic row) ?db
      in if content \<noteq> None \<or> reasoning \<noteq> None then delete_embedding s i db1 else db1)"
  have "jdb_ok ?db"
    using assms(1) by (rule jdb_ok_entries_update) (auto simp: entry_topic_key [OF assms(1)])
  moreover have "others (gs_user s) ?db = others (gs_user s) db"
    by (auto simp: others_def vis_def intro!: other_rules)
  ultimately show ?thesis
    by (simp add: db' Let_def touch_topic_ok touch_topic_others delete_embedding_ok delete_embedding_others)
qed

lemma delete_entry_ok:
  assumes "jdb_ok db" and "delete_entry s now i db = Inr (t, db')"
  shows "jdb_ok db' \<and> others (gs_user s) db' = others (gs_user s) db"
proof -
  let ?db = "db\<lparr>entries := sql_update (\<lambda>e. vis s (en_user e) \<and> en_id e = i \<and> en_deleted e = None)
                (\<lambda>e. e\<lparr>en_deleted := Some now, en_updated := now\<rparr>) (entries db)\<rparr>"
  have "jdb_ok ?db"
    using assms(1) by (rule jdb_ok_entries_update) (auto simp: entry_topic_key [OF assms(1)])
  moreover have "others (gs_user s) ?db = others (gs_user s) db"
    by (auto simp: others_def vis_def intro!: other_rules)
  moreover obtain row where "live_entry s i db = Some row"
    using assms(2) by (auto simp: delete_entry_def split: option.splits)
  then have "db' = touch_topic s now (en_topic row) (delete_embedding s i ?db)"
    using assms(2) by (auto simp: delete_entry_def)
  ultimately show ?thesis
    by (simp add: touch_topic_ok touch_topic_others delete_embedding_ok delete_embedding_others)
qed

lemma set_dedup [simp]: "set (dedup xs) = set xs"
  by (simp add: dedup_def)

lemma distinct_dedup [simp]: "distinct (dedup xs)"
  by (simp add: dedup_def)

lemma move_entries_ok:
  assumes "jdb_ok db" and "move_entries_to_topic s now actor ids dest db = Inr (n, db')"
  shows "jdb_ok db' \<and> others (gs_user s) db' = others (gs_user s) db"
proof -
  let ?P = "\<lambda>e. vis s (en_user e) \<and> en_id e \<in> set ids \<and> en_deleted e = None"
  let ?db = "db\<lparr>entries := sql_update ?P (\<lambda>e. e\<lparr>en_topic := dest, en_updated := now\<rparr>) (entries db)\<rparr>"
  from assms(2) obtain t path counts where t: "topic_by_id s dest db = Some t"
    and au: "write_audit s actor EntryMoved dest path counts (touch_topic s now dest ?db) = Inr db'"
    by (auto simp: move_entries_to_topic_def Let_def res_simps require_path_Inr split: if_splits)
  have "jdb_ok ?db"
    using assms(1) topic_by_id_SomeD [OF t]
    by (intro jdb_ok_entries_update) (auto simp: topic_keys_def vis_def)
  moreover have "others (gs_user s) ?db = others (gs_user s) db"
    by (auto simp: others_def vis_def intro!: other_rules)
  ultimately show ?thesis
    using write_audit_ok [OF au] by (simp add: touch_topic_ok touch_topic_others)
qed

section \<open>What the operations do\<close>

definition cipher_ok :: "aead \<Rightarrow> content_cipher \<Rightarrow> bool" where
  "cipher_ok a c = (aead_ok a \<and> new_cipher (cc_keys c) = Inr c)"

lemma seal_open_column:
  assumes "cipher_ok a c" and "length rnd = 11" and "encrypt a c rnd t = Inr x"
  shows "open_column a c (Some x) = Inr (Some t)"
proof -
  obtain ct n where x: "x = (ct, n)" by (cases x)
  have v: "1 \<le> cc_active c" "cc_active c \<le> 255"
    using assms(1) new_cipher_versions(1,2) unfolding cipher_ok_def by blast+
  have "decrypt a c ct n = Inr t"
    using assms seal_then_open(1) [where a = a and v = "cc_active c" and rnd = rnd and c = c and c' = c and t = t and ct = ct and n = n] v encrypt_is_active [of a c rnd t x]
    by (simp add: x cipher_ok_def map_le_def)
  then show ?thesis
    by (simp add: open_column_def x decrypt_content_field_def decrypt_or_raise_def)
qed

lemma seal_opt_open:
  assumes "cipher_ok a c" and "length rnd = 11" and "seal_opt a c rnd p = Inr col"
  shows "open_column a c col = Inr p"
  using assms seal_open_column [of a c rnd]
  by (auto simp: seal_opt_def res_simps open_column_def decrypt_content_field_def split: option.splits)

lemma live_entry_iff:
  assumes "jdb_ok db"
  shows "live_entry s i db = Some e \<longleftrightarrow> e \<in> set (entries db) \<and> en_id e = i \<and> en_deleted e = None \<and> vis s (en_user e)"
proof
  assume "live_entry s i db = Some e"
  then show "e \<in> set (entries db) \<and> en_id e = i \<and> en_deleted e = None \<and> vis s (en_user e)"
    by (auto simp: live_entry_def dest: sql_first_SomeD)
next
  assume e: "e \<in> set (entries db) \<and> en_id e = i \<and> en_deleted e = None \<and> vis s (en_user e)"
  then have "live_entry s i db \<noteq> None" by (auto simp: live_entry_def sql_first_None)
  then obtain q where q: "live_entry s i db = Some q" by auto
  then have "q \<in> set (entries db)" "en_id q = i" by (auto dest: live_entry_SomeD)
  with e assms have "q = e" by (auto simp: jdb_ok_def entries_ok_def dest: unique_keyD)
  with q show "live_entry s i db = Some e" by simp
qed

text \<open>Each id selects at most one row, so a guarded update of it is an update by id.\<close>

lemma update_entry_by_id:
  assumes "jdb_ok db" and "live_entry s i db = Some row"
  shows "sql_update (\<lambda>e. vis s (en_user e) \<and> en_id e = i) f (entries db) =
    map (\<lambda>e. if en_id e = i then f e else e) (entries db)"
proof (rule update_visible)
  fix e assume "e \<in> set (entries db)" "en_id e = i"
  with assms live_entry_SomeD [OF assms(2)] have "e = row"
    by (auto simp: jdb_ok_def entries_ok_def dest: unique_keyD)
  with live_entry_SomeD [OF assms(2)] show "vis s (en_user e)" by (simp add: vis_def)
qed

lemma emb_of_entry_visible:
  assumes "jdb_ok db" and "live_entry s i db = Some row" and "b \<in> set (embs db)" and "em_entry b = i"
  shows "vis s (em_user b)"
proof -
  from assms obtain e where "e \<in> set (entries db)" "en_id e = i" "en_user e = em_user b"
    by (auto simp: jdb_ok_def embs_ok_def entry_keys_def)
  moreover from this assms live_entry_SomeD [OF assms(2)] have "e = row"
    by (auto simp: jdb_ok_def entries_ok_def dest: unique_keyD)
  ultimately show ?thesis using live_entry_SomeD [OF assms(2)] by (simp add: vis_def)
qed

lemma delete_embedding_exact:
  assumes "jdb_ok db" and "live_entry s i db = Some row"
  shows "embs (delete_embedding s i db) = filter (\<lambda>b. em_entry b \<noteq> i) (embs db)"
  unfolding delete_embedding_def sql_delete_def
  using emb_of_entry_visible [OF assms] by (auto intro: filter_cong)

text \<open>
  Property C13. A successful \<open>update\<close> of an entry rewrites that entry and no other.  When
  content is given, the content column decrypts to the new text (in append mode the old text, a
  blank line and the given text, stripped), the search vector is computed from the same text,
  and no embedding of the old text survives: the entry's embedding row is gone and it is queued
  for indexing again.  When only date or tags are given, ciphertext, search vector, index stamp
  and embedding all stay.
\<close>

theorem update_entry_consistent:
  assumes "jdb_ok db" and "cipher_ok a c" and "length r1 = 11" and "length r2 = 11"
    and "update_entry s a c now r1 r2 i content reasoning mode date tags db = Inr db'"
  shows "\<exists>old new. live_entry s i db = Some old \<and> live_entry s i db' = Some new \<and>
    entries db' = map (\<lambda>e. if en_id e = i then new else e) (entries db) \<and>
    (if content = None then en_content new = en_content old \<and> en_search new = en_search old
     else \<exists>t. open_column a c (Some (en_content new)) = Inr (Some t) \<and> en_search new = Some t \<and>
       (if mode = ''append'' then \<exists>o'. open_column a c (Some (en_content old)) = Inr (Some o') \<and> t = joined o' (the content)
        else t = the content)) \<and>
    (if content = None \<and> reasoning = None
     then en_indexed new = en_indexed old \<and> embs db' = embs db
     else en_indexed new = None \<and> embs db' = filter (\<lambda>b. em_entry b \<noteq> i) (embs db))"
  using assms(5)
proof (rule update_entry_Inr)
  fix row x r d content' reasoning'
  assume row: "live_entry s i db = Some row"
    and content': "new_content a c row mode content = Inr content'"
    and reasoning': "new_reasoning a c row mode reasoning = Inr reasoning'"
    and x: "case content' of None \<Rightarrow> x = None
          | Some t \<Rightarrow> (\<exists>y. x = Some (y, t) \<and> lift_crypto (encrypt a c r1 t) = Inr y)"
    and r: "seal_opt a c r2 reasoning' = Inr r"
    and db': "db' = (let db1 = touch_topic s now (en_topic row)
        (db\<lparr>entries := sql_update (\<lambda>e. vis s (en_user e) \<and> en_id e = i) (set_entry now x r d tags) (entries db)\<rparr>)
      in if content \<noteq> None \<or> reasoning \<noteq> None then delete_embedding s i db1 else db1)"
  let ?new = "set_entry now x r d tags row"
  have row': "row \<in> set (entries db)" "en_id row = i" "en_deleted row = None" "vis s (en_user row)"
    using row assms(1) by (simp_all add: live_entry_iff)
  have same: "e \<in> set (entries db) \<Longrightarrow> en_id e = i \<Longrightarrow> e = row" for e
    using assms(1) row'(1,2) by (auto simp: jdb_ok_def entries_ok_def dest: unique_keyD)
  have es: "entries db' = map (\<lambda>e. if en_id e = i then ?new else e) (entries db)"
    unfolding db' using same
    by (auto simp: Let_def touch_topic_def delete_embedding_def update_entry_by_id [OF assms(1) row])
  have ok': "jdb_ok db'" using update_entry_ok [OF assms(1,5)] by simp
  have new: "live_entry s i db' = Some ?new"
    unfolding live_entry_iff [OF ok'] es using row' by (force simp: image_iff)
  have flags: "(x = None) = (content = None)" "(r = None) = (reasoning = None)"
    using x new_content_None [OF content'] seal_opt_None [OF r] new_reasoning_None [OF reasoning']
    by (auto split: option.splits)
  have plain: "\<exists>t. open_column a c (Some (en_content ?new)) = Inr (Some t) \<and> en_search ?new = Some t \<and>
       (if mode = ''append'' then \<exists>o'. open_column a c (Some (en_content row)) = Inr (Some o') \<and> t = joined o' (the content)
        else t = the content)" if "content \<noteq> None"
  proof -
    from that obtain t where t: "content' = Some t" using new_content_None [OF content'] by auto
    with x obtain y where y: "x = Some (y, t)" "encrypt a c r1 t = Inr y" by (auto simp: res_simps)
    have "if mode = ''append'' then \<exists>o'. open_column a c (Some (en_content row)) = Inr (Some o') \<and> t = joined o' (the content)
        else t = the content"
      using content' that t by (auto simp: new_content_def res_simps elim!: not_null.elims split: if_splits)
    with seal_open_column [OF assms(2,3) y(2)] y(1) show ?thesis by (simp add: set_entry_def)
  qed
  have embs: "embs db' = (if content = None \<and> reasoning = None then embs db else filter (\<lambda>b. em_entry b \<noteq> i) (embs db))"
  proof -
    have "embs (delete_embedding s i (touch_topic s now t (db\<lparr>entries := es\<rparr>))) = embs (delete_embedding s i db)" for t es
      by (simp add: delete_embedding_def touch_topic_def)
    with delete_embedding_exact [OF assms(1) row] show ?thesis by (simp add: db' Let_def touch_topic_def)
  qed
  have "content = None \<Longrightarrow> en_content ?new = en_content row \<and> en_search ?new = en_search row"
    using flags(1) by (simp add: set_entry_def)
  moreover have "en_indexed ?new = (if content = None \<and> reasoning = None then en_indexed row else None)"
    using flags by (simp add: set_entry_def)
  ultimately show ?thesis
    using row new es plain embs by (intro exI [of _ row] exI [of _ ?new]) simp
qed

definition demo_cipher :: content_cipher where
  "demo_cipher = \<lparr>cc_keys = demo_keys 1, cc_active = 1\<rparr>"

lemma demo_cipher_ok: "cipher_ok demo_aead demo_cipher"
  using demo_aead_ok by (simp add: cipher_ok_def demo_cipher_def new_cipher_Inr demo_keys_def)

lemma demo_encrypt: "utf8_encode t = Some d \<Longrightarrow> encrypt demo_aead demo_cipher r t =
    Inr (gcm_encrypt demo_aead (replicate 32 1) (1 # r) d, 1 # r)"
  by (simp add: encrypt_def encrypt_with_version_def demo_cipher_def demo_keys_def Let_def)

abbreviation demo_session :: session where
  "demo_session \<equiv> \<lparr>gs_user = 7, gs_active = True\<rparr>"

lemma sample_live: "map_option (\<lambda>e. (en_topic e, en_user e)) (live_entry demo_session 1 sample_jdb) = Some (1, 7)"
  by code_simp

lemma utf8_hi: "utf8_encode [104, 105] = Some [104, 105]"
  by (simp add: utf8_encode_def scalar_value_def utf8_char_def)

theorem update_entry_consistent_witness:
  "\<exists>db' new. update_entry demo_session demo_aead demo_cipher 50 (replicate 11 0) (replicate 11 0) 1 (Some [104, 105]) None
       ''replace'' None None sample_jdb = Inr db' \<and>
     live_entry demo_session 1 db' = Some new \<and> en_indexed new = None \<and>
     embs db' = filter (\<lambda>b. em_entry b \<noteq> 1) (embs sample_jdb)"
proof -
  obtain db' where u: "update_entry demo_session demo_aead demo_cipher 50 (replicate 11 0) (replicate 11 0) 1 (Some [104, 105]) None
       ''replace'' None None sample_jdb = Inr db'"
    using sample_live by (auto simp: update_entry_def new_content_def new_reasoning_def seal_opt_def demo_encrypt [OF utf8_hi] Let_def)
  from update_entry_consistent [OF sample_jdb_ok demo_cipher_ok _ _ u] u show ?thesis by auto
qed

lemma append_entry_stored:
  assumes "jdb_ok db" and "cipher_ok a c" and "length r1 = 11" and "length r2 = 11"
    and "append_entry s a c now today r1 r2 topic content reasoning tags date db = Inr (i, db')"
  shows "get_text s a c i db' = Inr (Some (Some content, reasoning)) \<and>
    (\<forall>e. live_entry s i db' = Some e \<longrightarrow> get_id s topic db = Inr (en_topic e) \<and> en_indexed e = None \<and> en_search e = Some content) \<and>
    (\<exists>e. entries db' = entries db @ [e] \<and> en_id e = i) \<and> i \<notin> en_id ` set (entries db) \<and>
    convs db' = convs db \<and> embs db' = embs db"
proof -
  let ?row = "\<lambda>topic_id d x r i. \<lparr>en_id = i, en_topic = topic_id, en_date = d, en_conv = None,
          en_tags = (case tags of None \<Rightarrow> [] | Some ts \<Rightarrow> ts), en_created = now, en_updated = now, en_deleted = None,
          en_indexed = None, en_user = gs_user s, en_content = x, en_reasoning = r, en_search = Some content\<rparr>"
  obtain topic_id d x r db1 where t: "get_id s topic db = Inr topic_id"
    and x: "lift_crypto (encrypt a c r1 content) = Inr x" and r: "seal_opt a c r2 reasoning = Inr r"
    and ins: "insert_entry s (?row topic_id d x r) db = Inr (i, db1)"
    and db': "db' = touch_topic s now topic_id db1"
    using assms(5) unfolding append_entry_def rbind_eq_Inr rmap_eq_Inr by (auto simp: split_beta)
  have x: "encrypt a c r1 content = Inr x" using x by (simp add: res_simps)
  from ins have i: "i = next_entry db" "gs_active s" "entries db' = entries db @ [?row topic_id d x r i]"
      "convs db' = convs db" "embs db' = embs db"
    by (auto simp: insert_entry_def sql_insert_def db' touch_topic_def split: if_splits)
  define e where "e = ?row topic_id d x r i"
  have e: "entries db' = entries db @ [e]" "en_id e = i" "en_topic e = topic_id" "en_deleted e = None"
      "en_user e = gs_user s" "en_content e = x" "en_reasoning e = r" "en_search e = Some content" "en_indexed e = None"
    using i(3) by (simp_all add: e_def)
  have new: "i \<notin> en_id ` set (entries db)"
    using assms(1) i(1) by (auto simp: jdb_ok_def entries_ok_def)
  have "jdb_ok db'" using append_entry_ok [OF assms(1,5)] by simp
  then have live: "live_entry s i db' = Some e"
    using e i(2) by (simp add: live_entry_iff vis_def)
  then have "get_text s a c i db' = Inr (Some (Some content, reasoning))"
    using seal_open_column [OF assms(2,3) x] seal_opt_open [OF assms(2,4) r] e by (simp add: get_text_def)
  with live new t e i show ?thesis by simp
qed

text \<open>
  An appended entry gets an id no row had, belongs to the named topic and the
  session's user, reads back as exactly the content and reasoning given, and is queued for
  indexing; every other entry, the conversations and the embeddings are as before.
\<close>

theorem append_entry_roundtrip:
  assumes "jdb_ok db" and "cipher_ok a c" and "length r1 = 11" and "length r2 = 11"
    and "append_entry s a c now today r1 r2 topic content reasoning tags date db = Inr (i, db')"
  shows "get_text s a c i db' = Inr (Some (Some content, reasoning)) \<and>
    (\<forall>e. live_entry s i db' = Some e \<longrightarrow> get_id s topic db = Inr (en_topic e) \<and> en_indexed e = None \<and> en_search e = Some content) \<and>
    (\<exists>e. entries db' = entries db @ [e] \<and> en_id e = i) \<and> i \<notin> en_id ` set (entries db) \<and>
    convs db' = convs db \<and> embs db' = embs db"
  using assms by (rule append_entry_stored)

theorem append_entry_roundtrip_witness:
  "\<exists>i db'. append_entry demo_session demo_aead demo_cipher 50 \<lparr>dyear = 2026, dmonth = 1, dday = 9\<rparr> (replicate 11 0) (replicate 11 0)
       ''work'' [104, 105] None None None sample_jdb = Inr (i, db') \<and>
     get_text demo_session demo_aead demo_cipher i db' = Inr (Some (Some [104, 105], None))"
proof -
  have "get_id demo_session ''work'' sample_jdb = Inr 1" by code_simp
  then obtain i db' where u: "append_entry demo_session demo_aead demo_cipher 50 \<lparr>dyear = 2026, dmonth = 1, dday = 9\<rparr> (replicate 11 0) (replicate 11 0)
       ''work'' [104, 105] None None None sample_jdb = Inr (i, db')"
    by (simp add: append_entry_def seal_opt_def insert_entry_def demo_encrypt [OF utf8_hi])
  from append_entry_roundtrip [OF sample_jdb_ok demo_cipher_ok _ _ u] u show ?thesis by auto
qed

section \<open>Moving and deleting\<close>

lemma owned_topic_row:
  assumes "jdb_ok db" and "topic_by_id s i db = Some q" and "t \<in> set (topics db)" and "tp_id t = i"
  shows "vis s (tp_user t)"
proof -
  have "t = q"
    using assms topic_by_id_SomeD [OF assms(2)] by (auto simp: jdb_ok_def topics_ok_def dest: unique_keyD)
  then show ?thesis using topic_by_id_SomeD [OF assms(2)] by (simp add: vis_def)
qed

lemma touched_rows:
  assumes "jdb_ok db" and "topic_by_id s i db = Some q"
  shows "sql_update (\<lambda>t. vis s (tp_user t) \<and> tp_id t = i) f (topics db) = map (\<lambda>t. if tp_id t = i then f t else t) (topics db)"
  by (rule update_visible) (use owned_topic_row [OF assms] in auto)

lemma deleted_emb_rows:
  assumes "jdb_ok db" and "live_entry s i db = Some row"
  shows "sql_delete (\<lambda>b. vis s (em_user b) \<and> em_entry b = i) (embs db) = filter (\<lambda>b. em_entry b \<noteq> i) (embs db)"
  using delete_embedding_exact [OF assms] by (simp add: delete_embedding_def)

text \<open>
  Property C15. A bulk move is all or nothing.  It is refused without ids, with more than 100
  distinct ids, when the destination is not a topic of the session's user, or when some id is
  not a live entry of that user; the last error lists exactly those ids, in the order given.
  Otherwise precisely the named entries are re-filed, the destination is touched, one audit row
  is written and the number of distinct ids is returned.
\<close>

theorem move_entries_exact:
  assumes "jdb_ok db"
  shows "move_entries_to_topic s now actor entry_ids dest db =
    (let ids = dedup entry_ids; missing = filter (\<lambda>i. live_entry s i db = None) ids in
     if ids = [] then Inl (JValueError ''No entry ids supplied'')
     else if length ids > 100 then Inl (JValueError ''Cannot move more than 100 entries at once'')
     else case topic_by_id s dest db of None \<Rightarrow> Inl (TopicIdNotFound dest)
     | Some to \<Rightarrow>
       if missing \<noteq> [] then Inl (EntriesMoveNotFound missing)
       else if actor \<noteq> gs_user s then Inl InsufficientPrivilege
       else Inr (length ids,
         db\<lparr>entries := map (\<lambda>e. if en_id e \<in> set entry_ids then e\<lparr>en_topic := dest, en_updated := now\<rparr> else e) (entries db),
            topics := map (\<lambda>t. if tp_id t = dest then t\<lparr>tp_updated := now\<rparr> else t) (topics db),
            audit := audit db @ [\<lparr>au_actor = gs_user s, au_action = EntryMoved, au_target = dest,
                        au_paths = [tp_path to], au_counts = [length ids], au_refs = []\<rparr>]\<rparr>))"
proof -
  let ?movable = "\<lambda>e. vis s (en_user e) \<and> en_id e \<in> set entry_ids \<and> en_deleted e = None"
  have moved: "i \<in> set (map en_id (sql_select ?movable (entries db))) \<longleftrightarrow> live_entry s i db \<noteq> None"
    if "i \<in> set entry_ids" for i
    using that live_entry_iff [OF assms, of s i] by (auto simp: sql_simps)
  have missing: "filter (\<lambda>i. i \<notin> set (map en_id (sql_select ?movable (entries db)))) (dedup entry_ids) =
      filter (\<lambda>i. live_entry s i db = None) (dedup entry_ids)"
    by (rule filter_cong) (use moved in auto)
  have upd: "sql_update ?movable f (entries db) = map (\<lambda>e. if en_id e \<in> set entry_ids then f e else e) (entries db)"
    if "filter (\<lambda>i. live_entry s i db = None) (dedup entry_ids) = []" for f
  proof -
    have "?movable e \<longleftrightarrow> en_id e \<in> set entry_ids" if e: "e \<in> set (entries db)" for e
    proof
      assume "en_id e \<in> set entry_ids"
      with \<open>filter _ _ = []\<close> obtain q where q: "live_entry s (en_id e) db = Some q"
        by (auto simp: filter_empty_conv)
      then have "q = e"
        using assms e live_entry_SomeD [OF q] by (auto simp: jdb_ok_def entries_ok_def dest: unique_keyD)
      with q \<open>en_id e \<in> set entry_ids\<close> show "?movable e" by (simp add: live_entry_iff [OF assms])
    qed simp
    then show ?thesis by (auto simp: sql_update_def)
  qed
  show ?thesis
  proof (cases "topic_by_id s dest db")
    case None
    then show ?thesis by (simp add: move_entries_to_topic_def Let_def MAX_MOVE_IDS_def require_path_def)
  next
    case (Some t)
    have touch: "touch_topic s now dest (db\<lparr>entries := es\<rparr>) =
        db\<lparr>entries := es, topics := map (\<lambda>t. if tp_id t = dest then t\<lparr>tp_updated := now\<rparr> else t) (topics db)\<rparr>" for es
      by (simp add: touch_topic_def touched_rows [OF assms Some])
    show ?thesis
      using missing upd
      by (simp add: move_entries_to_topic_def Let_def MAX_MOVE_IDS_def require_path_def Some touch write_audit_def record_audit_def sql_insert_def
          del: set_map)
  qed
qed

theorem move_entries_exact_witness:
  "(\<exists>db'. move_entries_to_topic demo_session 50 7 [1, 2, 1] 2 sample_jdb = Inr (2, db') \<and> map en_topic (entries db') = [2, 2, 3]) \<and>
   move_entries_to_topic demo_session 50 7 [1, 3, 9] 2 sample_jdb = Inl (EntriesMoveNotFound [3, 9])"
  unfolding move_entries_exact [OF sample_jdb_ok]
  by (simp add: dedup_def Let_def sample_jdb_def empty_jdb_def topic_by_id_def live_entry_def sql_first_def vis_def)

text \<open>
  Deleting a live entry returns its topic, marks that one row deleted, removes its
  embedding and touches its topic, and nothing else changes; the entry is then gone for every
  reader, and deleting it again is not found.  Any other id is refused as not found.
\<close>

theorem delete_entry_exact:
  assumes "jdb_ok db"
  shows "(case live_entry s i db of
       None \<Rightarrow> delete_entry s now i db = Inl (EntryNotFound i)
     | Some row \<Rightarrow> (\<exists>db'. delete_entry s now i db = Inr (en_topic row, db') \<and>
         db' = db\<lparr>entries := map (\<lambda>e. if en_id e = i then e\<lparr>en_deleted := Some now, en_updated := now\<rparr> else e) (entries db),
                  embs := filter (\<lambda>b. em_entry b \<noteq> i) (embs db),
                  topics := map (\<lambda>t. if tp_id t = en_topic row then t\<lparr>tp_updated := now\<rparr> else t) (topics db)\<rparr> \<and>
         live_entry s' i db' = None \<and> get_text s' a c i db' = Inr None \<and>
         delete_entry s' later i db' = Inl (EntryNotFound i)))"
proof (cases "live_entry s i db")
  case None
  then show ?thesis by (simp add: delete_entry_def)
next
  case (Some row)
  let ?f = "\<lambda>e. e\<lparr>en_deleted := Some now, en_updated := now\<rparr>"
  let ?db = "db\<lparr>entries := map (\<lambda>e. if en_id e = i then ?f e else e) (entries db),
                  embs := filter (\<lambda>b. em_entry b \<noteq> i) (embs db),
                  topics := map (\<lambda>t. if tp_id t = en_topic row then t\<lparr>tp_updated := now\<rparr> else t) (topics db)\<rparr>"
  have row: "row \<in> set (entries db)" "en_id row = i" "en_deleted row = None" "vis s (en_user row)"
    using Some assms by (simp_all add: live_entry_iff)
  have only: "e \<in> set (entries db) \<Longrightarrow> en_id e = i \<Longrightarrow> e = row" for e
    using assms row(1,2) by (auto simp: jdb_ok_def entries_ok_def dest: unique_keyD)
  have upd: "sql_update (\<lambda>e. vis s (en_user e) \<and> en_id e = i \<and> en_deleted e = None) ?f (entries db) =
      map (\<lambda>e. if en_id e = i then ?f e else e) (entries db)"
  proof -
    have "(vis s (en_user e) \<and> en_id e = i \<and> en_deleted e = None) = (en_id e = i)" if "e \<in> set (entries db)" for e
      using only [OF that] row(3,4) by fastforce
    then show ?thesis by (simp add: sql_update_def)
  qed
  have "(en_topic row, en_user row) \<in> topic_keys db" using entry_topic_key [OF assms row(1)] .
  then obtain t where "t \<in> set (topics db)" "tp_id t = en_topic row" "tp_user t = en_user row"
    by (auto simp: topic_keys_def)
  with row(4) have "topic_by_id s (en_topic row) db \<noteq> None" by (auto simp: topic_by_id_def sql_first_None intro!: bexI [of _ t])
  then obtain q where q: "topic_by_id s (en_topic row) db = Some q" by auto
  have del: "delete_entry s now i db = Inr (en_topic row, ?db)"
    by (simp add: delete_entry_def Some upd touch_topic_def delete_embedding_def touched_rows [OF assms q]
        deleted_emb_rows [OF assms Some])
  have "live_entry s' i ?db = None"
    by (simp add: live_entry_def sql_first_None ball_Un)
  then have "get_text s' a c i ?db = Inr None" "delete_entry s' later i ?db = Inl (EntryNotFound i)"
    by (simp_all add: get_text_def delete_entry_def)
  with del \<open>live_entry s' i ?db = None\<close> show ?thesis
    unfolding Some option.case by (intro exI [of _ ?db] conjI) (assumption | rule refl)+
qed

theorem delete_entry_exact_witness:
  "\<exists>row db'. live_entry demo_session 1 sample_jdb = Some row \<and>
     delete_entry demo_session 50 1 sample_jdb = Inr (en_topic row, db') \<and> embs db' = [] \<and> live_entry demo_session 1 db' = None"
proof -
  obtain row where row: "live_entry demo_session 1 sample_jdb = Some row" using sample_live by auto
  have "embs sample_jdb = [\<lparr>em_entry = 1, em_vec = [1, 0], em_indexed = 9, em_user = 7\<rparr>]" by (simp add: sample_jdb_def)
  with row delete_entry_exact [OF sample_jdb_ok, where s = demo_session and i = 1 and now = 50 and s' = demo_session]
  show ?thesis by auto
qed

section \<open>Pagination\<close>

lemma rmap_list_Inr: "rmap_list f xs = Inr ys \<longleftrightarrow> list_all2 (\<lambda>x y. f x = Inr y) xs ys"
  by (induction xs arbitrary: ys) (auto simp: res_simps list_all2_Cons1)

lemma rmap_list_page: "rmap_list f xs = Inr ys \<Longrightarrow> rmap_list f (take n (drop m xs)) = Inr (take n (drop m ys))"
  by (simp add: rmap_list_Inr)

lemma concat_pages: "concat (map (\<lambda>k. take n (drop (k * n) xs)) [0..<m]) = take (m * n) xs"
proof (induction m)
  case (Suc m)
  have "take (m * n) xs @ take n (drop (m * n) xs) = take (m * n + n) xs" by (simp add: take_add)
  with Suc show ?case by (simp add: add.commute)
qed simp

lemma build_entry_id: "build_entry a c e = Inr out \<Longrightarrow> eo_id out = en_id e \<and> eo_date out = isoformat (en_date e)"
  by (auto simp: build_entry_def Let_def split: if_splits sum.splits option.splits)

lemma built_entries:
  "list_all2 (\<lambda>e out. build_entry a c e = Inr out) es outs \<Longrightarrow>
   map eo_id outs = map en_id es \<and> map eo_date outs = map (\<lambda>e. isoformat (en_date e)) es"
  by (induction rule: list_all2_induct) (auto dest: build_entry_id)

lemma set_newest_first [simp]: "set (newest_first es) = set es"
  by (simp add: newest_first_def)

lemma length_newest_first [simp]: "length (newest_first es) = length es"
  by (simp add: newest_first_def)

lemma read_entries_all:
  assumes "read_entries s a c topic None df dt 0 db = Inr (meta, all, amount)"
  obtains lo hi where "date_bound df = Inr lo" and "date_bound dt = Inr hi" and "get_topic s topic db = Inr (Some meta)"
    and "rmap_list (build_entry a c) (newest_first (entries_of_topic s (tm_id meta) lo hi db)) = Inr all"
    and "amount = length (entries_of_topic s (tm_id meta) lo hi db)"
  using assms by (auto simp: read_entries_def res_simps pg_page_def Let_def split: option.splits if_splits)

text \<open>
  Property C16. The pages of a topic partition it: whatever the page size, page \<open>k\<close> is the
  \<open>k\<close>-th slice of one sequence with the same total, so that consecutive pages never repeat or
  skip an entry.  That sequence holds every live entry of the topic in the date range exactly
  once, latest date first, and its length is the reported total.
\<close>

theorem read_pages_partition:
  assumes "jdb_ok db" and "0 < n" and "read_entries s a c topic None df dt 0 db = Inr (meta, all, amount)"
  shows "(\<forall>k. read_entries s a c topic (Some (int n)) df dt (int (k * n)) db = Inr (meta, take n (drop (k * n) all), amount)) \<and>
    concat (map (\<lambda>k. take n (drop (k * n) all)) [0..<m]) = take (m * n) all \<and>
    length all = amount \<and> distinct (map eo_id all) \<and>
    (\<exists>lo hi. date_bound df = Inr lo \<and> date_bound dt = Inr hi \<and>
      set (map eo_id all) = {en_id e | e. e \<in> set (entries db) \<and> vis s (en_user e) \<and> en_deleted e = None \<and>
         en_topic e = tm_id meta \<and> in_range lo hi (en_date e)} \<and>
      sorted_wrt (\<lambda>d e. ord_of e \<le> ord_of d) (map en_date (newest_first (entries_of_topic s (tm_id meta) lo hi db))) \<and>
      map eo_date all = map (\<lambda>e. isoformat (en_date e)) (newest_first (entries_of_topic s (tm_id meta) lo hi db)))"
  using assms(3)
proof (rule read_entries_all)
  fix lo hi
  let ?E = "entries_of_topic s (tm_id meta) lo hi db"
  assume b: "date_bound df = Inr lo" "date_bound dt = Inr hi" "get_topic s topic db = Inr (Some meta)"
    and all: "rmap_list (build_entry a c) (newest_first ?E) = Inr all" and amount: "amount = length ?E"
  have "read_entries s a c topic (Some (int n)) df dt (int (k * n)) db = Inr (meta, take n (drop (k * n) all), amount)" for k
  proof -
    have "pg_page (Some (int n)) (if int (k * n) > 0 then int (k * n) else 0) (newest_first ?E) =
        Inr (take n (drop (k * n) (newest_first ?E)))"
      by (auto simp: pg_page_def nat_mult_distrib simp del: of_nat_mult)
    then show ?thesis
      using rmap_list_page [OF all, of n "k * n"] assms(2)
      by (simp add: read_entries_def b amount Let_def del: of_nat_mult)
  qed
  moreover have rel: "list_all2 (\<lambda>e out. build_entry a c e = Inr out) (newest_first ?E) all"
    using all by (simp add: rmap_list_Inr)
  have ids: "map eo_id all = map en_id (newest_first ?E)" and dates: "map eo_date all = map (\<lambda>e. isoformat (en_date e)) (newest_first ?E)"
    using built_entries [OF rel] by simp_all
  have "distinct (map en_id ?E)"
    using assms(1) by (simp add: entries_of_topic_def sql_select_def distinct_map_filter jdb_ok_def entries_ok_def unique_key_def)
  then have "distinct (map eo_id all)"
    unfolding ids by (simp add: distinct_map newest_first_def)
  moreover have "set (map eo_id all) = {en_id e | e. e \<in> set (entries db) \<and> vis s (en_user e) \<and> en_deleted e = None \<and>
         en_topic e = tm_id meta \<and> in_range lo hi (en_date e)}"
    unfolding ids by (auto simp: entries_of_topic_def sql_simps)
  moreover have "sorted_wrt (\<lambda>d e. ord_of e \<le> ord_of d) (map en_date (newest_first ?E))"
  proof -
    have "sorted (map (\<lambda>e. (- ord_of (en_date e), - en_created e, - en_id e)) (newest_first ?E))"
      by (simp add: newest_first_def)
    then show ?thesis
      unfolding sorted_wrt_map by (rule sorted_wrt_mono_rel [rotated]) auto
  qed
  moreover have "length all = amount" using list_all2_lengthD [OF rel] by (simp add: amount)
  ultimately show ?thesis using b dates concat_pages [of n all m] by blast
qed

theorem read_pages_partition_witness:
  "\<exists>meta all. read_entries demo_session demo_aead demo_cipher ''work/lab'' None None None 0 sample_jdb = Inr (meta, all, 1) \<and>
     read_entries demo_session demo_aead demo_cipher ''work/lab'' (Some 1) None None 0 sample_jdb = Inr (meta, all, 1) \<and>
     map eo_id all = [2]"
proof -
  have r: "rmap (\<lambda>(m, es, n). (map eo_id es, n)) (read_entries demo_session demo_aead demo_cipher ''work/lab'' None None None 0 sample_jdb)
      = Inr ([2], 1)"
    by code_simp
  then obtain meta all where u: "read_entries demo_session demo_aead demo_cipher ''work/lab'' None None None 0 sample_jdb = Inr (meta, all, 1)"
    and ids: "map eo_id all = [2]"
    by (auto simp: res_simps)
  have "length all = 1" using ids by (metis length_map length_Cons list.size(3) One_nat_def)
  with read_pages_partition [OF sample_jdb_ok _ u, of 1 1] u ids show ?thesis
    by (auto dest: spec [of _ 0])
qed

end
