(* ===== verification/PyDatetime.thy ===== *)
theory PyDatetime
  imports PyDate
begin

text \<open>
  Times as Python reads and prints them: \<open>datetime.fromisoformat\<close> of Python 3.12 and \<open>isoformat\<close> of a
  time in UTC, which is what the driver hands back for a \<open>timestamptz\<close>.

  An instant counts microseconds from 1970-01-01 UTC.  A text without an offset is local time to
  the driver; the zone of the process is taken to be UTC, as in the container image.
\<close>

section \<open>Reading\<close>

text \<open>Two digits at the start of a text.\<close>

definition two_digits :: "string \<Rightarrow> (int \<times> string) option" where
  "two_digits s = (if length s < 2 then None else map_option (\<lambda>n. (n, drop 2 s)) (digits_int (take 2 s)))"

text \<open>The rest after the seconds: a decimal mark and digits, of which six count.\<close>

definition parse_fraction :: "string \<Rightarrow> int option" where
  "parse_fraction s =
     (case s of
        [] \<Rightarrow> Some 0
      | c # ds \<Rightarrow>
          if (c = CHR ''.'' \<or> c = CHR '','') \<and> list_all is_digit ds
          then map_option (\<lambda>n. n * 10 ^ (6 - min 6 (length ds))) (digits_int (take 6 ds))
          else None)"

text \<open>\<open>HH[:MM[:SS[.ffffff]]]\<close>, with colons throughout or none.\<close>

definition parse_hms :: "string \<Rightarrow> (int \<times> int \<times> int \<times> int) option" where
  "parse_hms s =
     (case two_digits s of
        None \<Rightarrow> None
      | Some (h, r1) \<Rightarrow>
          if r1 = [] then Some (h, 0, 0, 0)
          else (let colons = (hd r1 = CHR '':'') in
            case two_digits (if colons then tl r1 else r1) of
              None \<Rightarrow> None
            | Some (m, r2) \<Rightarrow>
                if r2 = [] then Some (h, m, 0, 0)
                else if colons \<and> hd r2 \<noteq> CHR '':'' then None
                else (case two_digits (if colons then tl r2 else r2) of
                  None \<Rightarrow> None
                | Some (x, r3) \<Rightarrow> map_option (\<lambda>us. (h, m, x, us)) (parse_fraction r3))))"

definition hms_us :: "int \<times> int \<times> int \<times> int \<Rightarrow> int" where
  "hms_us = (\<lambda>(h, m, x, us). ((h * 60 + m) * 60 + x) * 1000000 + us)"

definition DAY_US :: int where "DAY_US = 86400000000"

definition is_offset_mark :: "char \<Rightarrow> bool" where
  "is_offset_mark c = (c = CHR ''+'' \<or> c = CHR ''-'' \<or> c = CHR ''Z'')"

text \<open>The time of day and the offset from UTC, if there is one, in microseconds.\<close>

definition parse_time :: "string \<Rightarrow> (int \<times> int option) option" where
  "parse_time s =
     (case parse_hms (takeWhile (\<lambda>c. \<not> is_offset_mark c) s) of
        None \<Rightarrow> None
      | Some (h, m, x, us) \<Rightarrow>
          if 23 < h \<or> 59 < m \<or> 59 < x then None
          else (case dropWhile (\<lambda>c. \<not> is_offset_mark c) s of
            [] \<Rightarrow> Some (hms_us (h, m, x, us), None)
          | mark # off \<Rightarrow>
              if mark = CHR ''Z'' then (if off = [] then Some (hms_us (h, m, x, us), Some 0) else None)
              else (case parse_hms off of
                None \<Rightarrow> None
              | Some o_hms \<Rightarrow>
                  if DAY_US \<le> hms_us o_hms then None
                  else Some (hms_us (h, m, x, us), Some (if mark = CHR ''-'' then - hms_us o_hms else hms_us o_hms)))))"

text \<open>Where the character between date and time stands.\<close>

definition separator_location :: "string \<Rightarrow> nat option" where
  "separator_location s =
     (let n = length s in
      if n < 7 then None
      else if n = 7 then Some 7
      else if s ! 4 = CHR ''-'' then
        (if s ! 5 \<noteq> CHR ''W'' then Some 10
         else if 8 < n \<and> s ! 8 = CHR ''-''
         then (if n = 9 then None else if 10 < n \<and> is_digit (s ! 10) then Some 8 else Some 10)
         else Some 8)
      else if s ! 4 = CHR ''W'' then
        (let i = 7 + length (takeWhile is_digit (drop 7 s))
         in if i < 9 then Some i else if even i then Some 7 else Some 8)
      else Some 8)"

text \<open>\<open>datetime.fromisoformat\<close>: date, microsecond of the day, offset; \<open>None\<close> is the \<open>ValueError\<close>.\<close>

definition datetime_fromisoformat :: "string \<Rightarrow> (ymd \<times> int \<times> int option) option" where
  "datetime_fromisoformat s =
     (case separator_location s of
        None \<Rightarrow> None
      | Some i \<Rightarrow>
          (case date_fromisoformat (take i s) of
             None \<Rightarrow> None
           | Some d \<Rightarrow>
               (let t = drop (i + 1) s in
                if t = [] then Some (d, 0, None)
                else map_option (\<lambda>(us, off). (d, us, off)) (parse_time t))))"

text \<open>The instant the driver sends for such a time.\<close>

definition instant_of :: "ymd \<times> int \<times> int option \<Rightarrow> int" where
  "instant_of = (\<lambda>(d, us, off). (ord_of d - 719163) * DAY_US + us - (case off of None \<Rightarrow> 0 | Some z \<Rightarrow> z))"

definition instant_day :: "int \<Rightarrow> int" where
  "instant_day t = 719163 + t div DAY_US"

text \<open>The instants whose UTC date is in the years 1 to 9999.\<close>

definition instant_ok :: "int \<Rightarrow> bool" where
  "instant_ok t = (1 \<le> instant_day t \<and> instant_day t \<le> max_ordinal)"

section \<open>Printing\<close>

definition two_places :: "int \<Rightarrow> string" where
  "two_places n = zero_pad 2 (dec_int n)"

definition time_isoformat :: "int \<Rightarrow> string" where
  "time_isoformat us =
     (let x = us div 1000000; f = us mod 1000000
      in two_places (x div 3600) @ '':'' @ two_places (x div 60 mod 60) @ '':'' @ two_places (x mod 60) @
         (if f = 0 then [] else CHR ''.'' # zero_pad 6 (dec_int f)))"

definition instant_isoformat :: "int \<Rightarrow> string" where
  "instant_isoformat t = isoformat (of_ord (instant_day t)) @ ''T'' @ time_isoformat (t mod DAY_US) @ ''+00:00''"

section \<open>Round trip\<close>

lemma digits_int_pad: "0 \<le> n \<Longrightarrow> n < 10 ^ w \<Longrightarrow> 0 < w \<Longrightarrow>
  length (zero_pad w (dec_int n)) = w \<and> list_all is_digit (zero_pad w (dec_int n)) \<and> digits_int (zero_pad w (dec_int n)) = Some n"
  using zero_pad_dec [of "nat n" w] by (auto simp: dec_int_def digits_int_def nat_less_iff)

lemma two_digits_pad: "0 \<le> n \<Longrightarrow> n < 100 \<Longrightarrow> two_digits (two_places n @ r) = Some (n, r)"
  using digits_int_pad [of n 2] by (simp add: two_digits_def two_places_def)

lemma not_mark: "is_digit c \<Longrightarrow> \<not> is_offset_mark c" "\<not> is_offset_mark (CHR '':'')" "\<not> is_offset_mark (CHR ''.'')"
  by (auto simp: is_offset_mark_def is_digit_def between_def cp_def)

lemma two_places_props: "0 \<le> n \<Longrightarrow> n < 100 \<Longrightarrow> length (two_places n) = 2 \<and> list_all is_digit (two_places n)"
  using digits_int_pad [of n 2] by (simp add: two_places_def)

lemma parse_time_isoformat:
  assumes "0 \<le> us" "us < DAY_US"
  shows "parse_hms (time_isoformat us) = Some (us div 1000000 div 3600, us div 1000000 div 60 mod 60, us div 1000000 mod 60, us mod 1000000)"
    "\<forall>c \<in> set (time_isoformat us). \<not> is_offset_mark c" "time_isoformat us \<noteq> []"
proof -
  let ?x = "us div 1000000" and ?f = "us mod 1000000"
  have b: "0 \<le> ?x div 3600" "?x div 3600 < 100" "0 \<le> ?x div 60 mod 60" "?x div 60 mod 60 < 100" "0 \<le> ?x mod 60" "?x mod 60 < 100"
    "0 \<le> ?f" "?f < 10 ^ 6" using assms by (auto simp: DAY_US_def)
  note pad = digits_int_pad [OF b(7,8)]
  have fraction: "parse_fraction (if ?f = 0 then [] else CHR ''.'' # zero_pad 6 (dec_int ?f)) = Some ?f"
    using pad by (simp add: parse_fraction_def)
  show "parse_hms (time_isoformat us) = Some (?x div 3600, ?x div 60 mod 60, ?x mod 60, ?f)"
    by (simp add: parse_hms_def time_isoformat_def Let_def two_digits_pad [OF b(1,2)] two_digits_pad [OF b(3,4)]
        two_digits_pad [OF b(5,6)] fraction del: parse_fraction_def)
  have two: "list_all (\<lambda>c. \<not> is_offset_mark c) (two_places n)" if "0 \<le> n" "n < 100" for n
    using two_places_props [OF that] not_mark(1) by (auto simp: list_all_iff)
  have "list_all (\<lambda>c. \<not> is_offset_mark c) (zero_pad 6 (dec_int ?f))" using pad not_mark(1) by (auto simp: list_all_iff)
  then have "list_all (\<lambda>c. \<not> is_offset_mark c) (if ?f = 0 then [] else CHR ''.'' # zero_pad 6 (dec_int ?f))"
    using not_mark(3) by (simp only: list.pred_inject if_split simp_thms)
  then have "list_all (\<lambda>c. \<not> is_offset_mark c) (time_isoformat us)"
    unfolding time_isoformat_def Let_def list_all_append list.pred_inject
    using two [OF b(1,2)] two [OF b(3,4)] two [OF b(5,6)] not_mark(2) list.pred_inject(1) by blast
  then show "\<forall>c \<in> set (time_isoformat us). \<not> is_offset_mark c" by (simp add: list_all_iff)
  show "time_isoformat us \<noteq> []" by (simp add: time_isoformat_def Let_def)
qed

lemma hms_us_split:
  assumes "0 \<le> us"
  shows "hms_us (us div 1000000 div 3600, us div 1000000 div 60 mod 60, us div 1000000 mod 60, us mod 1000000) = us"
proof -
  define x where "x = us div 1000000"
  have "x div 3600 = x div 60 div 60" by (simp add: zdiv_zmult2_eq [symmetric])
  then have x: "(x div 3600 * 60 + x div 60 mod 60) * 60 + x mod 60 = x" by simp
  have "hms_us (x div 3600, x div 60 mod 60, x mod 60, us mod 1000000) = x * 1000000 + us mod 1000000"
    by (simp only: hms_us_def prod.case x)
  also have "\<dots> = us" by (simp add: x_def)
  finally show ?thesis by (simp only: x_def)
qed

lemma parse_printed_time:
  assumes "0 \<le> us" "us < DAY_US"
  shows "parse_time (time_isoformat us @ ''+00:00'') = Some (us, Some 0)"
proof -
  note t = parse_time_isoformat [OF assms]
  have time: "takeWhile (\<lambda>c. \<not> is_offset_mark c) (time_isoformat us @ ''+00:00'') = time_isoformat us"
    and off: "dropWhile (\<lambda>c. \<not> is_offset_mark c) (time_isoformat us @ ''+00:00'') = ''+00:00''"
    using t(2) by (simp_all add: is_offset_mark_def)
  have zero: "parse_hms ''00:00'' = Some (0, 0, 0, 0)" by code_simp
  have "us div 1000000 div 3600 \<le> 23" using assms by (simp add: DAY_US_def)
  moreover have "us div 1000000 div 60 mod 60 \<le> 59" "us div 1000000 mod 60 \<le> 59" by simp_all
  ultimately show ?thesis
    unfolding parse_time_def time off t(1) using hms_us_split [OF assms(1)]
    by (simp add: zero not_less) (simp add: hms_us_def DAY_US_def)
qed

lemma instant_roundtrip:
  assumes "instant_ok t"
  shows "\<exists>p. datetime_fromisoformat (instant_isoformat t) = Some p \<and> instant_of p = t"
proof -
  let ?d = "of_ord (instant_day t)" and ?us = "t mod DAY_US"
  have us: "0 \<le> ?us" "?us < DAY_US" by (simp_all add: DAY_US_def)
  have d: "valid_ymd ?d" "ord_of ?d = instant_day t" using assms of_ord_valid of_ord_correct(1) by (simp_all add: instant_ok_def)
  from d(1) obtain y m e where iso: "isoformat ?d = y @ [CHR ''-''] @ m @ [CHR ''-''] @ e" and len: "length y = 4" "length m = 2" "length e = 2"
    and val: "digits_int y = Some (dyear ?d)" "digits_int m = Some (dmonth ?d)" "digits_int e = Some (dday ?d)"
    by (rule isoformat_parts)
  obtain m1 m2 where m: "m = [m1, m2]" using len(2) by (auto simp: length_Suc_conv numeral_2_eq_2)
  have "m1 \<noteq> CHR ''W''" using val(2) by (auto simp: m digits_int_def is_digit_def between_def cp_def split: if_splits)
  then have sep: "separator_location (isoformat ?d @ r) = Some 10" for r
    using len by (simp add: separator_location_def iso m nth_append Let_def)
  have ten: "length (isoformat ?d) = 10" using len by (simp add: iso)
  have "datetime_fromisoformat (instant_isoformat t) = Some (?d, ?us, Some 0)"
    unfolding datetime_fromisoformat_def instant_isoformat_def sep option.case
    using ten by (simp add: date_fromisoformat_isoformat [OF d(1)] parse_printed_time [OF us] parse_time_isoformat(3) [OF us])
  moreover have "instant_of (?d, ?us, Some 0) = t"
    using d(2) by (simp add: instant_of_def instant_day_def DAY_US_def)
  ultimately show ?thesis by blast
qed

end
