(* ===== verification/Conversations.thy ===== *)
theory Conversations
  imports Entries PyDatetime "HOL-Library.Char_ord" "HOL-Library.List_Lexorder"
begin

text \<open>
  \<open>gubbi/storage/repositories/conversations.py\<close>: saving, listing and reading conversations, with
  their messages, the entry linked to each of them, and the JSON archive on disk.

  The archive directory is an association list from relative path to document.  The result of a
  save carries the archive separately from the database, because a file once written stays when
  the transaction is rolled back.  \<open>rnd\<close> gives the random nonce of the \<open>n\<close>-th encryption of the
  call.  A message comes with the text of its timestamp, if it has one; the row holds the instant,
  and a reader gets the text the instant prints as.
\<close>

record conv_meta =
  cm_id :: "int option"
  cm_source :: string
  cm_title :: ptext
  cm_topic :: string
  cm_tags :: "ptext list"
  cm_created :: string
  cm_updated :: string
  cm_summary :: ptext
  cm_participants :: "string list"
  cm_message_count :: nat
  cm_failed :: bool

record message =
  ms_role :: string
  ms_content :: ptext
  ms_timestamp :: "string option"
  ms_failed :: bool

type_synonym archive = "(string \<times> conv_meta \<times> message list) list"

definition conv_failed_text :: ptext where
  "conv_failed_text = text_of ''[decryption failed]''"

section \<open>Saving\<close>

record save_result =
  sr_id :: int
  sr_summary :: ptext
  sr_is_update :: bool
  sr_entry :: int
  sr_superseded :: "string option"

text \<open>\<open>ConversationMeta\<close> rejects a tag of more than 128 characters.\<close>

definition check_tags :: "ptext list \<Rightarrow> jerror + ptext list" where
  "check_tags tags = (if list_ex (\<lambda>t. 128 < length t) tags then Inl (JValueError ''tags'') else Inr tags)"

definition archive_name :: "string \<Rightarrow> string" where
  "archive_name name = ''conversations_json/'' @ name"

definition archive_path :: "string \<Rightarrow> string" where
  "archive_path file_id = archive_name (file_id @ ''.json'')"

definition write_conversation_json :: "string \<Rightarrow> conv_meta \<Rightarrow> message list \<Rightarrow> archive \<Rightarrow> archive" where
  "write_conversation_json file_id meta messages files = (archive_path file_id, meta, messages) # files"

definition midnight :: "ymd \<Rightarrow> int" where
  "midnight d = (ord_of d - 719163) * 86400000000"

definition conv_at :: "int \<Rightarrow> string \<Rightarrow> jdb \<Rightarrow> conv_row option" where
  "conv_at topic_id slug db = sql_first (\<lambda>c. cv_topic c = topic_id \<and> cv_slug c = slug) (convs db)"

text \<open>The row an insert proposes, and what \<open>ON CONFLICT (topic_id, slug) DO UPDATE\<close> copies of it.\<close>

definition overwrite_conv :: "conv_row \<Rightarrow> conv_row \<Rightarrow> conv_row" where
  "overwrite_conv excluded c =
     c\<lparr>cv_source := cv_source excluded, cv_title := cv_title excluded, cv_summary := cv_summary excluded,
       cv_tags := cv_tags excluded, cv_participants := cv_participants excluded,
       cv_message_count := cv_message_count excluded, cv_updated := cv_updated excluded,
       cv_json_path := cv_json_path excluded, cv_search := cv_search excluded\<rparr>"

definition put_conversation :: "session \<Rightarrow> conv_row \<Rightarrow> jdb \<Rightarrow> jerror + ((int \<times> bool) \<times> jdb)" where
  "put_conversation s row db =
     (if \<not> gs_active s then Inl InsufficientPrivilege
      else case conv_at (cv_topic row) (cv_slug row) db of
        None \<Rightarrow> Inr ((cv_id row, False), db\<lparr>convs := sql_insert row (convs db), next_conv := next_conv db + 1\<rparr>)
      | Some old \<Rightarrow>
          if \<not> vis s (cv_user old) then Inl InsufficientPrivilege
          else Inr ((cv_id old, True),
            db\<lparr>convs := sql_update (\<lambda>x. cv_topic x = cv_topic row \<and> cv_slug x = cv_slug row) (overwrite_conv row) (convs db)\<rparr>))"

definition upsert_conversation_record ::
  "session \<Rightarrow> aead \<Rightarrow> content_cipher \<Rightarrow> int \<Rightarrow> (nat \<Rightarrow> bytes) \<Rightarrow> int \<Rightarrow> string \<Rightarrow> string \<Rightarrow> string \<Rightarrow> ptext \<Rightarrow> ptext list \<Rightarrow>
   string list \<Rightarrow> message list \<Rightarrow> string \<Rightarrow> string \<Rightarrow> jdb \<Rightarrow> jerror + ((int \<times> bool) \<times> jdb)" where
  "upsert_conversation_record s a c now rnd topic_id title slug source summary tags participants messages
     conversation_date json_path db =
     rbind (lift_crypto (encrypt a c (rnd 0) (text_of title))) (\<lambda>title_sealed.
     rbind (lift_crypto (encrypt a c (rnd 1) summary)) (\<lambda>summary_sealed.
     rbind (parse_date conversation_date) (\<lambda>d.
     put_conversation s \<lparr>cv_id = next_conv db, cv_topic = topic_id, cv_slug = slug, cv_source = source, cv_tags = tags,
            cv_participants = participants, cv_message_count = length messages, cv_json_path = Some json_path,
            cv_created = midnight d, cv_updated = now, cv_user = gs_user s,
            cv_search = Some (text_strip (text_of title @ [32] @ summary)), cv_title = title_sealed,
            cv_summary = summary_sealed, cv_platform = None, cv_platform_id = None, cv_processed = None\<rparr> db)))"

text \<open>A text that is no time is stored as no time at all.\<close>

definition parse_ts :: "string option \<Rightarrow> int option" where
  "parse_ts ts = (case ts of None \<Rightarrow> None | Some t \<Rightarrow> map_option instant_of (datetime_fromisoformat t))"

fun seal_messages ::
  "session \<Rightarrow> aead \<Rightarrow> content_cipher \<Rightarrow> (nat \<Rightarrow> bytes) \<Rightarrow> int \<Rightarrow> nat \<Rightarrow> message list \<Rightarrow> jerror + msg_row list" where
  "seal_messages s a c rnd conv_id i [] = Inr []"
| "seal_messages s a c rnd conv_id i (m # ms) =
     rbind (lift_crypto (encrypt a c (rnd (2 + i)) (ms_content m))) (\<lambda>x.
     rmap (\<lambda>rows. \<lparr>mg_conv = conv_id, mg_role = ms_role m, mg_timestamp = parse_ts (ms_timestamp m), mg_position = i,
                  mg_user = gs_user s, mg_content = x, mg_search = Some (ms_content m)\<rparr> # rows)
       (seal_messages s a c rnd conv_id (Suc i) ms))"

text \<open>
  \<open>DELETE FROM messages\<close> and then \<open>_insert_messages\<close>.  The driver cannot send a time whose UTC date is
  outside the years 1 to 9999.
\<close>

definition time_ok :: "int option \<Rightarrow> bool" where
  "time_ok t = (case t of None \<Rightarrow> True | Some i \<Rightarrow> instant_ok i)"

definition replace_messages ::
  "session \<Rightarrow> aead \<Rightarrow> content_cipher \<Rightarrow> (nat \<Rightarrow> bytes) \<Rightarrow> int \<Rightarrow> message list \<Rightarrow> jdb \<Rightarrow> jerror + jdb" where
  "replace_messages s a c rnd conv_id messages db =
     rbind (seal_messages s a c rnd conv_id 0 messages) (\<lambda>rows.
       if \<not> list_all (\<lambda>r. time_ok (mg_timestamp r)) rows then Inl (JValueError ''timestamp'')
       else Inr (db\<lparr>msgs := sql_delete (\<lambda>m. vis s (mg_user m) \<and> mg_conv m = conv_id) (msgs db) @ rows\<rparr>))"

definition linked_text :: "string \<Rightarrow> ptext \<Rightarrow> ptext" where
  "linked_text title summary = text_of ''Conversation saved: '' @ text_of title @ [10, 10] @ summary"

definition upsert_linked_entry ::
  "session \<Rightarrow> aead \<Rightarrow> content_cipher \<Rightarrow> int \<Rightarrow> bytes \<Rightarrow> int \<Rightarrow> int \<Rightarrow> string \<Rightarrow> ptext \<Rightarrow> string \<Rightarrow> jdb \<Rightarrow> jerror + (int \<times> jdb)" where
  "upsert_linked_entry s a c now rnd topic_id conv_id title summary entry_date db =
     (let content = linked_text title summary in
      rbind (lift_crypto (encrypt a c rnd content)) (\<lambda>x.
      rbind (parse_date entry_date) (\<lambda>d.
      case sql_first (\<lambda>e. vis s (en_user e) \<and> en_conv e = Some conv_id) (entries db) of
        Some old \<Rightarrow>
          Inr (en_id old, db\<lparr>entries := sql_update (\<lambda>e. vis s (en_user e) \<and> en_id e = en_id old)
             (\<lambda>e. e\<lparr>en_content := x, en_search := Some content, en_reasoning := None, en_updated := now,
                    en_date := d, en_indexed := None\<rparr>) (entries db)\<rparr>)
      | None \<Rightarrow>
          insert_entry s (\<lambda>i. \<lparr>en_id = i, en_topic = topic_id, en_date = d, en_conv = Some conv_id,
             en_tags = [text_of ''conversation''], en_created = now, en_updated = now, en_deleted = None,
             en_indexed = None, en_user = gs_user s, en_content = x, en_reasoning = None, en_search = Some content\<rparr>) db)))"

text \<open>The checks and the lookup before the archive is written.\<close>

record save_plan =
  pl_topic :: string
  pl_title :: string
  pl_slug :: string
  pl_date :: string
  pl_topic_id :: int
  pl_old :: "conv_row option"
  pl_meta :: conv_meta

definition plan_save ::
  "session \<Rightarrow> int \<Rightarrow> ymd \<Rightarrow> string \<Rightarrow> string \<Rightarrow> message list \<Rightarrow> ptext \<Rightarrow> string \<Rightarrow> ptext list option \<Rightarrow> string option \<Rightarrow> jdb \<Rightarrow>
   jerror + save_plan" where
  "plan_save s now today topic title messages summary source tags date db =
     rbind (lift_invalid (validate_topic topic)) (\<lambda>path.
     rbind (lift_invalid (validate_title title)) (\<lambda>title'.
     (let slug = slugify title';
          day = (case date of None \<Rightarrow> isoformat today | Some d \<Rightarrow> if d = [] then isoformat today else d);
          participants = sort (remdups (map ms_role messages))
      in rbind (get_id s path db) (\<lambda>topic_id.
         (let old = sql_first (\<lambda>c. vis s (cv_user c) \<and> cv_topic c = topic_id \<and> cv_slug c = slug) (convs db)
          in rmap (\<lambda>tags'. \<lparr>pl_topic = path, pl_title = title', pl_slug = slug, pl_date = day, pl_topic_id = topic_id,
                 pl_old = old,
                 pl_meta = \<lparr>cm_id = None, cm_source = source, cm_title = text_of title', cm_topic = path, cm_tags = tags',
                   cm_created = (case old of None \<Rightarrow> day | Some c \<Rightarrow> isoformat (ts_date (cv_created c))),
                   cm_updated = isoformat (ts_date now), cm_summary = summary, cm_participants = participants,
                   cm_message_count = length messages, cm_failed = False\<rparr>\<rparr>)
               (check_tags (case tags of None \<Rightarrow> [] | Some ts \<Rightarrow> ts)))))))"

definition write_conversation ::
  "session \<Rightarrow> aead \<Rightarrow> content_cipher \<Rightarrow> int \<Rightarrow> (nat \<Rightarrow> bytes) \<Rightarrow> save_plan \<Rightarrow> message list \<Rightarrow> string \<Rightarrow> jdb \<Rightarrow>
   jerror + (save_result \<times> jdb)" where
  "write_conversation s a c now rnd p messages json_path db =
     (let meta = pl_meta p in
      rbind (upsert_conversation_record s a c now rnd (pl_topic_id p) (pl_title p) (pl_slug p) (cm_source meta)
               (cm_summary meta) (cm_tags meta) (cm_participants meta) messages (pl_date p) json_path db)
        (\<lambda>((conv_id, is_update), db1).
      rbind (replace_messages s a c rnd conv_id messages db1) (\<lambda>db2.
      rmap (\<lambda>(entry_id, db3).
          (\<lparr>sr_id = conv_id, sr_summary = cm_summary meta, sr_is_update = is_update, sr_entry = entry_id,
            sr_superseded = (case pl_old p of None \<Rightarrow> None
              | Some old \<Rightarrow> if is_update \<and> cv_json_path old \<noteq> None \<and> cv_json_path old \<noteq> Some [] \<and>
                              cv_json_path old \<noteq> Some json_path then cv_json_path old else None)\<rparr>,
           touch_topic s now (pl_topic_id p) db3))
        (upsert_linked_entry s a c now (rnd (2 + length messages)) (pl_topic_id p) conv_id (pl_title p)
           (cm_summary meta) (pl_date p) db2))))"

definition save_conversation ::
  "session \<Rightarrow> aead \<Rightarrow> content_cipher \<Rightarrow> int \<Rightarrow> ymd \<Rightarrow> (nat \<Rightarrow> bytes) \<Rightarrow> string \<Rightarrow> string \<Rightarrow> string \<Rightarrow> message list \<Rightarrow> ptext \<Rightarrow>
   string \<Rightarrow> ptext list option \<Rightarrow> string option \<Rightarrow> jdb \<Rightarrow> archive \<Rightarrow> (jerror + (save_result \<times> jdb)) \<times> archive" where
  "save_conversation s a c now today rnd uuid topic title messages summary source tags date db files =
     (case plan_save s now today topic title messages summary source tags date db of
        Inl e \<Rightarrow> (Inl e, files)
      | Inr p \<Rightarrow> (write_conversation s a c now rnd p messages (archive_path uuid) db,
                   write_conversation_json uuid (pl_meta p) messages files))"

text \<open>Only the base name of the path is used, below the archive directory.\<close>

definition base_name :: "string \<Rightarrow> string" where
  "base_name path = rev (takeWhile (\<lambda>ch. ch \<noteq> CHR ''/'') (rev path))"

definition delete_superseded_json_archive :: "string \<Rightarrow> archive \<Rightarrow> archive" where
  "delete_superseded_json_archive json_path files =
     filter (\<lambda>f. fst f \<noteq> archive_name (base_name json_path)) files"

section \<open>Reading\<close>

definition soft_column :: "aead \<Rightarrow> content_cipher \<Rightarrow> sealed \<Rightarrow> ptext \<times> bool" where
  "soft_column a c col =
     (case open_column a c (Some col) of
        Inr (Some v) \<Rightarrow> (v, False)
      | Inr None \<Rightarrow> ([], False)
      | Inl e \<Rightarrow> (conv_failed_text, True))"

definition title_summary :: "aead \<Rightarrow> content_cipher \<Rightarrow> conv_row \<Rightarrow> jerror + (ptext \<times> ptext)" where
  "title_summary a c row =
     rbind (open_column a c (Some (cv_title row))) (\<lambda>t.
     rbind (open_column a c (Some (cv_summary row))) (\<lambda>y.
     rbind (not_null t) (\<lambda>t'. rmap (\<lambda>y'. (t', y')) (not_null y))))"

definition row_to_meta :: "aead \<Rightarrow> content_cipher \<Rightarrow> bool \<Rightarrow> string \<Rightarrow> conv_row \<Rightarrow> jerror + conv_meta" where
  "row_to_meta a c soft_fail topic row =
     rbind (if soft_fail then Inr (soft_column a c (cv_title row), soft_column a c (cv_summary row))
            else rmap (\<lambda>(t, y). ((t, False), (y, False))) (title_summary a c row)) (\<lambda>((t, tf), (y, yf)).
     rbind (lift_invalid (validate_topic topic)) (\<lambda>path.
     rmap (\<lambda>tags. \<lparr>cm_id = Some (cv_id row), cm_source = cv_source row, cm_title = t, cm_topic = path, cm_tags = tags,
         cm_created = isoformat (ts_date (cv_created row)), cm_updated = isoformat (ts_date (cv_updated row)),
         cm_summary = y, cm_participants = cv_participants row, cm_message_count = cv_message_count row,
         cm_failed = (tf \<or> yf)\<rparr>)
       (check_tags (cv_tags row))))"

definition message_from_row :: "aead \<Rightarrow> content_cipher \<Rightarrow> bool \<Rightarrow> msg_row \<Rightarrow> jerror + message" where
  "message_from_row a c soft_fail r =
     (let out = (\<lambda>content failed. \<lparr>ms_role = mg_role r, ms_content = content, ms_timestamp = map_option instant_isoformat (mg_timestamp r),
                   ms_failed = failed\<rparr>)
      in if soft_fail then Inr (case soft_column a c (mg_content r) of (t, f) \<Rightarrow> out t f)
         else rmap (\<lambda>t. out t False) (lift_crypto (decrypt_or_raise a c (fst (mg_content r)) (snd (mg_content r)))))"

definition conv_path :: "session \<Rightarrow> jdb \<Rightarrow> conv_row \<Rightarrow> string option" where
  "conv_path s db c = map_option tp_path (topic_by_id s (cv_topic c) db)"

definition message_rows :: "session \<Rightarrow> int \<Rightarrow> jdb \<Rightarrow> msg_row list" where
  "message_rows s conv_id db = sort_key mg_position (sql_select (\<lambda>m. vis s (mg_user m) \<and> mg_conv m = conv_id) (msgs db))"

definition convs_under :: "session \<Rightarrow> string option \<Rightarrow> jdb \<Rightarrow> conv_row list" where
  "convs_under s like_pattern db =
     sql_select (\<lambda>c. vis s (cv_user c) \<and> (case conv_path s db c of None \<Rightarrow> False
        | Some path \<Rightarrow> (case like_pattern of None \<Rightarrow> True | Some p \<Rightarrow> sql_like p path))) (convs db)"

definition count_conversations :: "session \<Rightarrow> string option \<Rightarrow> jdb \<Rightarrow> jerror + nat" where
  "count_conversations s topic_prefix db =
     rmap (\<lambda>pattern. length (convs_under s pattern db)) (prefix_pattern topic_prefix)"

definition list_conversations ::
  "session \<Rightarrow> aead \<Rightarrow> content_cipher \<Rightarrow> string option \<Rightarrow> int option \<Rightarrow> int \<Rightarrow> bool \<Rightarrow> jdb \<Rightarrow> jerror + (conv_meta list \<times> nat)" where
  "list_conversations s a c topic_prefix limit offset soft_fail db =
     rbind (prefix_pattern topic_prefix) (\<lambda>pattern.
     (let found = sort_key (\<lambda>c. (- cv_created c, - cv_id c)) (convs_under s pattern db)
      in rbind (pg_page limit offset found) (\<lambda>rows.
         rbind (if rows \<noteq> [] then Inr (length found) else count_conversations s topic_prefix db) (\<lambda>n.
         rmap (\<lambda>metas. (metas, n))
           (rmap_list (\<lambda>r. row_to_meta a c soft_fail (case conv_path s db r of None \<Rightarrow> [] | Some p \<Rightarrow> p) r) rows)))))"

definition get_conversation ::
  "session \<Rightarrow> aead \<Rightarrow> content_cipher \<Rightarrow> string \<Rightarrow> string \<Rightarrow> jdb \<Rightarrow> jerror + (conv_meta \<times> message list)" where
  "get_conversation s a c topic title db =
     rbind (lift_invalid (validate_topic topic)) (\<lambda>path.
     (let slug = slugify title in
      case sql_first (\<lambda>c. vis s (cv_user c) \<and> conv_path s db c = Some path \<and> cv_slug c = slug) (convs db) of
        None \<Rightarrow> Inl ConversationNotFound
      | Some row \<Rightarrow>
          rbind (row_to_meta a c False path row) (\<lambda>meta.
          rmap (\<lambda>ms. (meta, ms)) (rmap_list (message_from_row a c False) (message_rows s (cv_id row) db)))))"

text \<open>The row a lookup by id joins with its topic.\<close>

definition conv_with_path :: "session \<Rightarrow> int \<Rightarrow> jdb \<Rightarrow> jerror + (conv_row \<times> string)" where
  "conv_with_path s i db =
     (case conv_by_id s i db of
        None \<Rightarrow> Inl ConversationNotFound
      | Some row \<Rightarrow> (case conv_path s db row of None \<Rightarrow> Inl ConversationNotFound | Some p \<Rightarrow> Inr (row, p)))"

definition read_conversation_by_id ::
  "session \<Rightarrow> aead \<Rightarrow> content_cipher \<Rightarrow> int \<Rightarrow> bool \<Rightarrow> jdb \<Rightarrow> jerror + (conv_meta \<times> message list \<times> nat)" where
  "read_conversation_by_id s a c conv_id preview db =
     rbind (conv_with_path s conv_id db) (\<lambda>(row, path).
     rbind (row_to_meta a c False path row) (\<lambda>meta.
     rmap (\<lambda>ms. (meta, if preview \<and> 6 < length ms then take 3 ms @ drop (length ms - 3) ms else ms, cv_message_count row))
       (rmap_list (message_from_row a c False) (message_rows s conv_id db))))"

definition read_conversation_by_id_paginated ::
  "session \<Rightarrow> aead \<Rightarrow> content_cipher \<Rightarrow> int \<Rightarrow> int \<Rightarrow> int \<Rightarrow> bool \<Rightarrow> jdb \<Rightarrow> jerror + (conv_meta \<times> message list \<times> nat)" where
  "read_conversation_by_id_paginated s a c conv_id messages_limit messages_offset soft_fail db =
     rbind (conv_with_path s conv_id db) (\<lambda>(row, path).
     rbind (row_to_meta a c soft_fail path row) (\<lambda>meta.
     rbind (pg_page (Some messages_limit) messages_offset (message_rows s conv_id db)) (\<lambda>rows.
     rmap (\<lambda>ms. (meta, ms, cv_message_count row)) (rmap_list (message_from_row a c soft_fail) rows))))"

definition get_title_summary :: "session \<Rightarrow> aead \<Rightarrow> content_cipher \<Rightarrow> int \<Rightarrow> jdb \<Rightarrow> jerror + (ptext \<times> ptext) option" where
  "get_title_summary s a c conv_id db =
     (case conv_by_id s conv_id db of None \<Rightarrow> Inr None | Some row \<Rightarrow> rmap Some (title_summary a c row))"

definition get_titles_summaries ::
  "session \<Rightarrow> aead \<Rightarrow> content_cipher \<Rightarrow> int list \<Rightarrow> jdb \<Rightarrow> (int \<times> ptext \<times> ptext) list" where
  "get_titles_summaries s a c ids db =
     concat (map (\<lambda>row. case title_summary a c row of Inr ty \<Rightarrow> [(cv_id row, ty)] | Inl e \<Rightarrow> [])
       (sql_select (\<lambda>x. vis s (cv_user x) \<and> cv_id x \<in> set ids) (convs db)))"

section \<open>Platform metadata and the processed mark\<close>

definition exists_by_platform_id :: "session \<Rightarrow> nat \<Rightarrow> string \<Rightarrow> string \<Rightarrow> jdb \<Rightarrow> bool" where
  "exists_by_platform_id s user platform platform_id db =
     list_ex (\<lambda>c. vis s (cv_user c) \<and> cv_user c = user \<and> cv_platform c = Some platform \<and>
        cv_platform_id c = Some platform_id) (convs db)"

text \<open>The unique index on user, platform and platform id ignores rows without a platform id.\<close>

definition platform_keys_ok :: "conv_row list \<Rightarrow> bool" where
  "platform_keys_ok cs =
     unique_key (\<lambda>c. (cv_user c, cv_platform c, cv_platform_id c))
       (filter (\<lambda>c. cv_platform c \<noteq> None \<and> cv_platform_id c \<noteq> None) cs)"

definition set_platform_metadata :: "session \<Rightarrow> int \<Rightarrow> string \<Rightarrow> string \<Rightarrow> jdb \<Rightarrow> jerror + jdb" where
  "set_platform_metadata s conv_id platform platform_id db =
     (let convs' = sql_update (\<lambda>c. vis s (cv_user c) \<and> cv_id c = conv_id)
            (\<lambda>c. c\<lparr>cv_platform := Some platform, cv_platform_id := Some platform_id\<rparr>) (convs db)
      in if \<not> platform_keys_ok convs' then Inl UniqueViolation else Inr (db\<lparr>convs := convs'\<rparr>))"

definition get_processed_at :: "session \<Rightarrow> int \<Rightarrow> jdb \<Rightarrow> int option" where
  "get_processed_at s conv_id db = (case conv_by_id s conv_id db of None \<Rightarrow> None | Some c \<Rightarrow> cv_processed c)"

definition mark_processed :: "session \<Rightarrow> int \<Rightarrow> int \<Rightarrow> jdb \<Rightarrow> jdb" where
  "mark_processed s now conv_id db =
     db\<lparr>convs := sql_update (\<lambda>c. vis s (cv_user c) \<and> cv_id c = conv_id \<and> cv_processed c = None)
          (\<lambda>c. c\<lparr>cv_processed := Some now\<rparr>) (convs db)\<rparr>"

section \<open>Integrity and isolation\<close>

lemma jdb_ok_convs_update:
  assumes "jdb_ok db" and "\<And>c. cv_id (f c) = cv_id c" "\<And>c. cv_user (f c) = cv_user c" "\<And>c. cv_topic (f c) = cv_topic c"
    "\<And>c. cv_slug (f c) = cv_slug c"
  shows "jdb_ok (db\<lparr>convs := sql_update P f (convs db)\<rparr>)"
proof -
  let ?db = "db\<lparr>convs := sql_update P f (convs db)\<rparr>"
  have keys: "topic_keys ?db = topic_keys db" "conv_keys ?db = conv_keys db" "entry_keys ?db = entry_keys db"
    using assms(2,3) by (simp_all add: topic_keys_def conv_keys_def entry_keys_def image_update)
  have "convs_ok ?db"
    using assms unfolding convs_ok_def jdb_ok_def keys by (auto simp: unique_key_update_iff sql_simps)
  then show ?thesis
    using assms(1) by (simp add: jdb_ok_def topics_ok_def entries_ok_def embs_ok_def msgs_ok_def keys)
qed

lemma jdb_ok_conv_insert:
  assumes "jdb_ok db" and "cv_id row = next_conv db" and "(cv_topic row, cv_user row) \<in> topic_keys db"
    and "conv_at (cv_topic row) (cv_slug row) db = None"
  shows "jdb_ok (db\<lparr>convs := sql_insert row (convs db), next_conv := next_conv db + 1\<rparr>)"
proof -
  let ?db = "db\<lparr>convs := sql_insert row (convs db), next_conv := next_conv db + 1\<rparr>"
  have keys: "topic_keys ?db = topic_keys db" "entry_keys ?db = entry_keys db" "conv_keys db \<subseteq> conv_keys ?db"
    by (auto simp: topic_keys_def conv_keys_def entry_keys_def sql_simps)
  have "unique_key cv_id (sql_insert row (convs db))" "unique_key (\<lambda>c. (cv_topic c, cv_slug c)) (sql_insert row (convs db))"
    using assms by (auto intro!: unique_key_insert simp: jdb_ok_def convs_ok_def conv_at_def sql_first_None)
  then have "convs_ok ?db"
    using assms unfolding convs_ok_def jdb_ok_def keys by (auto simp: sql_simps)
  then show ?thesis
    using assms(1) subsetD [OF keys(3)]
    by (simp add: jdb_ok_def topics_ok_def entries_ok_def embs_ok_def msgs_ok_def keys)
qed

lemma jdb_ok_msgs:
  assumes "jdb_ok db" and "\<And>m. m \<in> set ms \<Longrightarrow> (mg_conv m, mg_user m) \<in> conv_keys db"
  shows "jdb_ok (db\<lparr>msgs := ms\<rparr>)"
  using assms
  by (simp add: jdb_ok_def topics_ok_def convs_ok_def entries_ok_def embs_ok_def msgs_ok_def topic_keys_def
      conv_keys_def entry_keys_def)

lemma overwrite_conv_frame [simp]:
  "cv_id (overwrite_conv r c) = cv_id c" "cv_user (overwrite_conv r c) = cv_user c" "cv_topic (overwrite_conv r c) = cv_topic c"
  "cv_slug (overwrite_conv r c) = cv_slug c" "cv_created (overwrite_conv r c) = cv_created c"
  "cv_json_path (overwrite_conv r c) = cv_json_path r" "cv_title (overwrite_conv r c) = cv_title r"
  "cv_summary (overwrite_conv r c) = cv_summary r" "cv_message_count (overwrite_conv r c) = cv_message_count r"
  by (simp_all add: overwrite_conv_def)

lemma topic_keys_unique:
  assumes "jdb_ok db" and "(i, u) \<in> topic_keys db" and "(i, v) \<in> topic_keys db"
  shows "v = u"
  using assms by (auto simp: topic_keys_def jdb_ok_def topics_ok_def dest: unique_keyD)

lemma conv_at_owner:
  assumes "jdb_ok db" and "(topic_id, gs_user s) \<in> topic_keys db" and "conv_at topic_id slug db = Some old"
  shows "cv_user old = gs_user s"
proof -
  have "old \<in> set (convs db)" "cv_topic old = topic_id" using assms(3) by (auto simp: conv_at_def dest: sql_first_SomeD)
  then have "(topic_id, cv_user old) \<in> topic_keys db" using assms(1) by (auto simp: jdb_ok_def convs_ok_def)
  then show ?thesis using assms(1,2) by (auto simp: topic_keys_def jdb_ok_def topics_ok_def dest: unique_keyD)
qed

lemma own_topic_convs:
  assumes "jdb_ok db" and "(topic_id, gs_user s) \<in> topic_keys db" and "x \<in> set (convs db)" and "cv_topic x = topic_id"
  shows "cv_user x = gs_user s"
proof -
  have "(topic_id, cv_user x) \<in> topic_keys db" using assms(1,3,4) by (auto simp: jdb_ok_def convs_ok_def)
  with assms(1,2) show ?thesis by (rule topic_keys_unique)
qed

text \<open>What saving a conversation row leaves of the database.\<close>

definition conv_saved :: "session \<Rightarrow> int \<Rightarrow> jdb \<Rightarrow> jdb \<Rightarrow> bool" where
  "conv_saved s i db db' =
     (jdb_ok db' \<and> others (gs_user s) db' = others (gs_user s) db \<and> (i, gs_user s) \<in> conv_keys db' \<and>
      topic_keys db' = topic_keys db \<and> conv_keys db \<subseteq> conv_keys db' \<and>
      (\<exists>cs n. db' = db\<lparr>convs := cs, next_conv := n\<rparr>))"

lemma put_conversation_ok:
  assumes "jdb_ok db" and "(cv_topic row, gs_user s) \<in> topic_keys db" and "cv_id row = next_conv db" and "cv_user row = gs_user s"
    and "put_conversation s row db = Inr ((i, upd), db')"
  shows "conv_saved s i db db'"
proof (cases "conv_at (cv_topic row) (cv_slug row) db")
  case None
  then have db': "db' = db\<lparr>convs := sql_insert row (convs db), next_conv := next_conv db + 1\<rparr>" and i: "i = next_conv db"
    using assms(3,5) by (auto simp: put_conversation_def split: if_splits)
  have "jdb_ok db'" unfolding db' by (rule jdb_ok_conv_insert) (use assms None in auto)
  moreover have "others (gs_user s) db' = others (gs_user s) db"
    using assms(4) by (auto simp: db' others_def intro!: other_rules)
  moreover have "conv_keys db' = insert (i, gs_user s) (conv_keys db)" "topic_keys db' = topic_keys db"
    using assms(3,4) i by (auto simp: db' conv_keys_def topic_keys_def sql_simps)
  moreover have "\<exists>cs n. db' = db\<lparr>convs := cs, next_conv := n\<rparr>" using db' by blast
  ultimately show ?thesis by (auto simp: conv_saved_def)
next
  case (Some old)
  let ?P = "\<lambda>x. cv_topic x = cv_topic row \<and> cv_slug x = cv_slug row"
  have db': "db' = db\<lparr>convs := sql_update ?P (overwrite_conv row) (convs db)\<rparr>" and i: "i = cv_id old"
    using assms(5) Some by (auto simp: put_conversation_def split: if_splits)
  have "jdb_ok db'" unfolding db' by (rule jdb_ok_convs_update [OF assms(1)]) simp_all
  moreover have "sql_update ?P (overwrite_conv row) (convs db) =
      sql_update (\<lambda>x. cv_user x = gs_user s \<and> ?P x) (overwrite_conv row) (convs db)"
    using own_topic_convs [OF assms(1,2)] by (simp add: sql_update_def)
  then have "others (gs_user s) db' = others (gs_user s) db"
    by (auto simp: db' others_def intro!: other_rules)
  moreover have "old \<in> set (convs db)" "cv_user old = gs_user s"
    using Some conv_at_owner [OF assms(1,2) Some] by (auto simp: conv_at_def dest: sql_first_SomeD)
  then have "(i, gs_user s) \<in> conv_keys db" by (auto simp: i conv_keys_def)
  moreover have "conv_keys db' = conv_keys db" "topic_keys db' = topic_keys db"
    by (simp_all add: db' conv_keys_def topic_keys_def image_update)
  moreover have "db' = db\<lparr>convs := convs db', next_conv := next_conv db\<rparr>" by (simp add: db')
  ultimately show ?thesis unfolding conv_saved_def by blast
qed

lemma upsert_conversation_Inr:
  assumes "upsert_conversation_record s a c now rnd topic_id title slug source summary tags parts ms day path db = Inr res"
  obtains row where "put_conversation s row db = Inr res" and "cv_id row = next_conv db" and "cv_user row = gs_user s"
    and "cv_topic row = topic_id" and "cv_slug row = slug" and "encrypt a c (rnd 0) (text_of title) = Inr (cv_title row)"
    and "encrypt a c (rnd 1) summary = Inr (cv_summary row)" and "cv_source row = source" and "cv_tags row = tags"
    and "cv_participants row = parts" and "cv_message_count row = length ms" and "cv_json_path row = Some path" and "cv_updated row = now"
  using assms unfolding upsert_conversation_record_def rbind_eq_Inr lift_Inr by auto

lemma seal_messages_rows:
  "seal_messages s a c rnd i k ms = Inr rows \<Longrightarrow>
   list_all2 (\<lambda>m r. mg_role r = ms_role m \<and> mg_timestamp r = parse_ts (ms_timestamp m) \<and> mg_search r = Some (ms_content m)) ms rows \<and>
   list_all (\<lambda>r. mg_conv r = i \<and> mg_user r = gs_user s) rows \<and> map mg_position rows = [k..<k + length ms]"
proof (induction ms arbitrary: k rows)
  case (Cons m ms)
  from Cons.prems obtain x rows' where r: "seal_messages s a c rnd i (Suc k) ms = Inr rows'"
    and rows: "rows = \<lparr>mg_conv = i, mg_role = ms_role m, mg_timestamp = parse_ts (ms_timestamp m), mg_position = k,
                  mg_user = gs_user s, mg_content = x, mg_search = Some (ms_content m)\<rparr> # rows'"
    by (auto simp: res_simps)
  from Cons.IH [OF r] show ?case by (simp add: rows upt_conv_Cons del: upt_Suc)
qed simp

lemma replace_messages_ok:
  assumes "jdb_ok db" and "(i, gs_user s) \<in> conv_keys db" and "replace_messages s a c rnd i ms db = Inr db'"
  shows "jdb_ok db' \<and> others (gs_user s) db' = others (gs_user s) db \<and> (\<exists>rows. db' = db\<lparr>msgs := rows\<rparr>)"
proof -
  obtain rows where rows: "seal_messages s a c rnd i 0 ms = Inr rows"
    and db': "db' = db\<lparr>msgs := sql_delete (\<lambda>m. vis s (mg_user m) \<and> mg_conv m = i) (msgs db) @ rows\<rparr>"
    using assms(3) by (auto simp: replace_messages_def res_simps split: if_splits)
  have r: "list_all (\<lambda>r. mg_conv r = i \<and> mg_user r = gs_user s) rows" using seal_messages_rows [OF rows] by simp
  have "jdb_ok db'"
    unfolding db' using assms(1,2) r
    by (intro jdb_ok_msgs) (auto simp: sql_simps jdb_ok_def msgs_ok_def list_all_iff)
  moreover have "filter (\<lambda>m. mg_user m \<noteq> gs_user s) rows = []" using r by (auto simp: list_all_iff filter_empty_conv)
  then have "others (gs_user s) db' = others (gs_user s) db"
    by (auto simp: db' others_def vis_def intro!: other_rules)
  ultimately show ?thesis using db' by blast
qed

lemma upsert_linked_entry_ok:
  assumes "jdb_ok db" and "(i, gs_user s) \<in> conv_keys db" and "(topic_id, gs_user s) \<in> topic_keys db"
    and "upsert_linked_entry s a c now rnd topic_id i title summary day db = Inr (e, db')"
  shows "jdb_ok db' \<and> others (gs_user s) db' = others (gs_user s) db \<and>
    (\<exists>es n. db' = db\<lparr>entries := es, next_entry := n\<rparr>)"
proof (cases "sql_first (\<lambda>e. vis s (en_user e) \<and> en_conv e = Some i) (entries db)")
  case None
  then obtain row where ins: "insert_entry s row db = Inr (e, db')"
    and row: "\<And>k. en_id (row k) = k" "\<And>k. en_user (row k) = gs_user s" "\<And>k. en_topic (row k) = topic_id" "\<And>k. en_conv (row k) = Some i"
    using assms(4) by (auto simp: upsert_linked_entry_def Let_def res_simps)
  have "jdb_ok db'" "others (gs_user s) db' = others (gs_user s) db"
    by (rule insert_entry_ok [OF assms(1) ins]; use row assms(2,3) in auto)+
  moreover have "\<exists>es n. db' = db\<lparr>entries := es, next_entry := n\<rparr>"
    using ins by (auto simp: insert_entry_def split: if_splits)
  ultimately show ?thesis by simp
next
  case (Some old)
  then obtain x d where db': "db' = db\<lparr>entries := sql_update (\<lambda>e. vis s (en_user e) \<and> en_id e = en_id old)
             (\<lambda>e. e\<lparr>en_content := x, en_search := Some (linked_text title summary), en_reasoning := None, en_updated := now,
                    en_date := d, en_indexed := None\<rparr>) (entries db)\<rparr>"
    using assms(4) by (auto simp: upsert_linked_entry_def Let_def res_simps)
  have "jdb_ok db'"
    unfolding db' by (rule jdb_ok_entries_update [OF assms(1)]) (use entry_topic_key [OF assms(1)] in auto)
  moreover have "others (gs_user s) db' = others (gs_user s) db"
    by (auto simp: db' others_def vis_def intro!: other_rules)
  moreover have "db' = db\<lparr>entries := entries db', next_entry := next_entry db\<rparr>" by (simp add: db')
  ultimately show ?thesis by blast
qed

lemma plan_save_topic:
  assumes "plan_save s now today topic title messages summary source tags date db = Inr p"
  shows "(pl_topic_id p, gs_user s) \<in> topic_keys db \<and> gs_active s"
  using assms get_id_key by (fastforce simp: plan_save_def res_simps Let_def)

lemma write_conversation_Inr:
  assumes "write_conversation s a c now rnd p messages path db = Inr (r, db')"
  obtains upd db1 db2 db3 where
    "upsert_conversation_record s a c now rnd (pl_topic_id p) (pl_title p) (pl_slug p) (cm_source (pl_meta p))
               (cm_summary (pl_meta p)) (cm_tags (pl_meta p)) (cm_participants (pl_meta p)) messages (pl_date p) path db = Inr ((sr_id r, upd), db1)"
    and "replace_messages s a c rnd (sr_id r) messages db1 = Inr db2"
    and "upsert_linked_entry s a c now (rnd (2 + length messages)) (pl_topic_id p) (sr_id r) (pl_title p)
           (cm_summary (pl_meta p)) (pl_date p) db2 = Inr (sr_entry r, db3)"
    and "db' = touch_topic s now (pl_topic_id p) db3" and "sr_is_update r = upd" and "sr_summary r = cm_summary (pl_meta p)"
  using assms unfolding write_conversation_def Let_def by (auto simp: res_simps split_beta)

lemma write_conversation_ok:
  assumes "jdb_ok db" and "(pl_topic_id p, gs_user s) \<in> topic_keys db" and "write_conversation s a c now rnd p messages path db = Inr (r, db')"
  shows "jdb_ok db' \<and> others (gs_user s) db' = others (gs_user s) db"
  using assms(3)
proof (rule write_conversation_Inr)
  fix upd db1 db2 db3
  assume u: "upsert_conversation_record s a c now rnd (pl_topic_id p) (pl_title p) (pl_slug p) (cm_source (pl_meta p))
               (cm_summary (pl_meta p)) (cm_tags (pl_meta p)) (cm_participants (pl_meta p)) messages (pl_date p) path db = Inr ((sr_id r, upd), db1)"
    and m: "replace_messages s a c rnd (sr_id r) messages db1 = Inr db2"
    and e: "upsert_linked_entry s a c now (rnd (2 + length messages)) (pl_topic_id p) (sr_id r) (pl_title p)
           (cm_summary (pl_meta p)) (pl_date p) db2 = Inr (sr_entry r, db3)"
    and db': "db' = touch_topic s now (pl_topic_id p) db3"
  have 1: "conv_saved s (sr_id r) db db1"
    using u by (rule upsert_conversation_Inr) (auto intro!: put_conversation_ok [OF assms(1)] simp: assms(2))
  then obtain cs n where db1: "db1 = db\<lparr>convs := cs, next_conv := n\<rparr>" by (auto simp: conv_saved_def)
  have 2: "jdb_ok db2 \<and> others (gs_user s) db2 = others (gs_user s) db1 \<and> (\<exists>rows. db2 = db1\<lparr>msgs := rows\<rparr>)"
    using replace_messages_ok [OF _ _ m] 1 by (simp add: conv_saved_def)
  then have "conv_keys db2 = conv_keys db1" "topic_keys db2 = topic_keys db"
    by (auto simp: conv_keys_def topic_keys_def db1)
  then have "jdb_ok db3 \<and> others (gs_user s) db3 = others (gs_user s) db2"
    using upsert_linked_entry_ok [OF _ _ _ e] 1 2 assms(2) by (simp add: conv_saved_def)
  with 1 2 show ?thesis by (simp add: db' touch_topic_ok touch_topic_others conv_saved_def)
qed

section \<open>What is saved is what is read\<close>

lemma sql_first_unique:
  assumes "r \<in> set t" and "P r" and "\<And>q. q \<in> set t \<Longrightarrow> P q \<Longrightarrow> q = r"
  shows "sql_first P t = Some r"
proof -
  have "sql_first P t \<noteq> None" using assms(1,2) by (auto simp: sql_first_None)
  then show ?thesis using assms(3) by (auto dest: sql_first_SomeD)
qed

lemma conv_slot_unique:
  "jdb_ok db \<Longrightarrow> x \<in> set (convs db) \<Longrightarrow> y \<in> set (convs db) \<Longrightarrow> cv_topic x = cv_topic y \<Longrightarrow> cv_slug x = cv_slug y \<Longrightarrow> x = y"
  by (auto simp: jdb_ok_def convs_ok_def dest: unique_keyD)

lemma conv_id_unique:
  "jdb_ok db \<Longrightarrow> x \<in> set (convs db) \<Longrightarrow> y \<in> set (convs db) \<Longrightarrow> cv_id x = cv_id y \<Longrightarrow> x = y"
  by (auto simp: jdb_ok_def convs_ok_def dest: unique_keyD)

text \<open>The saved row: the proposed one, or the old one with the proposed columns copied over it.\<close>

definition saved_row :: "conv_row \<Rightarrow> jdb \<Rightarrow> conv_row" where
  "saved_row row db = (case conv_at (cv_topic row) (cv_slug row) db of None \<Rightarrow> row | Some old \<Rightarrow> overwrite_conv row old)"

lemma put_conversation_convs:
  assumes "jdb_ok db" and "put_conversation s row db = Inr ((i, upd), db')"
  shows "i = cv_id (saved_row row db)" and "upd = (conv_at (cv_topic row) (cv_slug row) db \<noteq> None)"
    and "convs db' = (if upd then map (\<lambda>x. if cv_id x = i then saved_row row db else x) (convs db) else convs db @ [row])"
proof -
  have "i = cv_id (saved_row row db) \<and> upd = (conv_at (cv_topic row) (cv_slug row) db \<noteq> None) \<and>
     convs db' = (if upd then map (\<lambda>x. if cv_id x = i then saved_row row db else x) (convs db) else convs db @ [row])"
  proof (cases "conv_at (cv_topic row) (cv_slug row) db")
    case None
    then show ?thesis using assms(2) by (auto simp: put_conversation_def saved_row_def sql_insert_def split: if_splits)
  next
    case (Some old)
    have old: "old \<in> set (convs db)" "cv_topic old = cv_topic row" "cv_slug old = cv_slug row"
      using Some by (auto simp: conv_at_def dest: sql_first_SomeD)
    have "sql_update (\<lambda>x. cv_topic x = cv_topic row \<and> cv_slug x = cv_slug row) (overwrite_conv row) (convs db) =
        map (\<lambda>x. if cv_id x = cv_id old then overwrite_conv row old else x) (convs db)"
      unfolding sql_update_def
    proof (rule map_cong [OF refl])
      fix x assume x: "x \<in> set (convs db)"
      show "(if cv_topic x = cv_topic row \<and> cv_slug x = cv_slug row then overwrite_conv row x else x) =
          (if cv_id x = cv_id old then overwrite_conv row old else x)"
      proof (cases "x = old")
        case False
        then have "\<not> (cv_topic x = cv_topic row \<and> cv_slug x = cv_slug row)" "cv_id x \<noteq> cv_id old"
          using conv_slot_unique [OF assms(1) x old(1)] conv_id_unique [OF assms(1) x old(1)] old(2,3) by metis+
        then show ?thesis by auto
      qed (simp add: old(2,3))
    qed
    with Some assms(2) show ?thesis by (auto simp: put_conversation_def saved_row_def split: if_splits)
  qed
  then show "i = cv_id (saved_row row db)" "upd = (conv_at (cv_topic row) (cv_slug row) db \<noteq> None)"
    "convs db' = (if upd then map (\<lambda>x. if cv_id x = i then saved_row row db else x) (convs db) else convs db @ [row])"
    by simp_all
qed

lemma saved_row_facts [simp]:
  "cv_title (saved_row row db) = cv_title row" "cv_summary (saved_row row db) = cv_summary row"
  "cv_json_path (saved_row row db) = cv_json_path row" "cv_message_count (saved_row row db) = cv_message_count row"
  by (auto simp: saved_row_def split: option.splits)

lemma saved_row_key [simp]:
  "cv_topic (saved_row row db) = cv_topic row" "cv_slug (saved_row row db) = cv_slug row"
  using sql_first_SomeD [of _ "convs db"]
  by (auto simp: saved_row_def conv_at_def split: option.splits dest: sql_first_SomeD)

lemma saved_row_more:
  "cv_source (saved_row row db) = cv_source row" "cv_tags (saved_row row db) = cv_tags row"
  "cv_participants (saved_row row db) = cv_participants row" "cv_updated (saved_row row db) = cv_updated row"
  by (auto simp: saved_row_def overwrite_conv_def split: option.splits)

lemma saved_row_in:
  assumes "jdb_ok db" and "put_conversation s row db = Inr ((i, upd), db')"
  shows "saved_row row db \<in> set (convs db')"
proof (cases "conv_at (cv_topic row) (cv_slug row) db")
  case None
  then show ?thesis using put_conversation_convs [OF assms] by (simp add: saved_row_def)
next
  case (Some old)
  then have "old \<in> set (convs db)" by (auto simp: conv_at_def dest: sql_first_SomeD)
  with Some put_conversation_convs [OF assms] show ?thesis by (force simp: saved_row_def image_iff)
qed

text \<open>What a completed save leaves: the row, its messages and its linked entry.\<close>

lemma sort_key_sorted: "sorted (map f xs) \<Longrightarrow> sort_key f xs = xs"
  by (induction xs) (auto simp: insort_is_Cons)

text \<open>A message as a reader gets it: with its time in UTC, if it was one.\<close>

definition read_back :: "message \<Rightarrow> message" where
  "read_back m = m\<lparr>ms_timestamp := map_option instant_isoformat (parse_ts (ms_timestamp m)), ms_failed := False\<rparr>"

lemma read_back_time: "time_ok (parse_ts (ms_timestamp m)) \<Longrightarrow> parse_ts (ms_timestamp (read_back m)) = parse_ts (ms_timestamp m)"
  using instant_roundtrip by (auto simp: read_back_def parse_ts_def time_ok_def split: option.splits)

lemma open_messages:
  assumes "cipher_ok a c" and "\<And>n. length (rnd n) = 11"
  shows "seal_messages s a c rnd i k ms = Inr rows \<Longrightarrow>
    rmap_list (message_from_row a c False) rows = Inr (map read_back ms)"
proof (induction ms arbitrary: k rows)
  case (Cons m ms)
  from Cons.prems obtain x rows' where x: "encrypt a c (rnd (2 + k)) (ms_content m) = Inr x"
    and r: "seal_messages s a c rnd i (Suc k) ms = Inr rows'"
    and rows: "rows = \<lparr>mg_conv = i, mg_role = ms_role m, mg_timestamp = parse_ts (ms_timestamp m), mg_position = k,
                  mg_user = gs_user s, mg_content = x, mg_search = Some (ms_content m)\<rparr> # rows'"
    by (auto simp: res_simps)
  have "lift_crypto (decrypt_or_raise a c (fst x) (snd x)) = Inr (ms_content m)"
    using seal_open_column [OF assms(1,2) x]
    by (auto simp: open_column_def decrypt_content_field_def res_simps lift_Inr)
  with Cons.IH [OF r] show ?case by (simp add: rows message_from_row_def read_back_def)
qed simp

lemma replaced_message_rows:
  assumes "gs_active s" and "replace_messages s a c rnd i ms db = Inr db'"
  obtains rows where "seal_messages s a c rnd i 0 ms = Inr rows" and "message_rows s i db' = rows"
proof -
  obtain rows where rows: "seal_messages s a c rnd i 0 ms = Inr rows"
    and db': "db' = db\<lparr>msgs := sql_delete (\<lambda>m. vis s (mg_user m) \<and> mg_conv m = i) (msgs db) @ rows\<rparr>"
    using assms(2) by (auto simp: replace_messages_def res_simps split: if_splits)
  note r = seal_messages_rows [OF rows]
  have "sql_select (\<lambda>m. vis s (mg_user m) \<and> mg_conv m = i) (msgs db') = rows"
    using r assms(1) by (auto simp: db' sql_select_def sql_delete_def filter_empty_conv list_all_iff vis_def intro!: filter_True)
  moreover have "sorted (map mg_position rows)" using r by (simp del: upt_Suc)
  ultimately show ?thesis using rows that by (simp add: message_rows_def sort_key_sorted)
qed

lemma plan_save_Inr:
  assumes "plan_save s now today topic title messages summary source tags date db = Inr p"
  shows "validate_topic topic = Inr (pl_topic p)" and "validate_title title = Inr (pl_title p)" and "pl_slug p = slugify (pl_title p)"
    and "get_id s (pl_topic p) db = Inr (pl_topic_id p)"
    and "pl_old p = sql_first (\<lambda>c. vis s (cv_user c) \<and> cv_topic c = pl_topic_id p \<and> cv_slug c = pl_slug p) (convs db)"
    and "cm_summary (pl_meta p) = summary" and "list_all (\<lambda>t. length t \<le> 128) (cm_tags (pl_meta p))"
    and "cm_source (pl_meta p) = source" and "cm_tags (pl_meta p) = (case tags of None \<Rightarrow> [] | Some ts \<Rightarrow> ts)"
  using assms by (auto simp: plan_save_def res_simps Let_def check_tags_def list_ex_iff list_all_iff not_less split: if_splits)

lemma validate_topic_again: "validate_topic topic = Inr p \<Longrightarrow> validate_topic p = Inr p"
  by (auto simp: validate_topic_Inr)

text \<open>
  The state after the row, its messages and its entry are written, in terms of the proposed
  row: everything a reader of the conversation looks at.
\<close>

lemma write_conversation_result:
  assumes "jdb_ok db" and "(pl_topic_id p, gs_user s) \<in> topic_keys db" and "write_conversation s a c now rnd p messages path db = Inr (r, db')"
  obtains row rows where "saved_row row db \<in> set (convs db')" and "cv_id (saved_row row db) = sr_id r"
    and "convs db' = (if sr_is_update r then map (\<lambda>x. if cv_id x = sr_id r then saved_row row db else x) (convs db) else convs db @ [row])"
    and "sr_is_update r = (conv_at (pl_topic_id p) (pl_slug p) db \<noteq> None)"
    and "cv_topic row = pl_topic_id p" and "cv_slug row = pl_slug p" and "cv_id row = next_conv db" and "cv_user row = gs_user s"
    and "encrypt a c (rnd 0) (text_of (pl_title p)) = Inr (cv_title row)"
    and "encrypt a c (rnd 1) (cm_summary (pl_meta p)) = Inr (cv_summary row)"
    and "cv_tags row = cm_tags (pl_meta p)" and "cv_source row = cm_source (pl_meta p)" and "cv_message_count row = length messages"
    and "cv_json_path row = Some path"
    and "seal_messages s a c rnd (sr_id r) 0 messages = Inr rows" and "message_rows s (sr_id r) db' = rows"
    and "topics db' = topics (touch_topic s now (pl_topic_id p) db)"
  using assms(3)
proof (rule write_conversation_Inr)
  fix upd db1 db2 db3
  assume u: "upsert_conversation_record s a c now rnd (pl_topic_id p) (pl_title p) (pl_slug p) (cm_source (pl_meta p))
               (cm_summary (pl_meta p)) (cm_tags (pl_meta p)) (cm_participants (pl_meta p)) messages (pl_date p) path db = Inr ((sr_id r, upd), db1)"
    and m: "replace_messages s a c rnd (sr_id r) messages db1 = Inr db2"
    and e: "upsert_linked_entry s a c now (rnd (2 + length messages)) (pl_topic_id p) (sr_id r) (pl_title p)
           (cm_summary (pl_meta p)) (pl_date p) db2 = Inr (sr_entry r, db3)"
    and db': "db' = touch_topic s now (pl_topic_id p) db3" and upd: "sr_is_update r = upd"
  obtain row where put: "put_conversation s row db = Inr ((sr_id r, upd), db1)" and row: "cv_id row = next_conv db" "cv_user row = gs_user s"
    "cv_topic row = pl_topic_id p" "cv_slug row = pl_slug p" "encrypt a c (rnd 0) (text_of (pl_title p)) = Inr (cv_title row)"
    "encrypt a c (rnd 1) (cm_summary (pl_meta p)) = Inr (cv_summary row)" "cv_tags row = cm_tags (pl_meta p)"
    "cv_source row = cm_source (pl_meta p)" "cv_message_count row = length messages" "cv_json_path row = Some path"
    using u by (rule upsert_conversation_Inr) blast
  have "conv_saved s (sr_id r) db db1"
    by (rule put_conversation_ok [OF assms(1) _ row(1,2) put]) (simp add: row(3) assms(2))
  then obtain cs n where 1: "jdb_ok db1" "(sr_id r, gs_user s) \<in> conv_keys db1" "db1 = db\<lparr>convs := cs, next_conv := n\<rparr>"
    "topic_keys db1 = topic_keys db" by (auto simp: conv_saved_def)
  obtain ms where 2: "db2 = db1\<lparr>msgs := ms\<rparr>" "jdb_ok db2" using replace_messages_ok [OF 1(1,2) m] by blast
  then have "conv_keys db2 = conv_keys db1" "topic_keys db2 = topic_keys db"
    by (auto simp: conv_keys_def topic_keys_def 1(3))
  then obtain es k where 3: "db3 = db2\<lparr>entries := es, next_entry := k\<rparr>"
    using upsert_linked_entry_ok [OF 2(2) _ _ e] 1(2) assms(2) by auto
  have act: "gs_active s" using put by (auto simp: put_conversation_def split: if_splits)
  have frame: "convs db' = convs db1" "msgs db' = msgs db2" "topics db' = topics (touch_topic s now (pl_topic_id p) db)"
    by (simp_all add: db' 1(3) 2(1) 3 touch_topic_def)
  obtain rows where rows: "seal_messages s a c rnd (sr_id r) 0 messages = Inr rows" "message_rows s (sr_id r) db2 = rows"
    using replaced_message_rows [OF act m] .
  have "message_rows s (sr_id r) db' = rows" using rows(2) frame(2) by (simp add: message_rows_def)
  then show thesis
    using that [of row rows] saved_row_in [OF assms(1) put] put_conversation_convs [OF assms(1) put] row rows(1) frame upd by simp
qed

lemma touched_lookup:
  "(\<And>t. P (t\<lparr>tp_updated := now\<rparr>) = P t) \<Longrightarrow> (\<And>t. g (t\<lparr>tp_updated := now\<rparr>) = g t) \<Longrightarrow>
   map_option g (sql_first P (sql_update Q (\<lambda>t. t\<lparr>tp_updated := now\<rparr>) ts)) = map_option g (sql_first P ts)"
  by (induction ts) (auto simp: sql_first_def sql_update_def)

text \<open>What a successful save leaves for a reader: the row, its path, its cover and its messages.\<close>

lemma saved_reader:
  assumes "jdb_ok db" and "cipher_ok a c" and "\<And>n. length (rnd n) = 11"
    and "save_conversation s a c now today rnd uuid topic title messages summary source tags date db files = (Inr (r, db'), files')"
  obtains row rows path title' meta where "validate_topic topic = Inr path" "validate_title title = Inr title'"
    "jdb_ok db'" "gs_active s" "row \<in> set (convs db')" "cv_id row = sr_id r" "cv_user row = gs_user s" "cv_slug row = slugify title'"
    "\<And>x. conv_path s db' x = Some path \<longleftrightarrow> cv_topic x = cv_topic row"
    "row_to_meta a c False path row = Inr meta" "cm_id meta = Some (sr_id r)" "cm_title meta = text_of title'" "cm_summary meta = summary"
    "cm_topic meta = path" "cm_source meta = source" "cm_tags meta = (case tags of None \<Rightarrow> [] | Some ts \<Rightarrow> ts)"
    "cm_message_count meta = length messages" "\<not> cm_failed meta" "cv_message_count row = length messages"
    "message_rows s (sr_id r) db' = rows" "rmap_list (message_from_row a c False) rows = Inr (map read_back messages)"
proof -
  obtain p where plan: "plan_save s now today topic title messages summary source tags date db = Inr p"
    and w: "write_conversation s a c now rnd p messages (archive_path uuid) db = Inr (r, db')"
    using assms(4) by (auto simp: save_conversation_def split: sum.splits)
  note p = plan_save_Inr [OF plan]
  have key: "(pl_topic_id p, gs_user s) \<in> topic_keys db" and act: "gs_active s" using plan_save_topic [OF plan] by simp_all
  have ok': "jdb_ok db'" using write_conversation_ok [OF assms(1) key w] by simp
  from assms(1) key w obtain row rows where saved: "saved_row row db \<in> set (convs db')" "cv_id (saved_row row db) = sr_id r"
    and row: "cv_topic row = pl_topic_id p" "cv_slug row = pl_slug p" "cv_user row = gs_user s"
    and enc: "encrypt a c (rnd 0) (text_of (pl_title p)) = Inr (cv_title row)" "encrypt a c (rnd 1) (cm_summary (pl_meta p)) = Inr (cv_summary row)"
    and cols: "cv_tags row = cm_tags (pl_meta p)" "cv_source row = cm_source (pl_meta p)" "cv_message_count row = length messages"
    and ms: "seal_messages s a c rnd (sr_id r) 0 messages = Inr rows" "message_rows s (sr_id r) db' = rows"
    and tops: "topics db' = topics (touch_topic s now (pl_topic_id p) db)"
    by (rule write_conversation_result)
  let ?row = "saved_row row db"
  from p(4) validate_topic_again [OF p(1)] obtain t where t: "topic_by_path s (pl_topic p) db = Some t" "tp_id t = pl_topic_id p"
    by (auto simp: get_id_Inr)
  have path_iff: "map_option tp_path (topic_by_id s k db') = Some (pl_topic p) \<longleftrightarrow> k = pl_topic_id p" for k
  proof -
    have "map_option tp_path (topic_by_id s k db') = map_option tp_path (topic_by_id s k db)"
      unfolding topic_by_id_def tops touch_topic_def by (simp add: touched_lookup)
    moreover have "map_option tp_path (topic_by_id s k db) = Some (pl_topic p) \<longleftrightarrow> k = pl_topic_id p"
    proof
      assume "map_option tp_path (topic_by_id s k db) = Some (pl_topic p)"
      then obtain q where q: "topic_by_id s k db = Some q" "tp_path q = pl_topic p" by auto
      have "q = t"
        using topic_by_id_SomeD [OF q(1)] topic_by_path_SomeD [OF t(1)] assms(1) q(2)
        by (auto simp: jdb_ok_def topics_ok_def dest: unique_keyD [where key = "\<lambda>t. (tp_user t, tp_path t)"])
      then show "k = pl_topic_id p" using topic_by_id_SomeD [OF q(1)] t(2) by simp
    next
      assume k: "k = pl_topic_id p"
      have "topic_by_id s k db = Some t"
        unfolding topic_by_id_def
        by (rule sql_first_unique)
          (use topic_by_path_SomeD [OF t(1)] t(2) k assms(1) in \<open>auto simp: vis_def jdb_ok_def topics_ok_def dest: unique_keyD\<close>)
      then show "map_option tp_path (topic_by_id s k db) = Some (pl_topic p)"
        using topic_by_path_SomeD [OF t(1)] by simp
    qed
    ultimately show ?thesis by simp
  qed
  have owner: "cv_user ?row = gs_user s"
  proof -
    have "topic_keys db' = topic_keys db"
      by (simp add: topic_keys_def tops touch_topic_def image_update)
    then show ?thesis by (intro own_topic_convs [OF ok' _ saved(1)]) (simp_all add: key row(1))
  qed
  have "title_summary a c ?row = Inr (text_of (pl_title p), summary)"
    using seal_open_column [OF assms(2,3) enc(1)] seal_open_column [OF assms(2,3) enc(2)] p(6)
    by (simp add: title_summary_def)
  moreover have "check_tags (cv_tags ?row) = Inr (cm_tags (pl_meta p))"
    using p(7) by (auto simp: check_tags_def saved_row_more cols list_ex_iff list_all_iff)
  ultimately have "\<exists>meta. row_to_meta a c False (pl_topic p) ?row = Inr meta \<and> cm_id meta = Some (sr_id r) \<and> cm_title meta = text_of (pl_title p) \<and>
      cm_summary meta = summary \<and> cm_topic meta = pl_topic p \<and> cm_source meta = source \<and>
      cm_tags meta = (case tags of None \<Rightarrow> [] | Some ts \<Rightarrow> ts) \<and> cm_message_count meta = length messages \<and> \<not> cm_failed meta"
    using p(8,9) validate_topic_again [OF p(1)] saved(2) cols by (simp add: row_to_meta_def saved_row_more)
  then obtain meta where meta: "row_to_meta a c False (pl_topic p) ?row = Inr meta" "cm_id meta = Some (sr_id r)" "cm_title meta = text_of (pl_title p)"
      "cm_summary meta = summary" "cm_topic meta = pl_topic p" "cm_source meta = source"
      "cm_tags meta = (case tags of None \<Rightarrow> [] | Some ts \<Rightarrow> ts)" "cm_message_count meta = length messages" "\<not> cm_failed meta" by blast
  have covers: "conv_path s db' x = Some (pl_topic p) \<longleftrightarrow> cv_topic x = cv_topic ?row" for x
    using path_iff row(1) by (simp add: conv_path_def)
  show thesis
    by (rule that [OF p(1,2) ok' act saved owner _ covers meta _ ms(2) open_messages [OF assms(2,3) ms(1)]])
      (simp_all add: row p(3) saved_row_more cols)
qed

lemma saved_times:
  assumes "save_conversation s a c now today rnd uuid topic title messages summary source tags date db files = (Inr (r, db'), files')"
  shows "\<forall>m \<in> set messages. parse_ts (ms_timestamp (read_back m)) = parse_ts (ms_timestamp m)"
proof -
  obtain p where w: "write_conversation s a c now rnd p messages (archive_path uuid) db = Inr (r, db')"
    using assms by (auto simp: save_conversation_def split: sum.splits)
  obtain db1 db2 where "replace_messages s a c rnd (sr_id r) messages db1 = Inr db2"
    using w by (rule write_conversation_Inr) blast
  then obtain rows where rows: "seal_messages s a c rnd (sr_id r) 0 messages = Inr rows" "list_all (\<lambda>r. time_ok (mg_timestamp r)) rows"
    by (auto simp: replace_messages_def res_simps split: if_splits)
  have "list_all2 (\<lambda>m r. mg_timestamp r = parse_ts (ms_timestamp m)) messages rows"
    using seal_messages_rows [OF rows(1)] by (auto elim: list_all2_mono)
  then have "list_all (\<lambda>m. time_ok (parse_ts (ms_timestamp m))) messages" using rows(2) by (induction rule: list_all2_induct) auto
  then show ?thesis using read_back_time by (auto simp: list_all_iff)
qed

text \<open>
  Property C20. What \<open>save_conversation\<close> stored is what a reader gets.  Looking the conversation up by
  its topic, as it was given, and its title in the canonical form the save reports (or any title
  with the same slug) returns the id the save reported, the canonical title, the summary, the tags
  and source given, the number of messages, and every message in order with its role and text,
  whether the save created the conversation or overwrote an earlier one.  Times come back as text
  in UTC that stands for the same instant; a timestamp that is no ISO time comes back as none.
\<close>

theorem save_then_get_conversation:
  assumes "jdb_ok db" and "cipher_ok a c" and "\<And>n. length (rnd n) = 11"
    and "save_conversation s a c now today rnd uuid topic title messages summary source tags date db files = (Inr (r, db'), files')"
  shows "\<exists>path title' meta. validate_topic topic = Inr path \<and> validate_title title = Inr title' \<and>
    (\<forall>t. slugify t = slugify title' \<longrightarrow> get_conversation s a c topic t db' =
       Inr (meta, map (\<lambda>m. \<lparr>ms_role = ms_role m, ms_content = ms_content m,
         ms_timestamp = map_option instant_isoformat (parse_ts (ms_timestamp m)), ms_failed = False\<rparr>) messages)) \<and>
    (\<forall>m \<in> set messages. parse_ts (map_option instant_isoformat (parse_ts (ms_timestamp m))) = parse_ts (ms_timestamp m)) \<and>
    cm_id meta = Some (sr_id r) \<and> cm_title meta = text_of title' \<and> cm_summary meta = summary \<and> cm_topic meta = path \<and>
    cm_source meta = source \<and> cm_tags meta = (case tags of None \<Rightarrow> [] | Some ts \<Rightarrow> ts) \<and>
    cm_message_count meta = length messages \<and> \<not> cm_failed meta"
proof -
  obtain row rows path title' meta where f: "validate_topic topic = Inr path" "validate_title title = Inr title'"
    "jdb_ok db'" "gs_active s" "row \<in> set (convs db')" "cv_id row = sr_id r" "cv_user row = gs_user s" "cv_slug row = slugify title'"
    "\<And>x. conv_path s db' x = Some path \<longleftrightarrow> cv_topic x = cv_topic row"
    "row_to_meta a c False path row = Inr meta" "cm_id meta = Some (sr_id r)" "cm_title meta = text_of title'" "cm_summary meta = summary"
    "cm_topic meta = path" "cm_source meta = source" "cm_tags meta = (case tags of None \<Rightarrow> [] | Some ts \<Rightarrow> ts)"
    "cm_message_count meta = length messages" "\<not> cm_failed meta" "cv_message_count row = length messages"
    "message_rows s (sr_id r) db' = rows" "rmap_list (message_from_row a c False) rows = Inr (map read_back messages)"
    using assms by (rule saved_reader) (rule that; assumption)
  have "sql_first (\<lambda>x. vis s (cv_user x) \<and> conv_path s db' x = Some path \<and> cv_slug x = slugify title') (convs db') = Some row"
    by (rule sql_first_unique) (use f(4-9) conv_slot_unique [OF f(3)] in \<open>auto simp: vis_def\<close>)
  then have "get_conversation s a c topic t db' = Inr (meta, map read_back messages)" if "slugify t = slugify title'" for t
    using f(6,10,20,21) f(1) that by (simp add: get_conversation_def)
  moreover have "read_back m = \<lparr>ms_role = ms_role m, ms_content = ms_content m,
         ms_timestamp = map_option instant_isoformat (parse_ts (ms_timestamp m)), ms_failed = False\<rparr>" for m
    by (cases m) (simp add: read_back_def)
  moreover have "\<forall>m \<in> set messages. parse_ts (map_option instant_isoformat (parse_ts (ms_timestamp m))) = parse_ts (ms_timestamp m)"
    using saved_times [OF assms(4)] by (simp add: read_back_def)
  ultimately show ?thesis using f by (intro exI [of _ path] exI [of _ title'] exI [of _ meta]) simp
qed

section \<open>The archive\<close>

text \<open>Every path a row holds is a file of the archive, and no two rows hold the same one.\<close>

definition archive_ok :: "jdb \<Rightarrow> archive \<Rightarrow> bool" where
  "archive_ok db files =
     ((\<forall>c \<in> set (convs db). \<forall>p. cv_json_path c = Some p \<longrightarrow>
         p \<in> fst ` set files \<and> p = archive_name (base_name p) \<and> p \<noteq> []) \<and>
      (\<forall>c \<in> set (convs db). \<forall>d \<in> set (convs db). cv_json_path c = cv_json_path d \<longrightarrow> cv_json_path c \<noteq> None \<longrightarrow> c = d))"

lemma archive_ok_mono: "archive_ok db files \<Longrightarrow> fst ` set files \<subseteq> fst ` set files' \<Longrightarrow> archive_ok db files'"
  unfolding archive_ok_def by blast

lemma archive_ok_path: "archive_ok db files \<Longrightarrow> c \<in> set (convs db) \<Longrightarrow> cv_json_path c = Some p \<Longrightarrow>
    p \<in> fst ` set files \<and> p = archive_name (base_name p) \<and> p \<noteq> []"
  unfolding archive_ok_def by blast

lemma archive_ok_unique: "archive_ok db files \<Longrightarrow> c \<in> set (convs db) \<Longrightarrow> d \<in> set (convs db) \<Longrightarrow>
    cv_json_path c = Some p \<Longrightarrow> cv_json_path d = Some p \<Longrightarrow> c = d"
  unfolding archive_ok_def by (metis option.distinct(1))

lemma base_name_archive_name:
  assumes "CHR ''/'' \<notin> set name"
  shows "base_name (archive_name name) = name"
proof -
  have "takeWhile (\<lambda>ch. ch \<noteq> CHR ''/'') (rev name @ CHR ''/'' # rev ''conversations_json'') = rev name"
    using assms by (subst takeWhile_append2) auto
  then show ?thesis by (simp add: base_name_def archive_name_def)
qed

lemma archive_path_canonical:
  assumes "CHR ''/'' \<notin> set u"
  shows "archive_path u = archive_name (base_name (archive_path u))" and "archive_path u \<noteq> []"
proof -
  have "CHR ''/'' \<notin> set (u @ ''.json'')" using assms by simp
  note n = base_name_archive_name [OF this]
  show "archive_path u = archive_name (base_name (archive_path u))"
    unfolding archive_path_def by (simp only: n)
  show "archive_path u \<noteq> []" by (simp add: archive_path_def archive_name_def)
qed

text \<open>
  Property C21. No save ever leaves a row pointing at a missing archive file, whichever way the
  transaction ends.  Given a fresh file name: the file is written first, so a rollback, whether
  by an error of the save or by the caller, leaves every old row with its file; after a commit
  every row has its file; and when the caller then deletes the superseded file, which is the one
  the rewritten row held before, every row still has its file.
\<close>

theorem save_keeps_archive:
  assumes "jdb_ok db" and "archive_ok db files" and "archive_path uuid \<notin> fst ` set files" and "CHR ''/'' \<notin> set uuid"
    and "save_conversation s a c now today rnd uuid topic title messages summary source tags date db files = (res, files')"
  shows "archive_ok db files' \<and>
    (case res of Inl e \<Rightarrow> True
     | Inr (r, db') \<Rightarrow> archive_ok db' files' \<and>
        archive_ok db' (case sr_superseded r of None \<Rightarrow> files' | Some old \<Rightarrow> delete_superseded_json_archive old files'))"
proof -
  have sup: "fst ` set files \<subseteq> fst ` set files'"
    using assms(5) by (auto simp: save_conversation_def write_conversation_json_def split: sum.splits)
  have old: "archive_ok db files'" by (rule archive_ok_mono [OF assms(2) sup])
  show ?thesis
  proof (cases res)
    case (Inl e)
    with old show ?thesis by simp
  next
    case (Inr q)
    obtain r db' where q: "q = (r, db')" by (cases q)
    obtain p where plan: "plan_save s now today topic title messages summary source tags date db = Inr p"
      and w: "write_conversation s a c now rnd p messages (archive_path uuid) db = Inr (r, db')"
      and files': "files' = write_conversation_json uuid (pl_meta p) messages files"
      using assms(5) by (auto simp: save_conversation_def Inr q split: sum.splits)
    note pl = plan_save_Inr [OF plan]
    have key: "(pl_topic_id p, gs_user s) \<in> topic_keys db" and act: "gs_active s" using plan_save_topic [OF plan] by simp_all
    from assms(1) key w obtain row where i: "cv_id (saved_row row db) = sr_id r"
      and cs: "convs db' = (if sr_is_update r then map (\<lambda>x. if cv_id x = sr_id r then saved_row row db else x) (convs db) else convs db @ [row])"
      and upd: "sr_is_update r = (conv_at (pl_topic_id p) (pl_slug p) db \<noteq> None)"
      and row: "cv_topic row = pl_topic_id p" "cv_slug row = pl_slug p" "cv_json_path row = Some (archive_path uuid)"
      by (rule write_conversation_result)
    let ?new = "saved_row row db" and ?path = "archive_path uuid"
    have path: "?path \<in> fst ` set files'" "?path = archive_name (base_name ?path)" "?path \<noteq> []"
      using archive_path_canonical [OF assms(4)] by (simp_all add: files' write_conversation_json_def)
    have fresh: "x \<in> set (convs db) \<Longrightarrow> cv_json_path x \<noteq> Some ?path" for x
      using archive_ok_path [OF assms(2)] assms(3) by blast
    have mem: "x \<in> set (convs db') \<Longrightarrow> x = ?new \<or> x \<in> set (convs db) \<and> (sr_is_update r \<longrightarrow> cv_id x \<noteq> sr_id r)" for x
      using upd row by (auto simp: cs saved_row_def split: if_splits)
    have pnew: "cv_json_path ?new = Some ?path" by (simp add: row)
    have ok': "archive_ok db' F" if F: "\<And>x p. x \<in> set (convs db') \<Longrightarrow> cv_json_path x = Some p \<Longrightarrow> p \<in> fst ` set F" for F
      unfolding archive_ok_def
    proof (intro conjI ballI allI impI)
      fix x p' assume x: "x \<in> set (convs db')" and p': "cv_json_path x = Some p'"
      show "p' \<in> fst ` set F" by (rule F [OF x p'])
      show "p' = archive_name (base_name p')" "p' \<noteq> []"
        using mem [OF x] pnew path(2,3) p' archive_ok_path [OF old] by (metis option.inject)+
    next
      fix x y assume "x \<in> set (convs db')" "y \<in> set (convs db')" "cv_json_path x = cv_json_path y" "cv_json_path x \<noteq> None"
      then show "x = y" using mem [of x] mem [of y] pnew fresh archive_ok_unique [OF old] by (metis not_None_eq)
    qed
    have all: "x \<in> set (convs db') \<Longrightarrow> cv_json_path x = Some p' \<Longrightarrow> p' \<in> fst ` set files'" for x p'
      using mem [of x] pnew path(1) archive_ok_path [OF old] by (metis option.inject)
    have "archive_ok db' (delete_superseded_json_archive gone files')" if gone: "sr_superseded r = Some gone" for gone
    proof (rule ok')
      obtain o1 where o1: "pl_old p = Some o1" "cv_json_path o1 = Some gone" "sr_is_update r"
        using gone w by (auto simp: write_conversation_def Let_def res_simps split_beta split: option.splits if_splits)
      have o2: "o1 \<in> set (convs db)" "cv_topic o1 = pl_topic_id p" "cv_slug o1 = pl_slug p"
        using o1(1) pl(5) by (auto dest: sql_first_SomeD)
      have id1: "cv_id o1 = sr_id r"
      proof -
        obtain o' where o': "conv_at (pl_topic_id p) (pl_slug p) db = Some o'" using upd o1(3) by auto
        then have "o' \<in> set (convs db)" "cv_topic o' = pl_topic_id p" "cv_slug o' = pl_slug p"
          by (auto simp: conv_at_def dest: sql_first_SomeD)
        then have "o' = o1" using conv_slot_unique [OF assms(1), of o' o1] o2 by simp
        then show ?thesis using i o' by (simp add: saved_row_def row)
      qed
      have canon: "gone = archive_name (base_name gone)" using archive_ok_path [OF old o2(1) o1(2)] by simp
      fix x p' assume x: "x \<in> set (convs db')" and p': "cv_json_path x = Some p'"
      have "p' \<noteq> gone"
      proof
        assume "p' = gone"
        then have "x \<noteq> ?new" using fresh [OF o2(1)] pnew p' o1(2) by auto
        then have "x \<in> set (convs db)" "cv_id x \<noteq> sr_id r" using mem [OF x] o1(3) by simp_all
        then show False using archive_ok_unique [OF old _ o2(1) _ o1(2)] p' \<open>p' = gone\<close> id1 by auto
      qed
      moreover obtain doc where "(p', doc) \<in> set files'" using all [OF x p'] by auto
      ultimately have "(p', doc) \<in> set (delete_superseded_json_archive gone files')"
        using canon by (simp add: delete_superseded_json_archive_def)
      then show "p' \<in> fst ` set (delete_superseded_json_archive gone files')" by force
    qed
    then show ?thesis using old ok' [OF all] by (simp add: Inr q split: option.splits)
  qed
qed

section \<open>Saving again\<close>

lemma find_snoc: "\<forall>x \<in> set xs. \<not> P x \<Longrightarrow> find P (xs @ [y]) = (if P y then Some y else None)"
  by (induction xs) auto

lemma linked_entry_kept:
  assumes "gs_active s" and "upsert_linked_entry s a c now rnd topic_id i title summary day db = Inr (e, db')"
  shows "map_option en_id (sql_first (\<lambda>e. vis s (en_user e) \<and> en_conv e = Some i) (entries db')) = Some e"
    and "(case sql_first (\<lambda>e. vis s (en_user e) \<and> en_conv e = Some i) (entries db) of
       None \<Rightarrow> length (entries db') = Suc (length (entries db))
     | Some old \<Rightarrow> e = en_id old \<and> length (entries db') = length (entries db))"
proof (atomize (full), cases "sql_first (\<lambda>e. vis s (en_user e) \<and> en_conv e = Some i) (entries db)")
  case None
  then have skip: "find (\<lambda>e. vis s (en_user e) \<and> en_conv e = Some i) (entries db @ [x]) =
      (if vis s (en_user x) \<and> en_conv x = Some i then Some x else None)" for x
    by (intro find_snoc) (simp add: sql_first_None)
  obtain x where x: "entries db' = entries db @ [x]" "en_id x = e" "en_conv x = Some i" "en_user x = gs_user s"
    using assms(2) None by (auto simp: upsert_linked_entry_def Let_def res_simps insert_entry_def sql_insert_def split: if_splits)
  then show "map_option en_id (sql_first (\<lambda>e. vis s (en_user e) \<and> en_conv e = Some i) (entries db')) = Some e \<and>
    (case sql_first (\<lambda>e. vis s (en_user e) \<and> en_conv e = Some i) (entries db) of
       None \<Rightarrow> length (entries db') = Suc (length (entries db))
     | Some old \<Rightarrow> e = en_id old \<and> length (entries db') = length (entries db))"
    using None skip [of x] assms(1) by (simp add: sql_first_def vis_def)
next
  case (Some old)
  then obtain f where f: "entries db' = sql_update (\<lambda>e. vis s (en_user e) \<and> en_id e = en_id old) f (entries db)"
      and e: "e = en_id old" and keep: "\<And>x. en_id (f x) = en_id x" "\<And>x. en_conv (f x) = en_conv x" "\<And>x. en_user (f x) = en_user x"
    using assms(2) by (auto simp: upsert_linked_entry_def Let_def res_simps)
  have "map_option en_id (sql_first (\<lambda>e. vis s (en_user e) \<and> en_conv e = Some i) (sql_update Q f es)) =
      map_option en_id (sql_first (\<lambda>e. vis s (en_user e) \<and> en_conv e = Some i) es)" for Q es
    using keep by (induction es) (auto simp: sql_first_def sql_update_def)
  then show "map_option en_id (sql_first (\<lambda>e. vis s (en_user e) \<and> en_conv e = Some i) (entries db')) = Some e \<and>
    (case sql_first (\<lambda>e. vis s (en_user e) \<and> en_conv e = Some i) (entries db) of
       None \<Rightarrow> length (entries db') = Suc (length (entries db))
     | Some old \<Rightarrow> e = en_id old \<and> length (entries db') = length (entries db))"
    using Some by (simp add: f e sql_update_def)
qed

lemma get_id_touched:
  assumes "topics db' = topics (touch_topic s now i db)"
  shows "get_id s t db' = get_id s t db"
proof -
  have "map_option tp_id (topic_by_path s p db') = map_option tp_id (topic_by_path s p db)" for p
    unfolding topic_by_path_def assms touch_topic_def by (simp add: touched_lookup)
  moreover have "get_id s t D = rbind (lift_invalid (validate_topic t)) (\<lambda>p. case map_option tp_id (topic_by_path s p D) of
      None \<Rightarrow> Inl (TopicNotFound p) | Some i \<Rightarrow> Inr i)" for D
    unfolding get_id_def by (cases "validate_topic t") (simp_all split: option.split)
  ultimately show ?thesis by (simp only:)
qed

lemma write_conversation_entry:
  assumes "jdb_ok db" and "(pl_topic_id p, gs_user s) \<in> topic_keys db" and "write_conversation s a c now rnd p messages path db = Inr (r, db')"
  shows "map_option en_id (sql_first (\<lambda>e. vis s (en_user e) \<and> en_conv e = Some (sr_id r)) (entries db')) = Some (sr_entry r)"
    and "(case sql_first (\<lambda>e. vis s (en_user e) \<and> en_conv e = Some (sr_id r)) (entries db) of
       None \<Rightarrow> length (entries db') = Suc (length (entries db))
     | Some old \<Rightarrow> sr_entry r = en_id old \<and> length (entries db') = length (entries db))"
proof -
  from assms(3) obtain upd db1 db2 db3 where
    u: "upsert_conversation_record s a c now rnd (pl_topic_id p) (pl_title p) (pl_slug p) (cm_source (pl_meta p))
               (cm_summary (pl_meta p)) (cm_tags (pl_meta p)) (cm_participants (pl_meta p)) messages (pl_date p) path db = Inr ((sr_id r, upd), db1)"
    and m: "replace_messages s a c rnd (sr_id r) messages db1 = Inr db2"
    and e: "upsert_linked_entry s a c now (rnd (2 + length messages)) (pl_topic_id p) (sr_id r) (pl_title p)
           (cm_summary (pl_meta p)) (pl_date p) db2 = Inr (sr_entry r, db3)"
    and db': "db' = touch_topic s now (pl_topic_id p) db3"
    by (rule write_conversation_Inr) blast
  obtain row where put: "put_conversation s row db = Inr ((sr_id r, upd), db1)"
    using u by (rule upsert_conversation_Inr) blast
  have act: "gs_active s" using put by (auto simp: put_conversation_def split: if_splits)
  have "entries db1 = entries db" using put by (auto simp: put_conversation_def split: if_splits option.splits)
  moreover have "entries db2 = entries db1" using m by (auto simp: replace_messages_def res_simps split: if_splits)
  moreover have "entries db' = entries db3" by (simp add: db' touch_topic_def)
  ultimately show "map_option en_id (sql_first (\<lambda>e. vis s (en_user e) \<and> en_conv e = Some (sr_id r)) (entries db')) = Some (sr_entry r)"
    "(case sql_first (\<lambda>e. vis s (en_user e) \<and> en_conv e = Some (sr_id r)) (entries db) of
       None \<Rightarrow> length (entries db') = Suc (length (entries db))
     | Some old \<Rightarrow> sr_entry r = en_id old \<and> length (entries db') = length (entries db))"
    using linked_entry_kept [OF act e] by (simp_all split: option.splits)
qed

text \<open>
  Property C22. Saving is idempotent: saving again under the same topic and title, with whatever
  messages, summary, source, tags and date, keeps the conversation's id and creation time and
  its linked entry, reports an update, adds neither a conversation nor an entry, and names the
  archive file of the first save as the one to delete.
\<close>

theorem save_again_updates:
  assumes "jdb_ok db"
    and "save_conversation s a c now today rnd u1 topic title m1 y1 source1 tags1 date1 db files = (Inr (r1, db1), f1)"
    and "save_conversation s a c' now' today' rnd' u2 topic title m2 y2 source2 tags2 date2 db1 f1 = (Inr (r2, db2), f2)"
    and "u1 \<noteq> u2"
  shows "sr_id r2 = sr_id r1 \<and> sr_is_update r2 \<and> sr_entry r2 = sr_entry r1 \<and>
    map (\<lambda>x. (cv_id x, cv_created x)) (convs db2) = map (\<lambda>x. (cv_id x, cv_created x)) (convs db1) \<and>
    length (entries db2) = length (entries db1) \<and> sr_superseded r2 = Some (archive_path u1)"
proof -
  obtain p1 where plan1: "plan_save s now today topic title m1 y1 source1 tags1 date1 db = Inr p1"
    and w1: "write_conversation s a c now rnd p1 m1 (archive_path u1) db = Inr (r1, db1)"
    using assms(2) by (auto simp: save_conversation_def split: sum.splits)
  obtain p2 where plan2: "plan_save s now' today' topic title m2 y2 source2 tags2 date2 db1 = Inr p2"
    and w2: "write_conversation s a c' now' rnd' p2 m2 (archive_path u2) db1 = Inr (r2, db2)"
    using assms(3) by (auto simp: save_conversation_def split: sum.splits)
  note pl1 = plan_save_Inr [OF plan1] and pl2 = plan_save_Inr [OF plan2]
  have key1: "(pl_topic_id p1, gs_user s) \<in> topic_keys db" and act: "gs_active s" using plan_save_topic [OF plan1] by simp_all
  have key2: "(pl_topic_id p2, gs_user s) \<in> topic_keys db1" using plan_save_topic [OF plan2] by simp
  have ok1: "jdb_ok db1" using write_conversation_ok [OF assms(1) key1 w1] by simp
  from assms(1) key1 w1 obtain row1 where s1: "saved_row row1 db \<in> set (convs db1)" "cv_id (saved_row row1 db) = sr_id r1"
    and row1: "cv_topic row1 = pl_topic_id p1" "cv_slug row1 = pl_slug p1" "cv_json_path row1 = Some (archive_path u1)"
    and tops: "topics db1 = topics (touch_topic s now (pl_topic_id p1) db)"
    by (rule write_conversation_result)
  have same: "pl_topic_id p2 = pl_topic_id p1" "pl_slug p2 = pl_slug p1"
    using pl1(1-4) pl2(1-4) get_id_touched [OF tops, of "pl_topic p1"] by auto
  let ?old = "saved_row row1 db"
  have slot: "conv_at (pl_topic_id p2) (pl_slug p2) db1 = Some ?old"
    unfolding conv_at_def
    by (rule sql_first_unique) (use s1(1) row1 same conv_slot_unique [OF ok1] in auto)
  from ok1 key2 w2 obtain row2 where s2: "cv_id (saved_row row2 db1) = sr_id r2"
    and cs: "convs db2 = (if sr_is_update r2 then map (\<lambda>x. if cv_id x = sr_id r2 then saved_row row2 db1 else x) (convs db1) else convs db1 @ [row2])"
    and upd: "sr_is_update r2 = (conv_at (pl_topic_id p2) (pl_slug p2) db1 \<noteq> None)"
    and row2: "cv_topic row2 = pl_topic_id p2" "cv_slug row2 = pl_slug p2"
    by (rule write_conversation_result)
  have new: "saved_row row2 db1 = overwrite_conv row2 ?old" using slot by (simp add: saved_row_def [of row2] row2)
  have id: "sr_id r2 = sr_id r1" using s2 s1(2) by (simp add: new)
  have "map (\<lambda>x. (cv_id x, cv_created x)) (convs db2) = map (\<lambda>x. (cv_id x, cv_created x)) (convs db1)"
  proof -
    have "(cv_id (saved_row row2 db1), cv_created (saved_row row2 db1)) = (cv_id x, cv_created x)"
      if "x \<in> set (convs db1)" "cv_id x = sr_id r2" for x
      using conv_id_unique [OF ok1 that(1) s1(1)] that(2) id s1(2) by (simp add: new)
    then show ?thesis using upd slot cs by (auto simp: cong: map_cong)
  qed
  moreover obtain e where e: "sql_first (\<lambda>e. vis s (en_user e) \<and> en_conv e = Some (sr_id r1)) (entries db1) = Some e" "en_id e = sr_entry r1"
    using write_conversation_entry(1) [OF assms(1) key1 w1] by auto
  have "sr_entry r2 = sr_entry r1 \<and> length (entries db2) = length (entries db1)"
    using write_conversation_entry(2) [OF ok1 key2 w2] e by (simp add: id)
  moreover have own: "cv_user ?old = gs_user s"
    using own_topic_convs [OF ok1 key2 s1(1)] same row1 by simp
  have "pl_old p2 = Some ?old"
    unfolding pl2(5) by (rule sql_first_unique)
      (use s1(1) row1 same own act conv_slot_unique [OF ok1] in \<open>auto simp: vis_def\<close>)
  then have "sr_superseded r2 = Some (archive_path u1)"
    using w2 upd slot assms(4) archive_ok_def
    by (auto simp: write_conversation_def Let_def res_simps split_beta row1 archive_path_def archive_name_def)
  ultimately show ?thesis using id upd slot by simp
qed

section \<open>A save that runs\<close>

lemma encrypt_succeeds:
  assumes "cipher_ok a c" and "list_all scalar_value t"
  shows "\<exists>x. encrypt a c rnd t = Inr x"
proof -
  have "\<exists>d. utf8_encode_nat t = Some d" using assms(2) by (induction t) auto
  then obtain d where d: "utf8_encode t = Some d" by (auto simp: utf8_encode_def)
  have "cc_active c \<in> known_versions c" using assms(1) new_cipher_versions(2) by (auto simp: cipher_ok_def)
  then obtain key where "map_of (cc_keys c) (cc_active c) = Some key" by (auto simp: known_versions_lookup)
  with d show ?thesis by (simp add: encrypt_def encrypt_with_version_def Let_def)
qed

lemma seal_messages_succeeds:
  assumes "cipher_ok a c" and "\<forall>m \<in> set ms. list_all scalar_value (ms_content m)"
  shows "\<exists>rows. seal_messages s a c rnd i k ms = Inr rows"
  using assms(2)
proof (induction ms arbitrary: k)
  case (Cons m ms)
  from Cons obtain rows where "seal_messages s a c rnd i (Suc k) ms = Inr rows" by force
  moreover obtain x where "encrypt a c (rnd (2 + k)) (ms_content m) = Inr x"
    using encrypt_succeeds [OF assms(1), of "ms_content m" "rnd (2 + k)"] Cons.prems by auto
  ultimately show ?case by auto
qed simp

lemma scalar_text_of: "list_all scalar_value (text_of t)"
  using cp_bound by (fastforce simp: text_of_def list_all_iff scalar_value_def intro: less_trans)

lemma write_conversation_succeeds:
  assumes "jdb_ok db" and "cipher_ok a c" and "(pl_topic_id p, gs_user s) \<in> topic_keys db" and "gs_active s"
    and "date_fromisoformat (pl_date p) = Some d" and "list_all scalar_value (cm_summary (pl_meta p))"
    and "\<forall>m \<in> set messages. list_all scalar_value (ms_content m) \<and> time_ok (parse_ts (ms_timestamp m))"
  shows "\<exists>r db'. write_conversation s a c now rnd p messages path db = Inr (r, db')"
proof -
  obtain x where x: "encrypt a c (rnd 0) (text_of (pl_title p)) = Inr x"
    using encrypt_succeeds [OF assms(2) scalar_text_of] by blast
  obtain y where y: "encrypt a c (rnd 1) (cm_summary (pl_meta p)) = Inr y"
    using encrypt_succeeds [OF assms(2,6)] by blast
  have d: "parse_date (pl_date p) = Inr d" using assms(5) by (simp add: parse_date_def)
  have put: "\<exists>i upd db1. put_conversation s row db = Inr ((i, upd), db1)" if "cv_topic row = pl_topic_id p" for row
    using assms(4) conv_at_owner [OF assms(1,3)] that
    by (auto simp: put_conversation_def vis_def split: option.splits)
  obtain i upd db1 where u: "upsert_conversation_record s a c now rnd (pl_topic_id p) (pl_title p) (pl_slug p) (cm_source (pl_meta p))
               (cm_summary (pl_meta p)) (cm_tags (pl_meta p)) (cm_participants (pl_meta p)) messages (pl_date p) path db = Inr ((i, upd), db1)"
    unfolding upsert_conversation_record_def using x y d put by fastforce
  obtain rows where rows: "seal_messages s a c rnd i 0 messages = Inr rows"
    using seal_messages_succeeds [OF assms(2)] assms(7) by blast
  have "list_all2 (\<lambda>m r. mg_timestamp r = parse_ts (ms_timestamp m)) messages rows"
    using seal_messages_rows [OF rows] by (auto elim: list_all2_mono)
  then have times: "list_all (\<lambda>r. time_ok (mg_timestamp r)) rows" using assms(7) by (induction rule: list_all2_induct) auto
  define db2 where "db2 = db1\<lparr>msgs := sql_delete (\<lambda>m. vis s (mg_user m) \<and> mg_conv m = i) (msgs db1) @ rows\<rparr>"
  have m: "replace_messages s a c rnd i messages db1 = Inr db2" by (simp add: replace_messages_def rows times db2_def)
  have "list_all scalar_value (linked_text (pl_title p) (cm_summary (pl_meta p)))"
    using scalar_text_of assms(6) by (simp add: linked_text_def scalar_value_def)
  then obtain z where z: "encrypt a c (rnd (2 + length messages)) (linked_text (pl_title p) (cm_summary (pl_meta p))) = Inr z"
    using encrypt_succeeds [OF assms(2)] by blast
  have "\<exists>e db3. upsert_linked_entry s a c now (rnd (2 + length messages)) (pl_topic_id p) i (pl_title p) (cm_summary (pl_meta p)) (pl_date p) db2 = Inr (e, db3)"
    using z d assms(4) by (auto simp: upsert_linked_entry_def insert_entry_def Let_def split: option.split)
  then show ?thesis using u m by (auto simp: write_conversation_def)
qed

definition demo_messages :: "message list" where
  "demo_messages = [\<lparr>ms_role = ''user'', ms_content = [104, 105], ms_timestamp = Some ''2026-01-09T10:30:00+01:00'', ms_failed = False\<rparr>]"

lemma demo_time:
  "datetime_fromisoformat ''2026-01-09T10:30:00+01:00'' = Some (\<lparr>dyear = 2026, dmonth = 1, dday = 9\<rparr>, 37800000000, Some 3600000000)"
  "instant_ok (instant_of (\<lparr>dyear = 2026, dmonth = 1, dday = 9\<rparr>, 37800000000, Some 3600000000))"
  "instant_isoformat (instant_of (\<lparr>dyear = 2026, dmonth = 1, dday = 9\<rparr>, 37800000000, Some 3600000000)) = ''2026-01-09T09:30:00+00:00''"
  by code_simp+

abbreviation demo_save :: "string \<Rightarrow> jdb \<Rightarrow> archive \<Rightarrow> (jerror + (save_result \<times> jdb)) \<times> archive" where
  "demo_save uuid db files \<equiv> save_conversation demo_session demo_aead demo_cipher 50 \<lparr>dyear = 2026, dmonth = 1, dday = 9\<rparr> (\<lambda>n. replicate 11 0)
     uuid ''work'' ''Plan'' demo_messages [104, 105] ''claude'' None (Some ''2026-01-09'') db files"

lemma demo_save_runs:
  assumes "jdb_ok db" and "get_id demo_session ''work'' db = Inr i"
  shows "\<exists>r db' files'. demo_save uuid db files = (Inr (r, db'), files')"
proof -
  have v: "validate_topic ''work'' = Inr ''work''" by code_simp
  have t: "validate_title ''Plan'' = Inr ''Plan''" by code_simp
  have d: "date_fromisoformat ''2026-01-09'' = Some \<lparr>dyear = 2026, dmonth = 1, dday = 9\<rparr>" by code_simp
  obtain p where p: "plan_save demo_session 50 \<lparr>dyear = 2026, dmonth = 1, dday = 9\<rparr> ''work'' ''Plan'' demo_messages [104, 105] ''claude'' None
      (Some ''2026-01-09'') db = Inr p" and date: "pl_date p = ''2026-01-09''"
    using assms(2) by (simp add: plan_save_def v t Let_def check_tags_def)
  have "\<exists>r db'. write_conversation demo_session demo_aead demo_cipher 50 (\<lambda>n. replicate 11 0) p demo_messages (archive_path uuid) db = Inr (r, db')"
    by (rule write_conversation_succeeds [OF assms(1) demo_cipher_ok])
      (use plan_save_topic [OF p] plan_save_Inr(6) [OF p] date d in \<open>simp_all add: demo_messages_def scalar_value_def parse_ts_def time_ok_def demo_time\<close>)
  then show ?thesis by (simp add: save_conversation_def p)
qed

lemma sample_work: "get_id demo_session ''work'' sample_jdb = Inr 1"
  by code_simp

theorem save_then_get_conversation_witness:
  "\<exists>r db' files' meta. demo_save ''u1'' sample_jdb [] = (Inr (r, db'), files') \<and>
     get_conversation demo_session demo_aead demo_cipher ''work'' ''plan'' db' = Inr (meta,
       [\<lparr>ms_role = ''user'', ms_content = [104, 105], ms_timestamp = Some ''2026-01-09T09:30:00+00:00'', ms_failed = False\<rparr>]) \<and>
     cm_summary meta = [104, 105]"
proof -
  obtain r db' files' where s: "demo_save ''u1'' sample_jdb [] = (Inr (r, db'), files')"
    using demo_save_runs [OF sample_jdb_ok sample_work] by blast
  have slug: "slugify ''plan'' = slugify ''Plan''" "validate_title ''Plan'' = Inr ''Plan''" by code_simp+
  from save_then_get_conversation [OF sample_jdb_ok demo_cipher_ok _ s] obtain meta where
    "\<forall>t. slugify t = slugify ''Plan'' \<longrightarrow> get_conversation demo_session demo_aead demo_cipher ''work'' t db' =
       Inr (meta, map (\<lambda>m. \<lparr>ms_role = ms_role m, ms_content = ms_content m,
         ms_timestamp = map_option instant_isoformat (parse_ts (ms_timestamp m)), ms_failed = False\<rparr>) demo_messages)"
    and "cm_summary meta = [104, 105]" using slug(2) by auto
  with slug(1) s show ?thesis by (auto simp: demo_messages_def parse_ts_def demo_time)
qed

theorem save_keeps_archive_witness:
  "\<exists>r db' files'. demo_save ''u1'' sample_jdb [] = (Inr (r, db'), files') \<and> archive_ok db' files'"
proof -
  obtain r db' files' where s: "demo_save ''u1'' sample_jdb [] = (Inr (r, db'), files')"
    using demo_save_runs [OF sample_jdb_ok sample_work] by blast
  have "archive_ok sample_jdb []" by (simp add: archive_ok_def sample_jdb_def empty_jdb_def)
  from save_keeps_archive [OF sample_jdb_ok this _ _ s] s show ?thesis by auto
qed

theorem save_again_updates_witness:
  "\<exists>r1 db1 f1 r2 db2 f2. demo_save ''u1'' sample_jdb [] = (Inr (r1, db1), f1) \<and> demo_save ''u2'' db1 f1 = (Inr (r2, db2), f2) \<and>
     sr_id r2 = sr_id r1 \<and> sr_superseded r2 = Some (archive_path ''u1'')"
proof -
  obtain r1 db1 f1 where s1: "demo_save ''u1'' sample_jdb [] = (Inr (r1, db1), f1)"
    using demo_save_runs [OF sample_jdb_ok sample_work] by blast
  obtain p where plan: "plan_save demo_session 50 \<lparr>dyear = 2026, dmonth = 1, dday = 9\<rparr> ''work'' ''Plan'' demo_messages [104, 105] ''claude'' None
      (Some ''2026-01-09'') sample_jdb = Inr p"
    and w: "write_conversation demo_session demo_aead demo_cipher 50 (\<lambda>n. replicate 11 0) p demo_messages (archive_path ''u1'') sample_jdb = Inr (r1, db1)"
    using s1 by (auto simp: save_conversation_def split: sum.splits)
  have key: "(pl_topic_id p, gs_user demo_session) \<in> topic_keys sample_jdb" using plan_save_topic [OF plan] by simp
  have ok: "jdb_ok db1" using write_conversation_ok [OF sample_jdb_ok key w] by simp
  have "topics db1 = topics (touch_topic demo_session 50 (pl_topic_id p) sample_jdb)"
    using sample_jdb_ok key w by (rule write_conversation_result) blast
  then have "get_id demo_session ''work'' db1 = Inr 1" using get_id_touched sample_work by simp
  then obtain r2 db2 f2 where s2: "demo_save ''u2'' db1 f1 = (Inr (r2, db2), f2)"
    using demo_save_runs [OF ok] by blast
  from save_again_updates [OF sample_jdb_ok s1 s2] s1 s2 show ?thesis by auto
qed

text \<open>
  Observations.  The slug decides, not the title: titles that differ only in their separators
  name one conversation, and saving the second overwrites the first.  And a save makes the slug
  from the sanitised title, a lookup from the title as given, so that a conversation saved under
  a title with a dot is not found under that title.
\<close>

lemma distinct_titles_share_slot:
  "validate_title ''ab_c'' = Inr ''ab_c'' \<and> validate_title ''ab c'' = Inr ''ab c'' \<and> slugify ''ab_c'' = slugify ''ab c''"
  by code_simp

lemma dotted_title_not_found:
  "rmap slugify (validate_title ''v1.2'') = Inr ''v12'' \<and> slugify ''v1.2'' = ''v1-2''"
  by code_simp

end
