(* ===== verification/ExtractionJobs.thy ===== *)
theory ExtractionJobs
  imports Conversations "HOL-Library.Multiset"
begin

text \<open>
  \<open>gubbi/storage/repositories/extraction_jobs.py\<close> and \<open>gubbi/extraction/orphan_cleanup.py\<close>: the
  rows of \<open>extraction_jobs\<close>, the transitions of their status, and the sweeps that fail stuck rows.

  A job id is the UUID the server draws for the row, here a number.  The partial unique index
  \<open>idx_extraction_jobs_active_per_conversation\<close> admits one row per user, conversation and source
  whose status is neither \<open>completed\<close> nor \<open>failed\<close>.
\<close>

section \<open>Rows\<close>

definition active_job :: "job_row \<Rightarrow> bool" where
  "active_job j = (jb_status j \<noteq> ''completed'' \<and> jb_status j \<noteq> ''failed'')"

definition job_key :: "job_row \<Rightarrow> nat \<times> int \<times> string" where
  "job_key j = (jb_user j, jb_conv j, jb_source j)"

definition active_keys_ok :: "job_row list \<Rightarrow> bool" where
  "active_keys_ok js = unique_key job_key (filter active_job js)"

definition set_jobs :: "job_row list \<Rightarrow> jdb \<Rightarrow> jdb" where
  "set_jobs js db = db\<lparr>jobs := js\<rparr>"

lemma set_jobs_frame [simp]:
  "jobs (set_jobs js db) = js" "topics (set_jobs js db) = topics db" "convs (set_jobs js db) = convs db"
  "msgs (set_jobs js db) = msgs db" "entries (set_jobs js db) = entries db" "embs (set_jobs js db) = embs db"
  "audit (set_jobs js db) = audit db" "next_topic (set_jobs js db) = next_topic db"
  "next_conv (set_jobs js db) = next_conv db" "next_entry (set_jobs js db) = next_entry db"
  by (simp_all add: set_jobs_def)

section \<open>Creating\<close>

definition new_job :: "nat \<Rightarrow> int \<Rightarrow> nat \<Rightarrow> int \<Rightarrow> string \<Rightarrow> ymd \<Rightarrow> job_row" where
  "new_job job_id now user conv_id source period =
     \<lparr>jb_id = job_id, jb_user = user, jb_conv = conv_id, jb_source = source, jb_status = ''pending'',
      jb_topics_created = 0, jb_entries_created = 0, jb_cents_spent = 0, jb_error_code = None, jb_created = now,
      jb_started = None, jb_completed = None, jb_period_start = period\<rparr>"

definition clashes :: "nat \<Rightarrow> nat \<times> int \<times> string \<Rightarrow> jdb \<Rightarrow> bool" where
  "clashes job_id key db = list_ex (\<lambda>j. jb_id j = job_id \<or> active_job j \<and> job_key j = key) (jobs db)"

text \<open>
  The INSERT violates the policy, a unique index or the foreign key, or adds the row.  A unique
  violation is caught and the existing job looked up; inside a transaction the failed INSERT has
  aborted it, and that lookup raises.
\<close>

definition create_pending ::
  "session \<Rightarrow> int \<Rightarrow> bool \<Rightarrow> nat \<Rightarrow> nat \<Rightarrow> int \<Rightarrow> string \<Rightarrow> ymd \<Rightarrow> jdb \<Rightarrow> jerror + (nat \<times> jdb)" where
  "create_pending s now in_transaction job_id user conv_id source period db =
     (if \<not> vis s user then Inl InsufficientPrivilege
      else if clashes job_id (user, conv_id, source) db then
        if in_transaction then Inl (PostgresError ''current transaction is aborted'')
        else (case sql_first (\<lambda>j. vis s (jb_user j) \<and> job_key j = (user, conv_id, source) \<and> active_job j) (jobs db) of
                None \<Rightarrow> Inl JRuntimeError
              | Some j \<Rightarrow> Inl (ExtractionJobAlreadyInFlight (jb_id j)))
      else if \<not> list_ex (\<lambda>c. cv_id c = conv_id) (convs db) then Inl ForeignKeyViolation
      else Inr (job_id, set_jobs (sql_insert (new_job job_id now user conv_id source period) (jobs db)) db))"

definition get_period_start :: "session \<Rightarrow> nat \<Rightarrow> jdb \<Rightarrow> ymd option" where
  "get_period_start s job_id db =
     map_option jb_period_start (sql_first (\<lambda>j. vis s (jb_user j) \<and> jb_id j = job_id) (jobs db))"

section \<open>Transitions\<close>

definition started :: "int \<Rightarrow> job_row \<Rightarrow> job_row" where
  "started now j = j\<lparr>jb_status := ''running'', jb_started := Some now, jb_error_code := None\<rparr>"

definition progressed :: "int option \<Rightarrow> int option \<Rightarrow> job_row \<Rightarrow> job_row" where
  "progressed t e j =
     j\<lparr>jb_topics_created := (case t of None \<Rightarrow> jb_topics_created j | Some x \<Rightarrow> max (jb_topics_created j) x),
       jb_entries_created := (case e of None \<Rightarrow> jb_entries_created j | Some x \<Rightarrow> max (jb_entries_created j) x)\<rparr>"

definition completed :: "int \<Rightarrow> int \<Rightarrow> int \<Rightarrow> int \<Rightarrow> job_row \<Rightarrow> job_row" where
  "completed now t e cents j =
     j\<lparr>jb_status := ''completed'', jb_topics_created := t, jb_entries_created := e, jb_cents_spent := cents,
       jb_completed := Some now\<rparr>"

definition failed :: "int \<Rightarrow> string \<Rightarrow> job_row \<Rightarrow> job_row" where
  "failed now code j = j\<lparr>jb_status := ''failed'', jb_error_code := Some code, jb_completed := Some now\<rparr>"

definition job_at :: "session \<Rightarrow> nat \<Rightarrow> job_row \<Rightarrow> bool" where
  "job_at s job_id j = (vis s (jb_user j) \<and> jb_id j = job_id)"

text \<open>Reviving a failed row can take the slot of a newer active one: the index then refuses it.\<close>

definition mark_running :: "session \<Rightarrow> int \<Rightarrow> nat \<Rightarrow> jdb \<Rightarrow> jerror + jdb" where
  "mark_running s now job_id db =
     (let js = sql_update (\<lambda>j. job_at s job_id j \<and> jb_status j \<in> {''pending'', ''failed''}) (started now) (jobs db)
      in if \<not> active_keys_ok js then Inl UniqueViolation else Inr (set_jobs js db))"

definition update_progress :: "session \<Rightarrow> nat \<Rightarrow> int option \<Rightarrow> int option \<Rightarrow> jdb \<Rightarrow> jdb" where
  "update_progress s job_id topics_created entries_created db =
     (if topics_created = None \<and> entries_created = None then db
      else set_jobs (sql_update (\<lambda>j. job_at s job_id j \<and> active_job j) (progressed topics_created entries_created) (jobs db)) db)"

text \<open>Both terminal marks say whether they changed a row (\<open>"UPDATE 1"\<close>).\<close>

definition mark_completed :: "session \<Rightarrow> int \<Rightarrow> nat \<Rightarrow> int \<Rightarrow> int \<Rightarrow> int \<Rightarrow> jdb \<Rightarrow> bool \<times> jdb" where
  "mark_completed s now job_id topics_created entries_created cents_spent db =
     (sql_count (\<lambda>j. job_at s job_id j \<and> active_job j) (jobs db) = 1,
      set_jobs (sql_update (\<lambda>j. job_at s job_id j \<and> active_job j)
        (completed now topics_created entries_created cents_spent) (jobs db)) db)"

definition mark_failed :: "session \<Rightarrow> int \<Rightarrow> nat \<Rightarrow> string \<Rightarrow> jdb \<Rightarrow> bool \<times> jdb" where
  "mark_failed s now job_id error_code db =
     (sql_count (\<lambda>j. job_at s job_id j \<and> active_job j) (jobs db) = 1,
      set_jobs (sql_update (\<lambda>j. job_at s job_id j \<and> active_job j) (failed now error_code) (jobs db)) db)"

record status_counts =
  st_in_flight :: nat
  st_synced :: nat
  st_last_sync :: "int option"

fun max_opt :: "int option list \<Rightarrow> int option" where
  "max_opt [] = None"
| "max_opt (None # xs) = max_opt xs"
| "max_opt (Some x # xs) = (case max_opt xs of None \<Rightarrow> Some x | Some y \<Rightarrow> Some (max x y))"

definition get_status_counts :: "session \<Rightarrow> jdb \<Rightarrow> status_counts" where
  "get_status_counts s db =
     (let mine = sql_select (\<lambda>j. vis s (jb_user j)) (jobs db);
          done = sql_select (\<lambda>j. jb_status j = ''completed'') mine
      in \<lparr>st_in_flight = sql_count (\<lambda>j. jb_status j \<in> {''pending'', ''running''}) mine,
          st_synced = length done, st_last_sync = max_opt (map jb_completed done)\<rparr>)"

section \<open>The sweeps\<close>

text \<open>
  A call of \<open>BudgetHelper.record_actual_cost\<close>: the user, the billing period, the cents spent and
  the cents charged in advance.  Its own failure is logged and swallowed by every caller.
\<close>

record cost_call =
  cc_user :: nat
  cc_period :: ymd
  cc_actual :: int
  cc_estimated :: int

definition ARQ_JOB_TIMEOUT_SECS :: int where "ARQ_JOB_TIMEOUT_SECS = 600"

definition RUNNING_THRESHOLD_SECS :: int where "RUNNING_THRESHOLD_SECS = 2 * ARQ_JOB_TIMEOUT_SECS"

definition stale_pending :: "int \<Rightarrow> int \<Rightarrow> job_row \<Rightarrow> bool" where
  "stale_pending now threshold_minutes j =
     (jb_status j = ''pending'' \<and> jb_created j < now - threshold_minutes * 60000000)"

definition stale_running :: "int \<Rightarrow> job_row \<Rightarrow> bool" where
  "stale_running now j =
     (jb_status j = ''running'' \<and>
      (case jb_started j of None \<Rightarrow> False | Some t \<Rightarrow> t < now - RUNNING_THRESHOLD_SECS * 1000000))"

text \<open>An \<open>UPDATE ... RETURNING\<close> over all users: the rows it changed, and the table.\<close>

definition sweep :: "(job_row \<Rightarrow> bool) \<Rightarrow> int \<Rightarrow> string \<Rightarrow> jdb \<Rightarrow> job_row list \<times> jdb" where
  "sweep stale now code db =
     (sql_select stale (jobs db), set_jobs (sql_update stale (failed now code) (jobs db)) db)"

definition refund_swept_row :: "int \<Rightarrow> job_row \<Rightarrow> cost_call" where
  "refund_swept_row pre_charge j =
     \<lparr>cc_user = jb_user j, cc_period = jb_period_start j, cc_actual = 0, cc_estimated = pre_charge\<rparr>"

text \<open>
  One round of the loop of \<open>run_orphan_cleanup\<close>, with the times of its two statements.  A round
  whose first or second statement fails (\<open>up1\<close>, \<open>up2\<close>) is cut off there.
\<close>

definition orphan_round :: "bool \<Rightarrow> int \<Rightarrow> int \<Rightarrow> bool \<Rightarrow> int \<Rightarrow> bool \<Rightarrow> int \<Rightarrow> jdb \<Rightarrow> cost_call list \<times> jdb" where
  "orphan_round budget pre_charge threshold_minutes up1 now1 up2 now2 db =
     (if \<not> up1 then ([], db)
      else (let (pending_rows, db1) = sweep (stale_pending now1 threshold_minutes) now1 ''enqueue_lost'' db;
                refunds1 = (if budget then map (refund_swept_row pre_charge) pending_rows else [])
            in if \<not> up2 then (refunds1, db1)
               else (let (running_rows, db2) = sweep (stale_running now2) now2 ''worker_lost'' db1
                     in (refunds1 @ (if budget then map (refund_swept_row pre_charge) running_rows else []), db2))))"


section \<open>The state machine\<close>

definition job_ok :: "job_row \<Rightarrow> bool" where
  "job_ok j =
     (jb_status j = ''pending'' \<and> jb_started j = None \<and> jb_completed j = None \<and> jb_error_code j = None \<or>
      jb_status j = ''running'' \<and> jb_started j \<noteq> None \<and> jb_error_code j = None \<or>
      jb_status j = ''completed'' \<and> jb_completed j \<noteq> None \<and> jb_error_code j = None \<or>
      jb_status j = ''failed'' \<and> jb_completed j \<noteq> None \<and> jb_error_code j \<noteq> None)"

definition jobs_ok :: "jdb \<Rightarrow> bool" where
  "jobs_ok db = (unique_key jb_id (jobs db) \<and> active_keys_ok (jobs db) \<and> (\<forall>j \<in> set (jobs db). job_ok j))"

text \<open>The steps of any session and of the sweeps; every other operation leaves the table alone.\<close>

inductive job_step :: "jdb \<Rightarrow> jdb \<Rightarrow> bool" where
  create: "create_pending s now tx job_id user conv_id source period db = Inr (i, db') \<Longrightarrow> job_step db db'"
| run: "mark_running s now job_id db = Inr db' \<Longrightarrow> job_step db db'"
| progress: "update_progress s job_id t e db = db' \<Longrightarrow> job_step db db'"
| complete: "mark_completed s now job_id t e cents db = (b, db') \<Longrightarrow> job_step db db'"
| fail: "mark_failed s now job_id code db = (b, db') \<Longrightarrow> job_step db db'"
| clean: "orphan_round budget pre_charge minutes up1 now1 up2 now2 db = (calls, db') \<Longrightarrow> job_step db db'"
| other: "jobs db' = jobs db \<Longrightarrow> job_step db db'"

lemma status_simps [simp]:
  "jb_id (started now j) = jb_id j" "jb_id (progressed t e j) = jb_id j" "jb_id (completed now x y z j) = jb_id j"
  "jb_id (failed now code j) = jb_id j" "job_key (started now j) = job_key j" "job_key (progressed t e j) = job_key j"
  "job_key (completed now x y z j) = job_key j" "job_key (failed now code j) = job_key j"
  "jb_status (started now j) = ''running''" "jb_status (progressed t e j) = jb_status j"
  "jb_status (completed now x y z j) = ''completed''" "jb_status (failed now code j) = ''failed''"
  by (simp_all add: started_def progressed_def completed_def failed_def job_key_def)

lemma active_simps [simp]:
  "active_job (started now j)" "active_job (progressed t e j) = active_job j" "\<not> active_job (completed now x y z j)"
  "\<not> active_job (failed now code j)" "active_job (new_job i now u c src p)"
  by (simp_all add: active_job_def new_job_def)

lemma job_ok_simps [simp]:
  "job_ok (started now j)" "job_ok (progressed t e j) = job_ok j" "job_ok (failed now code j)"
  "job_ok j \<Longrightarrow> active_job j \<Longrightarrow> job_ok (completed now x y z j)" "job_ok (new_job i now u c src p)"
  by (auto simp: job_ok_def active_job_def new_job_def started_def progressed_def completed_def failed_def)

lemma new_job_frame [simp]: "jb_id (new_job i now u c src p) = i" "job_key (new_job i now u c src p) = (u, c, src)"
  "jb_status (new_job i now u c src p) = ''pending''"
  by (simp_all add: new_job_def job_key_def)

lemma active_keys_update:
  assumes "active_keys_ok js" and "\<And>j. j \<in> set js \<Longrightarrow> P j \<Longrightarrow> active_job (f j) \<Longrightarrow> active_job j" and "\<And>j. job_key (f j) = job_key j"
  shows "active_keys_ok (sql_update P f js)"
  using assms(1,2)
proof (induction js)
  case (Cons j js)
  have key: "job_key (if P x then f x else x) = job_key x" for x using assms(3) by simp
  have "job_key x \<in> job_key ` set (filter active_job js)" if "x \<in> set (filter active_job (sql_update P f js))" for x
  proof -
    from that obtain y where y: "y \<in> set js" "x = (if P y then f y else y)" "active_job x" by (auto simp: sql_update_def)
    then have "active_job y" using Cons.prems(2) [of y] by (auto split: if_splits)
    with y show ?thesis using assms(3) by auto
  qed
  moreover have "active_keys_ok (sql_update P f js)"
    by (rule Cons.IH) (use Cons.prems in \<open>auto simp: active_keys_ok_def unique_key_def split: if_splits\<close>)
  ultimately show ?case
    using Cons.prems assms(3) by (fastforce simp: active_keys_ok_def unique_key_def sql_update_def)
qed (simp add: active_keys_ok_def sql_update_def)

lemma jobs_ok_update:
  assumes "jobs_ok db" and "active_keys_ok (sql_update P f (jobs db))"
    and "\<And>j. jb_id (f j) = jb_id j" and "\<And>j. P j \<Longrightarrow> job_ok j \<Longrightarrow> job_ok (f j)"
  shows "jobs_ok (set_jobs (sql_update P f (jobs db)) db)"
  using assms by (auto simp: jobs_ok_def unique_key_update_iff sql_simps)

lemma jobs_ok_calm_update:
  assumes "jobs_ok db" and "\<And>j. P j \<Longrightarrow> active_job (f j) \<Longrightarrow> active_job j" and "\<And>j. job_key (f j) = job_key j"
    and "\<And>j. jb_id (f j) = jb_id j" and "\<And>j. P j \<Longrightarrow> job_ok j \<Longrightarrow> job_ok (f j)"
  shows "jobs_ok (set_jobs (sql_update P f (jobs db)) db)"
  by (rule jobs_ok_update [OF assms(1)]) (use assms in \<open>auto intro: active_keys_update simp: jobs_ok_def\<close>)

lemma create_pending_Inr:
  "create_pending s now tx job_id user conv_id source period db = Inr (i, db') \<longleftrightarrow>
   vis s user \<and> \<not> clashes job_id (user, conv_id, source) db \<and> list_ex (\<lambda>c. cv_id c = conv_id) (convs db) \<and> i = job_id \<and>
   db' = set_jobs (sql_insert (new_job job_id now user conv_id source period) (jobs db)) db"
  by (auto simp: create_pending_def split: option.splits)

lemma mark_running_Inr:
  "mark_running s now job_id db = Inr db' \<longleftrightarrow>
   active_keys_ok (sql_update (\<lambda>j. job_at s job_id j \<and> jb_status j \<in> {''pending'', ''failed''}) (started now) (jobs db)) \<and>
   db' = set_jobs (sql_update (\<lambda>j. job_at s job_id j \<and> jb_status j \<in> {''pending'', ''failed''}) (started now) (jobs db)) db"
  by (auto simp: mark_running_def Let_def)

lemma jobs_ok_insert:
  assumes "jobs_ok db" and "\<not> clashes job_id (user, conv_id, source) db"
  shows "jobs_ok (set_jobs (sql_insert (new_job job_id now user conv_id source period) (jobs db)) db)"
  using assms by (auto simp: jobs_ok_def active_keys_ok_def unique_key_def sql_insert_def clashes_def list_ex_iff)

lemma stale_active: "stale_pending now m j \<Longrightarrow> active_job j" "stale_running now j \<Longrightarrow> active_job j"
  by (auto simp: stale_pending_def stale_running_def active_job_def)

lemma jobs_ok_sweep: "jobs_ok db \<Longrightarrow> jobs_ok (snd (sweep stale now code db))"
  unfolding sweep_def snd_conv by (rule jobs_ok_calm_update) simp_all

lemma orphan_round_cases:
  assumes "orphan_round budget pre_charge minutes up1 now1 up2 now2 db = (calls, db')"
  obtains "db' = db" | "db' = snd (sweep (stale_pending now1 minutes) now1 ''enqueue_lost'' db)"
  | "db' = snd (sweep (stale_running now2) now2 ''worker_lost'' (snd (sweep (stale_pending now1 minutes) now1 ''enqueue_lost'' db)))"
  using assms by (auto simp: orphan_round_def Let_def split_beta split: if_splits)

lemma job_step_ok: "job_step db db' \<Longrightarrow> jobs_ok db \<Longrightarrow> jobs_ok db'"
proof (induction rule: job_step.induct)
  case (create s now tx job_id user conv_id source period db i db')
  then show ?case by (auto simp: create_pending_Inr intro: jobs_ok_insert)
next
  case (run s now job_id db db')
  then show ?case by (auto simp: mark_running_Inr intro: jobs_ok_update)
next
  case (progress s job_id t e db db')
  then show ?case by (auto simp: update_progress_def intro!: jobs_ok_calm_update)
next
  case (complete s now job_id t e cents db b db')
  then show ?case by (auto simp: mark_completed_def intro: jobs_ok_calm_update)
next
  case (fail s now job_id code db b db')
  then show ?case by (auto simp: mark_failed_def intro: jobs_ok_calm_update)
next
  case (clean budget pre_charge minutes up1 now1 up2 now2 db calls db')
  then show ?case using jobs_ok_sweep by (auto elim!: orphan_round_cases)
next
  case (other db' db)
  then show ?case by (simp add: jobs_ok_def)
qed

text \<open>
  Property C23. Whatever the sessions, the workers and the sweeps do, and in whatever order, each
  user has at most one pending or running job per conversation and source, a running job has a
  start time (so that the sweep can find it), a failed one an error code and a completion time,
  and a completed one no error code.
\<close>

theorem one_active_job:
  assumes "job_step\<^sup>*\<^sup>* db0 db" and "jobs db0 = []"
  shows "jobs_ok db \<and>
    (\<forall>i \<in> set (jobs db). \<forall>j \<in> set (jobs db). active_job i \<and> active_job j \<and> job_key i = job_key j \<longrightarrow> i = j)"
proof -
  have "jobs_ok db0" using assms(2) by (simp add: jobs_ok_def active_keys_ok_def)
  with assms(1) have ok: "jobs_ok db" by (induction rule: rtranclp_induct) (auto intro: job_step_ok)
  then have "unique_key job_key (filter active_job (jobs db))" by (simp add: jobs_ok_def active_keys_ok_def)
  then have "\<forall>i \<in> set (jobs db). \<forall>j \<in> set (jobs db). active_job i \<and> active_job j \<and> job_key i = job_key j \<longrightarrow> i = j"
    by (auto dest: unique_keyD)
  with ok show ?thesis by blast
qed

text \<open>A step adds one row, or maps every row to one of the same id and key, completed ones to themselves.\<close>

definition row_map :: "(job_row \<Rightarrow> job_row) \<Rightarrow> bool" where
  "row_map g = (\<forall>j. jb_id (g j) = jb_id j \<and> job_key (g j) = job_key j \<and> (jb_status j = ''completed'' \<longrightarrow> g j = j))"

lemma row_map_update:
  "(\<And>j. P j \<Longrightarrow> jb_status j \<noteq> ''completed'') \<Longrightarrow> (\<And>j. jb_id (f j) = jb_id j) \<Longrightarrow> (\<And>j. job_key (f j) = job_key j) \<Longrightarrow>
   \<exists>g. sql_update P f js = map g js \<and> row_map g"
  by (rule exI [of _ "\<lambda>j. if P j then f j else j"]) (auto simp: row_map_def sql_update_def)

lemma row_map_id: "row_map (\<lambda>j. j)"
  by (simp add: row_map_def)

lemma row_map_comp: "row_map g \<Longrightarrow> row_map h \<Longrightarrow> row_map (g \<circ> h)"
  by (simp add: row_map_def)

lemma sweep_row_map:
  assumes "\<And>j. stale j \<Longrightarrow> active_job j"
  shows "\<exists>g. jobs (snd (sweep stale now code db)) = map g (jobs db) \<and> row_map g"
  unfolding sweep_def snd_conv set_jobs_frame
  by (rule row_map_update) (use assms in \<open>auto simp: active_job_def\<close>)

lemma orphan_round_row_map:
  assumes "orphan_round budget pre_charge minutes up1 now1 up2 now2 db = (calls, db')"
  shows "\<exists>g. jobs db' = map g (jobs db) \<and> row_map g"
  using assms
proof (rule orphan_round_cases)
  assume "db' = db"
  then show ?thesis by (auto intro: exI [of _ "\<lambda>j. j"] row_map_id)
next
  assume "db' = snd (sweep (stale_pending now1 minutes) now1 ''enqueue_lost'' db)"
  then show ?thesis using sweep_row_map [OF stale_active(1)] by simp
next
  let ?db1 = "snd (sweep (stale_pending now1 minutes) now1 ''enqueue_lost'' db)"
  assume db': "db' = snd (sweep (stale_running now2) now2 ''worker_lost'' ?db1)"
  obtain g where "jobs ?db1 = map g (jobs db)" "row_map g"
    using sweep_row_map [of "stale_pending now1 minutes" now1 "''enqueue_lost''" db] stale_active(1) by metis
  moreover obtain h where "jobs db' = map h (jobs ?db1)" "row_map h"
    using sweep_row_map [of "stale_running now2" now2 "''worker_lost''" ?db1] stale_active(2) unfolding db' by metis
  ultimately show ?thesis by (intro exI [of _ "h \<circ> g"]) (simp add: row_map_comp)
qed

lemma job_step_rows:
  assumes "job_step db db'"
  shows "(\<exists>row. jobs db' = jobs db @ [row]) \<or> (\<exists>g. jobs db' = map g (jobs db) \<and> row_map g)"
  using assms
proof cases
  case create
  then show ?thesis by (auto simp: create_pending_Inr sql_insert_def)
next
  case run
  then show ?thesis by (intro disjI2) (auto simp: mark_running_Inr intro!: row_map_update)
next
  case (progress s job_id t e)
  show ?thesis
  proof (cases "t = None \<and> e = None")
    case True
    with progress show ?thesis by (auto simp: update_progress_def intro: exI [of _ "\<lambda>j. j"] row_map_id)
  next
    case False
    then have "jobs db' = sql_update (\<lambda>j. job_at s job_id j \<and> active_job j) (progressed t e) (jobs db)"
      using progress by (auto simp: update_progress_def)
    then show ?thesis by (intro disjI2) (auto simp: active_job_def intro!: row_map_update)
  qed
next
  case complete
  then show ?thesis by (intro disjI2) (auto simp: mark_completed_def active_job_def intro!: row_map_update)
next
  case fail
  then show ?thesis by (intro disjI2) (auto simp: mark_failed_def active_job_def intro!: row_map_update)
next
  case clean
  then show ?thesis using orphan_round_row_map by blast
next
  case other
  then show ?thesis by (auto intro: exI [of _ "\<lambda>j. j"] row_map_id)
qed

text \<open>
  Property C24. A completed job is final: no later step of any session, worker retry or sweep
  changes its row, and no row ever disappears or changes its conversation, user or source.
\<close>

theorem completed_job_final:
  assumes "job_step\<^sup>*\<^sup>* db db'" and "j \<in> set (jobs db)"
  shows "(jb_status j = ''completed'' \<longrightarrow> j \<in> set (jobs db')) \<and>
    (\<exists>j' \<in> set (jobs db'). jb_id j' = jb_id j \<and> job_key j' = job_key j)"
  using assms(1)
proof (induction rule: rtranclp_induct)
  case base
  with assms(2) show ?case by blast
next
  case (step y z)
  from job_step_rows [OF step.hyps(2)] step.IH show ?case
    by (elim disjE exE conjE) (auto simp: row_map_def image_iff, metis)
qed

section \<open>Refinement of an abstract job board\<close>

text \<open>
  The promise of the table: a board of jobs, each of one user, conversation and source, in one
  of four phases.  A job is created pending where no other job of its key is active, is started
  from pending or failed under the same condition, and an active job completes or fails.
\<close>

datatype phase = Pending | Running | Completed | Failed

type_synonym board = "nat \<Rightarrow> ((nat \<times> int \<times> string) \<times> phase) option"

definition live :: "phase \<Rightarrow> bool" where
  "live p = (p = Pending \<or> p = Running)"

definition slot_free :: "nat \<Rightarrow> nat \<times> int \<times> string \<Rightarrow> board \<Rightarrow> bool" where
  "slot_free i k b = (\<forall>j p. b j = Some (k, p) \<and> live p \<longrightarrow> j = i)"

inductive board_step :: "board \<Rightarrow> board \<Rightarrow> bool" where
  board_create: "b i = None \<Longrightarrow> slot_free i k b \<Longrightarrow> board_step b (b(i \<mapsto> (k, Pending)))"
| board_start: "b i = Some (k, p) \<Longrightarrow> p \<in> {Pending, Failed} \<Longrightarrow> slot_free i k b \<Longrightarrow> board_step b (b(i \<mapsto> (k, Running)))"
| board_complete: "b i = Some (k, p) \<Longrightarrow> live p \<Longrightarrow> board_step b (b(i \<mapsto> (k, Completed)))"
| board_fail: "b i = Some (k, p) \<Longrightarrow> live p \<Longrightarrow> board_step b (b(i \<mapsto> (k, Failed)))"

definition phase_of :: "string \<Rightarrow> phase" where
  "phase_of st = (if st = ''pending'' then Pending else if st = ''running'' then Running
     else if st = ''completed'' then Completed else Failed)"

definition board_of :: "job_row list \<Rightarrow> board" where
  "board_of js i = map_option (\<lambda>j. (job_key j, phase_of (jb_status j))) (sql_first (\<lambda>j. jb_id j = i) js)"

lemma first_id_update:
  "(\<And>j. jb_id (f j) = jb_id j) \<Longrightarrow>
   sql_first (\<lambda>j. jb_id j = i) (sql_update P f js) = map_option (\<lambda>j. if P j then f j else j) (sql_first (\<lambda>j. jb_id j = i) js)"
  by (induction js) (auto simp: sql_first_def sql_update_def)

lemma first_id_insert:
  "sql_first (\<lambda>j. jb_id j = i) (sql_insert row js) =
   (case sql_first (\<lambda>j. jb_id j = i) js of None \<Rightarrow> if jb_id row = i then Some row else None | Some j \<Rightarrow> Some j)"
  by (induction js) (auto simp: sql_first_def sql_insert_def)

lemma board_of_update:
  assumes "\<And>j. jb_id (f j) = jb_id j"
  shows "board_of (sql_update P f js) i =
    map_option (\<lambda>j. (job_key (if P j then f j else j), phase_of (jb_status (if P j then f j else j)))) (sql_first (\<lambda>j. jb_id j = i) js)"
  unfolding board_of_def first_id_update [where f = f, OF assms] by (simp add: option.map_comp comp_def)

lemma board_of_insert:
  "board_of js i = None \<Longrightarrow> jb_id row = i \<Longrightarrow>
   board_of (sql_insert row js) = (board_of js)(i \<mapsto> (job_key row, phase_of (jb_status row)))"
  by (rule ext) (auto simp: board_of_def first_id_insert split: option.splits)

lemma live_phase_of: "job_ok j \<Longrightarrow> live (phase_of (jb_status j)) = active_job j"
  by (auto simp: job_ok_def phase_of_def live_def active_job_def)

lemma board_of_Some:
  "jobs_ok db \<Longrightarrow> board_of (jobs db) i = Some (k, p) \<longleftrightarrow>
   (\<exists>j \<in> set (jobs db). jb_id j = i \<and> k = job_key j \<and> p = phase_of (jb_status j))"
  using sql_first_key_iff [of jb_id "jobs db" i] by (auto simp: board_of_def jobs_ok_def)

lemma board_of_None: "board_of js i = None \<longleftrightarrow> (\<forall>j \<in> set js. jb_id j \<noteq> i)"
  by (simp add: board_of_def sql_simps)

lemma board_fail_set:
  assumes "finite S" and "\<forall>i \<in> S. \<exists>k p. b i = Some (k, p) \<and> live p"
  shows "board_step\<^sup>*\<^sup>* b (\<lambda>i. if i \<in> S then map_option (\<lambda>(k, _). (k, Failed)) (b i) else b i)"
  using assms
proof (induction S)
  case (insert x S)
  let ?c = "\<lambda>i. if i \<in> S then map_option (\<lambda>(k, _). (k, Failed)) (b i) else b i"
  obtain k p where x: "b x = Some (k, p)" "live p" using insert.prems by blast
  have "board_step ?c (?c(x \<mapsto> (k, Failed)))"
    by (rule board_fail [of _ _ _ p]) (use x insert.hyps in auto)
  moreover have "?c(x \<mapsto> (k, Failed)) = (\<lambda>i. if i \<in> insert x S then map_option (\<lambda>(k, _). (k, Failed)) (b i) else b i)"
    using x by auto
  moreover have "board_step\<^sup>*\<^sup>* b ?c" using insert by simp
  ultimately show ?case by (metis (no_types, lifting) rtranclp.rtrancl_into_rtrancl)
qed simp

lemma sweep_refines:
  assumes "jobs_ok db" and "\<And>j. stale j \<Longrightarrow> active_job j"
  shows "board_step\<^sup>*\<^sup>* (board_of (jobs db)) (board_of (jobs (snd (sweep stale now code db))))"
proof -
  define S where "S = jb_id ` {j \<in> set (jobs db). stale j}"
  have uniq: "sql_first (\<lambda>j. jb_id j = i) (jobs db) = Some j \<longleftrightarrow> j \<in> set (jobs db) \<and> jb_id j = i" for i j
    using assms(1) by (auto simp: jobs_ok_def sql_first_key_iff)
  have eq: "board_of (jobs (snd (sweep stale now code db))) i =
      (if i \<in> S then map_option (\<lambda>(k, _). (k, Failed)) (board_of (jobs db) i) else board_of (jobs db) i)" for i
  proof (cases "sql_first (\<lambda>j. jb_id j = i) (jobs db)")
    case None
    then show ?thesis by (simp add: sweep_def board_of_update) (simp add: board_of_def)
  next
    case (Some j)
    then have j: "j \<in> set (jobs db)" "jb_id j = i" using uniq by auto
    have "i \<in> S \<longleftrightarrow> stale j" using j uniq by (auto simp: S_def) (metis option.inject)
    then show ?thesis using Some by (simp add: sweep_def board_of_update) (simp add: board_of_def phase_of_def)
  qed
  have "\<exists>k p. board_of (jobs db) i = Some (k, p) \<and> live p" if "i \<in> S" for i
  proof -
    from that obtain j where j: "j \<in> set (jobs db)" "stale j" "jb_id j = i" by (auto simp: S_def)
    then have "live (phase_of (jb_status j))" using assms live_phase_of by (simp add: jobs_ok_def)
    moreover have "board_of (jobs db) i = Some (job_key j, phase_of (jb_status j))"
      using j board_of_Some [OF assms(1)] by blast
    ultimately show ?thesis by blast
  qed
  moreover have "finite S" by (simp add: S_def)
  ultimately have "board_step\<^sup>*\<^sup>* (board_of (jobs db)) (\<lambda>i. if i \<in> S then map_option (\<lambda>(k, _). (k, Failed)) (board_of (jobs db) i) else board_of (jobs db) i)"
    by (intro board_fail_set) blast+
  also have "(\<lambda>i. if i \<in> S then map_option (\<lambda>(k, _). (k, Failed)) (board_of (jobs db) i) else board_of (jobs db) i) =
      board_of (jobs (snd (sweep stale now code db)))"
    by (rule ext) (simp only: eq)
  finally show ?thesis .
qed

text \<open>An update of the one row with an id, of unchanged key.\<close>

lemma board_update_at:
  assumes "jobs_ok db" and "\<And>j. jb_id (f j) = jb_id j" and "\<And>j. job_key (f j) = job_key j" and "\<And>j. P j \<Longrightarrow> jb_id j = i"
  shows "board_of (sql_update P f (jobs db)) = board_of (jobs db) \<or>
    (\<exists>j \<in> set (jobs db). P j \<and> jb_id j = i \<and> board_of (jobs db) i = Some (job_key j, phase_of (jb_status j)) \<and>
       board_of (sql_update P f (jobs db)) = (board_of (jobs db))(i \<mapsto> (job_key j, phase_of (jb_status (f j)))))"
proof (cases "\<exists>j \<in> set (jobs db). P j")
  case False
  then have "sql_update P f (jobs db) = jobs db" by (auto simp: sql_update_def intro: map_idI)
  then show ?thesis by simp
next
  case True
  then obtain j where j: "j \<in> set (jobs db)" "P j" "jb_id j = i" using assms(4) by blast
  have first: "sql_first (\<lambda>j. jb_id j = i) (jobs db) = Some j"
    using assms(1) j by (simp add: jobs_ok_def sql_first_key_iff)
  have other: "\<not> P x" if "sql_first (\<lambda>j. jb_id j = k) (jobs db) = Some x" "k \<noteq> i" for x k
    using that assms(4) [of x] by (auto dest!: sql_first_SomeD)
  have "board_of (sql_update P f (jobs db)) k = ((board_of (jobs db))(i \<mapsto> (job_key j, phase_of (jb_status (f j))))) k" for k
    using first j(2) assms(3) other [of k]
    by (cases "sql_first (\<lambda>j. jb_id j = k) (jobs db)"; cases "k = i") (simp_all add: board_of_update [where f = f, OF assms(2)], simp_all add: board_of_def)
  moreover have "board_of (jobs db) i = Some (job_key j, phase_of (jb_status j))" by (simp add: board_of_def first)
  ultimately show ?thesis using j by blast
qed

lemma orphan_round_refines:
  assumes "jobs_ok db" and "orphan_round budget pre_charge minutes up1 now1 up2 now2 db = (calls, db')"
  shows "board_step\<^sup>*\<^sup>* (board_of (jobs db)) (board_of (jobs db'))"
  using assms(2)
proof (rule orphan_round_cases)
  assume "db' = db"
  then show ?thesis by simp
next
  assume db': "db' = snd (sweep (stale_pending now1 minutes) now1 ''enqueue_lost'' db)"
  show ?thesis unfolding db' by (rule sweep_refines [OF assms(1) stale_active(1)])
next
  let ?db1 = "snd (sweep (stale_pending now1 minutes) now1 ''enqueue_lost'' db)"
  assume db': "db' = snd (sweep (stale_running now2) now2 ''worker_lost'' ?db1)"
  have "board_step\<^sup>*\<^sup>* (board_of (jobs db)) (board_of (jobs ?db1))"
    by (rule sweep_refines [OF assms(1) stale_active(1)])
  moreover have "board_step\<^sup>*\<^sup>* (board_of (jobs ?db1)) (board_of (jobs db'))"
    unfolding db' by (rule sweep_refines [OF jobs_ok_sweep [OF assms(1)] stale_active(2)])
  ultimately show ?thesis by (rule rtranclp_trans)
qed

lemma board_finish:
  assumes "jobs_ok db" and "\<And>j. jb_id (f j) = jb_id j" and "\<And>j. job_key (f j) = job_key j"
    and "\<And>j. jb_status (f j) = st" and "phase_of st \<in> {Completed, Failed}"
  shows "board_step\<^sup>*\<^sup>* (board_of (jobs db)) (board_of (sql_update (\<lambda>j. job_at s i j \<and> active_job j) f (jobs db)))"
proof -
  consider "board_of (sql_update (\<lambda>j. job_at s i j \<and> active_job j) f (jobs db)) = board_of (jobs db)"
    | j where "j \<in> set (jobs db)" "active_job j" "board_of (jobs db) i = Some (job_key j, phase_of (jb_status j))"
      "board_of (sql_update (\<lambda>j. job_at s i j \<and> active_job j) f (jobs db)) = (board_of (jobs db))(i \<mapsto> (job_key j, phase_of st))"
    using board_update_at [OF assms(1), of f "\<lambda>j. job_at s i j \<and> active_job j" i] assms(2-4) by (auto simp: job_at_def)
  then show ?thesis
  proof cases
    case 2
    then have "live (phase_of (jb_status j))" using assms(1) live_phase_of by (auto simp: jobs_ok_def)
    with 2(3) assms(5) have "board_step (board_of (jobs db)) ((board_of (jobs db))(i \<mapsto> (job_key j, phase_of st)))"
      by (auto intro: board_complete board_fail)
    with 2(4) show ?thesis by simp
  qed simp
qed

lemma board_run:
  assumes "jobs_ok db" and "mark_running s now i db = Inr db'"
  shows "board_step\<^sup>*\<^sup>* (board_of (jobs db)) (board_of (jobs db'))"
proof -
  let ?P = "\<lambda>j. job_at s i j \<and> jb_status j \<in> {''pending'', ''failed''}"
  have db': "db' = set_jobs (sql_update ?P (started now) (jobs db)) db"
    and ok: "active_keys_ok (sql_update ?P (started now) (jobs db))"
    using assms(2) by (auto simp: mark_running_Inr)
  consider "board_of (sql_update ?P (started now) (jobs db)) = board_of (jobs db)"
    | j where "j \<in> set (jobs db)" "?P j" "board_of (jobs db) i = Some (job_key j, phase_of (jb_status j))"
      "board_of (sql_update ?P (started now) (jobs db)) = (board_of (jobs db))(i \<mapsto> (job_key j, Running))"
    using board_update_at [OF assms(1), of "started now" ?P i] by (auto simp: job_at_def phase_of_def)
  then show ?thesis
  proof cases
    case 2
    have "k = i" if k: "board_of (jobs db) k = Some (job_key j, p)" "live p" for k p
    proof (rule ccontr)
      assume "k \<noteq> i"
      obtain x where x: "x \<in> set (jobs db)" "jb_id x = k" "job_key x = job_key j" "active_job x"
        using k assms(1) live_phase_of by (auto simp: board_of_Some jobs_ok_def)
      have new: "started now j \<in> set (filter active_job (sql_update ?P (started now) (jobs db)))"
        using 2(1,2) by (auto simp: sql_simps image_iff intro!: bexI [of _ j])
      have "\<not> ?P x" using x(2) \<open>k \<noteq> i\<close> by (simp add: job_at_def)
      then have "x \<in> set (filter active_job (sql_update ?P (started now) (jobs db)))"
        using x(1,4) by (auto simp: sql_simps image_iff)
      from unique_keyD [OF ok [unfolded active_keys_ok_def] this new] have "x = started now j" using x(3) by simp
      with x(2) 2(2) \<open>k \<noteq> i\<close> show False by (simp add: job_at_def)
    qed
    then have "slot_free i (job_key j) (board_of (jobs db))" by (auto simp: slot_free_def)
    then have "board_step (board_of (jobs db)) ((board_of (jobs db))(i \<mapsto> (job_key j, Running)))"
      using 2(2,3) by (intro board_start) (auto simp: phase_of_def)
    with 2(4) show ?thesis by (simp add: db')
  qed (simp add: db')
qed

lemma board_new:
  assumes "jobs_ok db" and "create_pending s now tx i user conv_id source period db = Inr (k, db')"
  shows "board_step (board_of (jobs db)) (board_of (jobs db'))"
proof -
  have fresh: "\<not> clashes i (user, conv_id, source) db"
    and db': "db' = set_jobs (sql_insert (new_job i now user conv_id source period) (jobs db)) db"
    using assms(2) by (auto simp: create_pending_Inr)
  have none: "board_of (jobs db) i = None" using fresh by (auto simp: board_of_None clashes_def list_ex_iff)
  have "slot_free i (user, conv_id, source) (board_of (jobs db))"
    using fresh assms(1) live_phase_of
    by (fastforce simp: slot_free_def board_of_Some clashes_def list_ex_iff jobs_ok_def)
  with none have "board_step (board_of (jobs db)) ((board_of (jobs db))(i \<mapsto> ((user, conv_id, source), Pending)))"
    by (rule board_create)
  then show ?thesis using board_of_insert [OF none, of "new_job i now user conv_id source period"]
    by (simp add: db' phase_of_def)
qed

text \<open>
  Property C25. The table implements the job board: seen through the key and phase of each id,
  every statement of the repository and every round of the sweep is a sequence of moves of the
  board, so that no job is started, completed or failed out of turn and no slot is taken twice.
\<close>

theorem jobs_refine_board:
  assumes "job_step db db'" and "jobs_ok db"
  shows "board_step\<^sup>*\<^sup>* (board_of (jobs db)) (board_of (jobs db'))"
  using assms(1)
proof cases
  case create
  then show ?thesis using board_new assms(2) by blast
next
  case run
  then show ?thesis using board_run assms(2) by blast
next
  case (progress s job_id t e)
  have "board_of (sql_update (\<lambda>j. job_at s job_id j \<and> active_job j) (progressed t e) (jobs db)) = board_of (jobs db)"
    by (rule ext, subst board_of_update) (simp_all add: board_of_def if_distrib cong: if_cong)
  then show ?thesis using progress by (auto simp: update_progress_def)
next
  case complete
  then show ?thesis using assms(2) by (auto simp: mark_completed_def phase_of_def intro!: board_finish)
next
  case fail
  then show ?thesis using assms(2) by (auto simp: mark_failed_def phase_of_def intro!: board_finish)
next
  case clean
  then show ?thesis using orphan_round_refines assms(2) by blast
next
  case other
  then show ?thesis by simp
qed

section \<open>A sweep frees stuck slots\<close>

definition swept :: "int \<Rightarrow> int \<Rightarrow> int \<Rightarrow> job_row \<Rightarrow> job_row" where
  "swept now1 minutes now2 j =
     (if stale_pending now1 minutes j then failed now1 ''enqueue_lost'' j
      else if stale_running now2 j then failed now2 ''worker_lost'' j else j)"

lemma stale_exclusive: "stale_pending now1 m j \<Longrightarrow> \<not> stale_running now2 j"
  by (simp add: stale_pending_def stale_running_def)

lemma failed_not_stale [simp]: "\<not> stale_running now2 (failed now1 code j)"
  by (simp add: stale_running_def)

lemma full_round:
  assumes "orphan_round budget pre_charge minutes True now1 True now2 db = (calls, db')"
  shows "db' = set_jobs (map (swept now1 minutes now2) (jobs db)) db"
    and "calls = (if budget then map (refund_swept_row pre_charge)
          (filter (stale_pending now1 minutes) (jobs db) @ filter (stale_running now2) (jobs db)) else [])"
proof -
  have "sql_update (stale_running now2) (failed now2 ''worker_lost'') (sql_update (stale_pending now1 minutes) (failed now1 ''enqueue_lost'') js)
      = map (swept now1 minutes now2) js" for js
    by (induction js) (auto simp: sql_update_def swept_def)
  moreover have "filter (stale_running now2) (sql_update (stale_pending now1 minutes) (failed now1 ''enqueue_lost'') js)
      = filter (stale_running now2) js" for js
    by (induction js) (auto simp: sql_update_def dest: stale_exclusive)
  ultimately show "db' = set_jobs (map (swept now1 minutes now2) (jobs db)) db"
    "calls = (if budget then map (refund_swept_row pre_charge)
          (filter (stale_pending now1 minutes) (jobs db) @ filter (stale_running now2) (jobs db)) else [])"
    using assms by (auto simp: orphan_round_def sweep_def sql_select_def set_jobs_def Let_def)
qed

lemma swept_frame [simp]: "jb_id (swept now1 m now2 j) = jb_id j" "job_key (swept now1 m now2 j) = job_key j"
  by (simp_all add: swept_def)

lemma swept_active: "active_job (swept now1 m now2 j) \<longleftrightarrow> active_job j \<and> \<not> stale_pending now1 m j \<and> \<not> stale_running now2 j"
  by (auto simp: swept_def)

text \<open>
  Property C26. One undisturbed round of the orphan cleanup frees every slot held by a lost job:
  if each active job of a key has been pending for longer than the threshold or running for
  longer than twice the job timeout, the next job of that key is created, inside a transaction
  or not.  With a budget helper the round issues exactly one full refund for each job it fails,
  and none for any other.
\<close>

theorem stuck_slot_freed:
  assumes "jobs_ok db" and "orphan_round budget pre_charge minutes True now1 True now2 db = (calls, db')"
    and "\<forall>j \<in> set (jobs db). job_key j = (user, conv_id, source) \<and> active_job j \<longrightarrow> stale_pending now1 minutes j \<or> stale_running now2 j"
    and "vis s user" and "list_ex (\<lambda>c. cv_id c = conv_id) (convs db)" and "\<forall>j \<in> set (jobs db). jb_id j \<noteq> job_id"
  shows "(\<exists>db''. create_pending s now tx job_id user conv_id source period db' = Inr (job_id, db'') \<and> jobs_ok db'') \<and>
    mset calls = (if budget then mset (map (refund_swept_row pre_charge)
        (filter (\<lambda>j. stale_pending now1 minutes j \<or> stale_running now2 j) (jobs db))) else {#})"
proof -
  note round = full_round [OF assms(2)]
  have "jobs_ok db'" by (rule job_step_ok [OF clean [OF assms(2)] assms(1)])
  have "\<not> clashes job_id (user, conv_id, source) db'"
    using assms(3,6) by (auto simp: clashes_def list_ex_iff round(1) swept_active)
  then have "create_pending s now tx job_id user conv_id source period db' =
      Inr (job_id, set_jobs (sql_insert (new_job job_id now user conv_id source period) (jobs db')) db')"
    using assms(4,5) by (simp add: create_pending_Inr round(1))
  moreover from this have "jobs_ok (set_jobs (sql_insert (new_job job_id now user conv_id source period) (jobs db')) db')"
    using job_step_ok [OF create] \<open>jobs_ok db'\<close> by blast
  moreover have m: "mset (map g (filter (stale_pending now1 minutes) js @ filter (stale_running now2) js)) =
      mset (map g (filter (\<lambda>j. stale_pending now1 minutes j \<or> stale_running now2 j) js))" for g js
    by (induction js) (auto dest: stale_exclusive)
  have "mset calls = (if budget then mset (map (refund_swept_row pre_charge)
        (filter (\<lambda>j. stale_pending now1 minutes j \<or> stale_running now2 j) (jobs db))) else {#})"
    using m [of "refund_swept_row pre_charge" "jobs db"] unfolding round(2) by simp
  ultimately show ?thesis by blast
qed

section \<open>Examples\<close>

definition job_day :: ymd where "job_day = \<lparr>dyear = 2026, dmonth = 5, dday = 1\<rparr>"

text \<open>A job of the sample journal, created at 0 and started at 1 second.\<close>

definition one_job :: jdb where
  "one_job = set_jobs [started 1000000 (new_job 3 0 7 1 ''claude'' job_day)] sample_jdb"

lemma unique_key_single [simp]: "unique_key key [x]"
  by (simp add: unique_key_def)

lemma one_job_ok: "jobs_ok one_job"
  by (simp add: one_job_def jobs_ok_def active_keys_ok_def)

lemma one_job_reached: "job_step\<^sup>*\<^sup>* sample_jdb one_job"
proof -
  have "create_pending demo_session 0 True 3 7 1 ''claude'' job_day sample_jdb =
      Inr (3, set_jobs [new_job 3 0 7 1 ''claude'' job_day] sample_jdb)"
    by (simp add: create_pending_def clashes_def vis_def sample_jdb_def empty_jdb_def sql_insert_def)
  moreover have "mark_running demo_session 1000000 3 (set_jobs [new_job 3 0 7 1 ''claude'' job_day] sample_jdb) = Inr one_job"
    by (simp add: mark_running_def job_at_def one_job_def sql_update_def active_keys_ok_def Let_def) (simp add: set_jobs_def new_job_def vis_def)
  ultimately show ?thesis by (blast intro: job_step.intros rtranclp.rtrancl_into_rtrancl)
qed

theorem one_active_job_witness: "jobs sample_jdb = [] \<and> length (jobs one_job) = 1 \<and> jobs_ok one_job"
  using one_active_job [OF one_job_reached] by (simp add: one_job_def sample_jdb_def empty_jdb_def)

theorem completed_job_final_witness:
  "\<exists>j db'. jobs one_job = [j] \<and> (\<exists>j' \<in> set (jobs db'). jb_id j' = 3 \<and> jb_status j' = ''completed'') \<and>
     (\<exists>j' \<in> set (jobs (snd (mark_failed demo_session 9 3 ''x'' db'))). jb_id j' = 3 \<and> jb_status j' = ''completed'')"
proof -
  obtain db' where db': "snd (mark_completed demo_session 5 3 1 2 0 one_job) = db'" by simp
  have j: "jobs one_job = [started 1000000 (new_job 3 0 7 1 ''claude'' job_day)]" by (simp add: one_job_def)
  have "jobs db' = [completed 5 1 2 0 (started 1000000 (new_job 3 0 7 1 ''claude'' job_day))]"
    unfolding db' [symmetric]
    by (simp add: mark_completed_def j sql_update_def job_at_def vis_def, simp add: started_def new_job_def vis_def)
  then have c: "completed 5 1 2 0 (started 1000000 (new_job 3 0 7 1 ''claude'' job_day)) \<in> set (jobs db')" by simp
  have "job_step\<^sup>*\<^sup>* db' (snd (mark_failed demo_session 9 3 ''x'' db'))"
    by (rule r_into_rtranclp, rule fail) (rule prod.collapse [symmetric])
  from completed_job_final [OF this c] have "completed 5 1 2 0 (started 1000000 (new_job 3 0 7 1 ''claude'' job_day))
      \<in> set (jobs (snd (mark_failed demo_session 9 3 ''x'' db')))" by simp
  moreover have "jb_id (completed 5 1 2 0 (started 1000000 (new_job 3 0 7 1 ''claude'' job_day))) = 3 \<and>
      jb_status (completed 5 1 2 0 (started 1000000 (new_job 3 0 7 1 ''claude'' job_day))) = ''completed''" by simp
  ultimately show ?thesis using c j by blast
qed

theorem jobs_refine_board_witness:
  "board_step\<^sup>*\<^sup>* (board_of (jobs one_job)) (board_of (jobs (snd (mark_failed demo_session 9 3 ''x'' one_job))))"
  by (rule jobs_refine_board [OF fail one_job_ok]) (rule prod.collapse [symmetric])

theorem stuck_slot_freed_witness:
  "\<exists>calls db' db''. orphan_round True 5 30 True 0 True 1300000000 one_job = (calls, db') \<and>
     create_pending demo_session 1300000001 True 4 7 1 ''claude'' job_day db' = Inr (4, db'') \<and>
     mset calls = {#\<lparr>cc_user = 7, cc_period = job_day, cc_actual = 0, cc_estimated = 5\<rparr>#}"
proof -
  obtain calls db' where r: "orphan_round True 5 30 True 0 True 1300000000 one_job = (calls, db')" by (metis prod.collapse)
  have stale: "stale_running 1300000000 (started 1000000 (new_job 3 0 7 1 ''claude'' job_day))"
    by (simp add: stale_running_def) (simp add: started_def RUNNING_THRESHOLD_SECS_def ARQ_JOB_TIMEOUT_SECS_def)
  have c: "list_ex (\<lambda>c. cv_id c = 1) (convs one_job)" by (simp add: one_job_def sample_jdb_def empty_jdb_def)
  have "refund_swept_row 5 (started 1000000 (new_job 3 0 7 1 ''claude'' job_day)) = \<lparr>cc_user = 7, cc_period = job_day, cc_actual = 0, cc_estimated = 5\<rparr>"
    by (simp add: refund_swept_row_def started_def new_job_def)
  then show ?thesis
    using stuck_slot_freed [OF one_job_ok r, of 7 1 "''claude''" demo_session 4 1300000001 True job_day] r stale c
    by (auto simp: one_job_def vis_def)
qed

text \<open>
  Observations.  The exception that carries the id of the job in flight never leaves
  \<open>create_pending\<close> inside a transaction, because the failed INSERT has aborted it; and a retry
  of a failed job is refused when a newer job of the same key is active.
\<close>

lemma in_flight_job_not_reused:
  "create_pending demo_session 9 True 4 7 1 ''claude'' job_day one_job = Inl (PostgresError ''current transaction is aborted'') \<and>
   create_pending demo_session 9 False 4 7 1 ''claude'' job_day one_job = Inl (ExtractionJobAlreadyInFlight 3)"
  by (simp add: create_pending_def clashes_def one_job_def vis_def sql_first_def, simp add: started_def new_job_def vis_def)

lemma retry_finds_slot_taken:
  "mark_running demo_session 9 3 (set_jobs [failed 5 ''internal_error'' (new_job 3 0 7 1 ''claude'' job_day),
     new_job 4 6 7 1 ''claude'' job_day] sample_jdb) = Inl UniqueViolation"
  by (simp add: mark_running_def sql_update_def job_at_def active_keys_ok_def unique_key_def vis_def, simp add: failed_def new_job_def vis_def)

end
