(* ===== verification/Worker.thy ===== *)
theory Worker
  imports ExtractionJobs
begin

text \<open>
  \<open>gubbi/extraction/jobs/extract_conversation.py\<close>: the worker's job, which reads a saved
  conversation, asks the language model for a topic and for entries, and writes them.

  It runs in three phases.  Phase 1 reads the conversation and marks the job running; phase 2
  asks the model and holds no connection; phase 3 writes everything in one transaction.  Other
  sessions work between the phases: \<open>rc_between rc 1\<close> is what they do to the database before
  phase 3 and \<open>rc_between rc 2\<close> before the connection that records a failure.  The model and
  the budget service are arguments; \<open>None\<close> for the job is the sentinel \<open>unknown\<close>.
\<close>

section \<open>The worker and its surroundings\<close>

datatype job_exn = RateLimited | ProviderFailed | Internal jerror | InternalOther

record categorization =
  ca_path :: "string option"
  ca_title :: string
  ca_input :: int
  ca_output :: int

record extracted =
  ex_content :: ptext
  ex_reasoning :: ptext
  ex_tags :: "ptext list"
  ex_date :: "string option"

text \<open>
  The services of the worker's context: the cipher, the two questions to the model, the price of
  an answer in cents (rounded; \<open>None\<close> when the provider gives none or fails), whether there is
  a budget helper, and \<open>PRE_CHARGE_CENTS\<close>.
\<close>

record worker =
  wk_aead :: aead
  wk_cipher :: content_cipher
  wk_categorize :: "(string \<times> ptext) list \<Rightarrow> string list \<Rightarrow> job_exn + categorization"
  wk_extract :: "(string \<times> ptext) list \<Rightarrow> string \<Rightarrow> job_exn + (extracted list \<times> int \<times> int)"
  wk_cost :: "int \<Rightarrow> int \<Rightarrow> int option"
  wk_budget :: bool
  wk_pre_charge :: int

text \<open>
  One run: the user, whether the user is active when each connection opens, the clock and date
  at each, the nonces, the attempt id, the billing period of the moment, the other sessions, and
  the error with which the commit of a connection that has written something fails, its
  transaction being rolled back.  Cancellation by the queue is not modelled.
\<close>

record run_ctx =
  rc_user :: nat
  rc_active :: "nat \<Rightarrow> bool"
  rc_now :: "nat \<Rightarrow> int"
  rc_today :: ymd
  rc_nonce :: "nat \<Rightarrow> bytes"
  rc_attempt :: string
  rc_period :: ymd
  rc_between :: "nat \<Rightarrow> jdb \<Rightarrow> jdb"
  rc_commit :: "nat \<Rightarrow> jerror option"

definition conn :: "run_ctx \<Rightarrow> nat \<Rightarrow> session" where
  "conn rc k = \<lparr>gs_user = rc_user rc, gs_active = rc_active rc k\<rparr>"

fun classify_error :: "job_exn \<Rightarrow> string" where
  "classify_error RateLimited = ''llm_rate_limited''"
| "classify_error ProviderFailed = ''llm_provider_error''"
| "classify_error (Internal e) = ''internal_error''"
| "classify_error InternalOther = ''internal_error''"

section \<open>Phase 1\<close>

definition check_idempotent :: "session \<Rightarrow> int \<Rightarrow> jdb \<Rightarrow> bool" where
  "check_idempotent s conv_id db = (get_processed_at s conv_id db \<noteq> None)"

definition load_conversation_for_extraction ::
  "session \<Rightarrow> aead \<Rightarrow> content_cipher \<Rightarrow> int \<Rightarrow> jdb \<Rightarrow> jerror + ((string \<times> ptext) list \<times> string list)" where
  "load_conversation_for_extraction s a c conv_id db =
     rbind (read_conversation_by_id s a c conv_id False db) (\<lambda>(meta, messages, amount).
     rmap (\<lambda>(metas, n). (map (\<lambda>m. (ms_role m, ms_content m)) messages, map tm_topic metas))
       (list_all_topics s None None 0 db))"

text \<open>
  The period stored with the job and whether a refund may go there are known even when loading
  fails afterwards.  \<open>Inr None\<close> is the early return for a processed conversation.
\<close>

definition extract_phase1 ::
  "session \<Rightarrow> aead \<Rightarrow> content_cipher \<Rightarrow> int \<Rightarrow> int \<Rightarrow> nat option \<Rightarrow> jdb \<Rightarrow>
   (ymd option \<times> bool) \<times> (jerror + (((string \<times> ptext) list \<times> string list) option \<times> jdb))" where
  "extract_phase1 s a c now conv_id job db =
     (if check_idempotent s conv_id db then ((None, job = None), Inr (None, db))
      else case job of
        None \<Rightarrow> ((None, True), rmap (\<lambda>l. (Some l, db)) (load_conversation_for_extraction s a c conv_id db))
      | Some j \<Rightarrow>
          (case mark_running s now j db of
             Inl e \<Rightarrow> ((None, False), Inl e)
           | Inr db1 \<Rightarrow>
               (let period = get_period_start s j db1
                in ((period, period \<noteq> None),
                    rmap (\<lambda>l. (Some l, db1)) (load_conversation_for_extraction s a c conv_id db1)))))"

section \<open>Writing\<close>

text \<open>Completing the job, with its audit row when a row changed.\<close>

definition complete_job ::
  "session \<Rightarrow> int \<Rightarrow> nat \<Rightarrow> int \<Rightarrow> nat option \<Rightarrow> nat \<Rightarrow> nat \<Rightarrow> int \<Rightarrow> jdb \<Rightarrow> jerror + jdb" where
  "complete_job s now user conv_id job topics_created entries_created cents db =
     (case job of
        None \<Rightarrow> Inr db
      | Some j \<Rightarrow>
          (case mark_completed s now j (int topics_created) (int entries_created) cents db of
             (updated, db') \<Rightarrow>
               if updated then record_audit s user JobCompleted (int j) [] [entries_created] [conv_id] db' else Inr db'))"

definition mark_skipped_no_topic :: "session \<Rightarrow> int \<Rightarrow> nat \<Rightarrow> int \<Rightarrow> nat option \<Rightarrow> jdb \<Rightarrow> jerror + jdb" where
  "mark_skipped_no_topic s now user conv_id job db =
     complete_job s now user conv_id job 0 0 0 (mark_processed s now conv_id db)"

text \<open>An exception of the failure record is swallowed, and its transaction rolled back.\<close>

definition mark_job_failed :: "session \<Rightarrow> int \<Rightarrow> nat \<Rightarrow> nat \<Rightarrow> int \<Rightarrow> string \<Rightarrow> jdb \<Rightarrow> jdb" where
  "mark_job_failed s now user job conv_id error_code db =
     (case mark_failed s now job error_code db of
        (updated, db') \<Rightarrow>
          if updated
          then (case record_audit s user JobFailed (int job) [error_code] [] [conv_id] db' of Inl e \<Rightarrow> db | Inr db'' \<Rightarrow> db'')
          else db')"

text \<open>The topic, created where it does not exist; a topic another session created first is used.\<close>

definition ensure_topic :: "session \<Rightarrow> int \<Rightarrow> string \<Rightarrow> string \<Rightarrow> jdb \<Rightarrow> jerror + (bool \<times> jdb)" where
  "ensure_topic s now topic_path title db =
     (case get_id s topic_path db of
        Inr i \<Rightarrow> Inr (False, db)
      | Inl (TopicNotFound p) \<Rightarrow>
          (case create_topic s now topic_path title [] None db of
             Inr (i, db') \<Rightarrow> Inr (True, db')
           | Inl (TopicAlreadyExists q) \<Rightarrow> Inr (False, db)
           | Inl e \<Rightarrow> Inl e)
      | Inl e \<Rightarrow> Inl e)"

fun append_all ::
  "session \<Rightarrow> aead \<Rightarrow> content_cipher \<Rightarrow> int \<Rightarrow> ymd \<Rightarrow> (nat \<Rightarrow> bytes) \<Rightarrow> string \<Rightarrow> nat \<Rightarrow> extracted list \<Rightarrow> jdb \<Rightarrow> jerror + jdb" where
  "append_all s a c now today rnd topic_path k [] db = Inr db"
| "append_all s a c now today rnd topic_path k (x # xs) db =
     rbind (append_entry s a c now today (rnd (2 * k)) (rnd (2 * k + 1)) topic_path (ex_content x) (Some (ex_reasoning x))
              (Some (ex_tags x)) (ex_date x) db)
       (\<lambda>(i, db'). append_all s a c now today rnd topic_path (Suc k) xs db')"

definition persist_extraction ::
  "session \<Rightarrow> aead \<Rightarrow> content_cipher \<Rightarrow> int \<Rightarrow> ymd \<Rightarrow> (nat \<Rightarrow> bytes) \<Rightarrow> string \<Rightarrow> nat \<Rightarrow> int \<Rightarrow> nat option \<Rightarrow> string \<Rightarrow> string \<Rightarrow>
   extracted list \<Rightarrow> int \<Rightarrow> jdb \<Rightarrow> jerror + (nat \<times> jdb)" where
  "persist_extraction s a c now today rnd attempt user conv_id job topic_path title items cents db =
     rbind (ensure_topic s now topic_path title db) (\<lambda>(created, db1).
     rbind (append_all s a c now today rnd topic_path 0 items db1) (\<lambda>db2.
     rbind (record_audit s user ConversationExtracted conv_id [''extraction-worker'', attempt] [length items, 1] []
              (mark_processed s now conv_id db2)) (\<lambda>db3.
     rmap (\<lambda>db4. (length items, db4))
       (complete_job s now user conv_id job (if created then 1 else 0) (length items) cents db3))))"

section \<open>The job\<close>

record run_summary =
  rs_topic :: "string option"
  rs_entries :: nat
  rs_input :: int
  rs_output :: int
  rs_cents :: int
  rs_skipped :: bool

text \<open>What a run leaves: its result, the database, the calls of the budget helper, the events published.\<close>

record run_outcome =
  ro_result :: "job_exn + run_summary"
  ro_db :: jdb
  ro_calls :: "cost_call list"
  ro_events :: "(string \<times> nat) list"

definition settle :: "worker \<Rightarrow> run_ctx \<Rightarrow> ymd \<Rightarrow> int \<Rightarrow> cost_call list" where
  "settle w rc period actual =
     (if wk_budget w
      then [\<lparr>cc_user = rc_user rc, cc_period = period, cc_actual = actual, cc_estimated = wk_pre_charge w\<rparr>] else [])"

definition run_failed ::
  "worker \<Rightarrow> run_ctx \<Rightarrow> int \<Rightarrow> nat option \<Rightarrow> bool \<Rightarrow> ymd \<Rightarrow> job_exn \<Rightarrow> jdb \<Rightarrow> run_outcome" where
  "run_failed w rc conv_id job known period exn db =
     \<lparr>ro_result = Inl exn,
      ro_db = (let db' = rc_between rc 2 db in
               case job of None \<Rightarrow> db'
               | Some j \<Rightarrow>
                   if rc_commit rc 3 = None
                   then mark_job_failed (conn rc 3) (rc_now rc 3) (rc_user rc) j conv_id (classify_error exn) db' else db'),
      ro_calls = (if known then settle w rc period 0 else []), ro_events = []\<rparr>"

definition run_skipped :: "int \<Rightarrow> int \<Rightarrow> int \<Rightarrow> jdb \<Rightarrow> cost_call list \<Rightarrow> run_outcome" where
  "run_skipped input output cents db calls =
     \<lparr>ro_result = Inr \<lparr>rs_topic = None, rs_entries = 0, rs_input = input, rs_output = output, rs_cents = cents, rs_skipped = True\<rparr>,
      ro_db = db, ro_calls = calls, ro_events = []\<rparr>"

text \<open>The cost is recorded inside the transaction, before it commits.\<close>

definition write_phase ::
  "worker \<Rightarrow> run_ctx \<Rightarrow> int \<Rightarrow> nat option \<Rightarrow> bool \<Rightarrow> ymd \<Rightarrow> categorization \<Rightarrow> string \<Rightarrow> extracted list \<times> int \<times> int \<Rightarrow> jdb \<Rightarrow> run_outcome" where
  "write_phase w rc conv_id job known period cat path answer db =
     (case answer of (items, input2, output2) \<Rightarrow>
       (let input = ca_input cat + input2; output = ca_output cat + output2;
            cents = (case wk_cost w input output of None \<Rightarrow> 0 | Some x \<Rightarrow> x)
        in if check_idempotent (conn rc 2) conv_id db then run_skipped input output cents db []
           else case persist_extraction (conn rc 2) (wk_aead w) (wk_cipher w) (rc_now rc 2) (rc_today rc) (rc_nonce rc)
                       (rc_attempt rc) (rc_user rc) conv_id job path (ca_title cat) items cents db of
                  Inl e \<Rightarrow> run_failed w rc conv_id job known period (Internal e) db
                | Inr (n, db') \<Rightarrow>
                    (case rc_commit rc 2 of
                       Some e \<Rightarrow>
                         (let out = run_failed w rc conv_id job known period (Internal e) db
                          in out\<lparr>ro_calls := settle w rc period cents @ ro_calls out\<rparr>)
                     | None \<Rightarrow>
                         \<lparr>ro_result = Inr \<lparr>rs_topic = Some path, rs_entries = n, rs_input = input, rs_output = output,
                             rs_cents = cents, rs_skipped = False\<rparr>,
                          ro_db = db', ro_calls = settle w rc period cents, ro_events = [(path, n)]\<rparr>)))"

definition no_topic_phase ::
  "worker \<Rightarrow> run_ctx \<Rightarrow> int \<Rightarrow> nat option \<Rightarrow> bool \<Rightarrow> ymd \<Rightarrow> categorization \<Rightarrow> jdb \<Rightarrow> run_outcome" where
  "no_topic_phase w rc conv_id job known period cat db =
     (case mark_skipped_no_topic (conn rc 2) (rc_now rc 2) (rc_user rc) conv_id job db of
        Inl e \<Rightarrow> run_failed w rc conv_id job known period (Internal e) db
      | Inr db' \<Rightarrow>
          (case rc_commit rc 2 of
             Some e \<Rightarrow> run_failed w rc conv_id job known period (Internal e) db
           | None \<Rightarrow> run_skipped (ca_input cat) (ca_output cat) 0 db' (settle w rc period 0)))"

text \<open>
  A failure of phase 1 is settled in the period of the moment, since the job's own period is
  taken over only after the first connection is released.
\<close>

definition extract_conversation :: "worker \<Rightarrow> run_ctx \<Rightarrow> int \<Rightarrow> nat option \<Rightarrow> jdb \<Rightarrow> run_outcome" where
  "extract_conversation w rc conv_id job db =
     (case extract_phase1 (conn rc 1) (wk_aead w) (wk_cipher w) (rc_now rc 1) conv_id job db of
        ((job_period, known), Inl e) \<Rightarrow> run_failed w rc conv_id job known (rc_period rc) (Internal e) db
      | ((job_period, known), Inr (None, db1)) \<Rightarrow> run_skipped 0 0 0 db1 []
      | ((job_period, known), Inr (Some (messages, existing), db1)) \<Rightarrow>
          (case rc_commit rc 1 of
             Some e \<Rightarrow> run_failed w rc conv_id job known (rc_period rc) (Internal e) db
           | None \<Rightarrow>
          (let period = (case job_period of None \<Rightarrow> rc_period rc | Some p \<Rightarrow> p) in
           case wk_categorize w messages existing of
             Inl exn \<Rightarrow> run_failed w rc conv_id job known period exn db1
           | Inr cat \<Rightarrow>
               (case harden_llm_topic_path (ca_path cat) 256 of
                  None \<Rightarrow> no_topic_phase w rc conv_id job known period cat (rc_between rc 1 db1)
                | Some path \<Rightarrow>
                    (case wk_extract w messages path of
                       Inl exn \<Rightarrow> run_failed w rc conv_id job known period exn db1
                     | Inr answer \<Rightarrow>
                         write_phase w rc conv_id job known period cat path answer (rc_between rc 1 db1))))))"

section \<open>What a run leaves of the journal\<close>

definition journal_of :: "jdb \<Rightarrow> jdb" where
  "journal_of db = db\<lparr>jobs := [], audit := []\<rparr>"

lemma content_set_jobs [simp]: "journal_of (set_jobs js db) = journal_of db"
  by (simp add: journal_of_def set_jobs_def)

lemma record_audit_Inr:
  "record_audit s actor action target paths counts refs db = Inr db' \<longleftrightarrow>
   actor = gs_user s \<and> db' = db\<lparr>audit := sql_insert \<lparr>au_actor = actor, au_action = action, au_target = target,
      au_paths = paths, au_counts = counts, au_refs = refs\<rparr> (audit db)\<rparr>"
  by (auto simp: record_audit_def)

lemma content_audit [simp]: "journal_of (db\<lparr>audit := x\<rparr>) = journal_of db"
  by (simp add: journal_of_def)

lemma content_eqD:
  assumes "journal_of db = journal_of db'"
  shows "topics db = topics db'" "convs db = convs db'" "msgs db = msgs db'" "entries db = entries db'" "embs db = embs db'"
    "next_topic db = next_topic db'" "next_conv db = next_conv db'" "next_entry db = next_entry db'"
  using assms by (cases db; cases db'; simp add: journal_of_def)+

lemma jdb_ok_content: "journal_of db = journal_of db' \<Longrightarrow> jdb_ok db = jdb_ok db'"
  by (cases db; cases db')
    (simp add: journal_of_def jdb_ok_def topics_ok_def convs_ok_def entries_ok_def embs_ok_def msgs_ok_def topic_keys_def conv_keys_def entry_keys_def)

lemma complete_job_content: "complete_job s now u i job t e cents db = Inr db' \<Longrightarrow> journal_of db' = journal_of db"
  by (auto simp: complete_job_def mark_completed_def record_audit_Inr split: option.splits if_splits)

lemma mark_job_failed_content [simp]: "journal_of (mark_job_failed s now u j i code db) = journal_of db"
  by (auto simp: mark_job_failed_def mark_failed_def split: sum.splits) (auto simp: record_audit_Inr)

lemma conn_frame [simp]: "gs_user (conn rc k) = rc_user rc" "gs_active (conn rc k) = rc_active rc k"
  by (simp_all add: conn_def)

lemma extract_phase1_content:
  "extract_phase1 s a c now i job db = (pk, Inr (l, db1)) \<Longrightarrow> journal_of db1 = journal_of db"
  by (auto simp: extract_phase1_def mark_running_Inr Let_def res_simps split: if_splits option.splits sum.splits)

lemma run_failed_content:
  "journal_of (ro_db (run_failed w rc i job known period exn db)) = journal_of (rc_between rc 2 db)"
  by (simp add: run_failed_def Let_def split: option.split)

lemma run_failed_fields [simp]:
  "ro_result (run_failed w rc i job known period exn db) = Inl exn" "ro_events (run_failed w rc i job known period exn db) = []"
  "ro_calls (run_failed w rc i job known period exn db) = (if known then settle w rc period 0 else [])"
  by (simp_all add: run_failed_def)

lemma run_skipped_fields [simp]:
  "ro_result (run_skipped i x cents db calls) = Inr \<lparr>rs_topic = None, rs_entries = 0, rs_input = i, rs_output = x, rs_cents = cents, rs_skipped = True\<rparr>"
  "ro_db (run_skipped i x cents db calls) = db" "ro_calls (run_skipped i x cents db calls) = calls"
  "ro_events (run_skipped i x cents db calls) = []"
  by (simp_all add: run_skipped_def)

text \<open>The ways a run can end, each with the states it saw.\<close>

lemma extract_conversation_cases:
  obtains
    (load) pk q e where "extract_phase1 (conn rc 1) (wk_aead w) (wk_cipher w) (rc_now rc 1) i job db = (pk, q)"
      "q = Inl e \<or> (\<exists>l db1. q = Inr (Some l, db1)) \<and> rc_commit rc 1 = Some e"
      "extract_conversation w rc i job db = run_failed w rc i job (snd pk) (rc_period rc) (Internal e) db"
  | (early) pk db1 where "extract_phase1 (conn rc 1) (wk_aead w) (wk_cipher w) (rc_now rc 1) i job db = (pk, Inr (None, db1))"
      "extract_conversation w rc i job db = run_skipped 0 0 0 db1 []"
  | (model) pk ms ts db1 period exn where "extract_phase1 (conn rc 1) (wk_aead w) (wk_cipher w) (rc_now rc 1) i job db = (pk, Inr (Some (ms, ts), db1))"
      "period = (case fst pk of None \<Rightarrow> rc_period rc | Some p \<Rightarrow> p)"
      "wk_categorize w ms ts = Inl exn \<or> (\<exists>cat path. wk_categorize w ms ts = Inr cat \<and>
         harden_llm_topic_path (ca_path cat) 256 = Some path \<and> wk_extract w ms path = Inl exn)"
      "extract_conversation w rc i job db = run_failed w rc i job (snd pk) period exn db1"
  | (untopical) pk ms ts db1 period cat where "extract_phase1 (conn rc 1) (wk_aead w) (wk_cipher w) (rc_now rc 1) i job db = (pk, Inr (Some (ms, ts), db1))"
      "period = (case fst pk of None \<Rightarrow> rc_period rc | Some p \<Rightarrow> p)"
      "wk_categorize w ms ts = Inr cat" "harden_llm_topic_path (ca_path cat) 256 = None"
      "extract_conversation w rc i job db = no_topic_phase w rc i job (snd pk) period cat (rc_between rc 1 db1)"
  | (writing) pk ms ts db1 period cat path answer where "extract_phase1 (conn rc 1) (wk_aead w) (wk_cipher w) (rc_now rc 1) i job db = (pk, Inr (Some (ms, ts), db1))"
      "period = (case fst pk of None \<Rightarrow> rc_period rc | Some p \<Rightarrow> p)"
      "wk_categorize w ms ts = Inr cat" "harden_llm_topic_path (ca_path cat) 256 = Some path" "wk_extract w ms path = Inr answer"
      "extract_conversation w rc i job db = write_phase w rc i job (snd pk) period cat path answer (rc_between rc 1 db1)"
proof (cases "extract_phase1 (conn rc 1) (wk_aead w) (wk_cipher w) (rc_now rc 1) i job db")
  case (Pair pk r)
  show ?thesis
  proof (cases r)
    case (Inl e)
    then show ?thesis using Pair load [of pk "Inl e" e] by (cases pk) (simp add: extract_conversation_def)
  next
    case (Inr q)
    obtain l db1 where q: "q = (l, db1)" by (cases q)
    show ?thesis
    proof (cases l)
      case None
      then show ?thesis using Pair Inr q early [of pk db1] by (cases pk) (simp add: extract_conversation_def)
    next
      case (Some mt)
      obtain ms ts where mt: "mt = (ms, ts)" by (cases mt)
      note p = Pair [unfolded Inr q Some mt]
      show ?thesis
      proof (cases "rc_commit rc 1")
        case (Some e)
        show ?thesis by (rule load [OF p, of e]) (cases pk; simp add: extract_conversation_def p [unfolded One_nat_def] Some [unfolded One_nat_def])+
      next
      case commits: None
      have run: "extract_conversation w rc i job db =
        (let period = (case fst pk of None \<Rightarrow> rc_period rc | Some p \<Rightarrow> p) in
           case wk_categorize w ms ts of
             Inl exn \<Rightarrow> run_failed w rc i job (snd pk) period exn db1
           | Inr cat \<Rightarrow>
               (case harden_llm_topic_path (ca_path cat) 256 of
                  None \<Rightarrow> no_topic_phase w rc i job (snd pk) period cat (rc_between rc 1 db1)
                | Some path \<Rightarrow>
                    (case wk_extract w ms path of
                       Inl exn \<Rightarrow> run_failed w rc i job (snd pk) period exn db1
                     | Inr answer \<Rightarrow> write_phase w rc i job (snd pk) period cat path answer (rc_between rc 1 db1))))"
        by (cases pk) (simp add: extract_conversation_def p [unfolded One_nat_def] commits [unfolded One_nat_def] Let_def split: sum.split option.split)
      show ?thesis
      proof (cases "wk_categorize w ms ts")
        case (Inl exn)
        show ?thesis by (rule model [OF p refl, of exn]) (simp_all add: run Inl)
      next
        case cat: (Inr cat)
        show ?thesis
        proof (cases "harden_llm_topic_path (ca_path cat) 256")
          case None
          show ?thesis by (rule untopical [OF p refl cat None]) (simp add: run cat None)
        next
          case path: (Some path)
          show ?thesis
          proof (cases "wk_extract w ms path")
            case (Inl exn)
            show ?thesis by (rule model [OF p refl, of exn]) (simp_all add: run cat path Inl)
          next
            case (Inr answer)
            show ?thesis by (rule writing [OF p refl cat path Inr]) (simp add: run cat path Inr)
          qed
        qed
      qed
      qed
    qed
  qed
qed

lemma write_phase_cases:
  obtains (lost) out where "check_idempotent (conn rc 2) i db"
      "write_phase w rc i job known period cat path answer db = run_skipped (ca_input cat + fst (snd answer)) (ca_output cat + snd (snd answer)) out db []"
  | (broken) e where "write_phase w rc i job known period cat path answer db = run_failed w rc i job known period (Internal e) db"
      "\<not> check_idempotent (conn rc 2) i db"
  | (uncommitted) e cents where "rc_commit rc 2 = Some e"
      "write_phase w rc i job known period cat path answer db =
         (run_failed w rc i job known period (Internal e) db)\<lparr>ro_calls := settle w rc period cents @ (if known then settle w rc period 0 else [])\<rparr>"
  | (written) r db' where "\<not> check_idempotent (conn rc 2) i db"
      "persist_extraction (conn rc 2) (wk_aead w) (wk_cipher w) (rc_now rc 2) (rc_today rc) (rc_nonce rc)
         (rc_attempt rc) (rc_user rc) i job path (ca_title cat) (fst answer) (rs_cents r) db = Inr (rs_entries r, db')"
      "write_phase w rc i job known period cat path answer db =
         \<lparr>ro_result = Inr r, ro_db = db', ro_calls = settle w rc period (rs_cents r), ro_events = [(path, rs_entries r)]\<rparr>"
      "rs_topic r = Some path" "\<not> rs_skipped r"
      "rs_cents r = (case wk_cost w (rs_input r) (rs_output r) of None \<Rightarrow> 0 | Some x \<Rightarrow> x)"
      "rs_input r = ca_input cat + fst (snd answer)" "rs_output r = ca_output cat + snd (snd answer)" "rc_commit rc 2 = None"
proof -
  obtain items i2 o2 where answer: "answer = (items, i2, o2)" by (cases answer)
  let ?cents = "case wk_cost w (ca_input cat + i2) (ca_output cat + o2) of None \<Rightarrow> 0 | Some x \<Rightarrow> x"
  show ?thesis
  proof (cases "check_idempotent (conn rc 2) i db")
    case True
    show ?thesis by (rule lost [OF True, of ?cents]) (use True in \<open>simp add: write_phase_def answer Let_def\<close>)
  next
    case False
    show ?thesis
    proof (cases "persist_extraction (conn rc 2) (wk_aead w) (wk_cipher w) (rc_now rc 2) (rc_today rc) (rc_nonce rc)
         (rc_attempt rc) (rc_user rc) i job path (ca_title cat) items ?cents db")
      case (Inl e)
      show ?thesis by (rule broken [OF _ False, of e]) (use False Inl in \<open>simp add: write_phase_def answer Let_def\<close>)
    next
      case (Inr q)
      obtain n db' where q: "q = (n, db')" by (cases q)
      show ?thesis
      proof (cases "rc_commit rc 2")
        case (Some e)
        show ?thesis by (rule uncommitted [OF Some, of ?cents]) (use False Inr q Some in \<open>simp add: write_phase_def answer Let_def\<close>)
      next
        case None
        show ?thesis
        by (rule written [of "\<lparr>rs_topic = Some path, rs_entries = n, rs_input = ca_input cat + i2, rs_output = ca_output cat + o2,
             rs_cents = ?cents, rs_skipped = False\<rparr>" db'])
          (use False Inr q None in \<open>simp_all add: write_phase_def answer Let_def\<close>)
      qed
    qed
  qed
qed

lemma no_topic_phase_cases:
  obtains (broken) e where "no_topic_phase w rc i job known period cat db = run_failed w rc i job known period (Internal e) db"
  | (skipped) db' where "mark_skipped_no_topic (conn rc 2) (rc_now rc 2) (rc_user rc) i job db = Inr db'"
      "no_topic_phase w rc i job known period cat db = run_skipped (ca_input cat) (ca_output cat) 0 db' (settle w rc period 0)"
  by (cases "mark_skipped_no_topic (conn rc 2) (rc_now rc 2) (rc_user rc) i job db"; cases "rc_commit rc 2") (auto simp: no_topic_phase_def)

text \<open>What a failing run leaves: other sessions' work, and the verdict on the job.\<close>

definition left_by_failure :: "run_ctx \<Rightarrow> int \<Rightarrow> nat option \<Rightarrow> job_exn \<Rightarrow> jdb \<Rightarrow> jdb \<Rightarrow> bool" where
  "left_by_failure rc i job exn db2 db' =
     (journal_of db' = journal_of (rc_between rc 2 db2) \<and>
      (\<forall>j row. job = Some j \<and> row \<in> set (jobs (rc_between rc 2 db2)) \<and> jb_id row = j \<and> jb_user row = rc_user rc \<and>
         active_job row \<and> rc_active rc 3 \<and> rc_commit rc 3 = None \<longrightarrow> failed (rc_now rc 3) (classify_error exn) row \<in> set (jobs db')))"

lemma run_failed_left: "left_by_failure rc i job exn db (ro_db (run_failed w rc i job known period exn db))"
proof -
  have "failed now code row \<in> set (jobs (mark_job_failed s now (gs_user s) (jb_id row) i code d))"
    if "row \<in> set (jobs d)" "jb_user row = gs_user s" "active_job row" "gs_active s" for s now code row d
  proof -
    have "failed now code row \<in> set (sql_update (\<lambda>j. job_at s (jb_id row) j \<and> active_job j) (failed now code) (jobs d))"
      using that by (auto simp: sql_simps image_iff job_at_def vis_def intro!: bexI [of _ row])
    then show ?thesis
      by (auto simp: mark_job_failed_def mark_failed_def record_audit_def)
  qed
  from this [where s = "conn rc 3"] show ?thesis
    using run_failed_content by (auto simp: left_by_failure_def run_failed_def Let_def)
qed

text \<open>
  Property C27. A run that raises writes nothing: whatever fails, a commit included, and wherever in
  the three phases, the journal is left as the other sessions made it, no topic, entry or
  processed mark of the run survives, no event is published, and a job that is still active is
  marked failed with the code of the exception unless recording that fails as well.  Of the budget
  at most one refund is recorded; only when the write transaction itself cannot commit, the cost
  was already recorded before the refund is.
\<close>

theorem failed_run_writes_nothing:
  assumes "ro_result (extract_conversation w rc i job db) = Inl exn"
  shows "\<exists>db2 period. left_by_failure rc i job exn db2 (ro_db (extract_conversation w rc i job db)) \<and>
      (journal_of db2 = journal_of db \<or> (\<exists>db1. journal_of db1 = journal_of db \<and> db2 = rc_between rc 1 db1)) \<and>
      ro_events (extract_conversation w rc i job db) = [] \<and>
      (ro_calls (extract_conversation w rc i job db) \<in> {[], settle w rc period 0} \<or>
       (\<exists>e cents. rc_commit rc 2 = Some e \<and> exn = Internal e \<and>
          ro_calls (extract_conversation w rc i job db) \<in> {settle w rc period cents, settle w rc period cents @ settle w rc period 0}))"
proof -
  let ?run = "extract_conversation w rc i job db"
  have failure: "?thesis" if "?run = (run_failed w rc i job known period e d)\<lparr>ro_calls := calls\<rparr>"
      "journal_of d = journal_of db \<or> (\<exists>db1. journal_of db1 = journal_of db \<and> d = rc_between rc 1 db1)"
      "calls \<in> {[], settle w rc period 0} \<or> (\<exists>f cents. rc_commit rc 2 = Some f \<and> e = Internal f \<and>
          calls \<in> {settle w rc period cents, settle w rc period cents @ settle w rc period 0})" for d known period e calls
  proof -
    have "e = exn" using that(1) assms by simp
    with that run_failed_left [of rc i job exn d w known period] show ?thesis by (intro exI [of _ d] exI [of _ period]) simp
  qed
  have plain: "run_failed w rc i job known period e d =
      (run_failed w rc i job known period e d)\<lparr>ro_calls := if known then settle w rc period 0 else []\<rparr>" for known period e d
    by (simp add: run_failed_def)
  show ?thesis
  proof (cases rule: extract_conversation_cases [where w = w and rc = rc and i = i and job = job and db = db])
    case (load pk q e)
    then show ?thesis by (intro failure [OF load(3) [THEN trans, OF plain]]) auto
  next
    case (early pk db1)
    then show ?thesis using assms by simp
  next
    case (model pk ms ts db1 period exn')
    then show ?thesis using extract_phase1_content [OF model(1)] by (intro failure [OF model(4) [THEN trans, OF plain]]) auto
  next
    case (untopical pk ms ts db1 period cat)
    note at1 = extract_phase1_content [OF untopical(1)]
    show ?thesis
    proof (cases rule: no_topic_phase_cases [where w = w and rc = rc and i = i and job = job and known = "snd pk" and period = period and cat = cat
        and db = "rc_between rc 1 db1"])
      case (broken e)
      note run = untopical(5) [unfolded broken, THEN trans, OF plain]
      show ?thesis using at1 by (intro failure [OF run]) auto
    qed (use assms untopical(5) in simp)
  next
    case (writing pk ms ts db1 period cat path answer)
    note at1 = extract_phase1_content [OF writing(1)]
    show ?thesis
    proof (cases rule: write_phase_cases [where w = w and rc = rc and i = i and job = job and known = "snd pk" and period = period and cat = cat
        and path = path and answer = answer and db = "rc_between rc 1 db1"])
      case (broken e)
      note run = writing(6) [unfolded broken(1), THEN trans, OF plain]
      show ?thesis using at1 by (intro failure [OF run]) auto
    next
      case (uncommitted e cents)
      note run = writing(6) [unfolded uncommitted(2)]
      show ?thesis using at1 uncommitted(1) by (intro failure [OF run]) (auto intro!: exI [of _ cents])
    qed (use assms writing(6) in simp_all)
  qed
qed

section \<open>What a successful run writes\<close>

text \<open>The frame of one append: one new row, and nothing else but the touched topic.\<close>

lemma append_entry_row:
  assumes "append_entry s a c now today r1 r2 topic txt reasoning tags date db = Inr (k, db')"
  obtains e topic_id where "entries db' = entries db @ [e]" "get_id s topic db = Inr topic_id" "en_topic e = topic_id"
    "en_user e = gs_user s" "en_tags e = (case tags of None \<Rightarrow> [] | Some ts \<Rightarrow> ts)" "en_conv e = None" "en_deleted e = None"
    "encrypt a c r1 txt = Inr (en_content e)" "seal_opt a c r2 reasoning = Inr (en_reasoning e)"
    "topics db' = topics (touch_topic s now topic_id db)" "convs db' = convs db" "msgs db' = msgs db" "embs db' = embs db"
    "jobs db' = jobs db" "audit db' = audit db"
proof -
  let ?row = "\<lambda>topic_id d x r i. \<lparr>en_id = i, en_topic = topic_id, en_date = d, en_conv = None,
          en_tags = (case tags of None \<Rightarrow> [] | Some ts \<Rightarrow> ts), en_created = now, en_updated = now, en_deleted = None,
          en_indexed = None, en_user = gs_user s, en_content = x, en_reasoning = r, en_search = Some txt\<rparr>"
  obtain topic_id d x r db1 where t: "get_id s topic db = Inr topic_id"
    and x: "lift_crypto (encrypt a c r1 txt) = Inr x" and r: "seal_opt a c r2 reasoning = Inr r"
    and ins: "insert_entry s (?row topic_id d x r) db = Inr (k, db1)"
    and db': "db' = touch_topic s now topic_id db1"
    using assms unfolding append_entry_def rbind_eq_Inr rmap_eq_Inr by (auto simp: split_beta)
  have db1: "db1 = db\<lparr>entries := entries db @ [?row topic_id d x r k], next_entry := next_entry db + 1\<rparr>"
    using ins by (auto simp: insert_entry_def sql_insert_def split: if_splits)
  show ?thesis
    by (rule that [of "?row topic_id d x r k" topic_id]) (use t x r in \<open>simp_all add: db' db1 touch_topic_def res_simps\<close>)
qed

definition filed :: "aead \<Rightarrow> content_cipher \<Rightarrow> nat \<Rightarrow> int \<Rightarrow> extracted \<Rightarrow> entry_row \<Rightarrow> bool" where
  "filed a c user topic_id x e =
     (en_user e = user \<and> en_topic e = topic_id \<and> en_deleted e = None \<and> en_tags e = ex_tags x \<and>
      open_column a c (Some (en_content e)) = Inr (Some (ex_content x)) \<and>
      open_column a c (en_reasoning e) = Inr (Some (ex_reasoning x)))"

text \<open>What the append loop and the topic creation leave alone.\<close>

definition only_entries :: "jdb \<Rightarrow> jdb \<Rightarrow> bool" where
  "only_entries db db' =
     (convs db' = convs db \<and> msgs db' = msgs db \<and> embs db' = embs db \<and> jobs db' = jobs db \<and> audit db' = audit db)"

lemma append_all_rows:
  assumes "append_all s a c now today rnd path k items db = Inr db'" and "get_id s path db = Inr topic_id"
    and "cipher_ok a c" and "\<forall>n. length (rnd n) = 11"
  shows "only_entries db db' \<and> get_id s path db' = Inr topic_id \<and>
    (\<exists>news. entries db' = entries db @ news \<and> list_all2 (filed a c (gs_user s) topic_id) items news)"
  using assms(1,2)
proof (induction items arbitrary: k db)
  case (Cons x xs)
  from Cons.prems(1) obtain j db1 where step: "append_entry s a c now today (rnd (2 * k)) (rnd (2 * k + 1)) path (ex_content x)
      (Some (ex_reasoning x)) (Some (ex_tags x)) (ex_date x) db = Inr (j, db1)"
    and rest: "append_all s a c now today rnd path (Suc k) xs db1 = Inr db'"
    by (auto simp: res_simps)
  from step obtain e where e: "entries db1 = entries db @ [e]" "en_topic e = topic_id" "en_user e = gs_user s"
      "en_tags e = ex_tags x" "en_deleted e = None"
      "encrypt a c (rnd (2 * k)) (ex_content x) = Inr (en_content e)"
      "seal_opt a c (rnd (2 * k + 1)) (Some (ex_reasoning x)) = Inr (en_reasoning e)"
      "topics db1 = topics (touch_topic s now topic_id db)" and same: "only_entries db db1"
    by (rule append_entry_row) (use Cons.prems(2) in \<open>auto simp: only_entries_def\<close>)
  have "filed a c (gs_user s) topic_id x e"
    using e seal_open_column [OF assms(3) _ e(6)] seal_opt_open [OF assms(3) _ e(7)] assms(4) by (simp add: filed_def)
  moreover have "get_id s path db1 = Inr topic_id" using get_id_touched [OF e(8)] Cons.prems(2) by simp
  from Cons.IH [OF rest this] obtain news where "only_entries db1 db'" "get_id s path db' = Inr topic_id"
      "entries db' = entries db1 @ news" "list_all2 (filed a c (gs_user s) topic_id) xs news" by blast
  ultimately show ?case
    using same e(1) by (auto simp: only_entries_def intro!: exI [of _ "e # news"])
qed (auto simp: only_entries_def)

lemma ensure_topic_Inr:
  assumes "ensure_topic s now path title db = Inr (created, db1)" and "validate_topic path = Inr path"
  shows "only_entries db db1 \<and> entries db1 = entries db \<and> (\<exists>topic_id. get_id s path db1 = Inr topic_id) \<and> gs_active s"
proof (cases "get_id s path db")
  case (Inr i)
  then show ?thesis using assms get_id_key [OF Inr] by (auto simp: ensure_topic_def only_entries_def)
next
  case (Inl e)
  then have e: "e = TopicNotFound path" and none: "topic_by_path s path db = None"
    using assms(2) by (auto simp: get_id_def split: option.splits)
  show ?thesis
  proof (cases "create_topic s now path title [] None db")
    case (Inl e')
    then have "\<exists>t \<in> set (topics db). tp_user t = gs_user s \<and> tp_path t = path \<and> gs_active s"
      using assms Inl e \<open>get_id s path db = Inl e\<close>
      by (auto simp: ensure_topic_def create_topic_def list_ex_iff split: jerror.splits if_splits)
    then show ?thesis using none by (auto simp: topic_by_path_def sql_first_None vis_def)
  next
    case (Inr q)
    then obtain row where db1: "db1 = db\<lparr>topics := sql_insert row (topics db), next_topic := next_topic db + 1\<rparr>"
      and row: "tp_path row = path" "tp_user row = gs_user s" and act: "gs_active s"
      using assms e \<open>get_id s path db = Inl e\<close>
      by (auto simp: ensure_topic_def create_topic_def split: if_splits)
    have "topic_by_path s path db1 \<noteq> None"
      using row act by (auto simp: topic_by_path_def sql_first_None db1 sql_simps vis_def)
    then show ?thesis using assms(2) act by (auto simp: db1 only_entries_def get_id_def)
  qed
qed

lemma harden_valid: "harden_llm_topic_path raw n = Some path \<Longrightarrow> validate_topic path = Inr path"
  using validate_topic_again by (auto simp: harden_llm_topic_path_def Let_def split: option.splits if_splits sum.splits)

definition processed_by :: "session \<Rightarrow> int \<Rightarrow> int \<Rightarrow> conv_row list \<Rightarrow> conv_row list" where
  "processed_by s now i cs = map (\<lambda>c. if vis s (cv_user c) \<and> cv_id c = i \<and> cv_processed c = None then c\<lparr>cv_processed := Some now\<rparr> else c) cs"

lemma complete_job_rows:
  assumes "complete_job s now user i job t e cents db = Inr db'"
  shows "journal_of db' = journal_of db \<and>
    (\<forall>j row. job = Some j \<and> row \<in> set (jobs db) \<and> job_at s j row \<and> active_job row \<longrightarrow>
       completed now (int t) (int e) cents row \<in> set (jobs db'))"
proof -
  have "completed now (int t) (int e) cents row \<in> set (jobs db')"
    if "job = Some j" "row \<in> set (jobs db)" "job_at s j row" "active_job row" for j row
  proof -
    have "completed now (int t) (int e) cents row \<in>
        set (sql_update (\<lambda>r. job_at s j r \<and> active_job r) (completed now (int t) (int e) cents) (jobs db))"
      using that by (auto simp: sql_simps image_iff intro!: bexI [of _ row])
    then show ?thesis
      using assms that(1) by (auto simp: complete_job_def mark_completed_def record_audit_Inr split: if_splits)
  qed
  with complete_job_content [OF assms] show ?thesis by blast
qed

lemma persist_extraction_rows:
  assumes "persist_extraction s a c now today rnd attempt user i job path title items cents db = Inr (n, db')"
    and "validate_topic path = Inr path" and "cipher_ok a c" and "\<forall>n. length (rnd n) = 11"
  shows "n = length items \<and> gs_active s \<and> msgs db' = msgs db \<and> embs db' = embs db \<and> convs db' = processed_by s now i (convs db) \<and>
    (\<exists>topic_id news. get_id s path db' = Inr topic_id \<and> entries db' = entries db @ news \<and>
       list_all2 (filed a c (gs_user s) topic_id) items news) \<and>
    (\<forall>j row. job = Some j \<and> row \<in> set (jobs db) \<and> job_at s j row \<and> active_job row \<longrightarrow>
       (\<exists>t \<le> 1. completed now t (int n) cents row \<in> set (jobs db')))"
proof -
  obtain created db1 db2 db3 where t: "ensure_topic s now path title db = Inr (created, db1)"
    and all: "append_all s a c now today rnd path 0 items db1 = Inr db2"
    and aud: "record_audit s user ConversationExtracted i [''extraction-worker'', attempt] [length items, 1] []
              (mark_processed s now i db2) = Inr db3"
    and fin: "complete_job s now user i job (if created then 1 else 0) (length items) cents db3 = Inr db'"
    and n: "n = length items"
    using assms(1) unfolding persist_extraction_def by (auto simp: res_simps)
  note topic = ensure_topic_Inr [OF t assms(2)]
  then obtain topic_id where id: "get_id s path db1 = Inr topic_id" by blast
  note rows = append_all_rows [OF all id assms(3,4)]
  note finrows = complete_job_rows [OF fin]
  have db3: "entries db3 = entries db2" "msgs db3 = msgs db2" "embs db3 = embs db2" "topics db3 = topics db2" "jobs db3 = jobs db2"
      "convs db3 = processed_by s now i (convs db2)"
    using aud by (auto simp: record_audit_Inr mark_processed_def processed_by_def sql_update_def)
  have "get_id s path db' = get_id s path db2"
    using content_eqD(1) [of db' db3] finrows db3(4) by (simp add: get_id_def topic_by_path_def)
  moreover have "jobs db3 = jobs db" using rows topic db3(5) by (simp add: only_entries_def)
  moreover have "\<exists>t \<le> 1. completed now t (int n) cents row \<in> set (jobs db')"
    if "job = Some j" "row \<in> set (jobs db3)" "job_at s j row" "active_job row" for j row
    using finrows that by (intro exI [of _ "int (if created then 1 else 0)"]) (simp add: n)
  ultimately show ?thesis
    using rows topic n content_eqD [OF conjunct1 [OF finrows]] db3 by (auto simp: only_entries_def)
qed

lemma phase1_loads:
  assumes "extract_phase1 s a c now i job db = (pk, Inr (Some l, db1))"
  shows "load_conversation_for_extraction s a c i db1 = Inr l"
  using assms by (auto simp: extract_phase1_def Let_def res_simps split: if_splits option.splits sum.splits)

text \<open>
  Property C28. A run that succeeds writes exactly what the model answered about the conversation: the
  model was asked for a topic with the messages of the conversation and the topics of the user as
  read in phase 1, and for entries with the same messages and the hardened topic path; then one
  entry is written per answer and in its order, under that path, owned by the user, decrypting to
  the answered content and reasoning; the conversation was unprocessed when the write began and is
  the only one marked; messages and embeddings are untouched, a job still active is completed with
  the number of entries and the cost of the tokens of both answers, and one event tells the path
  and the number.
\<close>

theorem successful_run_writes_answer:
  assumes "ro_result (extract_conversation w rc i job db) = Inr r" and "\<not> rs_skipped r"
    and "cipher_ok (wk_aead w) (wk_cipher w)" and "\<forall>n. length (rc_nonce rc n) = 11"
  shows "\<exists>pk db1 ms ts cat path items tin tout topic_id news.
    extract_phase1 (conn rc 1) (wk_aead w) (wk_cipher w) (rc_now rc 1) i job db = (pk, Inr (Some (ms, ts), db1)) \<and>
    load_conversation_for_extraction (conn rc 1) (wk_aead w) (wk_cipher w) i db1 = Inr (ms, ts) \<and> journal_of db1 = journal_of db \<and>
    wk_categorize w ms ts = Inr cat \<and> harden_llm_topic_path (ca_path cat) 256 = Some path \<and>
    wk_extract w ms path = Inr (items, tin, tout) \<and>
    rs_cents r = (case wk_cost w (ca_input cat + tin) (ca_output cat + tout) of None \<Rightarrow> 0 | Some x \<Rightarrow> x) \<and>
    get_processed_at (conn rc 2) i (rc_between rc 1 db1) = None \<and>
    (let db2 = rc_between rc 1 db1; db' = ro_db (extract_conversation w rc i job db) in
     rs_topic r = Some path \<and> rs_entries r = length items \<and> get_id (conn rc 2) path db' = Inr topic_id \<and>
     entries db' = entries db2 @ news \<and> list_all2 (filed (wk_aead w) (wk_cipher w) (rc_user rc) topic_id) items news \<and>
     convs db' = processed_by (conn rc 2) (rc_now rc 2) i (convs db2) \<and> msgs db' = msgs db2 \<and> embs db' = embs db2 \<and>
     (\<forall>j row. job = Some j \<and> row \<in> set (jobs db2) \<and> job_at (conn rc 2) j row \<and> active_job row \<longrightarrow>
        (\<exists>t \<le> 1. completed (rc_now rc 2) t (int (length items)) (rs_cents r) row \<in> set (jobs db'))) \<and>
     ro_events (extract_conversation w rc i job db) = [(path, length items)])"
proof (cases rule: extract_conversation_cases [where w = w and rc = rc and i = i and job = job and db = db])
  case (untopical pk ms ts db1 period cat)
  then show ?thesis
    using assms(1,2) by (cases rule: no_topic_phase_cases [where w = w and rc = rc and i = i and job = job and known = "snd pk"
      and period = period and cat = cat and db = "rc_between rc 1 db1"]) auto
next
  case (writing pk ms ts db1 period cat path answer)
  obtain items tin tout where answer: "answer = (items, tin, tout)" by (cases answer)
  show ?thesis
  proof (cases rule: write_phase_cases [where w = w and rc = rc and i = i and job = job and known = "snd pk" and period = period and cat = cat
      and path = path and answer = answer and db = "rc_between rc 1 db1"])
    case (written r' db')
    then have r: "r' = r" using assms(1) writing(6) by simp
    have run: "extract_conversation w rc i job db =
        \<lparr>ro_result = Inr r, ro_db = db', ro_calls = settle w rc period (rs_cents r), ro_events = [(path, rs_entries r)]\<rparr>"
      using writing(6) written(3) r by simp
    have idle: "get_processed_at (conn rc 2) i (rc_between rc 1 db1) = None"
      using written(1) by (simp add: check_idempotent_def)
    note rows = persist_extraction_rows [OF written(2) harden_valid [OF writing(4)] assms(3,4)]
    then obtain topic_id news where new: "get_id (conn rc 2) path db' = Inr topic_id" "entries db' = entries (rc_between rc 1 db1) @ news"
        "list_all2 (filed (wk_aead w) (wk_cipher w) (rc_user rc) topic_id) items news"
      by (auto simp: answer)
    have n: "rs_entries r = length items" using rows by (simp add: answer r)
    have jobrow: "\<forall>j row. job = Some j \<and> row \<in> set (jobs (rc_between rc 1 db1)) \<and> job_at (conn rc 2) j row \<and> active_job row \<longrightarrow>
        (\<exists>t \<le> 1. completed (rc_now rc 2) t (int (length items)) (rs_cents r) row \<in> set (jobs db'))"
      using rows unfolding r n by blast
    have cents: "rs_cents r = (case wk_cost w (ca_input cat + tin) (ca_output cat + tout) of None \<Rightarrow> 0 | Some x \<Rightarrow> x)"
      using written(6-8) by (simp add: r answer)
    show ?thesis
      by (rule exI [of _ pk], rule exI [of _ db1], rule exI [of _ ms], rule exI [of _ ts], rule exI [of _ cat], rule exI [of _ path],
          rule exI [of _ items], rule exI [of _ tin], rule exI [of _ tout], rule exI [of _ topic_id], rule exI [of _ news])
        (use rows new jobrow idle cents extract_phase1_content [OF writing(1)] phase1_loads [OF writing(1)] writing(1,3-5) written(4)
          in \<open>simp add: run answer r Let_def\<close>)
  qed (use assms(1,2) writing(6) in auto)
qed (use assms(1,2) in auto)

section \<open>Running once, settling once\<close>

lemma load_finds_conversation:
  "load_conversation_for_extraction s a c i db = Inr l \<Longrightarrow> conv_by_id s i db \<noteq> None"
  by (auto simp: load_conversation_for_extraction_def read_conversation_by_id_def conv_with_path_def res_simps split: option.splits)

lemma phase1_finds_conversation:
  assumes "extract_phase1 s a c now i job db = (pk, Inr (Some l, db1))"
  shows "conv_by_id s i db1 \<noteq> None"
  using assms load_finds_conversation
  by (fastforce simp: extract_phase1_def Let_def res_simps split: if_splits option.splits sum.splits)

lemma processed_by_lookup:
  "conv_by_id s i (db\<lparr>convs := processed_by s now i (convs db)\<rparr>) =
   map_option (\<lambda>c. if cv_processed c = None then c\<lparr>cv_processed := Some now\<rparr> else c) (conv_by_id s i db)"
proof -
  have "sql_first (\<lambda>c. vis s (cv_user c) \<and> cv_id c = i) (processed_by s now i cs) =
      map_option (\<lambda>c. if cv_processed c = None then c\<lparr>cv_processed := Some now\<rparr> else c)
        (sql_first (\<lambda>c. vis s (cv_user c) \<and> cv_id c = i) cs)" for cs
    by (induction cs) (auto simp: processed_by_def sql_first_def)
  then show ?thesis by (simp add: conv_by_id_def)
qed

text \<open>
  Property C29. A conversation is extracted at most once: after a run has written its answer,
  every later run of any worker for the same user and conversation, with whatever job, is
  skipped, changes nothing, asks nothing of the model and records no cost, as long as the other
  sessions keep the conversation and its processed mark.
\<close>

theorem extracted_at_most_once:
  assumes "ro_result (extract_conversation w rc i job db) = Inr r" and "\<not> rs_skipped r"
    and "cipher_ok (wk_aead w) (wk_cipher w)" and "\<forall>n. length (rc_nonce rc n) = 11"
    and "\<forall>d. conv_by_id (conn rc 1) i d \<noteq> None \<longrightarrow> conv_by_id (conn rc 2) i (rc_between rc 1 d) \<noteq> None"
    and "rc_user rc' = rc_user rc" and "rc_active rc' 1"
    and "get_processed_at (conn rc' 1) i db2 = get_processed_at (conn rc' 1) i (ro_db (extract_conversation w rc i job db))"
  shows "extract_conversation w' rc' i job' db2 = run_skipped 0 0 0 db2 []"
proof (cases rule: extract_conversation_cases [where w = w and rc = rc and i = i and job = job and db = db])
  case (untopical pk ms ts db1 period cat)
  then show ?thesis
    using assms(1,2) by (cases rule: no_topic_phase_cases [where w = w and rc = rc and i = i and job = job and known = "snd pk"
      and period = period and cat = cat and db = "rc_between rc 1 db1"]) auto
next
  case (writing pk ms ts db1 period cat path answer)
  show ?thesis
  proof (cases rule: write_phase_cases [where w = w and rc = rc and i = i and job = job and known = "snd pk" and period = period and cat = cat
      and path = path and answer = answer and db = "rc_between rc 1 db1"])
    case (written r' db')
    let ?d = "rc_between rc 1 db1"
    note rows = persist_extraction_rows [OF written(2) harden_valid [OF writing(4)] assms(3,4)]
    then have same: "conn rc' 1 = conn rc 2" and cs: "convs db' = processed_by (conn rc 2) (rc_now rc 2) i (convs ?d)"
      using assms(6,7) by (simp_all add: conn_def)
    have "conv_by_id (conn rc 2) i db' = conv_by_id (conn rc 2) i (?d\<lparr>convs := processed_by (conn rc 2) (rc_now rc 2) i (convs ?d)\<rparr>)"
      by (simp add: conv_by_id_def cs)
    moreover have "conv_by_id (conn rc 2) i ?d \<noteq> None"
      using assms(5) phase1_finds_conversation [OF writing(1)] by blast
    ultimately have "get_processed_at (conn rc' 1) i db' \<noteq> None"
      unfolding same processed_by_lookup by (auto simp: get_processed_at_def)
    then have "check_idempotent (conn rc' 1) i db2"
      using assms(8) writing(6) written(3) by (simp add: check_idempotent_def)
    then show ?thesis by (simp add: extract_conversation_def extract_phase1_def)
  qed (use assms(1,2) writing(6) in auto)
qed (use assms(1,2) in auto)

text \<open>The run found, after the model's answer, that another worker had finished first.\<close>

definition lost_race :: "worker \<Rightarrow> run_ctx \<Rightarrow> int \<Rightarrow> (string \<times> ptext) list \<times> string list \<Rightarrow> jdb \<Rightarrow> bool" where
  "lost_race w rc i l db1 =
     (case wk_categorize w (fst l) (snd l) of
        Inl e \<Rightarrow> False
      | Inr cat \<Rightarrow> (case harden_llm_topic_path (ca_path cat) 256 of
          None \<Rightarrow> False
        | Some path \<Rightarrow> (case wk_extract w (fst l) path of
            Inl e \<Rightarrow> False | Inr answer \<Rightarrow> check_idempotent (conn rc 2) i (rc_between rc 1 db1))))"

text \<open>
  Once the conversation is loaded, a run settles its advance charge exactly once and
  in the billing period stored with the job: with the cost of the answer when it is written, and
  with nothing, a full refund, when it fails or finds no topic, as long as the commits succeed.  The
  one exception is a race
  lost to another worker, which settles nothing and leaves the job as it is.
\<close>

theorem run_settles_once:
  assumes "extract_phase1 (conn rc 1) (wk_aead w) (wk_cipher w) (rc_now rc 1) i (Some j) db = ((Some p, True), Inr (Some l, db1))"
    and "wk_budget w" and "rc_commit rc 1 = None" and "rc_commit rc 2 = None"
  shows "ro_calls (extract_conversation w rc i (Some j) db) =
    (if lost_race w rc i l db1 then []
     else [\<lparr>cc_user = rc_user rc, cc_period = p,
            cc_actual = (case ro_result (extract_conversation w rc i (Some j) db) of Inl e \<Rightarrow> 0 | Inr r \<Rightarrow> rs_cents r),
            cc_estimated = wk_pre_charge w\<rparr>]) \<and>
    (lost_race w rc i l db1 \<longrightarrow> ro_db (extract_conversation w rc i (Some j) db) = rc_between rc 1 db1)"
proof (cases rule: extract_conversation_cases [where w = w and rc = rc and i = i and job = "Some j" and db = db])
  case (model pk ms ts db1' period exn)
  have "\<not> lost_race w rc i l db1" using assms(1) model(1,3) by (auto simp: lost_race_def)
  then show ?thesis using assms model by (auto simp: settle_def)
next
  case (untopical pk ms ts db1' period cat)
  have "\<not> lost_race w rc i l db1" using assms(1) untopical(1,3,4) by (auto simp: lost_race_def)
  then show ?thesis
    using assms untopical
    by (cases rule: no_topic_phase_cases [where w = w and rc = rc and i = i and job = "Some j" and known = "snd pk"
      and period = period and cat = cat and db = "rc_between rc 1 db1'"]) (auto simp: settle_def)
next
  case (writing pk ms ts db1' period cat path answer)
  have l: "lost_race w rc i l db1 = check_idempotent (conn rc 2) i (rc_between rc 1 db1)"
    using assms(1) writing(1,3,4,5) by (auto simp: lost_race_def)
  then show ?thesis
    using assms writing
    by (cases rule: write_phase_cases [where w = w and rc = rc and i = i and job = "Some j" and known = "snd pk" and period = period and cat = cat
      and path = path and answer = answer and db = "rc_between rc 1 db1'"]) (auto simp: settle_def)
qed (use assms(1,3) in auto)

section \<open>Examples\<close>
definition demo_seal :: "ptext \<Rightarrow> sealed" where
  "demo_seal t = (case encrypt demo_aead demo_cipher (replicate 11 0) t of Inr x \<Rightarrow> x | Inl e \<Rightarrow> ([], []))"

lemma demo_seal: "list_all scalar_value t \<Longrightarrow> encrypt demo_aead demo_cipher (replicate 11 0) t = Inr (demo_seal t)"
  using encrypt_succeeds [OF demo_cipher_ok, of t "replicate 11 0"] by (auto simp: demo_seal_def)

lemma demo_open: "list_all scalar_value t \<Longrightarrow> open_column demo_aead demo_cipher (Some (demo_seal t)) = Inr (Some t)"
  using seal_open_column [OF demo_cipher_ok _ demo_seal] by simp

definition work_conv :: conv_row where
  "work_conv = \<lparr>cv_id = 1, cv_topic = 1, cv_slug = ''plan'', cv_source = ''claude'', cv_tags = [], cv_participants = [],
     cv_message_count = 0, cv_json_path = None, cv_created = 3, cv_updated = 3, cv_user = 7, cv_search = None,
     cv_title = demo_seal [104, 105], cv_summary = demo_seal [104], cv_platform = None, cv_platform_id = None, cv_processed = None\<rparr>"

text \<open>The sample journal with one readable conversation and a job for it.\<close>

definition work_jdb :: jdb where
  "work_jdb = set_jobs [new_job 3 0 7 1 ''claude'' job_day] (sample_jdb\<lparr>convs := [work_conv]\<rparr>)"

lemma work_conv_simps [simp]: "cv_id work_conv = 1" "cv_user work_conv = 7" "cv_processed work_conv = None" "cv_topic work_conv = 1"
   "cv_tags work_conv = []" "cv_title work_conv = demo_seal [104, 105]" "cv_summary work_conv = demo_seal [104]"
  by (simp_all add: work_conv_def)

lemma work_rows [simp]: "convs work_jdb = [work_conv]" "topics work_jdb = topics sample_jdb" "msgs work_jdb = []"
  "jobs work_jdb = [new_job 3 0 7 1 ''claude'' job_day]" "entries work_jdb = entries sample_jdb"
  by (simp_all add: work_jdb_def sample_jdb_def empty_jdb_def)

lemma valid_work: "validate_topic ''work'' = Inr ''work''" "validate_topic ''work/lab'' = Inr ''work/lab''"
  by code_simp+

lemma sample_topic_1: "map_option tp_path (topic_by_id demo_session 1 sample_jdb) = Some ''work''"
  by code_simp

lemma work_loads:
  assumes "convs d = [work_conv]" and "topics d = topics sample_jdb"
    and "rmap_list (message_from_row demo_aead demo_cipher False) (message_rows demo_session 1 d) = Inr ls"
  shows "\<exists>ts. load_conversation_for_extraction demo_session demo_aead demo_cipher 1 d = Inr (map (\<lambda>m. (ms_role m, ms_content m)) ls, ts)"
proof -
  have path: "conv_path demo_session d work_conv = Some ''work''"
    using sample_topic_1 by (simp add: conv_path_def topic_by_id_def assms(2))
  have "conv_by_id demo_session 1 d = Some work_conv" by (simp add: conv_by_id_def assms sql_first_def vis_def)
  then have conv: "conv_with_path demo_session 1 d = Inr (work_conv, ''work'')" by (simp add: conv_with_path_def path)
  have open_columns: "open_column demo_aead demo_cipher (Some (demo_seal [104, 105])) = Inr (Some [104, 105])"
      "open_column demo_aead demo_cipher (Some (demo_seal [104])) = Inr (Some [104])"
    by (rule demo_open, simp add: scalar_value_def)+
  then have "\<exists>m. row_to_meta demo_aead demo_cipher False ''work'' work_conv = Inr m"
    by (simp add: row_to_meta_def title_summary_def valid_work check_tags_def)
  then have read: "\<exists>m n. read_conversation_by_id demo_session demo_aead demo_cipher 1 False d = Inr (m, ls, n)"
    using assms(3) by (auto simp: read_conversation_by_id_def conv)
  have "set (newest_topics (topics_under demo_session None d)) \<subseteq> set (topics sample_jdb)"
    by (auto simp: newest_topics_def topics_under_def sql_simps assms(2))
  moreover have "\<exists>m. row_to_topic_meta t n = Inr m" if "t \<in> set (topics sample_jdb)" for t n
    using that valid_work by (auto simp: row_to_topic_meta_def sample_jdb_def)
  ultimately have all: "\<And>t n. t \<in> set (newest_topics (topics_under demo_session None d)) \<Longrightarrow> \<exists>m. row_to_topic_meta t n = Inr m"
    by blast
  have "\<exists>ys. rmap_list f xs = Inr ys" if "\<And>x. x \<in> set xs \<Longrightarrow> \<exists>y. f x = Inr y" for f :: "topic_row \<Rightarrow> jerror + topic_meta" and xs
    using that by (induction xs) fastforce+
  from this [of "newest_topics (topics_under demo_session None d)" "\<lambda>t. row_to_topic_meta t (entry_count demo_session d (tp_id t))"] all
  have "\<exists>metas n. list_all_topics demo_session None None 0 d = Inr (metas, n)"
    by (auto simp: list_all_topics_def prefix_pattern_def page_def count_topics_def Let_def)
  with read show ?thesis by (auto simp: load_conversation_for_extraction_def)
qed

definition demo_worker :: worker where
  "demo_worker = \<lparr>wk_aead = demo_aead, wk_cipher = demo_cipher,
     wk_categorize = (\<lambda>ms ts. Inr \<lparr>ca_path = Some ''work'', ca_title = ''Work'', ca_input = 10, ca_output = 2\<rparr>),
     wk_extract = (\<lambda>ms path. Inr ([\<lparr>ex_content = [104, 105], ex_reasoning = [104], ex_tags = [], ex_date = None\<rparr>], 5, 1)),
     wk_cost = (\<lambda>x y. Some 3), wk_budget = True, wk_pre_charge = 5\<rparr>"

definition demo_run :: run_ctx where
  "demo_run = \<lparr>rc_user = 7, rc_active = (\<lambda>k. True), rc_now = (\<lambda>k. int k), rc_today = job_day,
     rc_nonce = (\<lambda>k. replicate 11 0), rc_attempt = ''a'', rc_period = job_day, rc_between = (\<lambda>k d. d), rc_commit = (\<lambda>k. None)\<rparr>"

lemma demo_phase1_from:
  assumes "convs d = [work_conv]" and "topics d = topics sample_jdb" and "jobs d = [new_job 3 0 7 1 ''claude'' job_day]"
    and "rmap_list (message_from_row demo_aead demo_cipher False) (message_rows demo_session 1 d) = Inr ls"
  obtains ts where "extract_phase1 demo_session demo_aead demo_cipher 1 1 (Some 3) d =
     ((Some job_day, True), Inr (Some (map (\<lambda>m. (ms_role m, ms_content m)) ls, ts), set_jobs [started 1 (new_job 3 0 7 1 ''claude'' job_day)] d))"
proof -
  have idle: "\<not> check_idempotent demo_session 1 d"
    by (simp add: check_idempotent_def get_processed_at_def conv_by_id_def sql_first_def vis_def assms(1))
  have run: "mark_running demo_session 1 3 d = Inr (set_jobs [started 1 (new_job 3 0 7 1 ''claude'' job_day)] d)"
    by (simp add: mark_running_def job_at_def sql_update_def active_keys_ok_def assms(3) Let_def) (simp add: new_job_def vis_def)
  have period: "get_period_start demo_session 3 (set_jobs [started 1 (new_job 3 0 7 1 ''claude'' job_day)] d) = Some job_day"
    by (simp add: get_period_start_def sql_first_def) (simp add: started_def new_job_def vis_def)
  have "message_rows demo_session 1 (set_jobs x d) = message_rows demo_session 1 d" for x by (simp add: message_rows_def)
  with assms obtain ts where "load_conversation_for_extraction demo_session demo_aead demo_cipher 1
      (set_jobs [started 1 (new_job 3 0 7 1 ''claude'' job_day)] d) = Inr (map (\<lambda>m. (ms_role m, ms_content m)) ls, ts)"
    using work_loads [of "set_jobs [started 1 (new_job 3 0 7 1 ''claude'' job_day)] d" ls] by auto
  then show ?thesis using that idle run period by (simp add: extract_phase1_def)
qed

lemma demo_phase1:
  obtains l where "extract_phase1 demo_session demo_aead demo_cipher 1 1 (Some 3) work_jdb =
     ((Some job_day, True), Inr (Some l, set_jobs [started 1 (new_job 3 0 7 1 ''claude'' job_day)] work_jdb))"
proof -
  have "rmap_list (message_from_row demo_aead demo_cipher False) (message_rows demo_session 1 work_jdb) = Inr []"
    by (simp add: message_rows_def sql_select_def)
  then show ?thesis by (rule demo_phase1_from [OF work_rows(1,2,4)]) (rule that)
qed

lemma get_id_work: "topics d = topics sample_jdb \<Longrightarrow> get_id demo_session ''work'' d = Inr 1"
  using sample_work by (simp add: get_id_def topic_by_path_def)

lemma demo_conn [simp]: "conn demo_run k = demo_session"
  by (simp add: conn_def demo_run_def)

lemma demo_fields [simp]:
  "wk_aead demo_worker = demo_aead" "wk_cipher demo_worker = demo_cipher" "wk_budget demo_worker" "wk_pre_charge demo_worker = 5"
  "rc_user demo_run = 7" "rc_now demo_run k = int k" "rc_nonce demo_run k = replicate 11 0" "rc_between demo_run k d = d"
  "rc_active demo_run k" "rc_commit demo_run k = None"
  by (simp_all add: demo_worker_def demo_run_def)

definition running_jdb :: jdb where
  "running_jdb = set_jobs [started 1 (new_job 3 0 7 1 ''claude'' job_day)] work_jdb"

lemma demo_persists:
  "\<exists>db'. persist_extraction demo_session demo_aead demo_cipher 2 job_day (\<lambda>k. replicate 11 0) attempt 7 1 (Some 3) ''work'' title
     [\<lparr>ex_content = [104, 105], ex_reasoning = [104], ex_tags = [], ex_date = None\<rparr>] 3 running_jdb = Inr (1, db')"
proof -
  have id: "get_id demo_session ''work'' running_jdb = Inr 1" by (rule get_id_work) (simp add: running_jdb_def)
  have enc: "encrypt demo_aead demo_cipher (replicate 11 0) [104, 105] = Inr (demo_seal [104, 105])"
      "encrypt demo_aead demo_cipher (replicate 11 0) [104] = Inr (demo_seal [104])"
    by (rule demo_seal, simp add: scalar_value_def)+
  have "\<exists>k db'. append_entry demo_session demo_aead demo_cipher 2 job_day (replicate 11 0) (replicate 11 0) ''work'' [104, 105] (Some [104])
      (Some []) None running_jdb = Inr (k, db')"
    by (simp add: append_entry_def id enc seal_opt_def insert_entry_def)
  then obtain k db' where "append_entry demo_session demo_aead demo_cipher 2 job_day (replicate 11 0) (replicate 11 0) ''work'' [104, 105] (Some [104])
      (Some []) None running_jdb = Inr (k, db')" by blast
  moreover have "complete_job demo_session 2 7 1 (Some 3) 0 (Suc 0) 3 d \<noteq> Inl e" for d e
    by (auto simp: complete_job_def record_audit_def split: prod.split)
  then have "\<exists>db''. complete_job demo_session 2 7 1 (Some 3) 0 (Suc 0) 3 d = Inr db''" for d
    by (metis sumE)
  then have "\<exists>db''. rmap (Pair (Suc 0)) (complete_job demo_session 2 7 1 (Some 3) 0 (Suc 0) 3 d) = Inr (Suc 0, db'')" for d
    by (metis rmap.simps(2))
  ultimately show ?thesis
    by (simp add: persist_extraction_def ensure_topic_def id record_audit_def)
qed

lemma demo_run_writes:
  "\<exists>r db'. extract_conversation demo_worker demo_run 1 (Some 3) work_jdb =
     \<lparr>ro_result = Inr r, ro_db = db', ro_calls = [\<lparr>cc_user = 7, cc_period = job_day, cc_actual = 3, cc_estimated = 5\<rparr>],
      ro_events = [(''work'', 1)]\<rparr> \<and> \<not> rs_skipped r \<and> rs_cents r = 3"
proof -
  obtain l where p: "extract_phase1 demo_session demo_aead demo_cipher 1 1 (Some 3) work_jdb = ((Some job_day, True), Inr (Some l, running_jdb))"
    using demo_phase1 unfolding running_jdb_def by blast
  obtain ms ts where l: "l = (ms, ts)" by (cases l)
  have h: "harden_llm_topic_path (Some ''work'') 256 = Some ''work''" by code_simp
  have idle: "\<not> check_idempotent demo_session 1 running_jdb"
    by (simp add: check_idempotent_def get_processed_at_def conv_by_id_def sql_first_def vis_def running_jdb_def)
  obtain db' where w: "persist_extraction demo_session demo_aead demo_cipher 2 job_day (\<lambda>k. replicate 11 0) ''a'' 7 1 (Some 3) ''work'' ''Work''
     [\<lparr>ex_content = [104, 105], ex_reasoning = [104], ex_tags = [], ex_date = None\<rparr>] 3 running_jdb = Inr (1, db')"
    using demo_persists by blast
  have nonce: "rc_nonce demo_run = (\<lambda>k. replicate 11 0)" by (simp add: demo_run_def)
  have cat: "wk_categorize demo_worker ms ts = Inr \<lparr>ca_path = Some ''work'', ca_title = ''Work'', ca_input = 10, ca_output = 2\<rparr>"
    and ext: "wk_extract demo_worker ms ''work'' = Inr ([\<lparr>ex_content = [104, 105], ex_reasoning = [104], ex_tags = [], ex_date = None\<rparr>], 5, 1)"
    and cost: "wk_cost demo_worker x y = Some 3" for x y
    by (simp_all add: demo_worker_def)
  have day: "rc_today demo_run = job_day" "rc_attempt demo_run = ''a''" by (simp_all add: demo_run_def)
  show ?thesis
    using p l w by (simp add: extract_conversation_def cat h ext write_phase_def idle cost settle_def nonce day Let_def)
qed

theorem successful_run_writes_answer_witness:
  "\<exists>r. ro_result (extract_conversation demo_worker demo_run 1 (Some 3) work_jdb) = Inr r \<and>
     (\<exists>news. length news = rs_entries r \<and>
        entries (ro_db (extract_conversation demo_worker demo_run 1 (Some 3) work_jdb)) = entries work_jdb @ news)"
proof -
  obtain r where r: "ro_result (extract_conversation demo_worker demo_run 1 (Some 3) work_jdb) = Inr r" "\<not> rs_skipped r"
    using demo_run_writes by fastforce
  from successful_run_writes_answer [OF r] demo_cipher_ok obtain db1 items topic_id news where "journal_of db1 = journal_of work_jdb"
      "rs_entries r = length items" "entries (ro_db (extract_conversation demo_worker demo_run 1 (Some 3) work_jdb)) = entries db1 @ news"
      "list_all2 (filed demo_aead demo_cipher 7 topic_id) items news"
    by (auto simp: Let_def)
  with r(1) show ?thesis by (auto simp: list_all2_lengthD dest: content_eqD(4))
qed

theorem extracted_at_most_once_witness:
  "\<exists>db'. ro_db (extract_conversation demo_worker demo_run 1 (Some 3) work_jdb) = db' \<and>
     extract_conversation demo_worker demo_run 1 None db' = run_skipped 0 0 0 db' []"
proof -
  obtain r where r: "ro_result (extract_conversation demo_worker demo_run 1 (Some 3) work_jdb) = Inr r" "\<not> rs_skipped r"
    using demo_run_writes by fastforce
  from extracted_at_most_once [OF r, of demo_run] demo_cipher_ok show ?thesis by simp
qed

theorem run_settles_once_witness:
  "ro_calls (extract_conversation demo_worker demo_run 1 (Some 3) work_jdb) = [\<lparr>cc_user = 7, cc_period = job_day, cc_actual = 3, cc_estimated = 5\<rparr>]"
proof -
  obtain l where p: "extract_phase1 (conn demo_run 1) (wk_aead demo_worker) (wk_cipher demo_worker) (rc_now demo_run 1) 1 (Some 3) work_jdb =
      ((Some job_day, True), Inr (Some l, running_jdb))"
    using demo_phase1 unfolding running_jdb_def by fastforce
  have "\<not> check_idempotent demo_session 1 running_jdb"
    by (simp add: check_idempotent_def get_processed_at_def conv_by_id_def sql_first_def vis_def running_jdb_def)
  then have "\<not> lost_race demo_worker demo_run 1 l running_jdb"
    by (simp add: lost_race_def demo_worker_def split: option.split)
  with run_settles_once [OF p] demo_run_writes show ?thesis by auto
qed

definition limited_worker :: worker where
  "limited_worker = demo_worker\<lparr>wk_categorize := (\<lambda>ms ts. Inl RateLimited)\<rparr>"

theorem failed_run_writes_nothing_witness:
  "ro_result (extract_conversation limited_worker demo_run 1 (Some 3) work_jdb) = Inl RateLimited \<and>
   entries (ro_db (extract_conversation limited_worker demo_run 1 (Some 3) work_jdb)) = entries work_jdb"
proof -
  obtain l where p: "extract_phase1 demo_session demo_aead demo_cipher 1 1 (Some 3) work_jdb = ((Some job_day, True), Inr (Some l, running_jdb))"
    using demo_phase1 unfolding running_jdb_def by blast
  have r: "ro_result (extract_conversation limited_worker demo_run 1 (Some 3) work_jdb) = Inl RateLimited"
    using p by (cases l) (simp add: extract_conversation_def limited_worker_def Let_def)
  from failed_run_writes_nothing [OF r] r show ?thesis by (auto simp: left_by_failure_def dest!: content_eqD(4))
qed

text \<open>
  Observations.  The refund of a run that cannot load its conversation goes to the period of the
  moment, although the period of the job is known by then.
\<close>

lemma load_failure_settles_elsewhere:
  assumes "extract_phase1 (conn rc 1) (wk_aead w) (wk_cipher w) (rc_now rc 1) i (Some j) db = ((Some p, True), Inl e)" and "wk_budget w"
  shows "map cc_period (ro_calls (extract_conversation w rc i (Some j) db)) = [rc_period rc]"
  using assms by (simp add: extract_conversation_def settle_def)

text \<open>
  The cost is recorded before the write transaction commits: when the commit fails, the advance
  charge is credited twice, once against the cost and once in full.
\<close>

lemma commit_failure_settles_twice:
  assumes "\<not> check_idempotent (conn rc 2) i db" and "rc_commit rc 2 = Some e" and "wk_budget w"
    and "persist_extraction (conn rc 2) (wk_aead w) (wk_cipher w) (rc_now rc 2) (rc_today rc) (rc_nonce rc)
      (rc_attempt rc) (rc_user rc) i job path (ca_title cat) items cents db = Inr (n, db')"
    and "wk_cost w (ca_input cat + tin) (ca_output cat + tout) = Some cents"
  shows "map cc_actual (ro_calls (write_phase w rc i job True period cat path (items, tin, tout) db)) = [cents, 0]"
  using assms by (simp add: write_phase_def settle_def Let_def)

end
