(* ===== verification/Llm.thy ===== *)
theory Llm
  imports Worker PyUuid "HOL-Library.Sublist"
begin

text \<open>
  The language model behind the extraction worker: \<open>gubbi/extraction/service.py\<close>, which asks the
  two questions and reads the answers, and its providers \<open>gubbi/extraction/llm/\<close>, the Anthropic
  client with its retry loop and the stub of the test bench.

  The SDK is an argument: what a request answers, as a response or one of its exceptions.
  Delays and prices are rational numbers; the rounding of floats is not modelled.
\<close>

section \<open>Errors of a provider\<close>

datatype sdk_exn =
  RateLimitError | APIConnectionError | APIResponseValidationError | APIStatusError int | OtherSdkError

datatype llm_error = LLMProviderError | LLMTransientError | LLMRateLimitError | LLMPermanentError

text \<open>\<open>isinstance(exc, LLMTransientError)\<close>, of which the rate limit is a subclass.\<close>

fun transient :: "llm_error \<Rightarrow> bool" where
  "transient LLMTransientError = True"
| "transient LLMRateLimitError = True"
| "transient LLMProviderError = False"
| "transient LLMPermanentError = False"

fun translate_anthropic_error :: "sdk_exn \<Rightarrow> llm_error" where
  "translate_anthropic_error RateLimitError = LLMRateLimitError"
| "translate_anthropic_error APIConnectionError = LLMTransientError"
| "translate_anthropic_error APIResponseValidationError = LLMTransientError"
| "translate_anthropic_error (APIStatusError code) = (if 500 \<le> code then LLMTransientError else LLMPermanentError)"
| "translate_anthropic_error OtherSdkError = LLMPermanentError"

section \<open>The retry loop\<close>

definition ANTHROPIC_MAX_RETRIES :: nat where "ANTHROPIC_MAX_RETRIES = 5"
definition ANTHROPIC_REQUEST_TIMEOUT_SECS :: nat where "ANTHROPIC_REQUEST_TIMEOUT_SECS = 120"

datatype call_error = Translated llm_error | RetryLoopExited

text \<open>
  The loop from attempt \<open>n\<close> on: \<open>answer n\<close> is what the SDK answers to it and \<open>u n\<close> the
  number between 0 and 1 that \<open>random.uniform\<close> scales.  The result comes with the delays slept.
\<close>

function retry_loop :: "(nat \<Rightarrow> sdk_exn + 'r) \<Rightarrow> (nat \<Rightarrow> rat) \<Rightarrow> nat \<Rightarrow> (call_error + 'r) \<times> rat list" where
  "retry_loop answer u n =
     (if n < ANTHROPIC_MAX_RETRIES
      then case answer n of
             Inr r \<Rightarrow> (Inr r, [])
           | Inl exc \<Rightarrow>
               (let translated = translate_anthropic_error exc in
                if \<not> transient translated then (Inl (Translated translated), [])
                else if n < ANTHROPIC_MAX_RETRIES - 1
                then let base = 2 ^ n; delay = base + u n * (base / 10);
                         rest = retry_loop answer u (n + 1)
                     in (fst rest, delay # snd rest)
                else (Inl (Translated translated), []))
      else (Inl RetryLoopExited, []))"
  by pat_completeness auto

termination
  by (relation "measure (\<lambda>(answer, u, n). ANTHROPIC_MAX_RETRIES - n)") auto

declare retry_loop.simps [simp del]

definition call_with_retry :: "(nat \<Rightarrow> sdk_exn + 'r) \<Rightarrow> (nat \<Rightarrow> rat) \<Rightarrow> (call_error + 'r) \<times> rat list" where
  "call_with_retry answer u = retry_loop answer u 0"

section \<open>JSON\<close>

datatype json = JNull | JBool bool | JNum rat | JStr ptext | JList "json list" | JDict "(string \<times> json) list"

text \<open>\<open>json.dumps\<close> of a text: ASCII only, other characters as UTF-16 escapes.\<close>

definition u_escape :: "nat \<Rightarrow> ptext" where
  "u_escape n = text_of ([CHR 0x5C, CHR ''u''] @ hex_fixed 4 n)"

definition json_escape :: "nat \<Rightarrow> ptext" where
  "json_escape c =
     (if c = 34 then [92, 34] else if c = 92 then [92, 92]
      else if c = 8 then [92, 98] else if c = 12 then [92, 102] else if c = 10 then [92, 110]
      else if c = 13 then [92, 114] else if c = 9 then [92, 116]
      else if 32 \<le> c \<and> c \<le> 126 then [c]
      else if c < 65536 then u_escape c
      else u_escape (55296 + (c - 65536) div 1024) @ u_escape (56320 + (c - 65536) mod 1024))"

definition json_quote :: "ptext \<Rightarrow> ptext" where
  "json_quote t = [34] @ concat (map json_escape t) @ [34]"

fun json_commas :: "ptext list \<Rightarrow> ptext" where
  "json_commas [] = []"
| "json_commas [x] = x"
| "json_commas (x # y # zs) = x @ text_of '', '' @ json_commas (y # zs)"

definition json_array :: "ptext list \<Rightarrow> ptext" where
  "json_array xs = [91] @ json_commas xs @ [93]"

definition json_object :: "(string \<times> ptext) list \<Rightarrow> ptext" where
  "json_object fs = [123] @ json_commas (map (\<lambda>(k, v). json_quote (text_of k) @ text_of '': '' @ v) fs) @ [125]"

section \<open>The service\<close>

record llm_response =
  lr_content :: "ptext + (string \<times> json) list"
  lr_input :: int
  lr_output :: int

datatype service_error = LlmError llm_error | LlmValueError | ExtractionError "string list" | LlmKeyError string | LlmTypeError
  | LlmAttributeError | LlmRuntimeError

text \<open>
  A provider answers the messages, the system prompt and the schema.  \<open>sv_loads\<close> is
  \<open>json.loads\<close> and \<open>sv_float\<close> says which texts \<open>float\<close> accepts; the prompts are files.
\<close>

type_synonym provider = "(string \<times> ptext) list \<Rightarrow> ptext \<Rightarrow> (string \<times> json) list option \<Rightarrow> service_error + llm_response"

record service =
  sv_complete :: provider
  sv_loads :: "ptext \<Rightarrow> json option"
  sv_float :: "ptext \<Rightarrow> bool"
  sv_prompt :: "string \<Rightarrow> ptext"

definition typed_as :: "string \<Rightarrow> string \<times> json" where
  "typed_as t = (''type'', JStr (text_of t))"

definition required_fields :: "string list \<Rightarrow> string \<times> json" where
  "required_fields ks = (''required'', JList (map (\<lambda>k. JStr (text_of k)) ks))"

definition CATEGORIZE_REQUIRED_FIELDS :: "string list" where
  "CATEGORIZE_REQUIRED_FIELDS = [''topic_path'', ''topic_title'', ''summary'', ''confidence'']"

definition CATEGORIZE_SCHEMA :: "(string \<times> json) list" where
  "CATEGORIZE_SCHEMA =
     [typed_as ''object'',
      (''properties'', JDict [(''topic_path'', JDict [typed_as ''string'']), (''topic_title'', JDict [typed_as ''string'']),
         (''summary'', JDict [typed_as ''string'']), (''confidence'', JDict [typed_as ''number''])]),
      required_fields CATEGORIZE_REQUIRED_FIELDS]"

definition EXTRACT_SCHEMA :: "(string \<times> json) list" where
  "EXTRACT_SCHEMA =
     [typed_as ''object'',
      (''properties'', JDict [(''entries'', JDict [typed_as ''array'',
         (''items'', JDict [typed_as ''object'',
            (''properties'', JDict [(''content'', JDict [typed_as ''string'']), (''reasoning'', JDict [typed_as ''string'']),
               (''tags'', JDict [typed_as ''array'', (''items'', JDict [typed_as ''string''])]),
               (''entry_date'', JDict [typed_as ''string''])]),
            required_fields [''content'', ''reasoning'', ''tags'']])])]),
      required_fields [''entries'']]"

definition parse_content :: "service \<Rightarrow> ptext + (string \<times> json) list \<Rightarrow> service_error + json" where
  "parse_content sv content =
     (case content of
        Inr d \<Rightarrow> Inr (JDict d)
      | Inl t \<Rightarrow> (case sv_loads sv t of None \<Rightarrow> Inl LlmValueError | Some v \<Rightarrow> Inr v))"

definition message_json :: "string \<times> ptext \<Rightarrow> ptext" where
  "message_json m = json_object [(''role'', json_quote (text_of (fst m))), (''content'', json_quote (snd m))]"

definition categorize_prompt :: "(string \<times> ptext) list \<Rightarrow> string list \<Rightarrow> ptext" where
  "categorize_prompt messages existing_topics =
     json_object [(''messages'', json_array (map message_json messages)),
       (''existing_topics'', json_array (map (\<lambda>t. json_quote (text_of t)) existing_topics))]"

definition extract_prompt :: "(string \<times> ptext) list \<Rightarrow> string \<Rightarrow> ptext" where
  "extract_prompt messages topic =
     json_object [(''messages'', json_array (map message_json messages)), (''topic'', json_quote (text_of topic))]"

text \<open>\<open>float(v)\<close> succeeds on numbers, booleans and the texts of numbers.\<close>

fun check_float :: "service \<Rightarrow> json \<Rightarrow> service_error + unit" where
  "check_float sv (JNum q) = Inr ()"
| "check_float sv (JBool b) = Inr ()"
| "check_float sv (JStr t) = (if sv_float sv t then Inr () else Inl LlmValueError)"
| "check_float sv v = Inl LlmTypeError"

record raw_categorization =
  rw_path :: json
  rw_title :: json
  rw_summary :: json
  rw_input :: int
  rw_output :: int

definition categorize_conversation ::
  "service \<Rightarrow> (string \<times> ptext) list \<Rightarrow> string list \<Rightarrow> service_error + raw_categorization" where
  "categorize_conversation sv messages existing_topics =
     rbind (sv_complete sv [(''user'', categorize_prompt messages existing_topics)] (sv_prompt sv ''categorize.md'') (Some CATEGORIZE_SCHEMA))
       (\<lambda>response. rbind (parse_content sv (lr_content response)) (\<lambda>parsed.
          case parsed of
            JDict d \<Rightarrow>
              (let missing = filter (\<lambda>k. map_of d k = None) [''confidence'', ''summary'', ''topic_path'', ''topic_title'']
               in if missing \<noteq> [] then Inl (ExtractionError missing)
                  else rmap (\<lambda>_. \<lparr>rw_path = the (map_of d ''topic_path''), rw_title = the (map_of d ''topic_title''),
                              rw_summary = the (map_of d ''summary''), rw_input = lr_input response, rw_output = lr_output response\<rparr>)
                         (check_float sv (the (map_of d ''confidence''))))
          | _ \<Rightarrow> Inl LlmAttributeError))"

record raw_entry =
  re_content :: json
  re_reasoning :: json
  re_tags :: json
  re_date :: json

definition field :: "(string \<times> json) list \<Rightarrow> string \<Rightarrow> service_error + json" where
  "field d k = (case map_of d k of None \<Rightarrow> Inl (LlmKeyError k) | Some v \<Rightarrow> Inr v)"

fun parse_entry :: "json \<Rightarrow> service_error + raw_entry" where
  "parse_entry (JDict d) =
     rbind (field d ''content'') (\<lambda>c. rbind (field d ''reasoning'') (\<lambda>r. rmap (\<lambda>t.
       \<lparr>re_content = c, re_reasoning = r, re_tags = t,
        re_date = (case map_of d ''entry_date'' of None \<Rightarrow> JNull | Some v \<Rightarrow> v)\<rparr>) (field d ''tags'')))"
| "parse_entry v = Inl LlmTypeError"

fun parse_entries :: "json list \<Rightarrow> service_error + raw_entry list" where
  "parse_entries [] = Inr []"
| "parse_entries (v # vs) = rbind (parse_entry v) (\<lambda>e. rmap ((#) e) (parse_entries vs))"

text \<open>Iterating a dictionary or a text gives texts, which have no fields.\<close>

fun iterate :: "json \<Rightarrow> service_error + json list" where
  "iterate (JList vs) = Inr vs"
| "iterate (JDict d) = Inr (map (\<lambda>(k, v). JStr (text_of k)) d)"
| "iterate (JStr t) = Inr (map (\<lambda>c. JStr [c]) t)"
| "iterate v = Inl LlmTypeError"

definition extract_entries :: "service \<Rightarrow> (string \<times> ptext) list \<Rightarrow> string \<Rightarrow> service_error + (raw_entry list \<times> int \<times> int)" where
  "extract_entries sv messages topic =
     rbind (sv_complete sv [(''user'', extract_prompt messages topic)] (sv_prompt sv ''extract_entries.md'') (Some EXTRACT_SCHEMA))
       (\<lambda>response. rbind (parse_content sv (lr_content response)) (\<lambda>parsed.
          case parsed of
            JDict d \<Rightarrow>
              rbind (iterate (case map_of d ''entries'' of None \<Rightarrow> JList [] | Some v \<Rightarrow> v)) (\<lambda>vs.
              rmap (\<lambda>es. (es, lr_input response, lr_output response)) (parse_entries vs))
          | _ \<Rightarrow> Inl LlmAttributeError))"

section \<open>The Anthropic provider\<close>

record block =
  bk_name :: "string option"
  bk_input :: json
  bk_text :: ptext

record sdk_response =
  am_content :: "block list"
  am_input :: int
  am_output :: int

record sdk_request =
  aq_model :: string
  aq_messages :: "(string \<times> ptext) list"
  aq_system :: ptext
  aq_max_tokens :: int
  aq_respond_schema :: "(string \<times> json) list option"

definition DEFAULT_MODEL :: string where "DEFAULT_MODEL = ''claude-haiku-4-5-20251001''"

definition model_or_default :: "string \<Rightarrow> string" where
  "model_or_default configured = (if configured = [] then DEFAULT_MODEL else configured)"

definition DEFAULT_MAX_TOKENS :: int where "DEFAULT_MAX_TOKENS = 4096"

text \<open>The input of the first block named \<open>respond\<close>; \<open>str\<close> writes one that is no dictionary.\<close>

fun respond_content :: "(json \<Rightarrow> ptext) \<Rightarrow> block list \<Rightarrow> ptext + (string \<times> json) list" where
  "respond_content str [] = Inl []"
| "respond_content str (b # bs) =
     (if bk_name b = Some ''respond'' then (case bk_input b of JDict d \<Rightarrow> Inr d | v \<Rightarrow> Inl (str v))
      else respond_content str bs)"

definition anthropic_complete ::
  "string \<Rightarrow> (json \<Rightarrow> ptext) \<Rightarrow> (sdk_request \<Rightarrow> nat \<Rightarrow> sdk_exn + sdk_response) \<Rightarrow> (nat \<Rightarrow> rat) \<Rightarrow> provider" where
  "anthropic_complete configured str sdk u messages system_prompt schema =
     (case fst (call_with_retry (sdk \<lparr>aq_model = model_or_default configured, aq_messages = messages, aq_system = system_prompt,
              aq_max_tokens = DEFAULT_MAX_TOKENS, aq_respond_schema = schema\<rparr>) u) of
        Inl (Translated e) \<Rightarrow> Inl (LlmError e)
      | Inl RetryLoopExited \<Rightarrow> Inl LlmRuntimeError
      | Inr response \<Rightarrow>
          (let answer = (\<lambda>content. \<lparr>lr_content = content, lr_input = am_input response, lr_output = am_output response\<rparr>) in
           case schema of
             None \<Rightarrow> Inr (answer (Inl (case am_content response of [] \<Rightarrow> [] | b # bs \<Rightarrow> bk_text b)))
           | Some sch \<Rightarrow>
               (let content = respond_content str (am_content response) in
                if content = Inl [] then Inl LlmValueError else Inr (answer content))))"

section \<open>Prices\<close>

text \<open>\<open>round\<close> rounds a half to the even neighbour.\<close>

definition py_round :: "rat \<Rightarrow> int" where
  "py_round q =
     (let f = \<lfloor>q\<rfloor>; d = q - of_int f
      in if d < 1 / 2 then f else if 1 / 2 < d then f + 1 else if even f then f else f + 1)"

definition round6 :: "rat \<Rightarrow> rat" where
  "round6 q = of_int (py_round (q * 1000000)) / 1000000"

definition MODEL_PRICING :: "(string \<times> rat \<times> rat) list" where
  "MODEL_PRICING =
     [(''claude-haiku-4-5-20251001'', 1, 5), (''claude-sonnet-4-20250514'', 3, 15), (''claude-opus-4-20250514'', 15, 75)]"

definition estimate_cost_cents :: "string \<Rightarrow> int \<Rightarrow> int \<Rightarrow> rat" where
  "estimate_cost_cents model input_tokens output_tokens =
     (case (case map_of MODEL_PRICING model of None \<Rightarrow> (1, 5) | Some p \<Rightarrow> p) of
        (p_in, p_out) \<Rightarrow> round6 (of_int input_tokens / 1000000 * p_in * 100 + of_int output_tokens / 1000000 * p_out * 100))"

section \<open>The stub of the test bench\<close>

definition FAIL_MARKER :: ptext where "FAIL_MARKER = text_of ''FAKE_LLM_FAIL''"
definition PERMANENT_MARKER :: ptext where "PERMANENT_MARKER = text_of ''FAKE_LLM_FAIL_PERMANENT''"

fun join_spaces :: "ptext list \<Rightarrow> ptext" where
  "join_spaces [] = []"
| "join_spaces [x] = x"
| "join_spaces (x # y # zs) = x @ [32] @ join_spaces (y # zs)"

definition canned_content_for_schema :: "(string \<times> json) list option \<Rightarrow> service_error + (ptext + (string \<times> json) list)" where
  "canned_content_for_schema schema =
     (case schema of
        None \<Rightarrow> Inr (Inl (text_of ''fake free-form response from FakeLLMProvider''))
      | Some sch \<Rightarrow>
          (let properties = (case map_of sch ''properties'' of Some (JDict ps) \<Rightarrow> ps | _ \<Rightarrow> [])
           in if map_of properties ''topic_path'' \<noteq> None
              then Inr (Inr [(''topic_path'', JStr (text_of ''testbench/fake'')),
                (''topic_title'', JStr (text_of ''Testbench Fake Topic'')),
                (''summary'', JStr (text_of ''Canned categorization summary from FakeLLMProvider.'')),
                (''confidence'', JNum (9 / 10))])
              else if map_of properties ''entries'' \<noteq> None
              then Inr (Inr [(''entries'', JList [JDict
                [(''content'', JStr (text_of ''fake decision marker from FakeLLMProvider'')),
                 (''reasoning'', JStr (text_of ''canned reasoning from FakeLLMProvider'')),
                 (''tags'', JList [JStr (text_of ''fake''), JStr (text_of ''testbench'')])]])])
              else Inl LlmValueError))"

definition fake_complete :: provider where
  "fake_complete messages system_prompt schema =
     (let joined_content = join_spaces (map snd messages)
      in if sublist PERMANENT_MARKER joined_content then Inl (LlmError LLMPermanentError)
         else if sublist FAIL_MARKER joined_content then Inl (LlmError LLMTransientError)
         else rmap (\<lambda>content. \<lparr>lr_content = content, lr_input = 100, lr_output = 50\<rparr>) (canned_content_for_schema schema))"

definition fake_estimate_cost_cents :: "int \<Rightarrow> int \<Rightarrow> rat" where
  "fake_estimate_cost_cents input_tokens output_tokens =
     round6 (of_int input_tokens / 1000000 * 1 * 100 + of_int output_tokens / 1000000 * 5 * 100)"

section \<open>The worker over a service\<close>

text \<open>
  What the job sees of an exception, and of an answer.  The service does not check that the
  values it passes on are texts; an answer in which they are not cannot be written and is an
  internal error.  A path is looked at only as far as the hardening looks: one that is no text,
  or has a character the pattern of topics refuses, is none.
\<close>

definition job_exn_of :: "service_error \<Rightarrow> job_exn" where
  "job_exn_of e = (case e of LlmError LLMRateLimitError \<Rightarrow> RateLimited | LlmError _ \<Rightarrow> ProviderFailed | _ \<Rightarrow> InternalOther)"

definition latin_text :: "json \<Rightarrow> string option" where
  "latin_text v = (case v of JStr t \<Rightarrow> if list_all (\<lambda>c. c < 256) t then Some (map char_of t) else None | _ \<Rightarrow> None)"

definition text_value :: "json \<Rightarrow> ptext option" where
  "text_value v = (case v of JStr t \<Rightarrow> Some t | _ \<Rightarrow> None)"

definition typed_entry :: "raw_entry \<Rightarrow> extracted option" where
  "typed_entry r =
     (case (text_value (re_content r), text_value (re_reasoning r), re_tags r) of
        (Some c, Some e, JList ts) \<Rightarrow>
          (if list_all (\<lambda>t. text_value t \<noteq> None) ts \<and> (re_date r = JNull \<or> latin_text (re_date r) \<noteq> None)
           then Some \<lparr>ex_content = c, ex_reasoning = e, ex_tags = map (the \<circ> text_value) ts, ex_date = latin_text (re_date r)\<rparr>
           else None)
      | _ \<Rightarrow> None)"

definition service_worker :: "service \<Rightarrow> (int \<Rightarrow> int \<Rightarrow> rat) \<Rightarrow> worker \<Rightarrow> worker" where
  "service_worker sv price w =
     w\<lparr>wk_categorize := (\<lambda>ms ts.
          case categorize_conversation sv ms ts of
            Inl e \<Rightarrow> Inl (job_exn_of e)
          | Inr c \<Rightarrow> (case latin_text (rw_title c) of
                None \<Rightarrow> Inl InternalOther
              | Some title \<Rightarrow> Inr \<lparr>ca_path = latin_text (rw_path c), ca_title = title, ca_input = rw_input c, ca_output = rw_output c\<rparr>)),
       wk_extract := (\<lambda>ms path.
          case extract_entries sv ms path of
            Inl e \<Rightarrow> Inl (job_exn_of e)
          | Inr (es, i, o') \<Rightarrow>
              if list_all (\<lambda>r. typed_entry r \<noteq> None) es then Inr (map (the \<circ> typed_entry) es, i, o') else Inl InternalOther),
       wk_cost := (\<lambda>i o'. Some (py_round (price i o')))\<rparr>"

text \<open>The stub charges what the default model costs.\<close>

lemma fake_price_is_default: "fake_estimate_cost_cents i j = estimate_cost_cents DEFAULT_MODEL i j"
  by (simp add: fake_estimate_cost_cents_def estimate_cost_cents_def MODEL_PRICING_def DEFAULT_MODEL_def)

section \<open>What the retry loop does\<close>

text \<open>An answer that is retried, and what the caller gets when the loop stops at an attempt.\<close>

definition flaky :: "(nat \<Rightarrow> sdk_exn + 'r) \<Rightarrow> nat \<Rightarrow> bool" where
  "flaky answer i = (case answer i of Inl exc \<Rightarrow> transient (translate_anthropic_error exc) | Inr r \<Rightarrow> False)"

definition reply :: "(nat \<Rightarrow> sdk_exn + 'r) \<Rightarrow> nat \<Rightarrow> call_error + 'r" where
  "reply answer i = (case answer i of Inl exc \<Rightarrow> Inl (Translated (translate_anthropic_error exc)) | Inr r \<Rightarrow> Inr r)"

definition backoff :: "(nat \<Rightarrow> rat) \<Rightarrow> nat \<Rightarrow> rat" where
  "backoff u i = 2 ^ i * (1 + u i / 10)"

text \<open>How many of the attempts are retried: the transient failures the run begins with, four at most.\<close>

definition retried :: "(nat \<Rightarrow> sdk_exn + 'r) \<Rightarrow> nat" where
  "retried answer = length (takeWhile (flaky answer) [0..<ANTHROPIC_MAX_RETRIES - 1])"

lemma retry_loop_flaky:
  "n < ANTHROPIC_MAX_RETRIES - 1 \<Longrightarrow> flaky answer n \<Longrightarrow>
   retry_loop answer u n = (fst (retry_loop answer u (n + 1)), backoff u n # snd (retry_loop answer u (n + 1)))"
  by (subst retry_loop.simps) (auto simp: flaky_def backoff_def Let_def algebra_simps split: sum.splits)

lemma retry_loop_stops:
  "n < ANTHROPIC_MAX_RETRIES \<Longrightarrow> \<not> flaky answer n \<or> n = ANTHROPIC_MAX_RETRIES - 1 \<Longrightarrow> retry_loop answer u n = (reply answer n, [])"
  by (subst retry_loop.simps) (auto simp: flaky_def reply_def Let_def split: sum.splits)

lemma retry_loop_exact:
  assumes "n < ANTHROPIC_MAX_RETRIES"
  shows "retry_loop answer u n =
    (let m = n + length (takeWhile (flaky answer) [n..<ANTHROPIC_MAX_RETRIES - 1]) in (reply answer m, map (backoff u) [n..<m]))"
  using assms
proof (induction "ANTHROPIC_MAX_RETRIES - 1 - n" arbitrary: n)
  case 0
  then have "n = ANTHROPIC_MAX_RETRIES - 1" by simp
  then show ?case by (simp add: retry_loop_stops ANTHROPIC_MAX_RETRIES_def)
next
  case (Suc k)
  then have lt: "n < ANTHROPIC_MAX_RETRIES - 1" by simp
  show ?case
  proof (cases "flaky answer n")
    case True
    define m where "m = Suc n + length (takeWhile (flaky answer) [Suc n..<ANTHROPIC_MAX_RETRIES - 1])"
    have "n < m" by (simp add: m_def)
    have "retry_loop answer u (Suc n) = (reply answer m, map (backoff u) [Suc n..<m])"
      using Suc.hyps(1) [of "Suc n"] Suc.hyps(2) lt unfolding m_def by (auto simp: Let_def)
    moreover have "n + length (takeWhile (flaky answer) [n..<ANTHROPIC_MAX_RETRIES - 1]) = m"
      using True lt by (simp add: m_def upt_conv_Cons del: upt_Suc)
    ultimately show ?thesis
      using retry_loop_flaky [OF lt True, of u] \<open>n < m\<close> by (simp add: upt_conv_Cons Let_def)
  next
    case False
    with lt retry_loop_stops [of n answer u] show ?thesis by (simp add: upt_conv_Cons)
  qed
qed

text \<open>
  Property C39.  A call to the model ends, after at most five requests: the loop stops at the first
  request whose answer is no transient failure, or at the fifth, and gives the caller that
  request's response or its error in the provider's own hierarchy; before each further request it
  has slept twice as long as before, with a tenth of jitter at most.  It never leaves the loop by
  its end.
\<close>

theorem call_with_retry_exact:
  "call_with_retry answer u = (reply answer (retried answer), map (backoff u) [0..<retried answer]) \<and>
   retried answer < ANTHROPIC_MAX_RETRIES \<and> fst (call_with_retry answer u) \<noteq> Inl RetryLoopExited"
proof -
  have exact: "call_with_retry answer u = (reply answer (retried answer), map (backoff u) [0..<retried answer])"
    unfolding call_with_retry_def retried_def using retry_loop_exact [of 0 answer u] by (simp add: ANTHROPIC_MAX_RETRIES_def Let_def)
  have "retried answer \<le> length [0..<ANTHROPIC_MAX_RETRIES - 1]" unfolding retried_def by (rule length_takeWhile_le)
  then have "retried answer < ANTHROPIC_MAX_RETRIES" by (simp add: ANTHROPIC_MAX_RETRIES_def)
  with exact show ?thesis by (auto simp: reply_def split: sum.splits)
qed

lemma retried_le: "retried answer \<le> 4"
  using length_takeWhile_le [of "flaky answer" "[0..<ANTHROPIC_MAX_RETRIES - 1]"] by (simp add: retried_def ANTHROPIC_MAX_RETRIES_def)

lemma backoff_bounds: "0 \<le> u i \<Longrightarrow> u i \<le> 1 \<Longrightarrow> 2 ^ i \<le> backoff u i \<and> backoff u i \<le> 2 ^ i * (11 / 10)"
  by (simp add: backoff_def)

lemma sum_backoff_bounds:
  assumes "\<And>i. 0 \<le> u i \<and> u i \<le> 1"
  shows "2 ^ n - 1 \<le> sum_list (map (backoff u) [0..<n]) \<and> sum_list (map (backoff u) [0..<n]) \<le> (2 ^ n - 1) * (11 / 10)"
proof (induction n)
  case (Suc n)
  with backoff_bounds [of u n] assms show ?case by auto
qed simp

definition timeouts :: "nat \<Rightarrow> sdk_exn + sdk_response" where "timeouts i = Inl APIConnectionError"

text \<open>
  Five requests that time out one after the other take longer than the job they belong to may,
  which the queue then cancels.
\<close>

lemma retry_budget_exceeds_job_timeout:
  "rat_of_int ARQ_JOB_TIMEOUT_SECS <
     of_nat (ANTHROPIC_MAX_RETRIES * ANTHROPIC_REQUEST_TIMEOUT_SECS) + sum_list (snd (call_with_retry timeouts (\<lambda>_. 0)))"
proof -
  have "retry_loop timeouts (\<lambda>_. 0) 0 =
      (Inl (Translated LLMTransientError), map (backoff (\<lambda>_. 0)) [0..<4])"
    using retry_loop_exact [of 0 timeouts "\<lambda>_. 0"]
    by (simp add: ANTHROPIC_MAX_RETRIES_def flaky_def reply_def timeouts_def Let_def upt_conv_Cons)
  then show ?thesis
    by (simp add: call_with_retry_def ANTHROPIC_MAX_RETRIES_def ANTHROPIC_REQUEST_TIMEOUT_SECS_def ARQ_JOB_TIMEOUT_SECS_def
        backoff_def upt_conv_Cons)
qed

text \<open>
  What a call to the model may take.  It asks for one request more than it sleeps,
  five at most; with jitter between none and all of its tenth, the sleeping before \<open>n\<close> further
  requests lasts at least \<open>2^n - 1\<close> seconds and at most eleven tenths of that, so never longer than
  16.5 seconds, and is all of the waiting there is beside the requests.
\<close>

theorem retry_sleep_bounds:
  assumes "\<forall>i. 0 \<le> u i \<and> u i \<le> 1"
  shows "length (snd (call_with_retry answer u)) = retried answer \<and> Suc (retried answer) \<le> ANTHROPIC_MAX_RETRIES \<and>
    2 ^ retried answer - 1 \<le> sum_list (snd (call_with_retry answer u)) \<and>
    sum_list (snd (call_with_retry answer u)) \<le> (2 ^ retried answer - 1) * (11 / 10) \<and>
    sum_list (snd (call_with_retry answer u)) \<le> 33 / 2"
proof -
  define n where "n = retried answer"
  have slept: "snd (call_with_retry answer u) = map (backoff u) [0..<n]"
    unfolding call_with_retry_def n_def retried_def
    using retry_loop_exact [of 0 answer u] by (simp add: ANTHROPIC_MAX_RETRIES_def Let_def)
  have four: "n \<le> 4" unfolding n_def by (rule retried_le)
  from sum_backoff_bounds [of u n] assms have sums: "2 ^ n - 1 \<le> sum_list (map (backoff u) [0..<n])"
    "sum_list (map (backoff u) [0..<n]) \<le> (2 ^ n - 1) * (11 / 10)" by auto
  have "(2 :: rat) ^ n \<le> 2 ^ 4" using four by (intro power_increasing) auto
  then have "((2 :: rat) ^ n - 1) * (11 / 10) \<le> 33 / 2" by simp
  with sums slept four show ?thesis by (simp add: n_def ANTHROPIC_MAX_RETRIES_def)
qed

theorem retry_sleep_bounds_witness:
  "retried timeouts = 4 \<and> sum_list (snd (call_with_retry timeouts (\<lambda>_. 1 / 2))) \<le> 33 / 2"
proof -
  have "retried timeouts = 4" by (simp add: retried_def ANTHROPIC_MAX_RETRIES_def flaky_def timeouts_def upt_conv_Cons)
  with retry_sleep_bounds [of "\<lambda>_. 1 / 2" timeouts] show ?thesis by simp
qed

section \<open>A planted marker fails the job\<close>

lemma sublist_appends: "sublist m x \<Longrightarrow> sublist m (a @ x @ b)"
  by (meson sublist_appendI sublist_order.order_trans)

lemma sublist_commas: "x \<in> set xs \<Longrightarrow> sublist m x \<Longrightarrow> sublist m (json_commas xs)"
proof (induction xs rule: json_commas.induct)
  case (3 x' y zs)
  show ?case
  proof (cases "x = x'")
    case True
    with 3 sublist_appends [of m x' "[]"] show ?thesis by simp
  next
    case False
    with 3 have "sublist m (json_commas (y # zs))" by auto
    with sublist_appends [of m "json_commas (y # zs)" "x' @ text_of '', ''" "[]"] show ?thesis by simp
  qed
qed auto

lemma sublist_quote:
  assumes "sublist m t" "concat (map json_escape m) = m"
  shows "sublist m (json_quote t)"
proof -
  obtain a b where "t = a @ m @ b" using assms(1) by (auto simp: sublist_def)
  then have "concat (map json_escape t) = concat (map json_escape a) @ m @ concat (map json_escape b)" using assms(2) by simp
  then have "sublist m (concat (map json_escape t))" by auto
  then show ?thesis unfolding json_quote_def by (rule sublist_appends)
qed

lemma sublist_object:
  assumes "(k, v) \<in> set fs" "sublist m v"
  shows "sublist m (json_object fs)"
proof -
  have "sublist m (json_quote (text_of k) @ text_of '': '' @ v)"
    using sublist_appends [OF assms(2), of "json_quote (text_of k) @ text_of '': ''" "[]"] by simp
  with assms(1) show ?thesis
    unfolding json_object_def by (intro sublist_appends [of m "json_commas xs" for xs]) (rule sublist_commas [of "json_quote (text_of k) @ text_of '': '' @ v"], force+)
qed

lemma sublist_array: "v \<in> set vs \<Longrightarrow> sublist m v \<Longrightarrow> sublist m (json_array vs)"
  unfolding json_array_def by (rule sublist_appends) (rule sublist_commas)

lemma sublist_message: "sublist m (snd x) \<Longrightarrow> concat (map json_escape m) = m \<Longrightarrow> sublist m (message_json x)"
  unfolding message_json_def by (rule sublist_object [of "''content''" "json_quote (snd x)"]) (auto intro: sublist_quote)

lemma sublist_categorize_prompt:
  assumes "x \<in> set ms" "sublist m (snd x)" "concat (map json_escape m) = m"
  shows "sublist m (categorize_prompt ms ts)"
  unfolding categorize_prompt_def
  by (rule sublist_object [of "''messages''" "json_array (map message_json ms)"])
    (use assms in \<open>auto intro!: sublist_array [of "message_json x"] sublist_message\<close>)

lemma marker_unescaped: "concat (map json_escape FAIL_MARKER) = FAIL_MARKER"
  by code_simp

text \<open>
  The test bench's marker fails the job through every layer: when any message of the
  conversation holds the failure marker, anywhere and between any other characters, the question
  the service writes holds it too, the stub refuses it, and the run ends in a provider error: the
  job is marked failed with that code in a transaction of its own, the charge is returned in the
  job's period, no event is published and nothing else is written.
\<close>

theorem marked_conversation_fails_job:
  assumes "extract_phase1 (conn rc 1) (wk_aead w) (wk_cipher w) (rc_now rc 1) i (Some j) db = ((Some p, True), Inr (Some (ms, ts), db1))"
    and "m \<in> set ms" and "sublist FAIL_MARKER (snd m)" and "sv_complete sv = fake_complete"
    and "\<And>k. rc_commit rc k = None"
  shows "extract_conversation (service_worker sv price w) rc i (Some j) db =
    \<lparr>ro_result = Inl ProviderFailed,
     ro_db = mark_job_failed (conn rc 3) (rc_now rc 3) (rc_user rc) j i ''llm_provider_error'' (rc_between rc 2 db1),
     ro_calls = settle w rc p 0, ro_events = []\<rparr>"
proof -
  have "sublist FAIL_MARKER (join_spaces (map snd [(''user'', categorize_prompt ms ts)]))"
    using sublist_categorize_prompt [OF assms(2,3) marker_unescaped] by simp
  then obtain e where "fake_complete [(''user'', categorize_prompt ms ts)] (sv_prompt sv ''categorize.md'') (Some CATEGORIZE_SCHEMA) = Inl (LlmError e)"
    "e = LLMPermanentError \<or> e = LLMTransientError"
    unfolding fake_complete_def Let_def by (metis)
  then have "wk_categorize (service_worker sv price w) ms ts = Inl ProviderFailed"
    by (auto simp: service_worker_def categorize_conversation_def assms(4) job_exn_of_def)
  moreover have "wk_aead (service_worker sv price w) = wk_aead w" "wk_cipher (service_worker sv price w) = wk_cipher w"
    "settle (service_worker sv price w) rc p 0 = settle w rc p 0"
    by (simp_all add: service_worker_def settle_def)
  ultimately show ?thesis
    using assms(1,5) by (simp add: extract_conversation_def run_failed_def Let_def)
qed

text \<open>The sample conversation with one message, in which the marker stands between other words.\<close>

definition marked_text :: ptext where
  "marked_text = [83, 97, 121, 32, 34] @ FAIL_MARKER @ [34, 32, 110, 111, 119]"

definition marked_jdb :: jdb where
  "marked_jdb = work_jdb\<lparr>msgs := [\<lparr>mg_conv = 1, mg_role = ''user'', mg_timestamp = None, mg_position = 0, mg_user = 7,
     mg_content = demo_seal marked_text, mg_search = None\<rparr>]\<rparr>"

definition fake_service :: service where
  "fake_service = \<lparr>sv_complete = fake_complete, sv_loads = (\<lambda>t. None), sv_float = (\<lambda>t. False), sv_prompt = (\<lambda>f. [])\<rparr>"

theorem marked_conversation_fails_job_witness:
  "ro_result (extract_conversation (service_worker fake_service fake_estimate_cost_cents demo_worker) demo_run 1 (Some 3) marked_jdb) =
     Inl ProviderFailed \<and>
   ro_calls (extract_conversation (service_worker fake_service fake_estimate_cost_cents demo_worker) demo_run 1 (Some 3) marked_jdb) =
     [\<lparr>cc_user = 7, cc_period = job_day, cc_actual = 0, cc_estimated = 5\<rparr>]"
proof -
  have "list_all (\<lambda>c. c < 128) FAIL_MARKER" by code_simp
  then have "list_all scalar_value FAIL_MARKER" by (auto simp: list_all_iff scalar_value_def)
  then have chars: "list_all scalar_value marked_text" by (simp add: marked_text_def scalar_value_def)
  have "decrypt_or_raise demo_aead demo_cipher (fst (demo_seal marked_text)) (snd (demo_seal marked_text)) = Inr marked_text"
    using demo_open [OF chars] by (cases "decrypt_or_raise demo_aead demo_cipher (fst (demo_seal marked_text)) (snd (demo_seal marked_text))")
      (auto simp: open_column_def decrypt_content_field_def)
  then have "rmap_list (message_from_row demo_aead demo_cipher False) (message_rows demo_session 1 marked_jdb) =
      Inr [\<lparr>ms_role = ''user'', ms_content = marked_text, ms_timestamp = None, ms_failed = False\<rparr>]"
    by (simp add: message_rows_def marked_jdb_def sql_select_def vis_def message_from_row_def)
  from demo_phase1_from [of marked_jdb, OF _ _ _ this] obtain ts where
    p: "extract_phase1 (conn demo_run 1) (wk_aead demo_worker) (wk_cipher demo_worker) (rc_now demo_run 1) 1 (Some 3) marked_jdb =
      ((Some job_day, True), Inr (Some ([(''user'', marked_text)], ts), set_jobs [started 1 (new_job 3 0 7 1 ''claude'' job_day)] marked_jdb))"
    by (auto simp: marked_jdb_def)
  have "sublist FAIL_MARKER (snd (''user'', marked_text))"
    unfolding marked_text_def by (simp add: sublist_appends [of _ _ "[83, 97, 121, 32, 34]", simplified])
  from marked_conversation_fails_job [OF p _ this, of fake_service fake_estimate_cost_cents] show ?thesis
    by (simp add: fake_service_def settle_def)
qed

end
