(* ===== verification/Ingest.thy ===== *)
theory Ingest
  imports ExtractionJobs
begin

text \<open>
  \<open>gubbi/api/v1/ingest.py\<close>: a batch of conversations from the browser extension.  Each one is
  skipped when its platform id is known, saved under the inbox topic in a transaction of its
  own, charged in advance against the user's budget, and given an extraction job in a second
  transaction; the jobs are handed to the queue at the end.

  Other requests work between the transactions: \<open>ig_between g k n\<close> is what they do before the
  \<open>n\<close>-th transaction of conversation \<open>k\<close>.  A step that raises ends the request, and what was
  committed before stays; the state is therefore returned with the exception.
\<close>

record conv_payload =
  pc_platform :: string
  pc_platform_id :: string
  pc_title :: string
  pc_created_iso :: string
  pc_created_date :: ymd
  pc_messages :: "message list"

text \<open>
  The surroundings of one request: the user, the cipher, and for each conversation the clock,
  the nonces, the archive file and the job id drawn for it, the answer of \<open>pre_charge\<close> (\<open>None\<close>
  when it raises) or no budget helper at all, the other requests, and the pool of the job queue
  (\<open>None\<close> where there is none) with its answer to each job: accepted, one of the exceptions the
  handler logs (\<open>RedisError\<close>, \<open>OSError\<close>, \<open>TimeoutError\<close>), or another.
\<close>

datatype queue_answer = Enqueued | QueueDown | QueueRaises

record ingest_ctx =
  ig_user :: nat
  ig_active :: bool
  ig_aead :: aead
  ig_cipher :: content_cipher
  ig_now :: "nat \<Rightarrow> int"
  ig_today :: ymd
  ig_nonce :: "nat \<Rightarrow> nat \<Rightarrow> bytes"
  ig_file :: "nat \<Rightarrow> string"
  ig_job :: "nat \<Rightarrow> nat"
  ig_period :: ymd
  ig_charge :: "(nat \<Rightarrow> bool option) option"
  ig_cents :: int
  ig_between :: "nat \<Rightarrow> nat \<Rightarrow> jdb \<Rightarrow> jdb"
  ig_queue :: "(nat \<Rightarrow> queue_answer) option"

record ingest_state =
  is_db :: jdb
  is_files :: archive
  is_saved :: nat
  is_dedupe :: nat
  is_no_budget :: nat
  is_error :: nat
  is_exhausted :: bool
  is_superseded :: "string list"
  is_tasks :: "(nat \<times> int) list"
  is_charges :: nat
  is_refunds :: "cost_call list"
  is_told :: "(nat \<times> int) list"

definition ingest_session :: "ingest_ctx \<Rightarrow> session" where
  "ingest_session g = \<lparr>gs_user = ig_user g, gs_active = ig_active g\<rparr>"

definition DEFAULT_INBOX_TOPIC :: string where "DEFAULT_INBOX_TOPIC = ''inbox''"

text \<open>The transaction that makes sure of the inbox; losing the race to create it is no error.\<close>

definition ensure_inbox :: "session \<Rightarrow> int \<Rightarrow> jdb \<Rightarrow> jerror + jdb" where
  "ensure_inbox s now db =
     (case get_id s DEFAULT_INBOX_TOPIC db of
        Inr i \<Rightarrow> Inr db
      | Inl (TopicNotFound p) \<Rightarrow>
          (case create_topic s now DEFAULT_INBOX_TOPIC ''Inbox'' [] None db of
             Inr (i, db') \<Rightarrow> Inr db'
           | Inl (TopicAlreadyExists q) \<Rightarrow> Inr db
           | Inl e \<Rightarrow> Inl e)
      | Inl e \<Rightarrow> Inl e)"

definition payload_title :: "conv_payload \<Rightarrow> verror + string" where
  "payload_title p =
     (case validate_title (pc_title p) of
        Inr t \<Rightarrow> Inr t
      | Inl e \<Rightarrow> validate_title (''Conversation '' @ pc_created_iso p))"

text \<open>Transaction 1; the archive file is written even when the transaction is rolled back.\<close>

definition save_payload ::
  "ingest_ctx \<Rightarrow> nat \<Rightarrow> conv_payload \<Rightarrow> string \<Rightarrow> jdb \<Rightarrow> archive \<Rightarrow> (jerror + (save_result \<times> jdb)) \<times> archive" where
  "save_payload g k p title db files =
     (case save_conversation (ingest_session g) (ig_aead g) (ig_cipher g) (ig_now g k) (ig_today g) (ig_nonce g k) (ig_file g k)
             DEFAULT_INBOX_TOPIC title (pc_messages p) [] (pc_platform p) None (Some (isoformat (pc_created_date p))) db files of
        (r, files') \<Rightarrow>
          (rbind r (\<lambda>(res, db1). rmap (\<lambda>db2. (res, db2))
             (set_platform_metadata (ingest_session g) (sr_id res) (pc_platform p) (pc_platform_id p) db1)), files'))"

text \<open>Transaction 2: the job row and its audit row.\<close>

definition create_job :: "ingest_ctx \<Rightarrow> nat \<Rightarrow> int \<Rightarrow> string \<Rightarrow> jdb \<Rightarrow> jerror + (nat \<times> jdb)" where
  "create_job g k conv_id source db =
     (let s = ingest_session g in
      rbind (case create_pending s (ig_now g k) True (ig_job g k) (ig_user g) conv_id source (ig_period g) db of
               Inl (ExtractionJobAlreadyInFlight j) \<Rightarrow> Inr (j, db)
             | Inl e \<Rightarrow> Inl e
             | Inr r \<Rightarrow> Inr r) (\<lambda>(job, db1).
      rmap (\<lambda>db2. (job, db2)) (record_audit s (ig_user g) JobCreated (int job) [source] [] [conv_id] db1)))"

definition refund_charge :: "ingest_ctx \<Rightarrow> cost_call list" where
  "refund_charge g =
     (case ig_charge g of None \<Rightarrow> []
      | Some answer \<Rightarrow> [\<lparr>cc_user = ig_user g, cc_period = ig_period g, cc_actual = 0, cc_estimated = ig_cents g\<rparr>])"

definition charge :: "ingest_ctx \<Rightarrow> nat \<Rightarrow> bool option" where
  "charge g k = (case ig_charge g of None \<Rightarrow> Some True | Some answer \<Rightarrow> answer k)"

text \<open>The second transaction with its bookkeeping: a failure is counted and refunded.\<close>

definition enqueue_saved :: "ingest_ctx \<Rightarrow> nat \<Rightarrow> conv_payload \<Rightarrow> int \<Rightarrow> ingest_state \<Rightarrow> ingest_state" where
  "enqueue_saved g k p conv_id st =
     (let st = st\<lparr>is_charges := is_charges st + (if ig_charge g = None then 0 else 1)\<rparr>;
          db = ig_between g k 2 (is_db st)
      in case create_job g k conv_id (pc_platform p) db of
           Inl e \<Rightarrow> st\<lparr>is_db := db, is_error := is_error st + 1, is_refunds := is_refunds st @ refund_charge g\<rparr>
         | Inr (job, db') \<Rightarrow> st\<lparr>is_db := db', is_tasks := is_tasks st @ [(job, conv_id)]\<rparr>)"

text \<open>One conversation of the batch; the exception that ends the request comes with the state.\<close>

definition ingest_one :: "ingest_ctx \<Rightarrow> nat \<Rightarrow> conv_payload \<Rightarrow> ingest_state \<Rightarrow> ingest_state \<times> jerror option" where
  "ingest_one g k p st =
     (let s = ingest_session g; db0 = ig_between g k 0 (is_db st); st0 = st\<lparr>is_db := db0\<rparr> in
      if exists_by_platform_id s (ig_user g) (pc_platform p) (pc_platform_id p) db0
      then (st0\<lparr>is_dedupe := is_dedupe st0 + 1\<rparr>, None)
      else case payload_title p of
        Inl e \<Rightarrow> (st0, Some (JInvalid e))
      | Inr title \<Rightarrow>
          (let db1 = ig_between g k 1 db0; st1 = st0\<lparr>is_db := db1\<rparr> in
           case save_payload g k p title db1 (is_files st1) of
             (Inl UniqueViolation, files) \<Rightarrow> (st1\<lparr>is_files := files, is_dedupe := is_dedupe st1 + 1\<rparr>, None)
           | (Inl e, files) \<Rightarrow> (st1\<lparr>is_files := files\<rparr>, Some e)
           | (Inr (res, db2), files) \<Rightarrow>
               (let st2 = st1\<lparr>is_db := db2, is_files := files, is_saved := is_saved st1 + 1,
                      is_superseded := is_superseded st1 @ (case sr_superseded res of None \<Rightarrow> [] | Some x \<Rightarrow> [x])\<rparr> in
                case charge g k of
                  None \<Rightarrow> (st2, Some JRuntimeError)
                | Some False \<Rightarrow> (st2\<lparr>is_no_budget := is_no_budget st2 + 1, is_exhausted := True\<rparr>, None)
                | Some True \<Rightarrow> (enqueue_saved g k p (sr_id res) st2, None))))"

fun ingest_loop :: "ingest_ctx \<Rightarrow> nat \<Rightarrow> conv_payload list \<Rightarrow> ingest_state \<Rightarrow> ingest_state \<times> jerror option" where
  "ingest_loop g k [] st = (st, None)"
| "ingest_loop g k (p # ps) st =
     (case ingest_one g k p st of
        (st', Some e) \<Rightarrow> (st', Some e)
      | (st', None) \<Rightarrow> ingest_loop g (Suc k) ps st')"

definition ingest_start :: "jdb \<Rightarrow> archive \<Rightarrow> ingest_state" where
  "ingest_start db files = \<lparr>is_db = db, is_files = files, is_saved = 0, is_dedupe = 0, is_no_budget = 0, is_error = 0,
     is_exhausted = False, is_superseded = [], is_tasks = [], is_charges = 0, is_refunds = [], is_told = []\<rparr>"

text \<open>Handing the jobs to the queue: the first exception ends it, and one that is not logged ends the request.\<close>

fun tell_queue :: "(nat \<Rightarrow> queue_answer) \<Rightarrow> nat \<Rightarrow> (nat \<times> int) list \<Rightarrow> (nat \<times> int) list \<times> jerror option" where
  "tell_queue q k [] = ([], None)"
| "tell_queue q k (t # ts) =
     (case q k of
        Enqueued \<Rightarrow> (case tell_queue q (Suc k) ts of (told, err) \<Rightarrow> (t # told, err))
      | QueueDown \<Rightarrow> ([], None)
      | QueueRaises \<Rightarrow> ([], Some JRuntimeError))"

definition enqueue_tasks :: "ingest_ctx \<Rightarrow> ingest_state \<Rightarrow> ingest_state \<times> jerror option" where
  "enqueue_tasks g st =
     (case ig_queue g of
        None \<Rightarrow> (st, None)
      | Some q \<Rightarrow> (case tell_queue q 0 (is_tasks st) of (told, err) \<Rightarrow> (st\<lparr>is_told := told\<rparr>, err)))"

text \<open>The request; at its end the superseded archive files are deleted.\<close>

definition ingest_conversations :: "ingest_ctx \<Rightarrow> conv_payload list \<Rightarrow> jdb \<Rightarrow> archive \<Rightarrow> ingest_state \<times> jerror option" where
  "ingest_conversations g ps db files =
     (case ensure_inbox (ingest_session g) (ig_now g 0) db of
        Inl e \<Rightarrow> (ingest_start db files, Some e)
      | Inr db' \<Rightarrow>
          (case ingest_loop g 0 ps (ingest_start db' files) of
             (st, Some e) \<Rightarrow> (st, Some e)
           | (st, None) \<Rightarrow>
               (case enqueue_tasks g st of
                  (st', Some e) \<Rightarrow> (st', Some e)
                | (st', None) \<Rightarrow>
                    (st'\<lparr>is_files := foldl (\<lambda>fs x. delete_superseded_json_archive x fs) (is_files st') (is_superseded st')\<rparr>, None))))"

section \<open>The counters\<close>

definition counts_ok :: "ingest_ctx \<Rightarrow> nat \<Rightarrow> ingest_state \<Rightarrow> jerror option \<Rightarrow> bool" where
  "counts_ok g n st err =
     ((if err = None then is_saved st + is_dedupe st = n \<and> is_saved st = length (is_tasks st) + is_no_budget st + is_error st
       else is_saved st + is_dedupe st \<le> n \<and>
         (is_saved st = length (is_tasks st) + is_no_budget st + is_error st \<or>
          is_saved st = Suc (length (is_tasks st) + is_no_budget st + is_error st) \<and> err = Some JRuntimeError \<and> ig_charge g \<noteq> None)) \<and>
      is_exhausted st = (0 < is_no_budget st) \<and>
      is_charges st = (if ig_charge g = None then 0 else length (is_tasks st) + is_error st) \<and> is_told st = [] \<and>
      length (is_refunds st) = (if ig_charge g = None then 0 else is_error st))"

lemma enqueue_saved_counts:
  "is_saved (enqueue_saved g k p c st) = is_saved st" "is_dedupe (enqueue_saved g k p c st) = is_dedupe st"
  "is_told (enqueue_saved g k p c st) = is_told st"
  "is_no_budget (enqueue_saved g k p c st) = is_no_budget st" "is_exhausted (enqueue_saved g k p c st) = is_exhausted st"
  "length (is_tasks (enqueue_saved g k p c st)) + is_error (enqueue_saved g k p c st) = Suc (length (is_tasks st) + is_error st)"
  "is_charges (enqueue_saved g k p c st) = is_charges st + (if ig_charge g = None then 0 else 1)"
  "length (is_refunds (enqueue_saved g k p c st)) + (if ig_charge g = None then 0 else is_error st) =
     length (is_refunds st) + (if ig_charge g = None then 0 else is_error (enqueue_saved g k p c st))"
  by (auto simp: enqueue_saved_def refund_charge_def Let_def split: sum.split option.split)

text \<open>How one conversation ends: known already, refused, denied by the budget, or tried.\<close>

lemma ingest_one_cases:
  assumes "ingest_one g k p st = (st', err)"
  obtains (known) db files where "err = None" "st' = st\<lparr>is_db := db, is_files := files, is_dedupe := is_dedupe st + 1\<rparr>"
  | (raised) db files e where "err = Some e" "st' = st\<lparr>is_db := db, is_files := files\<rparr>"
  | (uncharged) db files sup where "err = Some JRuntimeError" "ig_charge g \<noteq> None"
      "st' = st\<lparr>is_db := db, is_files := files, is_saved := is_saved st + 1, is_superseded := is_superseded st @ sup\<rparr>"
  | (denied) db files sup where "err = None" "ig_charge g \<noteq> None"
      "st' = st\<lparr>is_db := db, is_files := files, is_saved := is_saved st + 1, is_superseded := is_superseded st @ sup,
         is_no_budget := is_no_budget st + 1, is_exhausted := True\<rparr>"
  | (tried) db files sup c where "err = None"
      "st' = enqueue_saved g k p c (st\<lparr>is_db := db, is_files := files, is_saved := is_saved st + 1, is_superseded := is_superseded st @ sup\<rparr>)"
proof (cases "exists_by_platform_id (ingest_session g) (ig_user g) (pc_platform p) (pc_platform_id p) (ig_between g k 0 (is_db st))")
  case True
  with assms show ?thesis by (intro known [where db = "ig_between g k 0 (is_db st)" and files = "is_files st"]) (auto simp: ingest_one_def Let_def)
next
  case fresh: False
  show ?thesis
  proof (cases "payload_title p")
    case (Inl e)
    with assms fresh show ?thesis by (intro raised [where db = "ig_between g k 0 (is_db st)" and files = "is_files st" and e = "JInvalid e"]) (auto simp: ingest_one_def Let_def)
  next
    case title: (Inr title)
    define db1 where "db1 = ig_between g k 1 (ig_between g k 0 (is_db st))"
    obtain r files where save: "save_payload g k p title db1 (is_files st) = (r, files)" by (cases "save_payload g k p title db1 (is_files st)") auto
    note one = assms [unfolded ingest_one_def Let_def, simplified fresh title if_False sum.case ingest_state.simps, folded db1_def]
    show ?thesis
    proof (cases r)
      case (Inl e)
      show ?thesis
      proof (cases "e = UniqueViolation")
        case True
        with one Inl show ?thesis by (intro known [where db = db1 and files = files]) (auto simp: save)
      next
        case False
        with one Inl show ?thesis by (intro raised [where db = db1 and files = files and e = e]) (cases e; simp add: save)+
      qed
    next
      case (Inr rd)
      obtain res db2 where rd: "rd = (res, db2)" by (cases rd)
      show ?thesis
      proof (cases "charge g k")
        case None
        then have "ig_charge g \<noteq> None" by (auto simp: charge_def split: option.splits)
        with None one Inr rd show ?thesis by (intro uncharged [where db = db2 and files = files]) (auto simp: save)
      next
        case (Some b)
        show ?thesis
        proof (cases b)
          case True
          with Some one Inr rd show ?thesis by (intro tried [where db = db2 and files = files and c = "sr_id res"]) (auto simp: save)
        next
          case False
          with Some have "ig_charge g \<noteq> None" by (auto simp: charge_def split: option.splits)
          with False Some one Inr rd show ?thesis by (intro denied [where db = db2 and files = files]) (auto simp: save)
        qed
      qed
    qed
  qed
qed

lemma ingest_one_counts:
  assumes "counts_ok g n st None" and "ingest_one g k p st = (st', err)"
  shows "counts_ok g (Suc n) st' err"
  using assms(2)
proof (cases rule: ingest_one_cases)
  case (tried db files sup c)
  define st2 where "st2 = st\<lparr>is_db := db, is_files := files, is_saved := is_saved st + 1, is_superseded := is_superseded st @ sup\<rparr>"
  have "is_saved st2 = Suc (is_saved st)" "is_dedupe st2 = is_dedupe st" "is_no_budget st2 = is_no_budget st" "is_error st2 = is_error st"
    "is_exhausted st2 = is_exhausted st" "is_tasks st2 = is_tasks st" "is_charges st2 = is_charges st" "is_refunds st2 = is_refunds st" "is_told st2 = is_told st"
    by (simp_all add: st2_def)
  with tried(1) tried(2) [folded st2_def] assms(1) enqueue_saved_counts [of g k p c st2] show ?thesis
    by (auto simp: counts_ok_def split: if_splits)
qed (use assms(1) in \<open>auto simp: counts_ok_def\<close>)

lemma ingest_loop_counts:
  assumes "counts_ok g n st None" and "ingest_loop g k ps st = (st', err)"
  shows "if err = None then counts_ok g (n + length ps) st' None else \<exists>m \<le> n + length ps. counts_ok g m st' err"
  using assms
proof (induction ps arbitrary: n k st)
  case Nil
  then show ?case by simp
next
  case (Cons p ps)
  obtain st1 e1 where one: "ingest_one g k p st = (st1, e1)" by (cases "ingest_one g k p st")
  have step: "counts_ok g (Suc n) st1 e1" by (rule ingest_one_counts [OF Cons.prems(1) one])
  show ?case
  proof (cases e1)
    case None
    with Cons.prems(2) one step Cons.IH [of "Suc n" st1 "Suc k"] show ?thesis by (auto split: if_splits)
  next
    case (Some e)
    with Cons.prems(2) one step show ?thesis by (auto intro!: exI [of _ "Suc n"])
  qed
qed

lemma tell_queue_told:
  "fst (tell_queue q k ts) = map snd (takeWhile (\<lambda>x. q (fst x) = Enqueued) (enumerate k ts))"
  by (induction ts arbitrary: k) (simp_all add: split_beta split: queue_answer.split)

text \<open>
  Property C40.  The counters of an ingest response add up.  When the request returns, every
  conversation of the batch was either saved or skipped as known; of the saved ones each has
  exactly one fate, an extraction job created, a refusal by the budget, or a failed job
  transaction.  The queue is told of the created jobs in their order, of all of them as long as it
  accepts them, up to the first it fails on (an exception that is logged), and of none where there
  is no queue: the counter in the response counts the jobs created, not those the queue accepted.
  The response says the budget is exhausted exactly when one conversation was refused; with a
  budget helper the user is charged once for each job tried and refunded once for each that
  failed, so what stays charged is one estimate per job created; without one nothing is charged
  or refunded.  When it ends in an exception no more conversations are counted than were sent, and
  charges and refunds are still in that relation, except that the charge itself may be what failed.
\<close>

theorem ingest_counts_add_up:
  "case ingest_conversations g ps db files of (st, err) \<Rightarrow>
     (if err = None
      then is_saved st + is_dedupe st = length ps \<and> is_saved st = length (is_tasks st) + is_no_budget st + is_error st \<and>
        is_told st = (case ig_queue g of None \<Rightarrow> [] | Some q \<Rightarrow> map snd (takeWhile (\<lambda>x. q (fst x) = Enqueued) (enumerate 0 (is_tasks st))))
      else is_saved st + is_dedupe st \<le> length ps \<and> is_saved st \<le> Suc (length (is_tasks st) + is_no_budget st + is_error st)) \<and>
     is_exhausted st = (0 < is_no_budget st) \<and>
     (if ig_charge g = None then is_charges st = 0 \<and> is_refunds st = []
      else is_charges st = length (is_tasks st) + length (is_refunds st) \<and> length (is_refunds st) = is_error st)"
proof (cases "ensure_inbox (ingest_session g) (ig_now g 0) db")
  case (Inl e)
  then show ?thesis by (simp add: ingest_conversations_def ingest_start_def)
next
  case (Inr db')
  obtain st err where loop: "ingest_loop g 0 ps (ingest_start db' files) = (st, err)" by fastforce
  have "counts_ok g 0 (ingest_start db' files) None" by (simp add: counts_ok_def ingest_start_def)
  note counts = ingest_loop_counts [OF this loop]
  show ?thesis
  proof (cases err)
    case (Some e)
    with counts Inr loop show ?thesis by (auto simp: ingest_conversations_def counts_ok_def)
  next
    case None
    then have ok: "counts_ok g (length ps) st None" using counts by simp
    obtain st' err' where told: "enqueue_tasks g st = (st', err')" by fastforce
    then have st': "st' = st\<lparr>is_told := (case ig_queue g of None \<Rightarrow> [] | Some q \<Rightarrow>
        map snd (takeWhile (\<lambda>x. q (fst x) = Enqueued) (enumerate 0 (is_tasks st))))\<rparr>"
      using ok by (auto simp: enqueue_tasks_def counts_ok_def split_beta tell_queue_told split: option.splits)
    show ?thesis
      using ok None Inr loop told by (cases err') (auto simp: ingest_conversations_def counts_ok_def st' cong: option.case_cong)
  qed
qed

end
