(* ===== verification/Replies.thy ===== *)
theory Replies
  imports Entries
begin

text \<open>
  What the outer surfaces answer: the error dictionaries of the MCP tools (\<open>gubbi/tools/errors.py\<close>),
  the limit on the size of a tool's answer (\<open>gubbi/tools/response_size.py\<close>), and the shared error
  and decryption helpers of the web API (\<open>gubbi/api/v1/web/errors.py\<close>, \<open>decryption.py\<close>).
\<close>

section \<open>Tool errors\<close>

record error_result =
  er_error :: string
  er_code :: string
  er_input :: "string option"
  er_suggestions :: "string list"

text \<open>\<open>re.sub(r"[^a-z0-9/]+", "-", s)\<close>; the flag says that a run is being skipped.\<close>

fun sub_topic_gaps :: "bool \<Rightarrow> string \<Rightarrow> string" where
  "sub_topic_gaps run [] = []"
| "sub_topic_gaps run (c # cs) =
     (if is_az09 c \<or> c = CHR ''/'' then c # sub_topic_gaps False cs
      else if run then sub_topic_gaps True cs else CHR ''-'' # sub_topic_gaps True cs)"

text \<open>\<open>re.sub(r"-{2,}", "-", s)\<close>.\<close>

fun collapse_hyphens :: "string \<Rightarrow> string" where
  "collapse_hyphens (c # d # cs) =
     (if c = CHR ''-'' \<and> d = CHR ''-'' then collapse_hyphens (d # cs) else c # collapse_hyphens (d # cs))"
| "collapse_hyphens s = s"

text \<open>\<open>s.split(sep)\<close> for a one-character separator.\<close>

fun py_split_on :: "char \<Rightarrow> string \<Rightarrow> string list" where
  "py_split_on sep [] = [[]]"
| "py_split_on sep (c # cs) =
     (if c = sep then [] # py_split_on sep cs
      else (case py_split_on sep cs of [] \<Rightarrow> [[c]] | w # ws \<Rightarrow> (c # w) # ws))"

definition topic_suggestions :: "string \<Rightarrow> string list" where
  "topic_suggestions raw =
     (let cleaned = collapse_hyphens (py_strip (\<lambda>c. c = CHR ''-'' \<or> c = CHR ''/'') (sub_topic_gaps False (py_lower raw)));
          parts = take 2 (filter (\<lambda>p. p \<noteq> []) (map (py_strip (\<lambda>c. c = CHR ''-'')) (py_split_on (CHR ''/'') cleaned)))
      in if parts \<noteq> [] then [py_join ''/'' parts] else [])"

definition invalid_topic :: "string \<Rightarrow> string \<Rightarrow> error_result" where
  "invalid_topic raw detail =
     \<lparr>er_error = (if detail \<noteq> [] then detail else ''Invalid topic path: '' @ raw), er_code = ''INVALID_TOPIC'',
      er_input = Some raw, er_suggestions = topic_suggestions raw\<rparr>"

definition invalid_date :: "string \<Rightarrow> error_result" where
  "invalid_date raw = \<lparr>er_error = ''Invalid date: '' @ raw, er_code = ''INVALID_DATE'', er_input = Some raw, er_suggestions = []\<rparr>"

definition not_found :: "string \<Rightarrow> string \<Rightarrow> error_result" where
  "not_found resource identifier =
     \<lparr>er_error = resource @ '' not found: '' @ identifier, er_code = ''NOT_FOUND'', er_input = Some identifier, er_suggestions = []\<rparr>"

definition already_exists :: "string \<Rightarrow> error_result" where
  "already_exists topic =
     \<lparr>er_error = ''Topic already exists: '' @ topic, er_code = ''ALREADY_EXISTS'', er_input = Some topic, er_suggestions = []\<rparr>"

definition validation_error :: "string \<Rightarrow> error_result" where
  "validation_error detail = \<lparr>er_error = detail, er_code = ''VALIDATION_ERROR'', er_input = None, er_suggestions = []\<rparr>"

section \<open>Answers that are too large\<close>

definition ERROR_THRESHOLD_CHARS :: nat where "ERROR_THRESHOLD_CHARS = 80000"

text \<open>The shape of an answer: the fields of a dictionary, with the length of those that are lists.\<close>

datatype payload = DictPayload "(string \<times> nat option) list" | ListPayload nat | OtherPayload

definition estimate_record_count :: "payload \<Rightarrow> nat" where
  "estimate_record_count p =
     (case p of
        DictPayload fs \<Rightarrow>
          (case List.map_filter (\<lambda>key. case map_of fs key of Some (Some n) \<Rightarrow> if n \<noteq> 0 then Some n else None | _ \<Rightarrow> None)
                  [''entries'', ''results'', ''conversations'', ''messages'', ''timeline''] of
             [] \<Rightarrow> 1 | n # _ \<Rightarrow> n)
      | ListPayload n \<Rightarrow> max 1 n
      | OtherPayload \<Rightarrow> 1)"

text \<open>
  \<open>json_size\<close> is the length of the JSON text, \<open>None\<close> when there is none.  The answer is the size and the
  suggested limit; its floating-point quotients are exact here.
\<close>

definition check_response_size :: "nat option \<Rightarrow> payload \<Rightarrow> (nat \<times> nat) option" where
  "check_response_size json_size p =
     (case json_size of
        None \<Rightarrow> None
      | Some n \<Rightarrow>
          if n > ERROR_THRESHOLD_CHARS
          then Some (n, max 1 (nat \<lfloor>rat_of_nat ERROR_THRESHOLD_CHARS / (rat_of_nat n / rat_of_nat (max 1 (estimate_record_count p))) * (1 / 2)\<rfloor>))
          else None)"

datatype 'a tool_reply = ToolOk 'a | ToolError error_result | ToolTooLarge nat nat | ToolRaised jerror

definition sized :: "('a \<Rightarrow> nat option) \<Rightarrow> ('a \<Rightarrow> payload) \<Rightarrow> 'a \<Rightarrow> 'a tool_reply" where
  "sized json_size shape p = (case check_response_size (json_size p) (shape p) of None \<Rightarrow> ToolOk p | Some (n, k) \<Rightarrow> ToolTooLarge n k)"

section \<open>Web replies\<close>

datatype 'a http_reply = HttpOk 'a | HttpError nat string | HttpRaised jerror

definition topic_not_found :: "'a http_reply" where "topic_not_found = HttpError 404 ''topic_not_found''"
definition conversation_not_found :: "'a http_reply" where "conversation_not_found = HttpError 404 ''conversation_not_found''"
definition entry_not_found :: "'a http_reply" where "entry_not_found = HttpError 404 ''entry_not_found''"
definition invalid_filter :: "string \<Rightarrow> 'a http_reply" where "invalid_filter message = HttpError 422 message"

definition DECRYPTION_FAILED_SENTINEL :: ptext where "DECRYPTION_FAILED_SENTINEL = text_of ''[decryption failed]''"

definition decrypt_field :: "aead \<Rightarrow> content_cipher \<Rightarrow> sealed option \<Rightarrow> ptext option \<times> bool" where
  "decrypt_field a c col =
     (case open_column a c col of Inr t \<Rightarrow> (t, False) | Inl e \<Rightarrow> (Some DECRYPTION_FAILED_SENTINEL, True))"

section \<open>Suggestions\<close>

lemma sub_topic_gaps_chars: "c \<in> set (sub_topic_gaps run s) \<Longrightarrow> is_az09 c \<or> c = CHR ''-'' \<or> c = CHR ''/''"
  by (induction run s rule: sub_topic_gaps.induct) (auto split: if_splits)

lemma sub_topic_gaps_kept: "is_az09 c \<Longrightarrow> c \<in> set (sub_topic_gaps run s) \<longleftrightarrow> c \<in> set s"
  by (induction run s rule: sub_topic_gaps.induct) (auto split: if_splits)

lemma set_collapse_hyphens [simp]: "set (collapse_hyphens s) = set s"
  by (induction s rule: collapse_hyphens.induct) (auto split: if_splits)

lemma collapse_hyphens_no_pair: "no_hyphen_pair (collapse_hyphens s)"
proof -
  have "no_hyphen_pair (collapse_hyphens s) \<and> (s \<noteq> [] \<longrightarrow> collapse_hyphens s \<noteq> [] \<and> hd (collapse_hyphens s) = hd s)"
    by (induction s rule: collapse_hyphens.induct) (auto simp: no_hyphen_pair_def successively_Cons split: if_splits)
  then show ?thesis ..
qed

lemma py_split_on_not_Nil [simp]: "py_split_on sep s \<noteq> []"
  by (induction s) (auto split: list.splits)

lemma py_split_on_set: "\<Union> (set ` set (py_split_on sep s)) = set s - {sep}"
proof (induction s)
  case (Cons c s)
  then show ?case by (cases "py_split_on sep s") auto
qed simp

lemma py_split_on_sublist: "w \<in> set (py_split_on sep s) \<Longrightarrow> \<exists>a b. s = a @ w @ b"
proof -
  have "py_split_on sep s = w0 # ws \<Longrightarrow> (\<exists>b. s = w0 @ b) \<and> (\<forall>w \<in> set ws. \<exists>a b. s = a @ w @ b)" for w0 ws
  proof (induction s arbitrary: w0 ws)
    case (Cons c s)
    obtain v vs where v: "py_split_on sep s = v # vs" by (cases "py_split_on sep s") auto
    from Cons.IH [OF v] obtain b where b: "s = v @ b" and vs: "\<forall>w \<in> set vs. \<exists>a b. s = a @ w @ b" by auto
    have up: "\<exists>a b. c # s = a @ w @ b" if "w = v \<or> w \<in> set vs" for w
    proof -
      from that b vs obtain a b' where "s = a @ w @ b'" by (metis append_Nil)
      then have "c # s = (c # a) @ w @ b'" by simp
      then show ?thesis by blast
    qed
    show ?case
    proof (cases "c = sep")
      case True
      with Cons.prems v have "w0 = []" "ws = v # vs" by auto
      with up show ?thesis by auto
    next
      case False
      with Cons.prems v have "w0 = c # v" "ws = vs" by auto
      with up b show ?thesis by auto
    qed
  qed simp
  note parts = this
  assume w: "w \<in> set (py_split_on sep s)"
  obtain w0 ws where split: "py_split_on sep s = w0 # ws" by (cases "py_split_on sep s") auto
  from parts [OF split] w show ?thesis unfolding split by (metis append_Nil set_ConsD)
qed

lemma no_hyphen_pair_part: "no_hyphen_pair (a @ w @ b) \<Longrightarrow> no_hyphen_pair w"
  by (auto simp: no_hyphen_pair_def successively_append_iff)

lemma stripped_segment:
  assumes "no_hyphen_pair s" and "\<forall>c \<in> set s. is_az09 c \<or> c = CHR ''-''" and "py_strip (\<lambda>c. c = CHR ''-'') s \<noteq> []"
  shows "segment_ok (py_strip (\<lambda>c. c = CHR ''-'') s)"
  using assms py_strip_no_edge [of "\<lambda>c. c = CHR ''-''" s] set_py_strip [of "\<lambda>c. c = CHR ''-''" s] no_hyphen_pair_strip [OF assms(1)]
  unfolding segment_ok_iff by fastforce

lemma topic_path_ok_two: "segment_ok a \<Longrightarrow> segment_ok b \<Longrightarrow> topic_path_ok (a @ CHR ''/'' # b)"
  using segment_ok_no_slash [of a] takeWhile_no_slash [of a] dropWhile_slash [of a] by (auto simp: topic_path_ok_def Let_def)

lemma topic_path_ok_cases:
  assumes "topic_path_ok s"
  obtains (one) "segment_ok s" | (two) a b where "s = a @ CHR ''/'' # b" "segment_ok a" "segment_ok b"
proof -
  let ?a = "takeWhile (\<lambda>c. c \<noteq> CHR ''/'') s" and ?r = "dropWhile (\<lambda>c. c \<noteq> CHR ''/'') s"
  have split: "s = ?a @ ?r" by simp
  show ?thesis
  proof (cases "?r = []")
    case True
    then have "?a = s" using split by simp
    with assms True one show ?thesis by (simp add: topic_path_ok_def Let_def)
  next
    case False
    then have "?r = CHR ''/'' # tl ?r" using dropWhile_slash [of s] by blast
    then have "s = ?a @ CHR ''/'' # tl ?r" using split by simp
    with assms False two show ?thesis by (auto simp: topic_path_ok_def Let_def)
  qed
qed

lemma py_split_on_none: "sep \<notin> set a \<Longrightarrow> py_split_on sep a = [a]"
  by (induction a) auto

lemma py_split_on_sep: "sep \<notin> set a \<Longrightarrow> py_split_on sep (a @ sep # b) = a # py_split_on sep b"
  by (induction a) auto

lemma sub_topic_gaps_id:
  "no_hyphen_pair s \<Longrightarrow> \<forall>c \<in> set s. is_az09 c \<or> c = CHR ''-'' \<or> c = CHR ''/'' \<Longrightarrow> (run \<longrightarrow> s = [] \<or> hd s \<noteq> CHR ''-'') \<Longrightarrow>
   sub_topic_gaps run s = s"
  by (induction run s rule: sub_topic_gaps.induct) (auto simp: no_hyphen_pair_def successively_Cons)

lemma collapse_hyphens_id: "no_hyphen_pair s \<Longrightarrow> collapse_hyphens s = s"
  by (induction s rule: collapse_hyphens.induct) (auto simp: no_hyphen_pair_def successively_Cons)

lemma topic_path_shape:
  assumes "topic_path_ok s"
  shows "no_hyphen_pair s" "\<forall>c \<in> set s. is_az09 c \<or> c = CHR ''-'' \<or> c = CHR ''/''"
    "hd s \<noteq> CHR ''-''" "hd s \<noteq> CHR ''/''" "last s \<noteq> CHR ''-''" "last s \<noteq> CHR ''/''"
proof -
  have "no_hyphen_pair s \<and> (\<forall>c \<in> set s. is_az09 c \<or> c = CHR ''-'' \<or> c = CHR ''/'') \<and>
    hd s \<noteq> CHR ''-'' \<and> hd s \<noteq> CHR ''/'' \<and> last s \<noteq> CHR ''-'' \<and> last s \<noteq> CHR ''/''"
    using assms
  proof (cases rule: topic_path_ok_cases)
    case one
    then have "hd s \<in> set s" "last s \<in> set s" by (auto simp: segment_ok_iff)
    with segment_ok_no_slash [OF one] have "hd s \<noteq> CHR ''/''" "last s \<noteq> CHR ''/''" by auto
    with one show ?thesis by (auto simp: segment_ok_iff)
  next
    case (two a b)
    then have "hd a \<in> set a" "last b \<in> set b" by (auto simp: segment_ok_iff)
    with segment_ok_no_slash [OF two(2)] segment_ok_no_slash [OF two(3)] have "hd a \<noteq> CHR ''/''" "last b \<noteq> CHR ''/''" by auto
    with two show ?thesis by (auto simp: segment_ok_iff no_hyphen_pair_def successively_append_iff successively_Cons)
  qed
  then show "no_hyphen_pair s" "\<forall>c \<in> set s. is_az09 c \<or> c = CHR ''-'' \<or> c = CHR ''/''"
    "hd s \<noteq> CHR ''-''" "hd s \<noteq> CHR ''/''" "last s \<noteq> CHR ''-''" "last s \<noteq> CHR ''/''" by simp_all
qed

lemma strip_segment: "segment_ok a \<Longrightarrow> py_strip (\<lambda>c. c = CHR ''-'') a = a"
  by (rule py_strip_id) (auto simp: segment_ok_iff)

lemma suggestion_of_topic: "topic_path_ok raw \<Longrightarrow> topic_suggestions raw = [raw]"
proof -
  assume ok: "topic_path_ok raw"
  note shape = topic_path_shape [OF ok]
  have clean: "collapse_hyphens (py_strip (\<lambda>c. c = CHR ''-'' \<or> c = CHR ''/'') (sub_topic_gaps False (py_lower raw))) = raw"
    using shape by (simp add: topic_path_ok_lower [OF ok] sub_topic_gaps_id collapse_hyphens_id py_strip_id)
  from ok show ?thesis
  proof (cases rule: topic_path_ok_cases)
    case one
    then have "raw \<noteq> []" by (simp add: segment_ok_iff)
    with clean one show ?thesis
      by (simp add: topic_suggestions_def py_split_on_none segment_ok_no_slash strip_segment)
  next
    case (two a b)
    then have "a \<noteq> []" "b \<noteq> []" by (simp_all add: segment_ok_iff)
    with clean two show ?thesis
      by (simp add: topic_suggestions_def py_split_on_sep py_split_on_none segment_ok_no_slash strip_segment)
  qed
qed

lemma kept_by_strip: "c \<in> set s \<Longrightarrow> \<not> p c \<Longrightarrow> c \<in> set (py_strip p s)"
proof -
  have drop: "c \<in> set xs \<Longrightarrow> \<not> p c \<Longrightarrow> c \<in> set (dropWhile p xs)" for xs
    by (induction xs) auto
  assume "c \<in> set s" "\<not> p c"
  then show ?thesis unfolding py_strip_def py_lstrip_def py_rstrip_def by (simp add: drop)
qed

text \<open>
  Property C38.  A suggestion is always acceptable.  Whatever an agent offered as a topic path, the
  error carries at most one suggestion, which is a well-formed path that validates to itself; there
  is none only if the text has no letter or digit to keep; and a path that is well-formed already
  is its own suggestion.
\<close>

theorem topic_suggestions_valid:
  "list_all (\<lambda>t. topic_path_ok t \<and> validate_topic t = Inr t) (topic_suggestions raw) \<and>
   length (topic_suggestions raw) = (if list_ex is_az09 (py_lower raw) then 1 else 0) \<and>
   (if topic_path_ok raw then topic_suggestions raw = [raw] else True)"
proof -
  define cleaned where "cleaned = collapse_hyphens (py_strip (\<lambda>c. c = CHR ''-'' \<or> c = CHR ''/'') (sub_topic_gaps False (py_lower raw)))"
  define parts where "parts = filter (\<lambda>p. p \<noteq> []) (map (py_strip (\<lambda>c. c = CHR ''-'')) (py_split_on (CHR ''/'') cleaned))"
  have result: "topic_suggestions raw = (if take 2 parts \<noteq> [] then [py_join ''/'' (take 2 parts)] else [])"
    by (simp add: topic_suggestions_def parts_def cleaned_def Let_def)
  have chars: "is_az09 c \<or> c = CHR ''-'' \<or> c = CHR ''/''" if "c \<in> set cleaned" for c
    using that set_py_strip [of "\<lambda>c. c = CHR ''-'' \<or> c = CHR ''/''" "sub_topic_gaps False (py_lower raw)"] sub_topic_gaps_chars
    by (auto simp: cleaned_def)
  have segments: "segment_ok p" if "p \<in> set parts" for p
  proof -
    from that obtain w where w: "w \<in> set (py_split_on (CHR ''/'') cleaned)" "p = py_strip (\<lambda>c. c = CHR ''-'') w" "p \<noteq> []"
      by (auto simp: parts_def)
    from py_split_on_sublist [OF w(1)] obtain a b where "cleaned = a @ w @ b" by blast
    then have "no_hyphen_pair w" using collapse_hyphens_no_pair no_hyphen_pair_part unfolding cleaned_def by metis
    moreover have "\<forall>c \<in> set w. is_az09 c \<or> c = CHR ''-''"
      using w(1) chars py_split_on_set [of "CHR ''/''" cleaned] by blast
    ultimately show ?thesis using stripped_segment w(2,3) by blast
  qed
  have "topic_path_ok t \<and> validate_topic t = Inr t" if "t \<in> set (topic_suggestions raw)" for t
  proof -
    from that have t: "take 2 parts \<noteq> []" "t = py_join ''/'' (take 2 parts)" by (auto simp: result split: if_splits)
    have "topic_path_ok t"
    proof (cases parts)
      case (Cons p ps)
      with segments t show ?thesis by (cases ps) (auto simp: segment_ok_topic topic_path_ok_two)
    qed (use t in simp)
    then show ?thesis by (simp add: validate_topic_Inr topic_path_ok_lower)
  qed
  moreover have "parts = [] \<longleftrightarrow> \<not> list_ex is_az09 (py_lower raw)"
  proof
    assume none: "parts = []"
    show "\<not> list_ex is_az09 (py_lower raw)"
    proof
      assume "list_ex is_az09 (py_lower raw)"
      then obtain c where c: "c \<in> set (py_lower raw)" "is_az09 c" by (auto simp: list_ex_iff)
      then have "c \<in> set cleaned" by (auto simp: cleaned_def sub_topic_gaps_kept intro: kept_by_strip)
      moreover have "c \<noteq> CHR ''/''" "c \<noteq> CHR ''-''" using c(2) not_az09_sep by auto
      ultimately obtain w where w: "w \<in> set (py_split_on (CHR ''/'') cleaned)" "c \<in> set w"
        using py_split_on_set [of "CHR ''/''" cleaned] by blast
      have "c \<in> set (py_strip (\<lambda>c. c = CHR ''-'') w)" by (rule kept_by_strip [OF w(2)]) fact
      then have "py_strip (\<lambda>c. c = CHR ''-'') w \<noteq> []" by auto
      with w(1) have "parts \<noteq> []" by (auto simp: parts_def filter_empty_conv)
      with none show False by simp
    qed
  next
    assume none: "\<not> list_ex is_az09 (py_lower raw)"
    show "parts = []"
    proof (rule ccontr)
      assume "parts \<noteq> []"
      then obtain p where p: "p \<in> set parts" by (cases parts) auto
      from segments [OF this] have c: "p \<noteq> []" "is_az09 (hd p)" by (auto simp: segment_ok_iff)
      from p obtain w where w: "w \<in> set (py_split_on (CHR ''/'') cleaned)" "p = py_strip (\<lambda>c. c = CHR ''-'') w" by (auto simp: parts_def)
      have "hd p \<in> set w" using c(1) w(2) set_py_strip [of "\<lambda>c. c = CHR ''-''" w] by (auto dest: hd_in_set)
      then have "hd p \<in> set cleaned" using w(1) py_split_on_set [of "CHR ''/''" cleaned] by blast
      then have "hd p \<in> set (sub_topic_gaps False (py_lower raw))"
        using set_py_strip [of "\<lambda>c. c = CHR ''-'' \<or> c = CHR ''/''" "sub_topic_gaps False (py_lower raw)"]
        unfolding cleaned_def set_collapse_hyphens by blast
      then have "hd p \<in> set (py_lower raw)" using c(2) by (simp add: sub_topic_gaps_kept)
      with none c(2) show False by (auto simp: list_ex_iff)
    qed
  qed
  ultimately have "list_all (\<lambda>t. topic_path_ok t \<and> validate_topic t = Inr t) (topic_suggestions raw)"
      "length (topic_suggestions raw) = (if list_ex is_az09 (py_lower raw) then 1 else 0)"
    by (auto simp: list_all_iff) (auto simp: result)
  then show ?thesis using suggestion_of_topic by auto
qed

text \<open>
  An answer that is too large comes with a limit of at least one record, and of at most half the
  records it held, whose share of the measured size is at most half the threshold.
\<close>

lemma suggested_limit:
  assumes "check_response_size (Some n) p = Some (m, k)"
  shows "m = n \<and> 80000 < n \<and> (k = 1 \<or> 2 * k \<le> estimate_record_count p \<and> 2 * k * n \<le> 80000 * estimate_record_count p)"
proof -
  let ?rc = "max 1 (estimate_record_count p)"
  let ?q = "rat_of_nat 80000 / (rat_of_nat n / rat_of_nat ?rc) * (1 / 2)"
  from assms have mk: "m = n" "80000 < n" "k = max 1 (nat \<lfloor>?q\<rfloor>)"
    by (auto simp: check_response_size_def ERROR_THRESHOLD_CHARS_def split: if_splits)
  show ?thesis
  proof (cases "k = 1")
    case False
    with mk(3) have k: "k = nat \<lfloor>?q\<rfloor>" "2 \<le> k" by auto
    then have "rat_of_nat k \<le> ?q" by (simp add: of_nat_nat)
    then have le: "rat_of_nat (2 * k * n) \<le> rat_of_nat (80000 * ?rc)" using mk(2) by (simp add: field_simps)
    then have part: "2 * k * n \<le> 80000 * ?rc" by (simp only: of_nat_le_iff)
    have "80000 * (2 * k) \<le> n * (2 * k)" using mk(2) by (intro mult_right_mono) simp_all
    also have "\<dots> = 2 * k * n" by simp
    also note part
    finally have half: "2 * k \<le> ?rc" by simp
    with k(2) have "?rc = estimate_record_count p" by simp
    with part half mk show ?thesis by simp
  qed (use mk in simp)
qed

end
