(* ===== verification/Search.thy ===== *)
theory Search
  imports Conversations Replies "HOL-Library.Multiset"
begin

text \<open>
  Hybrid search: \<open>gubbi/storage/repositories/search.py\<close> (full text), the vector query of
  \<open>gubbi/storage/embedding_service.py\<close>, the pipeline \<open>gubbi/services/search.py\<close> over both, and
  its two surfaces, \<open>gubbi/tools/search.py\<close> and \<open>gubbi/api/v1/web/search.py\<close>.

  PostgreSQL's text search, the cosine distance of \<open>pgvector\<close> and the ONNX model are arguments.
  So is the recall of the HNSW index: the index is approximate, and it picks its candidates from
  the embeddings of every user before row security and the other conditions are applied, so
  \<open>bk_reached\<close> says, from the whole table of embeddings, which rows its scan delivers.
  Rows of equal rank or distance come in any order from the server; here in that of the table.
\<close>

record backends =
  bk_matches :: "ptext \<Rightarrow> ptext \<Rightarrow> bool"
  bk_rank :: "ptext \<Rightarrow> ptext \<Rightarrow> rat"
  bk_distance :: "vec \<Rightarrow> vec \<Rightarrow> rat"
  bk_reached :: "vec \<Rightarrow> emb_row list \<Rightarrow> emb_row \<Rightarrow> bool"
  bk_encode :: "ptext \<Rightarrow> vec option"
  bk_fault :: bool

record hit =
  ht_key :: string
  ht_doc :: string
  ht_topic :: string
  ht_rank :: rat
  ht_date :: string
  ht_entry :: "int option"
  ht_conv :: "int option"
  ht_content :: "ptext option"
  ht_title :: "ptext option"
  ht_summary :: "ptext option"
  ht_failed :: bool

definition SEMANTIC_MIN_SIMILARITY :: rat where "SEMANTIC_MIN_SIMILARITY = 35 / 100"
definition MAX_SEARCH_CONTENT_CHARS :: nat where "MAX_SEARCH_CONTENT_CHARS = 4096"

section \<open>Full text\<close>

definition opt_like :: "string option \<Rightarrow> string \<Rightarrow> bool" where
  "opt_like topic_prefix path = (case non_empty topic_prefix of None \<Rightarrow> True | Some p \<Rightarrow> sql_like (escape_like p @ ''%'') path)"

definition opt_date :: "string option \<Rightarrow> jerror + ymd option" where
  "opt_date s = (case non_empty s of None \<Rightarrow> Inr None | Some x \<Rightarrow> rmap Some (parse_date x))"

definition get_topic_ids_by_prefix :: "session \<Rightarrow> string \<Rightarrow> jdb \<Rightarrow> int list" where
  "get_topic_ids_by_prefix s topic_prefix db =
     map tp_id (sql_select (\<lambda>t. vis s (tp_user t) \<and> sql_like (escape_like topic_prefix @ ''%'') (tp_path t)) (topics db))"

text \<open>\<open>f"{doc_type}:{entry_id or conversation_id}"\<close>\<close>

definition source_key :: "string \<Rightarrow> int option \<Rightarrow> int option \<Rightarrow> string" where
  "source_key doc e c =
     (let chosen = (case e of None \<Rightarrow> c | Some i \<Rightarrow> if i = 0 then c else e)
      in doc @ '':'' @ (case chosen of None \<Rightarrow> ''None'' | Some i \<Rightarrow> dec_int i))"

definition fts_entry :: "session \<Rightarrow> backends \<Rightarrow> ptext \<Rightarrow> string option \<Rightarrow> ymd option \<Rightarrow> ymd option \<Rightarrow> jdb \<Rightarrow> entry_row \<Rightarrow> bool" where
  "fts_entry s bk query prefix lo hi db e =
     (vis s (en_user e) \<and> en_deleted e = None \<and>
      (case en_search e of None \<Rightarrow> False | Some v \<Rightarrow> bk_matches bk query v) \<and>
      (case entry_path s db e of None \<Rightarrow> False | Some p \<Rightarrow> opt_like prefix p) \<and> in_range lo hi (en_date e))"

definition fts_conv :: "session \<Rightarrow> backends \<Rightarrow> ptext \<Rightarrow> string option \<Rightarrow> ymd option \<Rightarrow> ymd option \<Rightarrow> jdb \<Rightarrow> conv_row \<Rightarrow> bool" where
  "fts_conv s bk query prefix lo hi db c =
     (vis s (cv_user c) \<and>
      (case cv_search c of None \<Rightarrow> False | Some v \<Rightarrow> bk_matches bk query v) \<and>
      (case conv_path s db c of None \<Rightarrow> False | Some p \<Rightarrow> opt_like prefix p) \<and> in_range lo hi (ts_date (cv_created c)))"

definition text_rank :: "backends \<Rightarrow> ptext \<Rightarrow> ptext option \<Rightarrow> rat" where
  "text_rank bk query v = - bk_rank bk query (case v of None \<Rightarrow> [] | Some t \<Rightarrow> t)"

definition entry_hit :: "session \<Rightarrow> backends \<Rightarrow> ptext \<Rightarrow> jdb \<Rightarrow> entry_row \<Rightarrow> hit" where
  "entry_hit s bk query db e =
     \<lparr>ht_key = source_key ''entry'' (Some (en_id e)) None, ht_doc = ''entry'', ht_topic = the (entry_path s db e),
      ht_rank = text_rank bk query (en_search e), ht_date = isoformat (en_date e), ht_entry = Some (en_id e), ht_conv = None,
      ht_content = None, ht_title = None, ht_summary = None, ht_failed = False\<rparr>"

definition conv_hit :: "session \<Rightarrow> backends \<Rightarrow> ptext \<Rightarrow> jdb \<Rightarrow> conv_row \<Rightarrow> hit" where
  "conv_hit s bk query db c =
     \<lparr>ht_key = source_key ''conversation'' None (Some (cv_id c)), ht_doc = ''conversation'', ht_topic = the (conv_path s db c),
      ht_rank = text_rank bk query (cv_search c), ht_date = isoformat (ts_date (cv_created c)), ht_entry = None,
      ht_conv = Some (cv_id c), ht_content = None, ht_title = None, ht_summary = None, ht_failed = False\<rparr>"

definition fts_all :: "session \<Rightarrow> backends \<Rightarrow> ptext \<Rightarrow> string option \<Rightarrow> ymd option \<Rightarrow> ymd option \<Rightarrow> jdb \<Rightarrow> hit list" where
  "fts_all s bk query prefix lo hi db =
     map (entry_hit s bk query db) (sql_select (fts_entry s bk query prefix lo hi db) (entries db)) @
     map (conv_hit s bk query db) (sql_select (fts_conv s bk query prefix lo hi db) (convs db))"

definition fts_search ::
  "session \<Rightarrow> backends \<Rightarrow> ptext \<Rightarrow> string option \<Rightarrow> string option \<Rightarrow> string option \<Rightarrow> int \<Rightarrow> jdb \<Rightarrow> jerror + hit list" where
  "fts_search s bk query prefix date_from date_to limit db =
     rbind (opt_date date_from) (\<lambda>lo. rbind (opt_date date_to) (\<lambda>hi.
       pg_page (Some limit) 0 (sort_key ht_rank (fts_all s bk query prefix lo hi db))))"

definition has_embeddings :: "session \<Rightarrow> jdb \<Rightarrow> bool" where
  "has_embeddings s db = list_ex (\<lambda>b. vis s (em_user b)) (embs db)"

section \<open>Vectors\<close>

definition similarity :: "backends \<Rightarrow> vec \<Rightarrow> emb_row \<Rightarrow> rat" where
  "similarity bk v b = 1 - bk_distance bk (em_vec b) v"

definition near_entry ::
  "session \<Rightarrow> backends \<Rightarrow> vec \<Rightarrow> rat option \<Rightarrow> string option \<Rightarrow> ymd option \<Rightarrow> ymd option \<Rightarrow> jdb \<Rightarrow> emb_row \<Rightarrow> entry_row \<Rightarrow> bool" where
  "near_entry s bk v cutoff prefix lo hi db b e =
     (vis s (em_user b) \<and> vis s (en_user e) \<and> en_id e = em_entry b \<and> en_deleted e = None \<and>
      (case cutoff of None \<Rightarrow> True | Some m \<Rightarrow> m \<le> similarity bk v b) \<and>
      (case entry_path s db e of None \<Rightarrow> False | Some p \<Rightarrow> opt_like prefix p) \<and> in_range lo hi (en_date e))"

definition near_all ::
  "session \<Rightarrow> backends \<Rightarrow> vec \<Rightarrow> rat option \<Rightarrow> string option \<Rightarrow> ymd option \<Rightarrow> ymd option \<Rightarrow> jdb \<Rightarrow> (emb_row \<times> entry_row) list" where
  "near_all s bk v cutoff prefix lo hi db =
     concat (map (\<lambda>b. map (\<lambda>e. (b, e)) (sql_select (near_entry s bk v cutoff prefix lo hi db b) (entries db)))
       (filter (bk_reached bk v (embs db)) (embs db)))"

definition search_by_vector ::
  "session \<Rightarrow> backends \<Rightarrow> vec \<Rightarrow> int \<Rightarrow> string option \<Rightarrow> ymd option \<Rightarrow> ymd option \<Rightarrow> rat option \<Rightarrow> jdb \<Rightarrow>
   jerror + (emb_row \<times> entry_row) list" where
  "search_by_vector s bk v limit prefix lo hi cutoff db =
     (if bk_fault bk then Inl (PostgresError ''vector'')
      else pg_page (Some limit) 0 (sort_key (\<lambda>(b, e). bk_distance bk (em_vec b) v) (near_all s bk v cutoff prefix lo hi db)))"

text \<open>\<open>INSERT ... ON CONFLICT (entry_id) DO UPDATE\<close>; the row security lets nobody touch another user's row.\<close>

definition save_by_vector :: "session \<Rightarrow> int \<Rightarrow> int \<Rightarrow> vec \<Rightarrow> jdb \<Rightarrow> jerror + jdb" where
  "save_by_vector s now entry_id v db =
     (if \<not> gs_active s then Inl InsufficientPrivilege
      else if list_ex (\<lambda>b. em_entry b = entry_id \<and> em_user b \<noteq> gs_user s) (embs db) then Inl InsufficientPrivilege
      else if \<not> list_ex (\<lambda>e. en_id e = entry_id \<and> en_user e = gs_user s) (entries db) then Inl ForeignKeyViolation
      else Inr (db\<lparr>embs := sql_upsert em_entry
             \<lparr>em_entry = entry_id, em_vec = v, em_indexed = now, em_user = gs_user s\<rparr> (embs db)\<rparr>))"

section \<open>The pipeline\<close>

definition near_hit :: "session \<Rightarrow> backends \<Rightarrow> vec \<Rightarrow> jdb \<Rightarrow> emb_row \<times> entry_row \<Rightarrow> hit" where
  "near_hit s bk v db = (\<lambda>(b, e).
     \<lparr>ht_key = ''entry:'' @ dec_int (en_id e), ht_doc = ''entry'', ht_topic = the (entry_path s db e),
      ht_rank = - similarity bk v b, ht_date = isoformat (en_date e), ht_entry = Some (en_id e), ht_conv = None,
      ht_content = None, ht_title = None, ht_summary = None, ht_failed = False\<rparr>)"

text \<open>Both loops of the merge, over the keys seen so far.\<close>

fun merge_new :: "string list \<Rightarrow> hit list \<Rightarrow> hit list" where
  "merge_new seen [] = []"
| "merge_new seen (h # hs) =
     (if ht_key h \<in> set seen then merge_new seen hs else h # merge_new (ht_key h # seen) hs)"

text \<open>
  The hits with a flag: a failed vector query is passed over, but it has aborted the transaction
  both queries run in.
\<close>

definition run_dual_search ::
  "session \<Rightarrow> backends \<Rightarrow> ptext \<Rightarrow> vec option \<Rightarrow> string option \<Rightarrow> string option \<Rightarrow> string option \<Rightarrow> ymd option \<Rightarrow> ymd option \<Rightarrow>
   int \<Rightarrow> jdb \<Rightarrow> jerror + (hit list \<times> bool)" where
  "run_dual_search s bk query embedding prefix date_from date_to lo hi limit db =
     rbind (fts_search s bk query prefix date_from date_to limit db) (\<lambda>fts_results.
     case embedding of
       None \<Rightarrow> Inr (merge_new [] fts_results, False)
     | Some v \<Rightarrow>
         (case search_by_vector s bk v limit prefix lo hi (Some SEMANTIC_MIN_SIMILARITY) db of
            Inl (PostgresError m) \<Rightarrow> Inr (merge_new [] fts_results, True)
          | Inl e \<Rightarrow> Inl e
          | Inr rows \<Rightarrow> Inr (merge_new [] (fts_results @ map (near_hit s bk v db) rows), False)))"

definition truncate_title_summary :: "ptext \<Rightarrow> ptext \<Rightarrow> ptext \<times> ptext" where
  "truncate_title_summary title summary =
     (let budget = MAX_SEARCH_CONTENT_CHARS in
      if length title + length summary \<le> budget then (title, summary)
      else if budget \<le> length title then (take budget title, [])
      else (title, take (budget - length title) summary))"

definition hydrate_entry :: "(int \<times> ptext option \<times> ptext option) list option \<Rightarrow> hit \<Rightarrow> hit" where
  "hydrate_entry decrypted h =
     (case (case decrypted of None \<Rightarrow> None | Some texts \<Rightarrow> map_of texts (the (ht_entry h))) of
        None \<Rightarrow> h\<lparr>ht_content := Some conv_failed_text, ht_failed := True\<rparr>
      | Some (content, reasoning) \<Rightarrow>
          (let decryption_failed = (content = Some decryption_failed_text)
           in h\<lparr>ht_content := (if decryption_failed then Some conv_failed_text else map_option (take MAX_SEARCH_CONTENT_CHARS) content),
                ht_failed := decryption_failed\<rparr>))"

definition hydrate_conversation :: "(int \<times> ptext \<times> ptext) list option \<Rightarrow> hit \<Rightarrow> hit" where
  "hydrate_conversation decrypted h =
     (case (case decrypted of None \<Rightarrow> None | Some texts \<Rightarrow> map_of texts (the (ht_conv h))) of
        None \<Rightarrow> h\<lparr>ht_title := Some conv_failed_text, ht_summary := Some conv_failed_text, ht_failed := True\<rparr>
      | Some (title, summary) \<Rightarrow>
          (case truncate_title_summary title summary of
             (t, y) \<Rightarrow> h\<lparr>ht_title := Some t, ht_summary := Some y\<rparr>))"

text \<open>An empty list of ids is answered without a query; any other query of an aborted transaction fails.\<close>

definition hydrate_results :: "session \<Rightarrow> aead \<Rightarrow> content_cipher \<Rightarrow> bool \<Rightarrow> jdb \<Rightarrow> hit list \<Rightarrow> hit list" where
  "hydrate_results s a c aborted db merged =
     (let entry_ids = remdups (List.map_filter ht_entry (filter (\<lambda>h. ht_doc h = ''entry'') merged));
          conv_ids = remdups (List.map_filter ht_conv (filter (\<lambda>h. ht_doc h = ''conversation'') merged));
          decrypted_entries = (if aborted \<and> entry_ids \<noteq> [] then None else Some (get_texts s a c entry_ids db));
          decrypted_convs = (if aborted \<and> conv_ids \<noteq> [] then None else Some (get_titles_summaries s a c conv_ids db))
      in concat (map (\<lambda>h. if ht_doc h = ''entry'' \<and> ht_entry h \<noteq> None then [hydrate_entry decrypted_entries h]
                         else if ht_doc h = ''conversation'' \<and> ht_conv h \<noteq> None then [hydrate_conversation decrypted_convs h]
                         else []) merged))"

definition shape_hit :: "hit \<Rightarrow> hit" where
  "shape_hit h =
     (if ht_doc h = ''entry'' then h\<lparr>ht_conv := None, ht_content := Some (case ht_content h of None \<Rightarrow> [] | Some t \<Rightarrow> t)\<rparr>
      else h\<lparr>ht_entry := None, ht_title := Some (case ht_title h of None \<Rightarrow> [] | Some t \<Rightarrow> t),
             ht_summary := Some (case ht_summary h of None \<Rightarrow> [] | Some t \<Rightarrow> t)\<rparr>)"

definition build_payload :: "hit list \<Rightarrow> ptext \<Rightarrow> int \<Rightarrow> hit list \<times> nat \<times> ptext" where
  "build_payload hydrated query limit =
     (let payload = map shape_hit (filter (\<lambda>h. ht_doc h = ''entry'' \<or> ht_doc h = ''conversation'')
            (py_head limit (sort_key ht_rank hydrated)))
      in (payload, length payload, query))"

text \<open>The embedding is \<open>None\<close> when the query could not be encoded.\<close>

definition run_journal_search ::
  "session \<Rightarrow> aead \<Rightarrow> content_cipher \<Rightarrow> backends \<Rightarrow> ptext \<Rightarrow> string option \<Rightarrow> string option \<Rightarrow> string option \<Rightarrow> int \<Rightarrow>
   vec option \<Rightarrow> jdb \<Rightarrow> jerror + (hit list \<times> nat \<times> ptext)" where
  "run_journal_search s a c bk query prefix date_from date_to limit embedding db =
     rbind (opt_date date_from) (\<lambda>lo. rbind (opt_date date_to) (\<lambda>hi.
     rmap (\<lambda>(merged, aborted). build_payload (hydrate_results s a c aborted db merged) query limit)
       (run_dual_search s bk query embedding prefix date_from date_to lo hi limit db)))"

section \<open>The two surfaces\<close>

definition MAX_SEARCH_RESULTS :: int where "MAX_SEARCH_RESULTS = 20"
definition MAX_QUERY_LEN :: nat where "MAX_QUERY_LEN = 2000"
definition MAX_SEARCH_LIMIT :: int where "MAX_SEARCH_LIMIT = 50"

datatype search_reply = SearchError string | SearchRaised jerror | SearchResults "hit list" nat ptext | SearchTooLarge nat nat

fun search_reply_of :: "jerror + (hit list \<times> nat \<times> ptext) \<Rightarrow> search_reply" where
  "search_reply_of (Inl e) = SearchRaised e"
| "search_reply_of (Inr (hits, n, q)) = SearchResults hits n q"

text \<open>\<open>topic_prefix.rstrip("/") or None\<close>, then validated.\<close>

definition clean_prefix :: "string option \<Rightarrow> verror + string option" where
  "clean_prefix topic_prefix =
     (case non_empty topic_prefix of
        None \<Rightarrow> Inr None
      | Some p \<Rightarrow> (let r = py_rstrip (\<lambda>ch. ch = CHR ''/'') p in if r = [] then Inr None else rmap Some (validate_topic r)))"

definition date_given_ok :: "string option \<Rightarrow> bool" where
  "date_given_ok d = (case non_empty d of None \<Rightarrow> True | Some x \<Rightarrow> (case validate_date x of Inl e \<Rightarrow> False | Inr _ \<Rightarrow> True))"

text \<open>
  The tool's last step is the limit on the size of an answer, \<open>check_response_size\<close>; \<open>json_size\<close> gives
  the length of the JSON text of a payload.
\<close>

definition search_shape :: "hit list \<times> nat \<times> ptext \<Rightarrow> payload" where
  "search_shape r = DictPayload [(''results'', Some (length (fst r))), (''total'', None), (''query'', None)]"

definition limit_search_size :: "(hit list \<times> nat \<times> ptext \<Rightarrow> nat option) \<Rightarrow> search_reply \<Rightarrow> search_reply" where
  "limit_search_size json_size reply =
     (case reply of
        SearchResults hits n q \<Rightarrow>
          (case check_response_size (json_size (hits, n, q)) (search_shape (hits, n, q)) of
             None \<Rightarrow> reply
           | Some (chars, suggested) \<Rightarrow> SearchTooLarge chars suggested)
      | _ \<Rightarrow> reply)"

definition journal_search ::
  "session \<Rightarrow> aead \<Rightarrow> content_cipher \<Rightarrow> backends \<Rightarrow> (hit list \<times> nat \<times> ptext \<Rightarrow> nat option) \<Rightarrow> ptext \<Rightarrow> string option \<Rightarrow> string option \<Rightarrow> string option \<Rightarrow> int \<Rightarrow> jdb \<Rightarrow>
   search_reply" where
  "journal_search s a c bk json_size query topic_prefix date_from date_to limit db =
     (let limit = max 1 (min limit MAX_SEARCH_RESULTS) in
      if MAX_QUERY_LEN < length query then SearchError ''VALIDATION_ERROR''
      else case clean_prefix topic_prefix of
        Inl e \<Rightarrow> SearchError ''INVALID_TOPIC''
      | Inr prefix \<Rightarrow>
          if \<not> date_given_ok date_from then SearchError ''INVALID_DATE''
          else if \<not> date_given_ok date_to then SearchError ''INVALID_DATE''
          else limit_search_size json_size
            (search_reply_of (run_journal_search s a c bk query prefix date_from date_to limit (bk_encode bk query) db)))"

text \<open>The framework refuses a query of no or more than 2000 characters and a limit outside 1 to 50.\<close>

definition web_search ::
  "session \<Rightarrow> aead \<Rightarrow> content_cipher \<Rightarrow> backends \<Rightarrow> ptext \<Rightarrow> string option \<Rightarrow> string option \<Rightarrow> string option \<Rightarrow> int \<Rightarrow> jdb \<Rightarrow>
   search_reply" where
  "web_search s a c bk query topic_prefix date_from date_to limit db =
     (if query = [] \<or> MAX_QUERY_LEN < length query \<or> limit < 1 \<or> MAX_SEARCH_LIMIT < limit then SearchError ''422''
      else case clean_prefix topic_prefix of
        Inl e \<Rightarrow> SearchResults [] 0 query
      | Inr prefix \<Rightarrow>
          if \<not> (date_given_ok date_from \<and> date_given_ok date_to) then SearchResults [] 0 query
          else search_reply_of (run_journal_search s a c bk query prefix date_from date_to limit (bk_encode bk query) db))"

section \<open>Merging\<close>

lemma merge_new_keys:
  "set (merge_new seen hs) \<subseteq> set hs \<and> distinct (map ht_key (merge_new seen hs)) \<and>
   ht_key ` set (merge_new seen hs) = ht_key ` set hs - set seen"
  by (induction seen hs rule: merge_new.induct) (auto split: if_splits)

lemma merge_new_first:
  assumes "h \<in> set (merge_new seen (xs @ ys))" and "ht_key h \<in> ht_key ` set xs"
  shows "h \<in> set xs"
  using assms
proof (induction xs arbitrary: seen)
  case (Cons x xs)
  show ?case
  proof (cases "ht_key x \<in> set seen \<or> h = x")
    case True
    with Cons show ?thesis
    proof (cases "h = x")
      case False
      with True have x: "ht_key x \<in> set seen" by simp
      with Cons.prems(1) have h: "h \<in> set (merge_new seen (xs @ ys))" by simp
      then have "ht_key h \<notin> set seen" using merge_new_keys [of seen "xs @ ys"] by blast
      with x Cons.prems(2) have "ht_key h \<in> ht_key ` set xs" by auto
      with Cons.IH [OF h] show ?thesis by simp
    qed simp
  next
    case False
    with Cons.prems(1) have h: "h \<in> set (merge_new (ht_key x # seen) (xs @ ys))" by simp
    then have "ht_key h \<noteq> ht_key x" using merge_new_keys [of "ht_key x # seen" "xs @ ys"] by auto
    with Cons.prems(2) have "ht_key h \<in> ht_key ` set xs" by auto
    with Cons.IH [OF h] show ?thesis by simp
  qed
qed simp

section \<open>What a search returns\<close>

lemma hydrate_entry_frame [simp]:
  "ht_key (hydrate_entry d h) = ht_key h" "ht_doc (hydrate_entry d h) = ht_doc h" "ht_topic (hydrate_entry d h) = ht_topic h"
  "ht_rank (hydrate_entry d h) = ht_rank h" "ht_entry (hydrate_entry d h) = ht_entry h" "ht_conv (hydrate_entry d h) = ht_conv h"
  "ht_date (hydrate_entry d h) = ht_date h"
  by (simp_all add: hydrate_entry_def Let_def split: option.split prod.split)

lemma hydrate_conversation_frame [simp]:
  "ht_key (hydrate_conversation d h) = ht_key h" "ht_doc (hydrate_conversation d h) = ht_doc h"
  "ht_topic (hydrate_conversation d h) = ht_topic h" "ht_rank (hydrate_conversation d h) = ht_rank h"
  "ht_entry (hydrate_conversation d h) = ht_entry h" "ht_conv (hydrate_conversation d h) = ht_conv h"
  "ht_date (hydrate_conversation d h) = ht_date h"
  by (simp_all add: hydrate_conversation_def Let_def split: option.split prod.split)

lemma shape_hit_frame [simp]:
  "ht_key (shape_hit h) = ht_key h" "ht_doc (shape_hit h) = ht_doc h" "ht_topic (shape_hit h) = ht_topic h"
  "ht_rank (shape_hit h) = ht_rank h" "ht_date (shape_hit h) = ht_date h" "ht_failed (shape_hit h) = ht_failed h"
  by (simp_all add: shape_hit_def)

text \<open>A raw hit of either back-end: where it comes from.\<close>

definition entry_source_ok ::
  "session \<Rightarrow> backends \<Rightarrow> ptext \<Rightarrow> string option \<Rightarrow> ymd option \<Rightarrow> ymd option \<Rightarrow> vec option \<Rightarrow> jdb \<Rightarrow> hit \<Rightarrow> entry_row \<Rightarrow> bool" where
  "entry_source_ok s bk query prefix lo hi emb db h e =
     (e \<in> set (entries db) \<and> ht_doc h = ''entry'' \<and> ht_entry h = Some (en_id e) \<and> ht_date h = isoformat (en_date e) \<and>
      vis s (en_user e) \<and> en_deleted e = None \<and> in_range lo hi (en_date e) \<and>
      entry_path s db e = Some (ht_topic h) \<and> py_startswith (ht_topic h) (case prefix of None \<Rightarrow> [] | Some p \<Rightarrow> p) \<and>
      ((\<exists>v. en_search e = Some v \<and> bk_matches bk query v \<and> ht_rank h = - bk_rank bk query v) \<or>
       (\<exists>v b. emb = Some v \<and> b \<in> set (embs db) \<and> em_entry b = en_id e \<and> SEMANTIC_MIN_SIMILARITY \<le> similarity bk v b \<and>
          ht_rank h = - similarity bk v b)))"

definition conv_source_ok ::
  "session \<Rightarrow> backends \<Rightarrow> ptext \<Rightarrow> string option \<Rightarrow> ymd option \<Rightarrow> ymd option \<Rightarrow> jdb \<Rightarrow> hit \<Rightarrow> conv_row \<Rightarrow> bool" where
  "conv_source_ok s bk query prefix lo hi db h c =
     (c \<in> set (convs db) \<and> ht_doc h = ''conversation'' \<and> ht_conv h = Some (cv_id c) \<and>
      ht_date h = isoformat (ts_date (cv_created c)) \<and>
      vis s (cv_user c) \<and> in_range lo hi (ts_date (cv_created c)) \<and>
      conv_path s db c = Some (ht_topic h) \<and> py_startswith (ht_topic h) (case prefix of None \<Rightarrow> [] | Some p \<Rightarrow> p) \<and>
      (\<exists>v. cv_search c = Some v \<and> bk_matches bk query v \<and> ht_rank h = - bk_rank bk query v))"

lemma opt_like_iff: "opt_like prefix p \<longleftrightarrow> py_startswith p (case prefix of None \<Rightarrow> [] | Some x \<Rightarrow> x)"
  by (auto simp: opt_like_def non_empty_def prefix_filter_exact py_startswith_def split: option.split)

lemma pg_page_first: "pg_page (Some limit) 0 xs = Inr ys \<longleftrightarrow> 0 \<le> limit \<and> ys = take (nat limit) xs"
  by (auto simp: pg_page_def)

lemma fts_all_source:
  assumes "h \<in> set (fts_all s bk query prefix lo hi db)"
  shows "(\<exists>e. entry_source_ok s bk query prefix lo hi emb db h e) \<or> (\<exists>c. conv_source_ok s bk query prefix lo hi db h c)"
  using assms
  by (auto simp: fts_all_def sql_simps fts_entry_def fts_conv_def entry_hit_def conv_hit_def entry_source_ok_def conv_source_ok_def
      opt_like_iff text_rank_def split: option.splits)

lemma near_all_source:
  assumes "(b, e) \<in> set (near_all s bk v (Some SEMANTIC_MIN_SIMILARITY) prefix lo hi db)"
  shows "entry_source_ok s bk query prefix lo hi (Some v) db (near_hit s bk v db (b, e)) e"
  using assms
  by (auto simp: near_all_def sql_simps near_entry_def near_hit_def entry_source_ok_def opt_like_iff split: option.splits)

text \<open>What a result says of the row it stands for.\<close>

definition entry_text_ok :: "aead \<Rightarrow> content_cipher \<Rightarrow> entry_row \<Rightarrow> hit \<Rightarrow> bool" where
  "entry_text_ok a c e h =
     (if ht_failed h then ht_content h = Some conv_failed_text
      else \<exists>t. open_column a c (Some (en_content e)) = Inr (Some t) \<and> ht_content h = Some (take MAX_SEARCH_CONTENT_CHARS t))"

definition conv_text_ok :: "aead \<Rightarrow> content_cipher \<Rightarrow> conv_row \<Rightarrow> hit \<Rightarrow> bool" where
  "conv_text_ok a c x h =
     (if ht_failed h then ht_title h = Some conv_failed_text \<and> ht_summary h = Some conv_failed_text
      else \<exists>t y m n. title_summary a c x = Inr (t, y) \<and> ht_title h = Some (take m t) \<and> ht_summary h = Some (take n y) \<and>
         length (take m t) + length (take n y) \<le> MAX_SEARCH_CONTENT_CHARS)"

definition raw_hit :: "hit \<Rightarrow> bool" where
  "raw_hit h = ((ht_doc h = ''entry'' \<and> ht_entry h \<noteq> None \<or> ht_doc h = ''conversation'' \<and> ht_conv h \<noteq> None) \<and> \<not> ht_failed h)"

lemma open_column_some: "open_column a c (Some x) \<noteq> Inr None"
  by (cases "decrypt_or_raise a c (fst x) (snd x)") (auto simp: open_column_def decrypt_content_field_def)

lemma map_of_filter_key:
  "unique_key key xs \<Longrightarrow> e \<in> set xs \<Longrightarrow> P e \<Longrightarrow> map_of (map (\<lambda>x. (key x, f x)) (filter P xs)) (key e) = Some (f e)"
  by (induction xs) (auto simp: unique_key_def image_iff)

lemma map_of_concat_key:
  assumes "unique_key key xs" "e \<in> set xs" "P e"
  shows "map_of (concat (map (\<lambda>x. case g x of Inr y \<Rightarrow> [(key x, y)] | Inl z \<Rightarrow> []) (filter P xs))) (key e) =
    (case g e of Inr y \<Rightarrow> Some y | Inl z \<Rightarrow> None)"
  using assms
proof (induction xs)
  case (Cons x xs)
  have other: "map_of (concat (map (\<lambda>x. case g x of Inr y \<Rightarrow> [(key x, y)] | Inl z \<Rightarrow> []) (filter P ys))) (key x) = None"
    if "key x \<notin> key ` set ys" for ys
    using that by (induction ys) (auto split: sum.splits)
  show ?case
  proof (cases "e = x")
    case True
    have "key x \<notin> key ` set xs" using Cons.prems(1) by (simp add: unique_key_def)
    with True Cons.prems(3) other [of xs] show ?thesis by (cases "g x") auto
  next
    case False
    with Cons.prems have "e \<in> set xs" "unique_key key xs" "key e \<noteq> key x" by (auto simp: unique_key_def image_iff)
    with Cons.IH Cons.prems(3) show ?thesis by (cases "g x") auto
  qed
qed simp

lemma hydrated_entry_ok:
  assumes "unique_key en_id (entries db)" and "e \<in> set (entries db)" "vis s (en_user e)" "en_deleted e = None" "en_id e \<in> set ids"
    and "d = None \<or> d = Some (get_texts s a c ids db)" and "ht_entry h = Some (en_id e)" "\<not> ht_failed h"
  shows "entry_text_ok a c e (shape_hit (hydrate_entry d h)) \<or> ht_doc h \<noteq> ''entry''"
proof -
  have texts: "map_of (get_texts s a c ids db) (en_id e) = Some (entry_texts a c e)"
    unfolding get_texts_def sql_select_def
    by (rule map_of_filter_key [OF assms(1,2), where P = "\<lambda>e. vis s (en_user e) \<and> en_id e \<in> set ids \<and> en_deleted e = None"])
      (use assms in auto)
  from assms(6) show ?thesis
  proof
    assume "d = None"
    then show ?thesis by (simp add: hydrate_entry_def shape_hit_def entry_text_ok_def)
  next
    assume d: "d = Some (get_texts s a c ids db)"
    have "open_column a c (Some (en_content e)) \<noteq> Inr None" by (rule open_column_some)
    then show ?thesis
      using texts assms(7)
      by (auto simp: d hydrate_entry_def shape_hit_def entry_text_ok_def entry_texts_def Let_def split: sum.splits option.splits)
  qed
qed

lemma truncate_cases:
  "\<exists>m n. truncate_title_summary t y = (take m t, take n y) \<and> length (take m t) + length (take n y) \<le> MAX_SEARCH_CONTENT_CHARS"
proof -
  let ?b = "MAX_SEARCH_CONTENT_CHARS"
  consider "length t + length y \<le> ?b" | "?b < length t + length y" "?b \<le> length t" | "?b < length t + length y" "length t < ?b" by linarith
  then show ?thesis
  proof cases
    case 1
    show ?thesis by (rule exI [of _ "length t"], rule exI [of _ "length y"]) (use 1 in \<open>simp add: truncate_title_summary_def\<close>)
  next
    case 2
    show ?thesis by (rule exI [of _ ?b], rule exI [of _ 0]) (use 2 in \<open>simp add: truncate_title_summary_def\<close>)
  next
    case 3
    show ?thesis by (rule exI [of _ "length t"], rule exI [of _ "?b - length t"]) (use 3 in \<open>simp add: truncate_title_summary_def\<close>)
  qed
qed

lemma hydrated_conversation_ok:
  assumes "unique_key cv_id (convs db)" and "x \<in> set (convs db)" "vis s (cv_user x)" "cv_id x \<in> set ids"
    and "d = None \<or> d = Some (get_titles_summaries s a c ids db)" and "ht_conv h = Some (cv_id x)" "\<not> ht_failed h"
    and "ht_doc h = ''conversation''"
  shows "conv_text_ok a c x (shape_hit (hydrate_conversation d h))"
proof -
  have texts: "map_of (get_titles_summaries s a c ids db) (cv_id x) = (case title_summary a c x of Inr y \<Rightarrow> Some y | Inl z \<Rightarrow> None)"
    unfolding get_titles_summaries_def sql_select_def
    by (rule map_of_concat_key [OF assms(1,2), where P = "\<lambda>x. vis s (cv_user x) \<and> cv_id x \<in> set ids"]) (use assms in auto)
  from assms(5) show ?thesis
  proof
    assume "d = None"
    then show ?thesis using assms(8) by (simp add: hydrate_conversation_def shape_hit_def conv_text_ok_def)
  next
    assume d: "d = Some (get_titles_summaries s a c ids db)"
    show ?thesis
    proof (cases "title_summary a c x")
      case (Inl e)
      with texts assms(6,8) show ?thesis by (simp add: d hydrate_conversation_def shape_hit_def conv_text_ok_def)
    next
      case (Inr ty)
      obtain t y where ty: "ty = (t, y)" by (cases ty)
      obtain m n where "truncate_title_summary t y = (take m t, take n y)"
        "length (take m t) + length (take n y) \<le> MAX_SEARCH_CONTENT_CHARS" using truncate_cases by blast
      with texts assms(6,7,8) Inr ty show ?thesis
        by (simp add: d hydrate_conversation_def shape_hit_def conv_text_ok_def) (rule exI [of _ m], rule conjI, rule refl, rule exI [of _ n], simp)
    qed
  qed
qed

lemma dual_search_cases:
  assumes "run_dual_search s bk query emb prefix df dt lo hi limit db = Inr (merged, aborted)"
    and "opt_date df = Inr lo" "opt_date dt = Inr hi"
  obtains fts near where "0 \<le> limit" "merged = merge_new [] (fts @ near)"
    "fts = take (nat limit) (sort_key ht_rank (fts_all s bk query prefix lo hi db))"
    "near = [] \<and> (emb = None \<or> bk_fault bk) \<or>
     (\<exists>v. emb = Some v \<and> \<not> bk_fault bk \<and> near = map (near_hit s bk v db) (take (nat limit)
        (sort_key (\<lambda>(b, e). bk_distance bk (em_vec b) v) (near_all s bk v (Some SEMANTIC_MIN_SIMILARITY) prefix lo hi db))))"
    "aborted \<longleftrightarrow> emb \<noteq> None \<and> bk_fault bk"
proof -
  define fts where "fts = take (nat limit) (sort_key ht_rank (fts_all s bk query prefix lo hi db))"
  from assms have limit: "0 \<le> limit" and fts: "fts_search s bk query prefix df dt limit db = Inr fts"
    by (auto simp: run_dual_search_def fts_search_def res_simps pg_page_first fts_def)
  show ?thesis
  proof (cases emb)
    case None
    with assms(1) fts that [of fts "[]"] limit show ?thesis by (simp add: run_dual_search_def fts_def)
  next
    case (Some v)
    show ?thesis
    proof (cases "bk_fault bk")
      case True
      with Some assms(1) fts that [of fts "[]"] limit show ?thesis by (simp add: run_dual_search_def search_by_vector_def fts_def)
    next
      case False
      with Some assms(1) fts that [of fts "map (near_hit s bk v db) (take (nat limit)
        (sort_key (\<lambda>(b, e). bk_distance bk (em_vec b) v) (near_all s bk v (Some SEMANTIC_MIN_SIMILARITY) prefix lo hi db)))"] limit
      show ?thesis by (simp add: run_dual_search_def search_by_vector_def pg_page_def fts_def)
    qed
  qed
qed

lemma near_hits_source:
  assumes "h \<in> set near" and "near = [] \<and> (emb = None \<or> bk_fault bk) \<or>
     (\<exists>v. emb = Some v \<and> \<not> bk_fault bk \<and> near = map (near_hit s bk v db) (take (nat limit)
        (sort_key (\<lambda>(b, e). bk_distance bk (em_vec b) v) (near_all s bk v (Some SEMANTIC_MIN_SIMILARITY) prefix lo hi db))))"
  shows "\<exists>e. entry_source_ok s bk query prefix lo hi emb db h e"
proof -
  from assms obtain v where v: "emb = Some v" and "h \<in> near_hit s bk v db ` set (take (nat limit)
        (sort_key (\<lambda>(b, e). bk_distance bk (em_vec b) v) (near_all s bk v (Some SEMANTIC_MIN_SIMILARITY) prefix lo hi db)))"
    by auto
  then obtain be where h: "h = near_hit s bk v db be" and "be \<in> set (near_all s bk v (Some SEMANTIC_MIN_SIMILARITY) prefix lo hi db)"
    by (auto dest!: in_set_takeD)
  then show ?thesis using near_all_source [of "fst be" "snd be" s bk v prefix lo hi db query] v by auto
qed

lemma merged_source:
  assumes "run_dual_search s bk query emb prefix df dt lo hi limit db = Inr (merged, aborted)"
    and "opt_date df = Inr lo" "opt_date dt = Inr hi" and "h \<in> set merged"
  shows "(\<exists>e. entry_source_ok s bk query prefix lo hi emb db h e) \<or> (\<exists>c. conv_source_ok s bk query prefix lo hi db h c)"
  using assms(1-3)
proof (cases rule: dual_search_cases)
  case (1 fts near)
  have "set merged \<subseteq> set fts \<union> set near" using merge_new_keys [of "[]" "fts @ near"] 1(2) by auto
  with assms(4) consider "h \<in> set fts" | "h \<in> set near" by blast
  then show ?thesis
  proof cases
    case a: 1
    then have "h \<in> set (fts_all s bk query prefix lo hi db)" using 1(3) by (auto dest: in_set_takeD)
    then show ?thesis by (rule fts_all_source)
  next
    case 2
    from near_hits_source [OF 2 1(4)] show ?thesis by blast
  qed
qed

lemma raw_hits:
  "h \<in> set (fts_all s bk query prefix lo hi db) \<Longrightarrow> raw_hit h" "raw_hit (near_hit s bk v db (b, e))"
  by (auto simp: fts_all_def entry_hit_def conv_hit_def near_hit_def raw_hit_def)

lemma merged_raw:
  assumes "run_dual_search s bk query emb prefix df dt lo hi limit db = Inr (merged, aborted)"
    and "opt_date df = Inr lo" "opt_date dt = Inr hi"
  shows "list_all raw_hit merged \<and> distinct (map ht_key merged)"
  using assms
proof (cases rule: dual_search_cases)
  case (1 fts near)
  have "\<forall>h \<in> set fts. raw_hit h" using 1(3) raw_hits(1) by (auto dest: in_set_takeD)
  moreover have "\<forall>h \<in> set near. raw_hit h" using 1(4) raw_hits(2) by (auto dest!: in_set_takeD)
  ultimately show ?thesis using merge_new_keys [of "[]" "fts @ near"] 1(2) by (auto simp: list_all_iff)
qed

text \<open>On raw hits hydration keeps every hit, and the order.\<close>

definition hydrate1 :: "(int \<times> ptext option \<times> ptext option) list option \<Rightarrow> (int \<times> ptext \<times> ptext) list option \<Rightarrow> hit \<Rightarrow> hit" where
  "hydrate1 es cs h = (if ht_doc h = ''entry'' then hydrate_entry es h else hydrate_conversation cs h)"

lemma hydrate1_frame [simp]:
  "ht_key (hydrate1 es cs h) = ht_key h" "ht_doc (hydrate1 es cs h) = ht_doc h" "ht_topic (hydrate1 es cs h) = ht_topic h"
  "ht_rank (hydrate1 es cs h) = ht_rank h" "ht_entry (hydrate1 es cs h) = ht_entry h" "ht_conv (hydrate1 es cs h) = ht_conv h"
  "ht_date (hydrate1 es cs h) = ht_date h"
  by (simp_all add: hydrate1_def)

lemma hydrate_results_map:
  assumes "list_all raw_hit merged"
  obtains eids cids es cs where "hydrate_results s a c aborted db merged = map (hydrate1 es cs) merged"
    "es = (if aborted \<and> eids \<noteq> [] then None else Some (get_texts s a c eids db))"
    "cs = (if aborted \<and> cids \<noteq> [] then None else Some (get_titles_summaries s a c cids db))"
    "\<And>h i. h \<in> set merged \<Longrightarrow> ht_doc h = ''entry'' \<Longrightarrow> ht_entry h = Some i \<Longrightarrow> i \<in> set eids"
    "\<And>h i. h \<in> set merged \<Longrightarrow> ht_doc h = ''conversation'' \<Longrightarrow> ht_conv h = Some i \<Longrightarrow> i \<in> set cids"
proof -
  define eids where "eids = remdups (List.map_filter ht_entry (filter (\<lambda>h. ht_doc h = ''entry'') merged))"
  define cids where "cids = remdups (List.map_filter ht_conv (filter (\<lambda>h. ht_doc h = ''conversation'') merged))"
  define es where "es = (if aborted \<and> eids \<noteq> [] then None else Some (get_texts s a c eids db))"
  define cs where "cs = (if aborted \<and> cids \<noteq> [] then None else Some (get_titles_summaries s a c cids db))"
  have each: "concat (map (\<lambda>h. if ht_doc h = ''entry'' \<and> ht_entry h \<noteq> None then [hydrate_entry es h]
      else if ht_doc h = ''conversation'' \<and> ht_conv h \<noteq> None then [hydrate_conversation cs h] else []) hs) = map (hydrate1 es cs) hs"
    if "list_all raw_hit hs" for hs
    using that by (induction hs) (auto simp: raw_hit_def hydrate1_def)
  have "hydrate_results s a c aborted db merged = concat (map (\<lambda>h. if ht_doc h = ''entry'' \<and> ht_entry h \<noteq> None then [hydrate_entry es h]
      else if ht_doc h = ''conversation'' \<and> ht_conv h \<noteq> None then [hydrate_conversation cs h] else []) merged)"
    by (simp only: hydrate_results_def Let_def es_def cs_def eids_def cids_def)
  also have "\<dots> = map (hydrate1 es cs) merged" by (rule each [OF assms])
  finally have "hydrate_results s a c aborted db merged = map (hydrate1 es cs) merged" .
  then show ?thesis
    by (rule that [OF _ es_def cs_def]) (force simp: eids_def cids_def List.map_filter_def)+
qed

lemma search_cases:
  assumes "run_journal_search s a c bk query prefix df dt limit emb db = Inr (hits, n, q)"
  obtains lo hi merged aborted es cs eids cids where "opt_date df = Inr lo" "opt_date dt = Inr hi"
    "run_dual_search s bk query emb prefix df dt lo hi limit db = Inr (merged, aborted)" "0 \<le> limit"
    "hits = map shape_hit (take (nat limit) (sort_key ht_rank (map (hydrate1 es cs) merged)))" "n = length hits" "q = query"
    "es = (if aborted \<and> eids \<noteq> [] then None else Some (get_texts s a c eids db))"
    "cs = (if aborted \<and> cids \<noteq> [] then None else Some (get_titles_summaries s a c cids db))"
    "\<And>h i. h \<in> set merged \<Longrightarrow> ht_doc h = ''entry'' \<Longrightarrow> ht_entry h = Some i \<Longrightarrow> i \<in> set eids"
    "\<And>h i. h \<in> set merged \<Longrightarrow> ht_doc h = ''conversation'' \<Longrightarrow> ht_conv h = Some i \<Longrightarrow> i \<in> set cids"
proof -
  from assms obtain lo hi merged aborted where d: "opt_date df = Inr lo" "opt_date dt = Inr hi"
    and dual: "run_dual_search s bk query emb prefix df dt lo hi limit db = Inr (merged, aborted)"
    and built: "build_payload (hydrate_results s a c aborted db merged) query limit = (hits, n, q)"
    by (auto simp: run_journal_search_def res_simps)
  from dual d have limit: "0 \<le> limit" by (cases rule: dual_search_cases)
  have raw: "list_all raw_hit merged" using merged_raw [OF dual d] by simp
  obtain eids cids es cs where
    map: "hydrate_results s a c aborted db merged = map (hydrate1 es cs) merged"
    and es: "es = (if aborted \<and> eids \<noteq> [] then None else Some (get_texts s a c eids db))"
    and cs: "cs = (if aborted \<and> cids \<noteq> [] then None else Some (get_titles_summaries s a c cids db))"
    and ids: "\<And>h i. h \<in> set merged \<Longrightarrow> ht_doc h = ''entry'' \<Longrightarrow> ht_entry h = Some i \<Longrightarrow> i \<in> set eids"
      "\<And>h i. h \<in> set merged \<Longrightarrow> ht_doc h = ''conversation'' \<Longrightarrow> ht_conv h = Some i \<Longrightarrow> i \<in> set cids"
    by (rule hydrate_results_map [OF raw, of s a c aborted db]) (rule that)
  have "\<forall>h \<in> set (take (nat limit) (sort_key ht_rank (map (hydrate1 es cs) merged))). ht_doc h = ''entry'' \<or> ht_doc h = ''conversation''"
    using raw by (fastforce simp: list_all_iff raw_hit_def dest!: in_set_takeD)
  then have "hits = map shape_hit (take (nat limit) (sort_key ht_rank (map (hydrate1 es cs) merged)))" "n = length hits" "q = query"
    using built limit by (auto simp: build_payload_def Let_def map py_head_def filter_id_conv)
  then show ?thesis by (rule that [OF d dual limit _ _ _ es cs ids])
qed

text \<open>
  Property C30.  Every result of a search is honest.  It stands for a live entry, or a
  conversation, of the user who asks, in a topic under the prefix and in the range of dates; the
  row's text matches the query, or its embedding reaches the similarity floor, and its rank says
  how well; it is shown with the decrypted text of that row, cut to 4096 characters, or with the
  failure sentinel and the flag, never with another row's text.  No document appears twice, the
  results come best first, there are no more of them than asked for, and \<open>total\<close> counts them.
\<close>

theorem search_results_sound:
  assumes "run_journal_search s a c bk query prefix df dt limit emb db = Inr (hits, n, q)" and "jdb_ok db"
  shows "\<exists>lo hi. opt_date df = Inr lo \<and> opt_date dt = Inr hi \<and> n = length hits \<and> int n \<le> limit \<and> q = query \<and>
    distinct (map ht_key hits) \<and> sorted (map ht_rank hits) \<and>
    (\<forall>h \<in> set hits.
       (\<exists>e. entry_source_ok s bk query prefix lo hi emb db h e \<and> entry_text_ok a c e h) \<or>
       (\<exists>x. conv_source_ok s bk query prefix lo hi db h x \<and> conv_text_ok a c x h))"
  using assms(1)
proof (cases rule: search_cases)
  case (1 lo hi merged aborted es cs eids cids)
  have unique: "unique_key en_id (entries db)" "unique_key cv_id (convs db)"
    using assms(2) by (auto simp: jdb_ok_def entries_ok_def convs_ok_def)
  have raw: "list_all raw_hit merged" "distinct (map ht_key merged)" using merged_raw [OF 1(3,1,2)] by auto
  have hit: "(\<exists>e. entry_source_ok s bk query prefix lo hi emb db h e \<and> entry_text_ok a c e h) \<or>
      (\<exists>x. conv_source_ok s bk query prefix lo hi db h x \<and> conv_text_ok a c x h)" if "h \<in> set hits" for h
  proof -
    from that 1(5) obtain m where h: "h = shape_hit (hydrate1 es cs m)" and m: "m \<in> set merged" by (auto dest!: in_set_takeD)
    have fresh: "\<not> ht_failed m" using raw(1) m by (auto simp: list_all_iff raw_hit_def)
    from merged_source [OF 1(3,1,2) m] show ?thesis
    proof (elim disjE exE)
      fix e assume e: "entry_source_ok s bk query prefix lo hi emb db m e"
      then have doc: "ht_doc m = ''entry''" "ht_entry m = Some (en_id e)" by (auto simp: entry_source_ok_def)
      have "entry_source_ok s bk query prefix lo hi emb db h e"
        using e doc by (simp add: entry_source_ok_def h) (simp add: shape_hit_def)
      moreover have "entry_text_ok a c e h"
        using hydrated_entry_ok [OF unique(1), of e s eids es a c m] e doc fresh 1(8) 1(10) [OF m doc]
        by (auto simp: h hydrate1_def entry_source_ok_def)
      ultimately show ?thesis by blast
    next
      fix x assume x: "conv_source_ok s bk query prefix lo hi db m x"
      then have doc: "ht_doc m = ''conversation''" "ht_conv m = Some (cv_id x)" by (auto simp: conv_source_ok_def)
      have "conv_source_ok s bk query prefix lo hi db h x"
        using x doc by (simp add: conv_source_ok_def h) (simp add: shape_hit_def)
      moreover have "conv_text_ok a c x h"
        using hydrated_conversation_ok [OF unique(2), of x s cids cs a c m] x doc fresh 1(9) 1(11) [OF m doc]
        by (auto simp: h hydrate1_def conv_source_ok_def)
      ultimately show ?thesis by blast
    qed
  qed
  have "map ht_key hits = map ht_key (take (nat limit) (sort_key ht_rank (map (hydrate1 es cs) merged)))"
    "map ht_rank hits = map ht_rank (take (nat limit) (sort_key ht_rank (map (hydrate1 es cs) merged)))"
    by (simp_all add: 1(5))
  moreover have "mset (map ht_key (sort_key ht_rank (map (hydrate1 es cs) merged))) = mset (map ht_key merged)"
    by (simp add: multiset.map_comp comp_def)
  then have "distinct (map ht_key (sort_key ht_rank (map (hydrate1 es cs) merged)))"
    using raw(2) mset_eq_imp_distinct_iff by blast
  ultimately have "distinct (map ht_key hits)" "sorted (map ht_rank hits)"
    by (simp_all add: take_map [symmetric] sorted_wrt_take)
  moreover have "int n \<le> limit" using 1(4,5,6) by simp
  ultimately show ?thesis using 1(1,2,6,7) hit by blast
qed

section \<open>What a search finds\<close>

lemma dec_nat_inj: "dec_nat m = dec_nat n \<longleftrightarrow> m = n"
  using dec_nat_digits [of m] dec_nat_digits [of n] by metis

lemma dec_nat_hd: "is_digit (hd (dec_nat n))"
  using dec_nat_digits [of n] by (cases "dec_nat n") auto

lemma dec_int_inj [simp]: "dec_int i = dec_int j \<longleftrightarrow> i = j"
proof -
  have "dec_nat n \<noteq> CHR ''-'' # xs" for n xs using dec_nat_hd [of n] by (auto simp: is_digit_def between_def cp_def)
  then show ?thesis by (auto simp: dec_int_def dec_nat_inj dest: sym)
qed

lemma dec_int_None [simp]: "dec_int i \<noteq> ''None''" "''None'' \<noteq> dec_int i"
proof -
  have "dec_nat n \<noteq> CHR ''N'' # xs" for n xs using dec_nat_hd [of n] by (auto simp: is_digit_def between_def cp_def)
  then show "dec_int i \<noteq> ''None''" by (auto simp: dec_int_def)
  then show "''None'' \<noteq> dec_int i" by auto
qed

lemma source_keys:
  "source_key ''entry'' (Some i) None = source_key ''entry'' (Some j) None \<longleftrightarrow> i = j"
  "source_key ''entry'' (Some i) None \<noteq> source_key ''conversation'' None (Some k)"
  "''entry:'' @ dec_int i \<noteq> source_key ''conversation'' None (Some k)"
  "''entry:'' @ dec_int i = source_key ''entry'' (Some j) None \<Longrightarrow> i = j"
  by (auto simp: source_key_def Let_def split: if_splits)

lemma sort_key_map_same: "(\<And>x. f (g x) = f x) \<Longrightarrow> sort_key f (map g xs) = map g (sort_key f xs)"
proof (induction xs)
  case (Cons x xs)
  have "insort_key f (g x) (map g ys) = map g (insort_key f x ys)" for ys by (induction ys) (auto simp: Cons.prems)
  with Cons show ?case by simp
qed simp

lemma fts_all_cases:
  assumes "m \<in> set (fts_all s bk query prefix lo hi db)"
  obtains (entry) e where "e \<in> set (entries db)" "fts_entry s bk query prefix lo hi db e" "m = entry_hit s bk query db e"
    "ht_key m = source_key ''entry'' (Some (en_id e)) None"
  | (conv) x where "x \<in> set (convs db)" "ht_key m = source_key ''conversation'' None (Some (cv_id x))"
  using assms by (auto simp: fts_all_def sql_simps entry_hit_def conv_hit_def)

lemma in_near_all: "(b, e) \<in> set (near_all s bk v cutoff prefix lo hi db) \<longleftrightarrow>
    b \<in> set (embs db) \<and> bk_reached bk v (embs db) b \<and> e \<in> set (entries db) \<and> near_entry s bk v cutoff prefix lo hi db b e"
  by (auto simp: near_all_def sql_simps)

text \<open>
  Property C31.  Nothing the back-ends find is lost while it fits.  When the rows the two back-ends
  find are together no more than the limit, every live entry of the user, under the prefix and in
  the range of dates, whose text matches the query is among the results, and so is every one whose
  embedding reaches the similarity floor and is delivered by the scan of the vector index (that
  index is approximate: an embedding its scan does not reach is not promised).  An entry found
  by both comes once, ranked by its text.
\<close>

theorem matches_are_found:
  assumes "run_journal_search s a c bk query prefix df dt limit emb db = Inr (hits, n, q)" and "jdb_ok db" and "\<not> bk_fault bk"
    and "opt_date df = Inr lo" and "opt_date dt = Inr hi"
    and "length (fts_all s bk query prefix lo hi db) +
      (case emb of None \<Rightarrow> 0 | Some v \<Rightarrow> length (near_all s bk v (Some SEMANTIC_MIN_SIMILARITY) prefix lo hi db)) \<le> nat limit"
    and "e \<in> set (entries db)"
    and "fts_entry s bk query prefix lo hi db e \<or>
      (\<exists>v. emb = Some v \<and> (\<exists>b \<in> set (embs db). bk_reached bk v (embs db) b \<and>
         near_entry s bk v (Some SEMANTIC_MIN_SIMILARITY) prefix lo hi db b e))"
  shows "\<exists>h \<in> set hits. ht_doc h = ''entry'' \<and> ht_entry h = Some (en_id e) \<and>
    (if fts_entry s bk query prefix lo hi db e then ht_rank h = text_rank bk query (en_search e)
     else \<exists>v b. emb = Some v \<and> b \<in> set (embs db) \<and> em_entry b = en_id e \<and> ht_rank h = - similarity bk v b)"
  using assms(1)
proof (cases rule: search_cases)
  case (1 lo' hi' merged aborted es cs eids cids)
  have "inj_on en_id (set (entries db))" using assms(2) by (auto simp: jdb_ok_def entries_ok_def unique_key_def distinct_map)
  then have same: "\<And>e'. e' \<in> set (entries db) \<Longrightarrow> en_id e' = en_id e \<Longrightarrow> e' = e" using assms(7) by (auto dest: inj_onD)
  have lohi: "lo' = lo" "hi' = hi" using 1(1,2) assms(4,5) by auto
  from 1(3) [unfolded lohi] assms(4,5) show ?thesis
  proof (cases rule: dual_search_cases)
    case d: (1 fts near)
    define texts where "texts = sort_key ht_rank (fts_all s bk query prefix lo hi db)"
    have fts: "fts = texts" using d(3) assms(6) unfolding texts_def by (simp split: option.splits)
    have near: "set near = (case emb of None \<Rightarrow> {} | Some v \<Rightarrow> near_hit s bk v db ` set (near_all s bk v (Some SEMANTIC_MIN_SIMILARITY) prefix lo hi db))"
      "length near = (case emb of None \<Rightarrow> 0 | Some v \<Rightarrow> length (near_all s bk v (Some SEMANTIC_MIN_SIMILARITY) prefix lo hi db))"
      using d(4) assms(3,6) by (auto split: option.splits)
    have len: "length merged \<le> nat limit"
    proof -
      have "length (merge_new seen hs) \<le> length hs" for seen hs by (induction seen hs rule: merge_new.induct) auto
      from this [of "[]" "fts @ near"] show ?thesis using d(2) fts near(2) assms(6) by (simp add: texts_def)
    qed
    have hits: "set hits = (\<lambda>h. shape_hit (hydrate1 es cs h)) ` set merged"
      using 1(5) len by (auto simp: image_image)
    have found: "\<exists>h \<in> set hits. ht_doc h = ''entry'' \<and> ht_entry h = Some (en_id e) \<and> ht_rank h = ht_rank m"
      if "m \<in> set merged" "ht_doc m = ''entry''" "ht_entry m = Some (en_id e)" for m
      using that hits by (intro bexI [of _ "shape_hit (hydrate1 es cs m)"]) (auto simp: shape_hit_def)
    have keys: "ht_key ` set merged = ht_key ` set (fts @ near)" using merge_new_keys [of "[]" "fts @ near"] d(2) by simp
    show ?thesis
    proof (cases "fts_entry s bk query prefix lo hi db e")
      case True
      then have raw: "entry_hit s bk query db e \<in> set fts" using assms(7) by (simp add: fts texts_def fts_all_def sql_simps)
      then obtain m where m: "m \<in> set merged" "ht_key m = ht_key (entry_hit s bk query db e)" using keys by (metis Un_iff imageE imageI set_append)
      then have "m \<in> set fts" using merge_new_first [of m "[]" fts near] raw d(2) by auto
      then have "m \<in> set (fts_all s bk query prefix lo hi db)" by (simp add: fts texts_def)
      then have "m = entry_hit s bk query db e"
      proof (cases rule: fts_all_cases)
        case (entry e')
        with m(2) have "en_id e' = en_id e" by (simp add: entry_hit_def source_keys)
        with entry same show ?thesis by blast
      next
        case (conv x)
        with m(2) source_keys(2) [of "en_id e" "cv_id x"] show ?thesis by (simp add: entry_hit_def)
      qed
      with found [OF m(1)] True show ?thesis by (auto simp: entry_hit_def)
    next
      case False
      with assms(8) obtain v b where v: "emb = Some v" and b: "b \<in> set (embs db)"
        "bk_reached bk v (embs db) b" "near_entry s bk v (Some SEMANTIC_MIN_SIMILARITY) prefix lo hi db b e" by blast
      then have raw: "near_hit s bk v db (b, e) \<in> set near" using assms(7) near(1) in_near_all [of b e] by auto
      then obtain m where m: "m \<in> set merged" "ht_key m = ht_key (near_hit s bk v db (b, e))" using keys by (metis Un_iff imageE imageI set_append)
      have "m \<in> set fts \<or> m \<in> set near" using m(1) merge_new_keys [of "[]" "fts @ near"] d(2) by auto
      then show ?thesis
      proof
        assume "m \<in> set fts"
        then have "m \<in> set (fts_all s bk query prefix lo hi db)" by (simp add: fts texts_def)
        then show ?thesis
        proof (cases rule: fts_all_cases)
          case (entry e')
          with m(2) have "en_id e = en_id e'" using source_keys(4) [of "en_id e" "en_id e'"] by (simp add: near_hit_def)
          with entry same [of e'] False show ?thesis by simp
        next
          case (conv x)
          with m(2) source_keys(3) [of "en_id e" "cv_id x"] show ?thesis by (simp add: near_hit_def)
        qed
      next
        assume "m \<in> set near"
        then obtain b' e' where m': "m = near_hit s bk v db (b', e')" "b' \<in> set (embs db)"
          "near_entry s bk v (Some SEMANTIC_MIN_SIMILARITY) prefix lo hi db b' e'"
          using near(1) v by (auto simp: in_near_all)
        with m(2) have "en_id e' = en_id e" by (simp add: near_hit_def)
        with m' found [OF m(1)] False v show ?thesis by (auto simp: near_hit_def near_entry_def)
      qed
    qed
  qed
qed

section \<open>When the vector query fails\<close>

lemma search_run_keys:
  assumes "run_dual_search s bk query emb prefix df dt lo hi limit db = Inr (merged, aborted)" "opt_date df = Inr lo" "opt_date dt = Inr hi"
    and "run_journal_search s a c bk query prefix df dt limit emb db = Inr (hits, n, q)"
  shows "map ht_key hits = map ht_key (take (nat limit) (sort_key ht_rank merged))"
  using assms(4)
proof (cases rule: search_cases)
  case (1 lo' hi' merged' aborted' es cs eids cids)
  then have "merged' = merged" using assms(1-3) by auto
  then show ?thesis using 1(5) by (simp add: sort_key_map_same take_map comp_def)
qed

text \<open>
  Property C32.  What a failing vector query really does.  The search passes over the failure and
  returns the documents a search by text alone returns, in its order, as its comment says; but the
  failed statement has aborted the transaction of the request, so the queries that fetch the texts
  fail as well, and every single result shows the failure sentinel in place of its text.
\<close>

theorem semantic_fault_hides_content:
  assumes "run_journal_search s a c bk query prefix df dt limit (Some v) db = Inr (hits, n, q)" and "bk_fault bk"
  shows "(\<exists>plain. run_journal_search s a c bk query prefix df dt limit None db = Inr (plain, n, q) \<and>
      map ht_key hits = map ht_key plain) \<and>
    list_all (\<lambda>h. ht_failed h \<and> (if ht_doc h = ''entry'' then ht_content h = Some conv_failed_text
      else ht_title h = Some conv_failed_text \<and> ht_summary h = Some conv_failed_text)) hits"
  using assms(1)
proof (cases rule: search_cases)
  case (1 lo hi merged aborted es cs eids cids)
  have aborted: "aborted" using 1(1-3) assms(2)
    by (cases rule: dual_search_cases [OF 1(3,1,2)]) auto
  have text_only: "run_dual_search s bk query None prefix df dt lo hi limit db = Inr (merged, False)"
    using 1(3) assms(2) by (auto simp: run_dual_search_def search_by_vector_def res_simps)
  then obtain plain n' q' where plain: "run_journal_search s a c bk query prefix df dt limit None db = Inr (plain, n', q')"
    using 1(1,2) by (simp add: run_journal_search_def) (metis prod_cases3)
  have keys: "map ht_key hits = map ht_key plain"
    using search_run_keys [OF 1(3,1,2) assms(1)] search_run_keys [OF text_only 1(1,2) plain] by simp
  then have "length hits = length plain" by (metis length_map)
  moreover have "n' = length plain" "q' = query" using plain by (auto elim: search_cases)
  ultimately have "run_journal_search s a c bk query prefix df dt limit None db = Inr (plain, n, q)" using plain 1(6,7) by simp
  moreover have "ht_failed h \<and> (if ht_doc h = ''entry'' then ht_content h = Some conv_failed_text
      else ht_title h = Some conv_failed_text \<and> ht_summary h = Some conv_failed_text)" if "h \<in> set hits" for h
  proof -
    from that 1(5) obtain m where h: "h = shape_hit (hydrate1 es cs m)" and m: "m \<in> set merged" by (auto dest!: in_set_takeD)
    have "raw_hit m" using merged_raw [OF 1(3,1,2)] m by (auto simp: list_all_iff)
    then consider i where "ht_doc m = ''entry''" "ht_entry m = Some i" | i where "ht_doc m = ''conversation''" "ht_conv m = Some i"
      by (auto simp: raw_hit_def)
    then show ?thesis
    proof cases
      case a: 1
      with 1(10) [OF m a] 1(8) aborted have "es = None" by auto
      with a show ?thesis by (simp add: h hydrate1_def hydrate_entry_def) (simp add: shape_hit_def)
    next
      case b: 2
      with 1(11) [OF m b] 1(9) aborted have "cs = None" by auto
      with b show ?thesis by (simp add: h hydrate1_def hydrate_conversation_def) (simp add: shape_hit_def)
    qed
  qed
  ultimately show ?thesis using keys by (auto simp: list_all_iff)
qed

section \<open>Both surfaces\<close>

lemma date_given_parses: "date_given_ok d \<Longrightarrow> \<exists>x. opt_date d = Inr x"
  by (auto simp: date_given_ok_def opt_date_def parse_date_def validate_date_Inr date_fromisoformat_isoformat
      split: option.splits sum.splits)

lemma run_search_returns:
  assumes "date_given_ok df" "date_given_ok dt" "0 \<le> limit"
  shows "\<exists>hits n. run_journal_search s a c bk query prefix df dt limit emb db = Inr (hits, n, query)"
proof -
  obtain lo hi where "opt_date df = Inr lo" "opt_date dt = Inr hi" using assms(1,2) date_given_parses by blast
  then show ?thesis
    using assms(3)
    by (auto simp: run_journal_search_def run_dual_search_def fts_search_def search_by_vector_def pg_page_def build_payload_def Let_def
        split: option.split)
qed

lemma limit_search_size_cases:
  "if \<exists>chars. json_size (hits, n, q) = Some chars \<and> 80000 < chars
   then \<exists>suggested. 1 \<le> suggested \<and> limit_search_size json_size (SearchResults hits n q) =
     SearchTooLarge (the (json_size (hits, n, q))) suggested
   else limit_search_size json_size (SearchResults hits n q) = SearchResults hits n q"
  by (auto simp: limit_search_size_def check_response_size_def ERROR_THRESHOLD_CHARS_def split: option.splits)

text \<open>
  Property C33.  The tool and the web endpoint are the same search.  On a query and a limit both
  accept, with well-formed filters, the endpoint always answers with results, never with an
  exception of the repository, and the tool answers with exactly the same results, except when
  their JSON text is longer than 80,000 characters: then, and only then, it answers that they
  are too large, with their size and a smaller limit to try.  Where a filter is malformed the tool
  answers with an error code and the endpoint with no results; and a limit out of the tool's range
  counts as the nearest one in it.
\<close>

theorem search_surfaces_agree:
  assumes "query \<noteq> []" and "length query \<le> MAX_QUERY_LEN" and "1 \<le> limit" and "limit \<le> MAX_SEARCH_RESULTS"
  shows "(if (\<exists>p. clean_prefix prefix = Inr p) \<and> date_given_ok df \<and> date_given_ok dt
      then \<exists>hits n. web_search s a c bk query prefix df dt limit db = SearchResults hits n query \<and>
        (if \<exists>chars. json_size (hits, n, query) = Some chars \<and> 80000 < chars
         then \<exists>suggested. 1 \<le> suggested \<and> journal_search s a c bk json_size query prefix df dt limit db =
           SearchTooLarge (the (json_size (hits, n, query))) suggested
         else journal_search s a c bk json_size query prefix df dt limit db = SearchResults hits n query)
      else (\<exists>code. journal_search s a c bk json_size query prefix df dt limit db = SearchError code) \<and>
        web_search s a c bk query prefix df dt limit db = SearchResults [] 0 query) \<and>
    journal_search s a c bk json_size query prefix df dt far db =
      journal_search s a c bk json_size query prefix df dt (max 1 (min far MAX_SEARCH_RESULTS)) db"
proof -
  have limits: "max 1 (min limit MAX_SEARCH_RESULTS) = limit" "\<not> limit < 1" "\<not> MAX_SEARCH_LIMIT < limit" "0 \<le> limit"
    using assms by (auto simp: MAX_SEARCH_RESULTS_def MAX_SEARCH_LIMIT_def)
  have "max 1 (min (max 1 (min far MAX_SEARCH_RESULTS)) MAX_SEARCH_RESULTS) = max 1 (min far MAX_SEARCH_RESULTS)"
    by (simp add: MAX_SEARCH_RESULTS_def)
  then have far: "journal_search s a c bk json_size query prefix df dt far db =
      journal_search s a c bk json_size query prefix df dt (max 1 (min far MAX_SEARCH_RESULTS)) db"
    by (simp add: journal_search_def)
  show ?thesis
  proof (cases "(\<exists>p. clean_prefix prefix = Inr p) \<and> date_given_ok df \<and> date_given_ok dt")
    case True
    then obtain p where p: "clean_prefix prefix = Inr p" and dates: "date_given_ok df" "date_given_ok dt" by blast
    obtain hits n where run: "run_journal_search s a c bk query p df dt limit (bk_encode bk query) db = Inr (hits, n, query)"
      using run_search_returns [OF dates limits(4)] by blast
    have web: "web_search s a c bk query prefix df dt limit db = SearchResults hits n query"
      using assms(1,2) limits p dates run by (simp add: web_search_def)
    have "journal_search s a c bk json_size query prefix df dt limit db = limit_search_size json_size (SearchResults hits n query)"
      using assms(2) limits p dates run by (simp add: journal_search_def)
    with True web far limit_search_size_cases [of json_size hits n query] show ?thesis by auto
  next
    case False
    then have "(\<exists>code. journal_search s a c bk json_size query prefix df dt limit db = SearchError code) \<and>
        web_search s a c bk query prefix df dt limit db = SearchResults [] 0 query"
      using assms limits by (cases "clean_prefix prefix") (auto simp: journal_search_def web_search_def)
    with False far show ?thesis by auto
  qed
qed

section \<open>A sample\<close>

text \<open>The sample journal with searchable texts, the first entry having a stored vector.\<close>

definition search_jdb :: jdb where
  "search_jdb = sample_jdb\<lparr>entries := map (\<lambda>e. e\<lparr>en_search := Some [104, 105]\<rparr>) (entries sample_jdb)\<rparr>"

definition demo_backends :: "bool \<Rightarrow> backends" where
  "demo_backends fault = \<lparr>bk_matches = (\<lambda>q t. True), bk_rank = (\<lambda>q t. 0), bk_distance = (\<lambda>x y. if x = y then 0 else 1),
     bk_reached = (\<lambda>v bs b. True), bk_encode = (\<lambda>q. None), bk_fault = fault\<rparr>"

lemma search_jdb_ok: "jdb_ok search_jdb"
  by (simp add: search_jdb_def jdb_ok_def topics_ok_def convs_ok_def entries_ok_def embs_ok_def msgs_ok_def topic_keys_def
      conv_keys_def entry_keys_def sample_jdb_def empty_jdb_def unique_key_def)

abbreviation demo_search :: "bool \<Rightarrow> vec option \<Rightarrow> jerror + (hit list \<times> nat \<times> ptext)" where
  "demo_search fault emb \<equiv>
     run_journal_search demo_session demo_aead demo_cipher (demo_backends fault) [104] None None None 20 emb search_jdb"

lemma demo_search_returns: "\<exists>hits n. demo_search fault emb = Inr (hits, n, [104])"
  by (rule run_search_returns) (simp_all add: date_given_ok_def non_empty_def)

theorem search_results_sound_witness:
  "\<exists>hits n. demo_search False (Some [1, 0]) = Inr (hits, n, [104]) \<and> distinct (map ht_key hits) \<and> n = length hits"
proof -
  obtain hits n where r: "demo_search False (Some [1, 0]) = Inr (hits, n, [104])" using demo_search_returns by blast
  from search_results_sound [OF r search_jdb_ok] r show ?thesis by auto
qed

theorem semantic_fault_hides_content_witness:
  "\<exists>hits n. demo_search True (Some [1, 0]) = Inr (hits, n, [104]) \<and> list_all ht_failed hits"
proof -
  obtain hits n where r: "demo_search True (Some [1, 0]) = Inr (hits, n, [104])" using demo_search_returns by blast
  from semantic_fault_hides_content [OF r] r show ?thesis by (auto simp: demo_backends_def list_all_iff)
qed

lemma result_sizes:
  "length (fts_all s bk query prefix lo hi db) \<le> length (entries db) + length (convs db)"
  "length (near_all s bk v cutoff prefix lo hi db) \<le> length (embs db) * length (entries db)"
proof -
  show "length (fts_all s bk query prefix lo hi db) \<le> length (entries db) + length (convs db)"
    by (simp add: fts_all_def sql_select_def add_mono)
  have "length (concat (map (\<lambda>b. map (\<lambda>e. (b, e)) (sql_select (near_entry s bk v cutoff prefix lo hi db b) (entries db))) bs))
      \<le> length bs * length (entries db)" for bs :: "emb_row list"
    by (induction bs) (auto simp: sql_select_def intro: add_mono)
  then have "length (near_all s bk v cutoff prefix lo hi db) \<le> length (filter (bk_reached bk v (embs db)) (embs db)) * length (entries db)"
    unfolding near_all_def .
  also have "\<dots> \<le> length (embs db) * length (entries db)" by (intro mult_le_mono1 length_filter_le)
  finally show "length (near_all s bk v cutoff prefix lo hi db) \<le> length (embs db) * length (entries db)" .
qed

theorem matches_are_found_witness:
  "\<exists>hits n. demo_search False (Some [1, 0]) = Inr (hits, n, [104]) \<and> Some 1 \<in> set (map ht_entry hits)"
proof -
  obtain hits n where r: "demo_search False (Some [1, 0]) = Inr (hits, n, [104])" using demo_search_returns by blast
  have sizes: "length (entries search_jdb) = 3" "length (convs search_jdb) = 2" "length (embs search_jdb) = 1"
    by (simp_all add: search_jdb_def sample_jdb_def empty_jdb_def)
  let ?e = "hd (entries search_jdb)"
  have e: "?e \<in> set (entries search_jdb)" "en_id ?e = 1" "en_user ?e = 7" "en_deleted ?e = None" "en_search ?e = Some [104, 105]"
    "en_topic ?e = 1" by (simp_all add: search_jdb_def sample_jdb_def empty_jdb_def)
  have path: "entry_path demo_session search_jdb ?e = Some ''work''"
    unfolding entry_path_def e by (simp add: topic_by_id_def search_jdb_def sample_jdb_def empty_jdb_def sql_first_def vis_def)
  have "fts_entry demo_session (demo_backends False) [104] None None None search_jdb ?e"
    by (simp add: fts_entry_def e path vis_def demo_backends_def opt_like_def non_empty_def in_range_def)
  with matches_are_found [OF r search_jdb_ok _ _ _ _ e(1), of None None]
    result_sizes(1) [of demo_session "demo_backends False" "[104]" None None None search_jdb]
    result_sizes(2) [of demo_session "demo_backends False" "[1, 0]" "Some SEMANTIC_MIN_SIMILARITY" None None None search_jdb] sizes
  have "\<exists>h \<in> set hits. ht_entry h = Some 1"
    by (auto simp: opt_date_def non_empty_def demo_backends_def e)
  with r show ?thesis by (auto simp: image_iff) (metis)
qed

text \<open>
  The witness: on the sample the tool answers as the endpoint does when the JSON text is short, and
  that the answer is too large when it is a character over the limit.
\<close>

theorem search_surfaces_agree_witness:
  "\<exists>hits n suggested. web_search demo_session demo_aead demo_cipher (demo_backends False) [104] None None None 5 search_jdb =
      SearchResults hits n [104] \<and>
    journal_search demo_session demo_aead demo_cipher (demo_backends False) (\<lambda>r. Some 80000) [104] None None None 5 search_jdb =
      SearchResults hits n [104] \<and>
    journal_search demo_session demo_aead demo_cipher (demo_backends False) (\<lambda>r. Some 80001) [104] None None None 5 search_jdb =
      SearchTooLarge 80001 suggested"
proof -
  have "clean_prefix None = Inr None" "date_given_ok None" by (simp_all add: clean_prefix_def date_given_ok_def non_empty_def)
  then show ?thesis
    using search_surfaces_agree [of "[104]" 5 None None None demo_session demo_aead demo_cipher "demo_backends False" search_jdb "\<lambda>r. Some 80000" 0]
      search_surfaces_agree [of "[104]" 5 None None None demo_session demo_aead demo_cipher "demo_backends False" search_jdb "\<lambda>r. Some 80001" 0]
    by (auto simp: MAX_QUERY_LEN_def MAX_SEARCH_RESULTS_def)
qed

end
