(* ===== verification/Reindex.thy ===== *)
theory Reindex
  imports Search Worker
begin

text \<open>
  The indexing queue: the operations of \<open>gubbi/storage/repositories/entries.py\<close> on \<open>indexed_at\<close>
  and the reindex worker of \<open>gubbi/tools/admin.py\<close>, which embeds every entry whose \<open>indexed_at\<close>
  is NULL.

  The worker runs on connections that bypass row-level security, so its statements see all rows.
  It is not alone in the database: the environment says what others have committed before each of
  its storage calls, which rows they hold locked at a claim, what fails, and whether the run is cut
  off (cancelled, or its process stopped) in the middle of a batch.
\<close>

section \<open>The queue\<close>

definition mark_indexed :: "session \<Rightarrow> int \<Rightarrow> int \<Rightarrow> jdb \<Rightarrow> jdb" where
  "mark_indexed s now entry_id db =
     db\<lparr>entries := sql_update (\<lambda>e. vis s (en_user e) \<and> en_id e = entry_id) (\<lambda>e. e\<lparr>en_indexed := Some now\<rparr>) (entries db)\<rparr>"

definition mark_indexed_batch :: "int \<Rightarrow> int list \<Rightarrow> jdb \<Rightarrow> jdb" where
  "mark_indexed_batch now ids db =
     (if ids = [] then db
      else db\<lparr>entries := sql_update (\<lambda>e. en_id e \<in> set ids) (\<lambda>e. e\<lparr>en_indexed := Some now\<rparr>) (entries db)\<rparr>)"

definition reset_indexed_at :: "jdb \<Rightarrow> jdb" where
  "reset_indexed_at db = db\<lparr>entries := sql_update (\<lambda>e. en_deleted e = None) (\<lambda>e. e\<lparr>en_indexed := None\<rparr>) (entries db)\<rparr>"

definition reset_indexed_at_for_ids :: "int list \<Rightarrow> jdb \<Rightarrow> jdb" where
  "reset_indexed_at_for_ids ids db =
     (if ids = [] then db
      else db\<lparr>entries := sql_update (\<lambda>e. en_id e \<in> set ids \<and> en_deleted e = None) (\<lambda>e. e\<lparr>en_indexed := None\<rparr>) (entries db)\<rparr>)"

definition queued :: "int \<Rightarrow> entry_row \<Rightarrow> bool" where
  "queued last_id e = (en_deleted e = None \<and> en_indexed e = None \<and> last_id < en_id e)"

text \<open>
  The rows a claim takes, whose topics the outer query joins.  \<open>FOR UPDATE SKIP LOCKED\<close> passes over the
  rows another transaction holds locked.
\<close>

definition claimed :: "(int \<Rightarrow> bool) \<Rightarrow> int \<Rightarrow> nat \<Rightarrow> jdb \<Rightarrow> entry_row list" where
  "claimed locked last_id batch_size db =
     take batch_size (sort_key en_id (filter (\<lambda>e. \<not> locked (en_id e)) (sql_select (queued last_id) (entries db))))"

definition get_unindexed :: "aead \<Rightarrow> content_cipher \<Rightarrow> (int \<Rightarrow> bool) \<Rightarrow> int \<Rightarrow> nat \<Rightarrow> jdb \<Rightarrow> jerror + (entry_row \<times> ptext) list" where
  "get_unindexed a c locked last_id batch_size db =
     rmap_list (\<lambda>e. rbind (open_column a c (Some (en_content e))) (\<lambda>t. rmap (\<lambda>t'. (e, t')) (not_null t)))
       (filter (\<lambda>e. \<exists>t \<in> set (topics db). tp_id t = en_topic e) (claimed locked last_id batch_size db))"

definition get_max_indexed_at :: "jdb \<Rightarrow> int option" where
  "get_max_indexed_at db =
     (let stamps = List.map_filter en_indexed (sql_select (\<lambda>e. en_deleted e = None) (entries db))
      in if stamps = [] then None else Some (Max (set stamps)))"

section \<open>The worker\<close>

definition REINDEX_BATCH_SIZE :: nat where "REINDEX_BATCH_SIZE = 100"
definition REINDEX_COOLDOWN_SECONDS :: int where "REINDEX_COOLDOWN_SECONDS = 60"

text \<open>The (whole) seconds until a reindex may start again, or \<open>None\<close> when it may.\<close>

definition db_reindex_cooldown :: "int \<Rightarrow> jdb \<Rightarrow> int option" where
  "db_reindex_cooldown now db =
     (case get_max_indexed_at db of
        None \<Rightarrow> None
      | Some stamp \<Rightarrow> if now - stamp < REINDEX_COOLDOWN_SECONDS then Some (REINDEX_COOLDOWN_SECONDS - (now - stamp)) else None)"

text \<open>
  The surroundings of a run: whether the pool it is given is the one of the context (and there is
  one), the cipher, the clock of each round, the model (\<open>None\<close> when it
  raises), which saves fail in a round and in which rounds the compensating reset fails; what
  others commit before the call \<open>j\<close> of round \<open>k\<close> (0 is the claim, then one save for each row, then the
  reset), in the first \<open>rx_busy\<close> rounds, so that a run sees finitely many of their writes; which
  entries they hold locked at a claim; and after how many rows a round is cut off, if it is.
\<close>

record reindex_env =
  rx_admin_pool :: bool
  rx_aead :: aead
  rx_cipher :: content_cipher
  rx_now :: "nat \<Rightarrow> int"
  rx_encode :: "ptext \<Rightarrow> vec option"
  rx_fault :: "nat \<Rightarrow> int \<Rightarrow> bool"
  rx_reset_fault :: "nat \<Rightarrow> bool"
  rx_busy :: nat
  rx_other :: "nat \<Rightarrow> nat \<Rightarrow> jdb \<Rightarrow> jdb"
  rx_locked :: "nat \<Rightarrow> int \<Rightarrow> bool"
  rx_cut :: "nat \<Rightarrow> nat option"

definition others_write :: "reindex_env \<Rightarrow> nat \<Rightarrow> nat \<Rightarrow> jdb \<Rightarrow> jdb" where
  "others_write x k j db = (if k < rx_busy x then rx_other x k j db else db)"

text \<open>Nobody else writes in round \<open>k\<close>.\<close>

definition still :: "reindex_env \<Rightarrow> nat \<Rightarrow> bool" where
  "still x k = (\<forall>j db. others_write x k j db = db)"

lemma still_late: "\<not> k < rx_busy x \<Longrightarrow> still x k"
  by (simp add: still_def others_write_def)

text \<open>\<open>save_by_vector\<close> in the name of the row's owner, on a connection without row security.\<close>

definition admin_save_by_vector :: "nat \<Rightarrow> int \<Rightarrow> int \<Rightarrow> vec \<Rightarrow> jdb \<Rightarrow> jerror + jdb" where
  "admin_save_by_vector user now entry_id v db =
     (if \<not> list_ex (\<lambda>e. en_id e = entry_id \<and> en_user e = user) (entries db) then Inl ForeignKeyViolation
      else Inr (db\<lparr>embs := sql_upsert em_entry \<lparr>em_entry = entry_id, em_vec = v, em_indexed = now, em_user = user\<rparr> (embs db)\<rparr>))"

text \<open>
  The rows of a batch in order, from call \<open>j\<close>: the database and the ids that succeeded and failed.
  The text encoded is the one read by the claim.
\<close>

fun embed_rows :: "reindex_env \<Rightarrow> nat \<Rightarrow> nat \<Rightarrow> (entry_row \<times> ptext) list \<Rightarrow> jdb \<Rightarrow> jdb \<times> int list \<times> int list" where
  "embed_rows x k j [] db = (db, [], [])"
| "embed_rows x k j ((e, content) # rows) db =
     (let now_db = others_write x k j db in
      case (case rx_encode x content of
              None \<Rightarrow> None
            | Some v \<Rightarrow> if rx_fault x k (en_id e) then None
                else (case admin_save_by_vector (en_user e) (rx_now x k) (en_id e) v now_db of Inl err \<Rightarrow> None | Inr db' \<Rightarrow> Some db')) of
        None \<Rightarrow> (case embed_rows x k (j + 1) rows now_db of (db', ok, bad) \<Rightarrow> (db', ok, en_id e # bad))
      | Some db1 \<Rightarrow> (case embed_rows x k (j + 1) rows db1 of (db', ok, bad) \<Rightarrow> (db', en_id e # ok, bad)))"

text \<open>One round after the claim: the new database, and what succeeded and failed.\<close>

definition embed_batch :: "reindex_env \<Rightarrow> nat \<Rightarrow> (entry_row \<times> ptext) list \<Rightarrow> jdb \<Rightarrow> jdb \<times> int list \<times> int list" where
  "embed_batch x k batch db = embed_rows x k 1 batch (mark_indexed_batch (rx_now x k) (map (en_id \<circ> fst) batch) db)"

text \<open>What a round that is cut off after \<open>n\<close> rows leaves.\<close>

definition cut_batch :: "reindex_env \<Rightarrow> nat \<Rightarrow> nat \<Rightarrow> (entry_row \<times> ptext) list \<Rightarrow> jdb \<Rightarrow> jdb" where
  "cut_batch x k n batch db =
     fst (embed_rows x k 1 (take n batch) (mark_indexed_batch (rx_now x k) (map (en_id \<circ> fst) batch) db))"

lemma embed_rows_Cons:
  assumes "embed_rows x k j ((e, t) # rows) db = (db', ok, bad)" and "still x k"
  obtains (skip) bad1 where "embed_rows x k (j + 1) rows db = (db', ok, bad1)" "bad = en_id e # bad1"
      "\<exists>e' \<in> set (entries db). en_id e' = en_id e \<and> en_user e' = en_user e \<Longrightarrow> rx_encode x t \<noteq> None \<Longrightarrow> rx_fault x k (en_id e)"
  | (save) ok1 v dbx where "embed_rows x k (j + 1) rows dbx = (db', ok1, bad)" "ok = en_id e # ok1" "rx_encode x t = Some v"
      "dbx = db\<lparr>embs := sql_upsert em_entry \<lparr>em_entry = en_id e, em_vec = v, em_indexed = rx_now x k, em_user = en_user e\<rparr> (embs db)\<rparr>"
proof -
  define got where "got = (case rx_encode x t of None \<Rightarrow> None
            | Some v \<Rightarrow> if rx_fault x k (en_id e) then None
                else (case admin_save_by_vector (en_user e) (rx_now x k) (en_id e) v db of Inl err \<Rightarrow> None | Inr db' \<Rightarrow> Some db'))"
  show ?thesis
  proof (cases got)
    case None
    obtain db1 ok1 bad1 where rest: "embed_rows x k (j + 1) rows db = (db1, ok1, bad1)" by (cases "embed_rows x k (j + 1) rows db") auto
    have "\<exists>e' \<in> set (entries db). en_id e' = en_id e \<and> en_user e' = en_user e \<Longrightarrow> rx_encode x t \<noteq> None \<Longrightarrow> rx_fault x k (en_id e)"
      using None by (auto simp: got_def admin_save_by_vector_def list_ex_iff split: option.splits if_splits)
    with assms None rest skip show ?thesis by (simp add: got_def still_def)
  next
    case (Some dbx)
    obtain db1 ok1 bad1 where rest: "embed_rows x k (j + 1) rows dbx = (db1, ok1, bad1)" by (cases "embed_rows x k (j + 1) rows dbx") auto
    from Some obtain v where "rx_encode x t = Some v" "dbx = db\<lparr>embs := sql_upsert em_entry
        \<lparr>em_entry = en_id e, em_vec = v, em_indexed = rx_now x k, em_user = en_user e\<rparr> (embs db)\<rparr>"
      by (auto simp: got_def admin_save_by_vector_def split: option.splits if_splits sum.splits)
    with assms Some rest save show ?thesis by (simp add: got_def still_def)
  qed
qed

lemma embed_rows_frame:
  assumes still: "still x k"
  shows "embed_rows x k j rows db = (db', ok, bad) \<Longrightarrow>
   entries db' = entries db \<and> set ok \<union> set bad = (en_id \<circ> fst) ` set rows \<and>
   length ok + length bad = length rows \<and> db'\<lparr>embs := embs db\<rparr> = db"
proof (induction rows arbitrary: j db db' ok bad)
  case (Cons r rows)
  obtain e t where r: "r = (e, t)" by (cases r)
  from Cons.prems [unfolded r] still show ?case
  proof (cases rule: embed_rows_Cons)
    case (skip bad1)
    with Cons.IH [OF skip(1)] show ?thesis by (auto simp: r)
  next
    case (save ok1 v dbx)
    have "db'\<lparr>embs := embs dbx\<rparr> = dbx \<Longrightarrow> db'\<lparr>embs := embs db\<rparr> = db"
      using save(4) by (metis jdb.surjective jdb.update_convs(5))
    with Cons.IH [OF save(1)] save show ?thesis by (auto simp: r)
  qed
qed simp

lemma mark_indexed_batch_frame [simp]:
  "map en_id (entries (mark_indexed_batch now ids db)) = map en_id (entries db)"
  "embs (mark_indexed_batch now ids db) = embs db" "topics (mark_indexed_batch now ids db) = topics db"
  by (auto simp: mark_indexed_batch_def sql_update_def)

lemma reset_for_ids_frame [simp]:
  "map en_id (entries (reset_indexed_at_for_ids ids db)) = map en_id (entries db)"
  "embs (reset_indexed_at_for_ids ids db) = embs db" "topics (reset_indexed_at_for_ids ids db) = topics db"
  by (auto simp: reset_indexed_at_for_ids_def sql_update_def)

lemma list_all2_source: "list_all2 P xs ys \<Longrightarrow> y \<in> set ys \<Longrightarrow> \<exists>x \<in> set xs. P x y"
  by (induction rule: list_all2_induct) auto

lemma get_unindexed_rows:
  assumes "get_unindexed a c locked last_id n db = Inr batch" and "r \<in> set batch"
  shows "fst r \<in> set (entries db)" "queued last_id (fst r)" "open_column a c (Some (en_content (fst r))) = Inr (Some (snd r))"
proof -
  have "list_all2 (\<lambda>e r. e = fst r \<and> open_column a c (Some (en_content e)) = Inr (Some (snd r)))
      (filter (\<lambda>e. \<exists>t \<in> set (topics db). tp_id t = en_topic e) (claimed locked last_id n db)) batch"
    using assms(1) unfolding get_unindexed_def rmap_list_Inr
    by (rule list_all2_mono) (auto simp: res_simps elim: not_null.elims)
  then obtain e where e: "e \<in> set (claimed locked last_id n db)" "e = fst r" "open_column a c (Some (en_content e)) = Inr (Some (snd r))"
    using list_all2_source [OF _ assms(2)] by fastforce
  then show "open_column a c (Some (en_content (fst r))) = Inr (Some (snd r))" by simp
  from e(1,2) have "fst r \<in> set (sql_select (queued last_id) (entries db))" by (auto simp: claimed_def dest!: in_set_takeD)
  then show "fst r \<in> set (entries db)" "queued last_id (fst r)" by (auto simp: sql_simps)
qed

text \<open>Every round but the last moves the cursor past an entry, and no entry is created or removed.\<close>

definition ids_above :: "int \<Rightarrow> jdb \<Rightarrow> int list" where
  "ids_above last_id db = filter (\<lambda>i. last_id < i) (map en_id (entries db))"

lemma embed_batch_ids:
  assumes "get_unindexed a c locked last_id n db = Inr batch" and "embed_batch x k batch db = (db2, ok, bad)" and "still x k"
  shows "map en_id (entries db2) = map en_id (entries db)" "set ok \<subseteq> set (ids_above last_id db)"
proof -
  let ?db1 = "mark_indexed_batch (rx_now x k) (map (en_id \<circ> fst) batch) db"
  from embed_rows_frame [OF assms(3) assms(2) [unfolded embed_batch_def]]
  have "entries db2 = entries ?db1" and ok: "set ok \<subseteq> (en_id \<circ> fst) ` set batch" by auto
  then show "map en_id (entries db2) = map en_id (entries db)" by simp
  show "set ok \<subseteq> set (ids_above last_id db)"
  proof
    fix i assume "i \<in> set ok"
    with ok obtain r where "r \<in> set batch" "i = en_id (fst r)" by auto
    with get_unindexed_rows [OF assms(1)] show "i \<in> set (ids_above last_id db)" by (auto simp: ids_above_def queued_def)
  qed
qed

lemma cursor_advances:
  assumes "get_unindexed a c locked last_id n db = Inr batch" and "embed_batch x k batch db = (db2, ok, bad)" and "ok \<noteq> []"
    and "map en_id (entries db3) = map en_id (entries db2)" and "still x k"
  shows "length (ids_above (Max (set ok)) db3) < length (ids_above last_id db)"
proof -
  have top: "Max (set ok) \<in> set (ids_above last_id db)" using embed_batch_ids(2) [OF assms(1,2,5)] assms(3) Max_in [of "set ok"] by auto
  have "ids_above (Max (set ok)) db3 = filter (\<lambda>i. Max (set ok) < i) (ids_above last_id db)"
    using top embed_batch_ids(1) [OF assms(1,2,5)] assms(4) by (auto simp: ids_above_def intro!: filter_cong)
  also have "length \<dots> < length (ids_above last_id db)" using top by (rule length_filter_less) simp
  finally show ?thesis .
qed

text \<open>
  The loop from round \<open>k\<close> on.  It gives the counts, or what it ends in, and the database.
\<close>

datatype reindex_stop = ReindexRaised jerror | ReindexCutOff

function reindex_loop :: "reindex_env \<Rightarrow> nat \<Rightarrow> int \<Rightarrow> nat \<Rightarrow> nat \<Rightarrow> jdb \<Rightarrow> (reindex_stop + (nat \<times> nat)) \<times> jdb" where
  "reindex_loop x k last_id generated failures db0 =
     (let db = others_write x k 0 db0 in
      case get_unindexed (rx_aead x) (rx_cipher x) (rx_locked x k) last_id REINDEX_BATCH_SIZE db of
        Inl e \<Rightarrow> (Inl (ReindexRaised e), db)
      | Inr batch \<Rightarrow>
          if batch = [] then (Inr (generated, failures), db)
          else (case rx_cut x k of
            Some n \<Rightarrow> (Inl ReindexCutOff, cut_batch x k n batch db)
          | None \<Rightarrow> (case embed_batch x k batch db of
            (db2, succeeded_ids, failed_ids) \<Rightarrow>
              let db2' = others_write x k (length batch + 1) db2 in
              if failed_ids \<noteq> [] \<and> rx_reset_fault x k then (Inl (ReindexRaised (PostgresError ''reset'')), db2')
              else (let db3 = (if failed_ids \<noteq> [] then reset_indexed_at_for_ids failed_ids db2' else db2');
                        generated' = generated + length succeeded_ids;
                        failures' = failures + length failed_ids
                    in if succeeded_ids \<noteq> [] then reindex_loop x (k + 1) (Max (set succeeded_ids)) generated' failures' db3
                       else (Inr (generated', failures'), db3)))))"
  by pat_completeness auto

termination
proof (relation "inv_image (less_than <*lex*> less_than)
    (\<lambda>(x, k, last_id, generated, failures, db). (rx_busy x - k, length (ids_above last_id db)))", goal_cases)
  case 1
  show ?case by (intro wf_inv_image wf_lex_prod wf_less_than)
next
  case (2 x k last_id g f db0 db batch db2 q ok bad db2' db3 g' f')
  show ?case
  proof (cases "k < rx_busy x")
    case False
    then have still: "still x k" by (rule still_late)
    then have "db = db0" "db2' = db2" using 2(1,7) by (simp_all add: still_def)
    moreover have round: "embed_batch x k batch db = (db2, ok, bad)" using 2(5,6) by simp
    moreover have "map en_id (entries (if bad \<noteq> [] then reset_indexed_at_for_ids bad db2' else db2')) = map en_id (entries db2')" by simp
    ultimately show ?thesis using cursor_advances [OF 2(2) round 2(12) _ still, of db3] 2(9) False by simp
  qed (simp add: diff_less_mono2)
qed

declare reindex_loop.simps [simp del]

record reindex_report =
  rr_semantic_status :: string
  rr_generated :: nat
  rr_failed :: nat

definition run_reindex :: "reindex_env \<Rightarrow> jdb \<Rightarrow> (reindex_stop + reindex_report) \<times> jdb" where
  "run_reindex x db =
     (if \<not> rx_admin_pool x then (Inl (ReindexRaised (JValueError ''_run_reindex requires app_ctx.admin_pool (BYPASSRLS)'')), db)
      else case reindex_loop x 0 0 0 0 db of
        (Inl e, db') \<Rightarrow> (Inl e, db')
      | (Inr (generated, failures), db') \<Rightarrow>
          (Inr \<lparr>rr_semantic_status = (if failures \<noteq> 0 then ''partial'' else ''ok''), rr_generated = generated, rr_failed = failures\<rparr>, db'))"

text \<open>The lock is shared with a running reindex: \<open>locked\<close> says whether it could be taken.\<close>

definition reset_all_indexed_at :: "bool \<Rightarrow> bool \<Rightarrow> jdb \<Rightarrow> (jerror + (nat \<times> nat)) \<times> jdb" where
  "reset_all_indexed_at admin_pool locked db =
     (if \<not> admin_pool then (Inl (JValueError ''_reset_all_indexed_at requires app_ctx.admin_pool (BYPASSRLS)''), db)
      else if \<not> locked then (Inr (1, 0), db)
      else (Inr (0, sql_count (\<lambda>e. en_deleted e = None \<and> en_indexed e \<noteq> None) (entries db)), reset_indexed_at db))"

section \<open>One round\<close>

definition waiting :: "entry_row \<Rightarrow> bool" where
  "waiting e = (en_deleted e = None \<and> en_indexed e = None)"

text \<open>The table holds, for an entry, the vector of the text the entry has.\<close>

definition stored :: "reindex_env \<Rightarrow> emb_row list \<Rightarrow> entry_row \<Rightarrow> bool" where
  "stored x bs e =
     (\<exists>t v. open_column (rx_aead x) (rx_cipher x) (Some (en_content e)) = Inr (Some t) \<and> rx_encode x t = Some v \<and>
        (\<exists>b \<in> set bs. em_entry b = en_id e \<and> em_user b = en_user e \<and> em_vec b = v))"

definition stamp :: "int \<Rightarrow> int list \<Rightarrow> entry_row \<Rightarrow> entry_row" where
  "stamp now ids e = (if en_id e \<in> set ids then e\<lparr>en_indexed := Some now\<rparr> else e)"

lemma stamp_frame [simp]: "en_id (stamp now ids e) = en_id e" "en_user (stamp now ids e) = en_user e"
  "en_content (stamp now ids e) = en_content e" "en_deleted (stamp now ids e) = en_deleted e" "en_topic (stamp now ids e) = en_topic e"
  by (simp_all add: stamp_def)

lemma mark_batch_stamp: "entries (mark_indexed_batch now ids db) = map (stamp now ids) (entries db)"
  by (cases "ids = []") (auto simp: mark_indexed_batch_def sql_update_def stamp_def map_idI)

lemma stored_stamp [simp]: "stored x bs (stamp now ids e) = stored x bs e"
  by (simp add: stored_def)

lemma batch_rows:
  assumes "get_unindexed a c locked last_id n db = Inr batch"
  shows "map fst batch = filter (\<lambda>e. \<exists>t \<in> set (topics db). tp_id t = en_topic e) (claimed locked last_id n db)"
proof -
  have "list_all2 (\<lambda>e r. e = fst r) (filter (\<lambda>e. \<exists>t \<in> set (topics db). tp_id t = en_topic e) (claimed locked last_id n db)) batch"
    using assms unfolding get_unindexed_def rmap_list_Inr by (rule list_all2_mono) (auto simp: res_simps)
  then show ?thesis by (induction rule: list_all2_induct) auto
qed

lemma claimed_distinct:
  assumes "unique_key en_id (entries db)"
  shows "distinct (map en_id (claimed locked last_id n db))"
proof -
  let ?free = "filter (\<lambda>e. \<not> locked (en_id e)) (sql_select (queued last_id) (entries db))"
  have "distinct (map en_id ?free)" using assms by (simp add: unique_key_def sql_select_def distinct_map_filter)
  moreover have "mset (map en_id (sort_key en_id ?free)) = mset (map en_id ?free)" by simp
  ultimately have "distinct (map en_id (sort_key en_id ?free))" using mset_eq_imp_distinct_iff by blast
  then show ?thesis by (simp add: claimed_def take_map [symmetric])
qed

lemma batch_distinct:
  assumes "get_unindexed a c locked last_id n db = Inr batch" and "unique_key en_id (entries db)"
  shows "distinct (map (en_id \<circ> fst) batch)"
proof -
  have "distinct (map en_id (map fst batch))"
    using claimed_distinct [OF assms(2)] by (simp add: batch_rows [OF assms(1)] distinct_map_filter)
  then show ?thesis by simp
qed

text \<open>What a batch of distinct entries does to the table of vectors.\<close>

lemma embed_rows_keeps:
  assumes still: "still x k"
  shows "embed_rows x k j rows db = (db', ok, bad) \<Longrightarrow> b \<in> set (embs db) \<Longrightarrow> em_entry b \<notin> set ok \<Longrightarrow> b \<in> set (embs db')"
proof (induction rows arbitrary: j db ok bad)
  case (Cons r rows)
  obtain e t where r: "r = (e, t)" by (cases r)
  from Cons.prems(1) [unfolded r] still show ?case
    by (cases rule: embed_rows_Cons) (use Cons in \<open>auto simp: sql_simps\<close>)
qed simp

lemma embed_rows_distinct:
  assumes still: "still x k"
  shows "embed_rows x k j rows db = (db', ok, bad) \<Longrightarrow> distinct (map (en_id \<circ> fst) rows) \<Longrightarrow> distinct ok \<and> set ok \<inter> set bad = {}"
proof (induction rows arbitrary: j db ok bad)
  case (Cons r rows)
  obtain e t where r: "r = (e, t)" by (cases r)
  from Cons.prems(2) have fresh: "en_id e \<notin> (en_id \<circ> fst) ` set rows" "distinct (map (en_id \<circ> fst) rows)" by (auto simp: r comp_def)
  from Cons.prems(1) [unfolded r] still show ?case
  proof (cases rule: embed_rows_Cons)
    case (skip bad1)
    with embed_rows_frame [OF still skip(1)] fresh Cons.IH [OF skip(1) fresh(2)] show ?thesis by auto
  next
    case (save ok1 v dbx)
    with embed_rows_frame [OF still save(1)] fresh Cons.IH [OF save(1) fresh(2)] show ?thesis by auto
  qed
qed simp

lemma embed_rows_saves:
  assumes still: "still x k"
  shows "embed_rows x k j rows db = (db', ok, bad) \<Longrightarrow> distinct (map (en_id \<circ> fst) rows) \<Longrightarrow> (e, t) \<in> set rows \<Longrightarrow> en_id e \<in> set ok \<Longrightarrow>
   \<exists>v. rx_encode x t = Some v \<and> (\<exists>b \<in> set (embs db'). em_entry b = en_id e \<and> em_user b = en_user e \<and> em_vec b = v)"
proof (induction rows arbitrary: j db ok bad)
  case (Cons r rows)
  obtain e1 t1 where r: "r = (e1, t1)" by (cases r)
  from Cons.prems(2) have fresh: "en_id e1 \<notin> (en_id \<circ> fst) ` set rows" "distinct (map (en_id \<circ> fst) rows)" by (auto simp: r comp_def)
  from Cons.prems(1) [unfolded r] still show ?case
  proof (cases rule: embed_rows_Cons)
    case (skip bad1)
    have "en_id e1 \<notin> set ok" using embed_rows_frame [OF still skip(1)] fresh(1) by auto
    with Cons.prems(3,4) have "(e, t) \<in> set rows" by (auto simp: r)
    with Cons.IH [OF skip(1) fresh(2)] Cons.prems(4) show ?thesis by simp
  next
    case (save ok1 v dbx)
    have "en_id e1 \<notin> set ok1" using embed_rows_frame [OF still save(1)] fresh(1) by auto
    with embed_rows_keeps [OF still save(1), of "\<lparr>em_entry = en_id e1, em_vec = v, em_indexed = rx_now x k, em_user = en_user e1\<rparr>"]
    have kept: "\<lparr>em_entry = en_id e1, em_vec = v, em_indexed = rx_now x k, em_user = en_user e1\<rparr> \<in> set (embs db')"
      by (simp add: save(4) sql_simps)
    show ?thesis
    proof (cases "(e, t) = (e1, t1)")
      case True
      with kept save(3) show ?thesis by (intro exI [of _ v]) force
    next
      case False
      with Cons.prems(3) have "(e, t) \<in> set rows" by (auto simp: r)
      moreover from this fresh(1) have "en_id e \<noteq> en_id e1" by force
      ultimately show ?thesis using Cons.IH [OF save(1) fresh(2)] Cons.prems(4) save(2) by simp
    qed
  qed
qed simp

lemma embed_rows_complete:
  assumes still: "still x k"
  shows "embed_rows x k j rows db = (db', ok, bad) \<Longrightarrow> (e, t) \<in> set rows \<Longrightarrow>
   \<exists>e' \<in> set (entries db). en_id e' = en_id e \<and> en_user e' = en_user e \<Longrightarrow> rx_encode x t \<noteq> None \<Longrightarrow>
   \<not> rx_fault x k (en_id e) \<Longrightarrow> en_id e \<in> set ok"
proof (induction rows arbitrary: j db ok bad)
  case (Cons r rows)
  obtain e1 t1 where r: "r = (e1, t1)" by (cases r)
  from Cons.prems(1) [unfolded r] still show ?case
  proof (cases rule: embed_rows_Cons)
    case (skip bad1)
    have "(e, t) \<noteq> (e1, t1)" using skip(3) Cons.prems(3-5) by auto
    with Cons.prems(2) have "(e, t) \<in> set rows" by (auto simp: r)
    from Cons.IH [OF skip(1) this Cons.prems(3-5)] show ?thesis .
  next
    case (save ok1 v dbx)
    show ?thesis
    proof (cases "(e, t) = (e1, t1)")
      case True
      then show ?thesis by (simp add: save(2))
    next
      case False
      with Cons.prems(2) have "(e, t) \<in> set rows" by (auto simp: r)
      moreover have "\<exists>e' \<in> set (entries dbx). en_id e' = en_id e \<and> en_user e' = en_user e" using Cons.prems(3) by (simp add: save(4))
      ultimately have "en_id e \<in> set ok1" using Cons.IH [OF save(1)] Cons.prems(4,5) by blast
      then show ?thesis by (simp add: save(2))
    qed
  qed
qed simp

lemma sql_update_id: "(\<And>e. e \<in> set es \<Longrightarrow> p e \<Longrightarrow> f e = e) \<Longrightarrow> sql_update p f es = es"
  by (induction es) (auto simp: sql_update_def)

text \<open>A round stamps exactly the entries it embedded: those it failed on are as they were.\<close>

lemma round_effect:
  assumes "get_unindexed (rx_aead x) (rx_cipher x) locked last_id n db = Inr batch" and "embed_batch x k batch db = (db2, ok, bad)"
    and "unique_key en_id (entries db)"
    and "db3 = (if bad \<noteq> [] then reset_indexed_at_for_ids bad db2 else db2)" and still: "still x k"
  shows "entries db3 = map (stamp (rx_now x k) ok) (entries db)" "db3\<lparr>entries := entries db, embs := embs db\<rparr> = db"
    "distinct ok" "\<And>i. i \<in> set ok \<Longrightarrow> \<exists>e \<in> set (entries db). en_id e = i \<and> queued last_id e"
    "\<And>b. b \<in> set (embs db) \<Longrightarrow> em_entry b \<notin> set ok \<Longrightarrow> b \<in> set (embs db3)"
    "\<And>e. e \<in> set (entries db) \<Longrightarrow> en_id e \<in> set ok \<Longrightarrow> stored x (embs db3) e"
proof -
  let ?ids = "map (en_id \<circ> fst) batch" and ?db1 = "mark_indexed_batch (rx_now x k) (map (en_id \<circ> fst) batch) db"
  note run = assms(2) [unfolded embed_batch_def]
  have distinct: "distinct (map (en_id \<circ> fst) batch)" by (rule batch_distinct [OF assms(1,3)])
  have frame: "entries db2 = entries ?db1" "set ok \<union> set bad = (en_id \<circ> fst) ` set batch" "db2\<lparr>embs := embs ?db1\<rparr> = ?db1"
    using embed_rows_frame [OF still run] by auto
  have apart: "distinct ok" "set ok \<inter> set bad = {}" using embed_rows_distinct [OF still run distinct] by auto
  then show "distinct ok" by simp
  have own: "fst r \<in> set (entries db)" "queued last_id (fst r)" if "r \<in> set batch" for r
    using get_unindexed_rows [OF assms(1) that] by auto
  have "inj_on en_id (set (entries db))" using assms(3) by (simp add: unique_key_def distinct_map)
  then have same: "\<And>e e'. e \<in> set (entries db) \<Longrightarrow> e' \<in> set (entries db) \<Longrightarrow> en_id e = en_id e' \<Longrightarrow> e = e'" by (auto dest: inj_onD)
  have wait: "en_deleted e = None \<and> en_indexed e = None" if "e \<in> set (entries db)" "en_id e \<in> set ?ids" for e
  proof -
    from that(2) obtain r where "r \<in> set batch" "en_id e = en_id (fst r)" by auto
    with own [of r] same [OF that(1)] have "queued last_id e" by metis
    then show ?thesis by (simp add: queued_def)
  qed
  show "\<exists>e \<in> set (entries db). en_id e = i \<and> queued last_id e" if "i \<in> set ok" for i
  proof -
    from that frame(2) have "i \<in> (en_id \<circ> fst) ` set batch" by blast
    then obtain r where "r \<in> set batch" "i = en_id (fst r)" by auto
    with own [of r] show ?thesis by blast
  qed
  have e1: "entries ?db1 = map (stamp (rx_now x k) ?ids) (entries db)"
    by (rule mark_batch_stamp)
  have e3: "entries db3 = map (\<lambda>e. if en_id e \<in> set bad \<and> en_deleted e = None then e\<lparr>en_indexed := None\<rparr> else e) (entries db2)"
    by (auto simp: assms(4) reset_indexed_at_for_ids_def sql_update_def map_idI)
  show ents: "entries db3 = map (stamp (rx_now x k) ok) (entries db)"
    unfolding e3 frame(1) e1 map_map
  proof (rule map_cong [OF refl])
    fix e assume e: "e \<in> set (entries db)"
    have ids: "en_id e \<in> set ?ids \<longleftrightarrow> en_id e \<in> set ok \<or> en_id e \<in> set bad" using frame(2) by auto
    show "((\<lambda>e. if en_id e \<in> set bad \<and> en_deleted e = None then e\<lparr>en_indexed := None\<rparr> else e) \<circ> stamp (rx_now x k) ?ids) e = stamp (rx_now x k) ok e"
    proof (cases "en_id e \<in> set ?ids")
      case True
      with wait [OF e True] ids apart(2) show ?thesis by (cases e) (auto simp: stamp_def)
    next
      case False
      with ids show ?thesis by (auto simp: stamp_def)
    qed
  qed
  have embs: "embs db3 = embs db2" by (simp add: assms(4))
  show "b \<in> set (embs db3)" if "b \<in> set (embs db)" "em_entry b \<notin> set ok" for b
    using embed_rows_keeps [OF still run, of b] that embs by simp
  show "stored x (embs db3) e" if "e \<in> set (entries db)" "en_id e \<in> set ok" for e
  proof -
    from that(2) frame(2) have "en_id e \<in> (en_id \<circ> fst) ` set batch" by blast
    then obtain r where r: "r \<in> set batch" "en_id e = en_id (fst r)" by auto
    then have e: "e = fst r" using own [of r] same that(1) by blast
    obtain t where t: "r = (e, t)" using e by (cases r) simp
    have "open_column (rx_aead x) (rx_cipher x) (Some (en_content e)) = Inr (Some t)" using get_unindexed_rows(3) [OF assms(1) r(1)] t by simp
    with embed_rows_saves [OF still run distinct, of e t] r(1) t that(2) embs show ?thesis by (auto simp: stored_def)
  qed
  show "db3\<lparr>entries := entries db, embs := embs db\<rparr> = db"
  proof -
    have "db2\<lparr>entries := entries db, embs := embs db\<rparr> = db"
    proof -
      have "db2\<lparr>entries := entries db, embs := embs db\<rparr> = (db2\<lparr>embs := embs ?db1\<rparr>)\<lparr>entries := entries db\<rparr>" by simp
      also have "\<dots> = db" unfolding frame(3) by (simp add: mark_indexed_batch_def)
      finally show ?thesis .
    qed
    then show ?thesis by (auto simp: assms(4) reset_indexed_at_for_ids_def)
  qed
qed

section \<open>What a run leaves\<close>

definition reindexed_entry :: "reindex_env \<Rightarrow> emb_row list \<Rightarrow> entry_row \<Rightarrow> entry_row \<Rightarrow> bool" where
  "reindexed_entry x bs e e' = (e' = e \<or> waiting e \<and> (\<exists>now. e' = e\<lparr>en_indexed := Some now\<rparr>) \<and> stored x bs e)"

definition reindexed :: "reindex_env \<Rightarrow> jdb \<Rightarrow> jdb \<Rightarrow> bool" where
  "reindexed x db db' =
     (db'\<lparr>entries := entries db, embs := embs db\<rparr> = db \<and> list_all2 (reindexed_entry x (embs db')) (entries db) (entries db') \<and>
      (\<forall>b \<in> set (embs db). (\<forall>e \<in> set (entries db). en_id e = em_entry b \<longrightarrow> \<not> waiting e) \<longrightarrow> b \<in> set (embs db')))"

definition waiting_count :: "jdb \<Rightarrow> nat" where
  "waiting_count db = length (filter waiting (entries db))"

lemma reindexed_ids: "reindexed x db db' \<Longrightarrow> map en_id (entries db') = map en_id (entries db)"
  unfolding reindexed_def
proof (elim conjE)
  assume "list_all2 (reindexed_entry x (embs db')) (entries db) (entries db')"
  then show ?thesis by (induction rule: list_all2_induct) (auto simp: reindexed_entry_def)
qed

lemma round_waits:
  assumes "get_unindexed (rx_aead x) (rx_cipher x) locked last_id n db = Inr batch" and "embed_batch x k batch db = (db2, ok, bad)"
    and "unique_key en_id (entries db)" and "db3 = (if bad \<noteq> [] then reset_indexed_at_for_ids bad db2 else db2)"
    and "still x k" and "e \<in> set (entries db)" and "en_id e \<in> set ok"
  shows "waiting e"
proof -
  obtain e' where e': "e' \<in> set (entries db)" "en_id e' = en_id e" "queued last_id e'" using round_effect(4) [OF assms(1-5,7)] by blast
  with unique_keyD [OF assms(3,6) e'(1)] show ?thesis by (simp add: queued_def waiting_def)
qed

lemma reindexed_round:
  assumes "reindexed x db0 db" and "get_unindexed (rx_aead x) (rx_cipher x) locked last_id n db = Inr batch"
    and "embed_batch x k batch db = (db2, ok, bad)" and "unique_key en_id (entries db)"
    and "db3 = (if bad \<noteq> [] then reset_indexed_at_for_ids bad db2 else db2)" and "still x k"
  shows "reindexed x db0 db3"
proof -
  note effect = round_effect [OF assms(2,3,4,5,6)]
  note waits = round_waits [OF assms(2,3,4,5,6)]
  have old: "list_all2 (reindexed_entry x (embs db)) (entries db0) (entries db)" using assms(1) by (simp add: reindexed_def)
  have step: "reindexed_entry x (embs db3) e0 (stamp (rx_now x k) ok e)"
    if "e \<in> set (entries db)" "reindexed_entry x (embs db) e0 e" for e0 e
  proof (cases "en_id e \<in> set ok")
    case True
    with waits [OF that(1)] that(2) have "e0 = e" by (auto simp: reindexed_entry_def waiting_def)
    with True waits [OF that(1)] effect(6) [OF that(1)] show ?thesis by (auto simp: reindexed_entry_def stamp_def)
  next
    case False
    have "stored x (embs db) e0 \<Longrightarrow> en_id e0 \<notin> set ok \<Longrightarrow> stored x (embs db3) e0"
      unfolding stored_def using effect(5) by metis
    with False that(2) show ?thesis by (auto simp: reindexed_entry_def stamp_def)
  qed
  have "list_all2 (\<lambda>e0 e. reindexed_entry x (embs db3) e0 (stamp (rx_now x k) ok e)) (entries db0) (entries db)"
    by (rule list.rel_mono_strong [OF old]) (use step in auto)
  then have "list_all2 (reindexed_entry x (embs db3)) (entries db0) (entries db3)" by (simp add: effect(1) list.rel_map)
  moreover have "b \<in> set (embs db3)"
    if b: "b \<in> set (embs db0)" "\<forall>e \<in> set (entries db0). en_id e = em_entry b \<longrightarrow> \<not> waiting e" for b
  proof -
    have "em_entry b \<notin> set ok"
    proof
      assume "em_entry b \<in> set ok"
      then obtain e where e: "e \<in> set (entries db)" "en_id e = em_entry b" using effect(4) by blast
      with \<open>em_entry b \<in> set ok\<close> have w: "waiting e" using waits [of e] by simp
      obtain e0 where "e0 \<in> set (entries db0)" "reindexed_entry x (embs db) e0 e" using list_all2_source [OF old e(1)] by blast
      with w e(2) b(2) show False by (auto simp: reindexed_entry_def waiting_def)
    qed
    moreover have "b \<in> set (embs db)" using assms(1) b unfolding reindexed_def by blast
    ultimately show ?thesis by (rule effect(5) [rotated])
  qed
  moreover have "db3\<lparr>entries := entries db0, embs := embs db0\<rparr> = db0"
  proof -
    have "db3\<lparr>entries := entries db0, embs := embs db0\<rparr> = (db3\<lparr>entries := entries db, embs := embs db\<rparr>)\<lparr>entries := entries db0, embs := embs db0\<rparr>"
      by simp
    also have "\<dots> = db0" unfolding effect(2) using assms(1) by (simp add: reindexed_def)
    finally show ?thesis .
  qed
  ultimately show ?thesis unfolding reindexed_def by blast
qed

lemma round_count:
  assumes "get_unindexed (rx_aead x) (rx_cipher x) locked last_id n db = Inr batch"
    and "embed_batch x k batch db = (db2, ok, bad)" and "unique_key en_id (entries db)"
    and "db3 = (if bad \<noteq> [] then reset_indexed_at_for_ids bad db2 else db2)" and "still x k"
  shows "waiting_count db3 + length ok = waiting_count db"
proof -
  note effect = round_effect [OF assms]
  note waits = round_waits [OF assms]
  have "filter waiting (entries db3) = map (stamp (rx_now x k) ok) (filter (\<lambda>e. waiting e \<and> en_id e \<notin> set ok) (entries db))"
    unfolding effect(1) filter_map by (rule arg_cong [where f = "map _"], rule filter_cong [OF refl]) (auto simp: waiting_def stamp_def)
  moreover have "length (filter (\<lambda>e. en_id e \<in> set ok) (filter waiting (entries db))) = length ok"
  proof -
    have "distinct (map en_id (filter (\<lambda>e. en_id e \<in> set ok) (filter waiting (entries db))))"
      using assms(3) by (simp add: unique_key_def distinct_map_filter)
    moreover have "set (map en_id (filter (\<lambda>e. en_id e \<in> set ok) (filter waiting (entries db)))) = set ok"
      using effect(4) waits by force
    ultimately have "card (set ok) = length (map en_id (filter (\<lambda>e. en_id e \<in> set ok) (filter waiting (entries db))))"
      by (metis distinct_card)
    then show ?thesis using effect(3) by (simp add: distinct_card)
  qed
  moreover have "length (filter (\<lambda>e. en_id e \<in> set ok) (filter waiting (entries db))) +
      length (filter (\<lambda>e. en_id e \<notin> set ok) (filter waiting (entries db))) = length (filter waiting (entries db))"
    by (rule sum_length_filter_compl)
  ultimately show ?thesis by (simp add: waiting_count_def conj_commute)
qed

lemma reindex_loop_sound:
  assumes "reindex_loop x k last_id g f db = (r, db')" and "unique_key en_id (entries db)" and "reindexed x db0 db"
    and "r \<noteq> Inl (ReindexRaised (PostgresError ''reset''))" "r \<noteq> Inl ReindexCutOff" and "\<forall>k. still x k"
  shows "reindexed x db0 db' \<and> (\<forall>g' f'. r = Inr (g', f') \<longrightarrow> g' + waiting_count db' = g + waiting_count db)"
  using assms
proof (induction x k last_id g f db rule: reindex_loop.induct)
  case (1 x k last_id g f db)
  have still: "still x k" using 1(7) by blast
  then have alone: "others_write x k j d = d" for j d by (simp add: still_def)
  let ?claim = "get_unindexed (rx_aead x) (rx_cipher x) (rx_locked x k) last_id REINDEX_BATCH_SIZE db"
  note start = 1(2) [unfolded reindex_loop.simps [of x k last_id g f db] alone Let_def]
  show ?case
  proof (cases ?claim)
    case (Inl e)
    with start have "r = Inl (ReindexRaised e)" "db' = db" by simp_all
    with 1(4) show ?thesis by simp
  next
    case (Inr batch)
    obtain db2 ok bad where round: "embed_batch x k batch db = (db2, ok, bad)" by (cases "embed_batch x k batch db") auto
    define db3 where "db3 = (if bad \<noteq> [] then reset_indexed_at_for_ids bad db2 else db2)"
    have next_db: "reindexed x db0 db3" "waiting_count db3 + length ok = waiting_count db"
      using reindexed_round [OF 1(4) Inr round 1(3) db3_def still] round_count [OF Inr round 1(3) db3_def still] by auto
    have "map en_id (entries db3) = map en_id (entries db)"
      using reindexed_ids [OF 1(4)] reindexed_ids [OF next_db(1)] by simp
    then have unique: "unique_key en_id (entries db3)" using 1(3) by (simp add: unique_key_def)
    note run = start [unfolded Inr sum.case round prod.case, folded db3_def]
    show ?thesis
    proof (cases "batch = [] \<or> rx_cut x k \<noteq> None")
      case True
      with run 1(4,6) show ?thesis by (auto split: option.splits if_splits)
    next
      case False
      then have uncut: "batch \<noteq> []" "rx_cut x k = None" by auto
      show ?thesis
      proof (cases "bad \<noteq> [] \<and> rx_reset_fault x k")
        case True
        with run uncut 1(5) show ?thesis by auto
      next
        case live: False
        show ?thesis
        proof (cases "ok = []")
          case True
          with run uncut live next_db show ?thesis by auto
        next
          case more: False
          with run uncut live have rest: "reindex_loop x (k + 1) (Max (set ok)) (g + length ok) (f + length bad) db3 = (r, db')" by simp
          have "reindexed x db0 db' \<and> (\<forall>g' f'. r = Inr (g', f') \<longrightarrow> g' + waiting_count db' = g + length ok + waiting_count db3)"
            using 1(1) [OF alone [symmetric] Inr uncut round [symmetric] refl alone [symmetric] live db3_def refl refl more rest unique next_db(1) 1(5-7)] .
          with next_db(2) show ?thesis by auto
        qed
      qed
    qed
  qed
qed

section \<open>One entry among the writes of others\<close>

definition row_of :: "int \<Rightarrow> jdb \<Rightarrow> entry_row list" where
  "row_of i db = filter (\<lambda>e. en_id e = i) (entries db)"

definition vectors_of :: "int \<Rightarrow> jdb \<Rightarrow> emb_row list" where
  "vectors_of i db = filter (\<lambda>b. em_entry b = i) (embs db)"

text \<open>Whatever the others write, they leave the entry \<open>i\<close> and its vector as they find them.\<close>

definition left_alone :: "reindex_env \<Rightarrow> int \<Rightarrow> bool" where
  "left_alone x i = (\<forall>k j db. row_of i (rx_other x k j db) = row_of i db \<and> vectors_of i (rx_other x k j db) = vectors_of i db)"

lemma others_leave:
  assumes "left_alone x i"
  shows "row_of i (others_write x k j db) = row_of i db" "vectors_of i (others_write x k j db) = vectors_of i db"
  using assms by (simp_all add: left_alone_def others_write_def)

lemma vectors_upsert:
  "em_entry b \<noteq> i \<Longrightarrow> filter (\<lambda>b. em_entry b = i) (sql_upsert em_entry b bs) = filter (\<lambda>b. em_entry b = i) bs"
  "b \<in> set (filter (\<lambda>b'. em_entry b' = em_entry b) (sql_upsert em_entry b bs))"
  by (auto simp: sql_upsert_def sql_insert_def sql_delete_def intro!: filter_cong)

lemma save_at:
  assumes "admin_save_by_vector user now m v db = Inr db'"
  shows "row_of i db' = row_of i db" "m \<noteq> i \<Longrightarrow> vectors_of i db' = vectors_of i db"
    "\<exists>b \<in> set (vectors_of m db'). em_user b = user \<and> em_vec b = v"
  using assms vectors_upsert(1) [of "\<lparr>em_entry = m, em_vec = v, em_indexed = now, em_user = user\<rparr>" i "embs db"]
    vectors_upsert(2) [of "\<lparr>em_entry = m, em_vec = v, em_indexed = now, em_user = user\<rparr>" "embs db"]
  by (auto simp: admin_save_by_vector_def row_of_def vectors_of_def split: if_splits intro!: bexI)

text \<open>What the saves of a batch do to an entry that is in it at most once.\<close>

lemma embed_rows_at:
  assumes alone: "left_alone x i"
  shows "embed_rows x k j rows db = (db', ok, bad) \<Longrightarrow> length (filter (\<lambda>r. en_id (fst r) = i) rows) \<le> 1 \<Longrightarrow>
    row_of i db' = row_of i db \<and> set ok \<union> set bad = (en_id \<circ> fst) ` set rows \<and>
    (if i \<in> set ok
     then i \<notin> set bad \<and> (\<exists>e t v. (e, t) \<in> set rows \<and> en_id e = i \<and> rx_encode x t = Some v \<and>
       (\<exists>b \<in> set (vectors_of i db'). em_user b = en_user e \<and> em_vec b = v))
     else vectors_of i db' = vectors_of i db)"
proof (induction rows arbitrary: j db db' ok bad)
  case (Cons r rows)
  obtain e t where r: "r = (e, t)" by (cases r)
  define d where "d = others_write x k j db"
  note same = others_leave [OF alone, of k j db, folded d_def]
  define got where "got = (case rx_encode x t of None \<Rightarrow> None
      | Some v \<Rightarrow> if rx_fault x k (en_id e) then None
          else (case admin_save_by_vector (en_user e) (rx_now x k) (en_id e) v d of Inl err \<Rightarrow> None | Inr db' \<Rightarrow> Some db'))"
  note run = Cons.prems(1) [unfolded r embed_rows.simps Let_def, folded d_def, folded got_def]
  have fresh: "i \<notin> (en_id \<circ> fst) ` set rows" if "en_id e = i"
    using Cons.prems(2) that by (auto simp: r filter_empty_conv)
  have few: "length (filter (\<lambda>r. en_id (fst r) = i) rows) \<le> 1" using Cons.prems(2) by (auto split: if_splits)
  show ?case
  proof (cases got)
    case None
    obtain db1 ok1 bad1 where rest: "embed_rows x k (j + 1) rows d = (db1, ok1, bad1)" by (cases "embed_rows x k (j + 1) rows d") auto
    have result: "db' = db1" "ok = ok1" "bad = en_id e # bad1" using run None rest by auto
    note IH = Cons.IH [OF rest few]
    show ?thesis
    proof (cases "i \<in> set ok1")
      case True
      with IH have "i \<in> (en_id \<circ> fst) ` set rows" by blast
      with fresh have "en_id e \<noteq> i" by blast
      with IH True same show ?thesis unfolding result r by (simp add: image_Un) blast
    next
      case False
      with IH same show ?thesis unfolding result r by auto
    qed
  next
    case (Some d1)
    then obtain v where v: "rx_encode x t = Some v" and save: "admin_save_by_vector (en_user e) (rx_now x k) (en_id e) v d = Inr d1"
      by (auto simp: got_def split: option.splits if_splits sum.splits)
    obtain db1 ok1 bad1 where rest: "embed_rows x k (j + 1) rows d1 = (db1, ok1, bad1)" by (cases "embed_rows x k (j + 1) rows d1") auto
    have result: "db' = db1" "ok = en_id e # ok1" "bad = bad1" using run Some rest by auto
    note IH = Cons.IH [OF rest few]
    note saved = save_at [OF save]
    show ?thesis
    proof (cases "en_id e = i")
      case True
      with IH fresh have "i \<notin> set ok1" "i \<notin> set bad1" by blast+
      with IH True saved(3) v saved(1) [of i] same show ?thesis unfolding result r by auto
    next
      case False
      with IH saved(1,2) [of i] same show ?thesis unfolding result r by (auto split: if_splits)
    qed
  qed
qed simp

lemma row_of_stamped: "row_of i (mark_indexed_batch now ids db) = map (stamp now ids) (row_of i db)"
  by (simp add: row_of_def mark_batch_stamp filter_map comp_def)

lemma vectors_of_stamped: "vectors_of i (mark_indexed_batch now ids db) = vectors_of i db"
  by (simp add: vectors_of_def)

lemma row_of_reset:
  "row_of i (if bad \<noteq> [] then reset_indexed_at_for_ids bad db else db) =
   map (\<lambda>e. if en_id e \<in> set bad \<and> en_deleted e = None then e\<lparr>en_indexed := None\<rparr> else e) (row_of i db)"
  by (auto simp: row_of_def reset_indexed_at_for_ids_def sql_update_def filter_map comp_def map_idI intro!: filter_cong map_cong)

lemma batch_at:
  assumes "get_unindexed a c locked last_id n db = Inr batch" and "row_of i db = [e]"
  shows "length (filter (\<lambda>r. en_id (fst r) = i) batch) \<le> 1"
    "\<And>r. r \<in> set batch \<Longrightarrow> en_id (fst r) = i \<Longrightarrow> fst r = e \<and> waiting e \<and> open_column a c (Some (en_content e)) = Inr (Some (snd r))"
proof -
  have "mset (map fst batch) \<subseteq># mset (entries db)"
  proof -
    let ?free = "filter (\<lambda>e. \<not> locked (en_id e)) (sql_select (queued last_id) (entries db))"
    have "mset (map fst batch) \<subseteq># mset (claimed locked last_id n db)" unfolding batch_rows [OF assms(1)] by simp
    also have "\<dots> \<subseteq># mset (sort_key en_id ?free)"
      unfolding claimed_def by (metis append_take_drop_id mset_append mset_subset_eq_add_left)
    also have "\<dots> \<subseteq># mset (entries db)" by (simp add: sql_select_def multiset_filter_mono subset_mset.order_trans [OF multiset_filter_subset])
    finally show ?thesis .
  qed
  then have "filter_mset (\<lambda>e. en_id e = i) (mset (map fst batch)) \<subseteq># filter_mset (\<lambda>e. en_id e = i) (mset (entries db))"
    by (rule multiset_filter_mono)
  then have "size (mset (filter (\<lambda>e. en_id e = i) (map fst batch))) \<le> size (mset (row_of i db))"
    by (simp only: mset_filter row_of_def size_mset_mono)
  then have "length (filter (\<lambda>e. en_id e = i) (map fst batch)) \<le> length (row_of i db)" by (simp only: size_mset)
  then show "length (filter (\<lambda>r. en_id (fst r) = i) batch) \<le> 1" using assms(2) by (simp add: filter_map comp_def)
  fix r assume r: "r \<in> set batch" "en_id (fst r) = i"
  note row = get_unindexed_rows [OF assms(1) r(1)]
  from row(1) r(2) have "fst r \<in> set (row_of i db)" by (simp add: row_of_def)
  with assms(2) have "fst r = e" by simp
  with row(2,3) show "fst r = e \<and> waiting e \<and> open_column a c (Some (en_content e)) = Inr (Some (snd r))"
    by (simp add: queued_def waiting_def)
qed

text \<open>The entry as it was, or stamped and embedded.\<close>

definition entry_after :: "reindex_env \<Rightarrow> entry_row \<Rightarrow> jdb \<Rightarrow> jdb \<Rightarrow> bool" where
  "entry_after x e db db' =
     (row_of (en_id e) db' = [e] \<and> vectors_of (en_id e) db' = vectors_of (en_id e) db \<or>
      waiting e \<and> (\<exists>now. row_of (en_id e) db' = [e\<lparr>en_indexed := Some now\<rparr>]) \<and> stored x (embs db') e)"

lemma round_at:
  assumes "left_alone x (en_id e)" and "row_of (en_id e) db = [e]"
    and "get_unindexed (rx_aead x) (rx_cipher x) locked last_id n db = Inr batch" and "embed_batch x k batch db = (db2, ok, bad)"
    and "db3 = (if bad \<noteq> [] then reset_indexed_at_for_ids bad (others_write x k m db2) else others_write x k m db2)"
  shows "entry_after x e db db3"
proof -
  let ?i = "en_id e" and ?ids = "map (en_id \<circ> fst) batch"
  note at = batch_at [OF assms(3,2)]
  note rows_at = embed_rows_at [OF assms(1) assms(4) [unfolded embed_batch_def] at(1), unfolded row_of_stamped vectors_of_stamped assms(2)]
  note rows = rows_at [THEN conjunct1] and all = rows_at [THEN conjunct2, THEN conjunct1]
  have ifs: "if ?i \<in> set ok
     then ?i \<notin> set bad \<and> (\<exists>e' t v. (e', t) \<in> set batch \<and> en_id e' = ?i \<and> rx_encode x t = Some v \<and>
       (\<exists>b \<in> set (vectors_of ?i db2). em_user b = en_user e' \<and> em_vec b = v))
     else vectors_of ?i db2 = vectors_of ?i db"
    by (rule rows_at [THEN conjunct2, THEN conjunct2])
  have row3: "row_of ?i db3 = map (\<lambda>e. if en_id e \<in> set bad \<and> en_deleted e = None then e\<lparr>en_indexed := None\<rparr> else e)
      [stamp (rx_now x k) ?ids e]"
    unfolding assms(5) row_of_reset by (simp only: others_leave [OF assms(1)] rows list.map)
  have "embs db3 = embs (others_write x k m db2)" using assms(5) by simp
  then have vec3: "vectors_of ?i db3 = vectors_of ?i db2" using others_leave(2) [OF assms(1), of k m db2] by (simp add: vectors_of_def)
  show ?thesis
  proof (cases "?i \<in> set ok")
    case True
    with ifs obtain e' t v b where w: "?i \<notin> set bad" "(e', t) \<in> set batch" "en_id e' = ?i" "rx_encode x t = Some v"
      "b \<in> set (vectors_of ?i db2)" "em_user b = en_user e'" "em_vec b = v" by auto
    from at(2) [OF w(2)] w(3) have e': "e' = e" "waiting e" "open_column (rx_aead x) (rx_cipher x) (Some (en_content e)) = Inr (Some t)" by auto
    have "b \<in> set (vectors_of ?i db3)" using w(5) by (simp only: vec3)
    then have "b \<in> set (embs db3)" "em_entry b = ?i" by (auto simp: vectors_of_def)
    with w e' have "stored x (embs db3) e" by (auto simp: stored_def)
    moreover have "?i \<in> set ?ids" using w(2,3) by force
    ultimately show ?thesis using w(1) e'(2) row3 by (auto simp: entry_after_def stamp_def)
  next
    case False
    have "row_of ?i db3 = [e]"
    proof (cases "?i \<in> set ?ids")
      case True
      then have "?i \<in> set bad" using all False by auto
      moreover from True obtain r where "r \<in> set batch" "en_id (fst r) = ?i" by auto
      with at(2) have "waiting e" by blast
      ultimately show ?thesis using row3 by (cases e) (auto simp: stamp_def waiting_def)
    next
      case out: False
      then have "?i \<notin> set bad" using all by auto
      with out show ?thesis using row3 by (simp add: stamp_def)
    qed
    with False ifs vec3 show ?thesis by (simp add: entry_after_def)
  qed
qed

lemma entry_after_trans:
  assumes "entry_after x e db db1" and "\<And>e1. row_of (en_id e1) db1 = [e1] \<Longrightarrow> en_id e1 = en_id e \<Longrightarrow> entry_after x e1 db1 db2"
  shows "entry_after x e db db2"
proof -
  from assms(1) consider (same) "row_of (en_id e) db1 = [e]" "vectors_of (en_id e) db1 = vectors_of (en_id e) db"
    | (moved) now where "waiting e" "row_of (en_id e) db1 = [e\<lparr>en_indexed := Some now\<rparr>]" "stored x (embs db1) e"
    unfolding entry_after_def by blast
  then show ?thesis
  proof cases
    case same
    with assms(2) [of e] show ?thesis by (auto simp: entry_after_def)
  next
    case (moved now)
    let ?e = "e\<lparr>en_indexed := Some now\<rparr>"
    have "entry_after x ?e db1 db2" using moved(2) by (intro assms(2)) simp_all
    then have row: "row_of (en_id e) db2 = [?e]" and vecs: "vectors_of (en_id e) db2 = vectors_of (en_id e) db1"
      by (auto simp: entry_after_def waiting_def)
    have "b \<in> set (embs db2)" if "b \<in> set (embs db1)" "em_entry b = en_id e" for b
    proof -
      from that have "b \<in> set (vectors_of (en_id e) db1)" by (simp add: vectors_of_def)
      then have "b \<in> set (vectors_of (en_id e) db2)" by (simp only: vecs)
      then show ?thesis by (simp add: vectors_of_def)
    qed
    with moved(3) have "stored x (embs db2) e" unfolding stored_def by blast
    with moved(1) row show ?thesis by (auto simp: entry_after_def)
  qed
qed

lemma entry_after_refl: "row_of (en_id e) db' = [e] \<Longrightarrow> vectors_of (en_id e) db' = vectors_of (en_id e) db \<Longrightarrow> entry_after x e db db'"
  by (simp add: entry_after_def)

lemma reindex_loop_at:
  assumes "reindex_loop x k last_id g f db = (r, db')" and "left_alone x (en_id e)" and "row_of (en_id e) db = [e]"
    and "r \<noteq> Inl (ReindexRaised (PostgresError ''reset''))" "r \<noteq> Inl ReindexCutOff"
  shows "entry_after x e db db'"
  using assms
proof (induction x k last_id g f db arbitrary: e rule: reindex_loop.induct)
  case (1 x k last_id g f db)
  define d where "d = others_write x k 0 db"
  have d: "row_of (en_id e) d = [e]" "vectors_of (en_id e) d = vectors_of (en_id e) db"
    using others_leave [OF 1(3), of k 0 db] 1(4) by (simp_all add: d_def)
  note opened = 1(2) [unfolded reindex_loop.simps [of x k last_id g f db] Let_def, folded d_def]
  show ?case
  proof (cases "get_unindexed (rx_aead x) (rx_cipher x) (rx_locked x k) last_id REINDEX_BATCH_SIZE d")
    case (Inl err)
    with opened have "db' = d" by simp
    with d show ?thesis by (simp add: entry_after_refl)
  next
    case (Inr batch)
    obtain db2 ok bad where round: "embed_batch x k batch d = (db2, ok, bad)" by (cases "embed_batch x k batch d") auto
    let ?m = "length batch + 1"
    define db3 where "db3 = (if bad \<noteq> [] then reset_indexed_at_for_ids bad (others_write x k ?m db2) else others_write x k ?m db2)"
    have "entry_after x e d db3" by (rule round_at [OF 1(3) d(1) Inr round db3_def])
    then have next_db: "entry_after x e db db3" using d(2) by (auto simp: entry_after_def)
    note run = opened [unfolded Inr sum.case round prod.case, folded db3_def]
    show ?thesis
    proof (cases "batch = [] \<or> rx_cut x k \<noteq> None")
      case True
      with run 1(6) d show ?thesis by (auto simp: entry_after_refl split: option.splits if_splits)
    next
      case False
      then have uncut: "batch \<noteq> []" "rx_cut x k = None" by auto
      show ?thesis
      proof (cases "bad \<noteq> [] \<and> rx_reset_fault x k")
        case True
        with run uncut 1(5) show ?thesis by auto
      next
        case live: False
        show ?thesis
        proof (cases "ok = []")
          case True
          with run uncut live next_db show ?thesis by auto
        next
          case more: False
          with run uncut live have rest: "reindex_loop x (k + 1) (Max (set ok)) (g + length ok) (f + length bad) db3 = (r, db')" by simp
          note IH = 1(1) [OF d_def Inr uncut round [symmetric] refl refl live db3_def refl refl more rest]
          show ?thesis
            by (rule entry_after_trans [OF next_db]) (rule IH, use 1(3,5,6) in simp_all)
        qed
      qed
    qed
  qed
qed

lemma unique_row: "unique_key key xs \<Longrightarrow> y \<in> set xs \<Longrightarrow> filter (\<lambda>x. key x = key y) xs = [y]"
proof (induction xs)
  case (Cons x xs)
  have "filter (\<lambda>z. key z = key x) xs = []" using Cons.prems(1) by (auto simp: unique_key_def filter_empty_conv) (metis imageI)
  with Cons show ?case by (cases "y = x") (auto simp: unique_key_def)
qed simp

text \<open>
  Property C34.  A reindex never claims an entry it has not embedded.  Take an entry that others
  leave alone while the run goes on, whatever else they write and whichever rows they hold locked.
  Whether the run returns or raises, short of being cut off in a batch or of a failure of the
  compensating reset, that entry and its vector are as they were, or it was waiting and is now
  stamped, nothing else of it changed, and the table holds, for its owner, the vector of the very
  text it has.  If nobody else writes at all, the run changes nothing but stamps and vectors of
  entries that waited, and when it returns the number of embeddings it reports is the number of
  entries that left the queue.
\<close>

theorem reindex_sound:
  assumes "run_reindex x db = (r, db')" and "jdb_ok db"
    and "r \<noteq> Inl (ReindexRaised (PostgresError ''reset''))" and "r \<noteq> Inl ReindexCutOff"
  shows "(\<forall>e \<in> set (entries db). left_alone x (en_id e) \<longrightarrow>
      row_of (en_id e) db' = [e] \<and> vectors_of (en_id e) db' = vectors_of (en_id e) db \<or>
      waiting e \<and> (\<exists>now. row_of (en_id e) db' = [e\<lparr>en_indexed := Some now\<rparr>]) \<and> stored x (embs db') e) \<and>
    ((\<forall>k. still x k) \<longrightarrow>
      db'\<lparr>entries := entries db, embs := embs db\<rparr> = db \<and>
      list_all2 (\<lambda>e e'. e' = e \<or> waiting e \<and> (\<exists>now. e' = e\<lparr>en_indexed := Some now\<rparr>) \<and> stored x (embs db') e) (entries db) (entries db') \<and>
      (\<forall>b \<in> set (embs db). (\<forall>e \<in> set (entries db). en_id e = em_entry b \<longrightarrow> \<not> waiting e) \<longrightarrow> b \<in> set (embs db')) \<and>
      (case r of Inl e \<Rightarrow> True | Inr rep \<Rightarrow> rr_generated rep + waiting_count db' = waiting_count db))"
proof -
  have unique: "unique_key en_id (entries db)" using assms(2) by (simp add: jdb_ok_def entries_ok_def)
  have row: "row_of (en_id e) db = [e]" if "e \<in> set (entries db)" for e
    unfolding row_of_def using unique that by (rule unique_row)
  show ?thesis
  proof (cases "rx_admin_pool x")
    case False
    with assms(1) have "db' = db" "\<exists>e. r = Inl e" by (auto simp: run_reindex_def)
    with row show ?thesis by (auto intro: list_all2_refl)
  next
    case True
    obtain q where loop: "reindex_loop x 0 0 0 0 db = (q, db')" "\<And>e. q = Inl e \<longleftrightarrow> r = Inl e"
      and report: "\<And>g f. q = Inr (g, f) \<Longrightarrow> \<exists>rep. r = Inr rep \<and> rr_generated rep = g" "\<And>rep. r = Inr rep \<Longrightarrow> \<exists>f. q = Inr (rr_generated rep, f)"
      using assms(1) True by (cases "reindex_loop x 0 0 0 0 db") (auto simp: run_reindex_def split: sum.splits prod.splits)
    have ends: "q \<noteq> Inl (ReindexRaised (PostgresError ''reset''))" "q \<noteq> Inl ReindexCutOff" using assms(3,4) loop(2) by auto
    have each: "entry_after x e db db'" if "e \<in> set (entries db)" "left_alone x (en_id e)" for e
      by (rule reindex_loop_at [OF loop(1) that(2) row [OF that(1)] ends])
    have whole: "reindexed x db db' \<and> (\<forall>g' f'. q = Inr (g', f') \<longrightarrow> g' + waiting_count db' = 0 + waiting_count db)" if "\<forall>k. still x k"
    proof -
      have "reindexed x db db" by (auto simp: reindexed_def reindexed_entry_def intro: list_all2_refl)
      from reindex_loop_sound [OF loop(1) unique this ends that] show ?thesis .
    qed
    show ?thesis
    proof (intro conjI ballI impI)
      fix e assume "e \<in> set (entries db)" "left_alone x (en_id e)"
      from each [OF this] show "row_of (en_id e) db' = [e] \<and> vectors_of (en_id e) db' = vectors_of (en_id e) db \<or>
        waiting e \<and> (\<exists>now. row_of (en_id e) db' = [e\<lparr>en_indexed := Some now\<rparr>]) \<and> stored x (embs db') e"
        by (simp only: entry_after_def)
    next
      assume "\<forall>k. still x k"
      with whole have w: "reindexed x db db'" "\<forall>g' f'. q = Inr (g', f') \<longrightarrow> g' + waiting_count db' = waiting_count db" by auto
      show "db'\<lparr>entries := entries db, embs := embs db\<rparr> = db" using w(1) by (simp add: reindexed_def)
      show "list_all2 (\<lambda>e e'. e' = e \<or> waiting e \<and> (\<exists>now. e' = e\<lparr>en_indexed := Some now\<rparr>) \<and> stored x (embs db') e) (entries db) (entries db')"
        using w(1) by (simp add: reindexed_def reindexed_entry_def [abs_def])
      show "b \<in> set (embs db')" if "b \<in> set (embs db)" "\<forall>e \<in> set (entries db). en_id e = em_entry b \<longrightarrow> \<not> waiting e" for b
        using w(1) that unfolding reindexed_def by blast
      show "case r of Inl e \<Rightarrow> True | Inr rep \<Rightarrow> rr_generated rep + waiting_count db' = waiting_count db"
        using w(2) report(2) by (auto split: sum.split)
    qed
  qed
qed

text \<open>
  An entry that is not left alone can end with a vector of a text it no longer has: the save uses
  the text read at the claim, and wins over whatever was stored in between.
\<close>

lemma late_save_wins:
  assumes "rx_encode x t = Some v" and "\<not> rx_fault x k (en_id e)"
    and "\<exists>e' \<in> set (entries (others_write x k j db)). en_id e' = en_id e \<and> en_user e' = en_user e"
  shows "\<exists>db'. embed_rows x k j [(e, t)] db = (db', [en_id e], []) \<and> entries db' = entries (others_write x k j db) \<and>
    (\<exists>b \<in> set (embs db'). em_entry b = en_id e \<and> em_vec b = v)"
  using assms by (auto simp: admin_save_by_vector_def list_ex_iff sql_simps Let_def)

text \<open>And a round that is cut off leaves the rest of its batch stamped without having embedded it.\<close>

lemma cut_off_leaves_stamps:
  assumes "e \<in> set (entries (cut_batch x k 0 batch db))" and "en_id e \<in> (en_id \<circ> fst) ` set batch"
  shows "en_indexed e = Some (rx_now x k) \<and> embs (cut_batch x k 0 batch db) = embs db"
  using assms by (cases "batch = []") (auto simp: cut_batch_def mark_indexed_batch_def sql_update_def)

section \<open>The queue drains\<close>

definition embeddable :: "reindex_env \<Rightarrow> entry_row \<Rightarrow> bool" where
  "embeddable x e = (\<exists>t. open_column (rx_aead x) (rx_cipher x) (Some (en_content e)) = Inr (Some t) \<and> rx_encode x t \<noteq> None)"

lemma rmap_list_total: "(\<And>x. x \<in> set xs \<Longrightarrow> \<exists>y. f x = Inr y) \<Longrightarrow> \<exists>ys. rmap_list f xs = Inr ys"
  by (induction xs) fastforce+

text \<open>Nobody else writes or locks entries, nothing fails and no round is cut off.\<close>

definition undisturbed :: "reindex_env \<Rightarrow> bool" where
  "undisturbed x = ((\<forall>k. still x k) \<and> (\<forall>k i. \<not> rx_locked x k i) \<and> (\<forall>k i. \<not> rx_fault x k i) \<and> (\<forall>k. rx_cut x k = None))"

lemma reindex_loop_drains:
  assumes "unique_key en_id (entries db)" and "\<forall>e \<in> set (entries db). \<exists>t \<in> set (topics db). tp_id t = en_topic e"
    and "\<forall>e \<in> set (entries db). waiting e \<longrightarrow> last_id < en_id e \<and> embeddable x e" and "undisturbed x"
  shows "\<exists>g' db'. reindex_loop x k last_id g f db = (Inr (g', f), db') \<and> waiting_count db' = 0"
  using assms
proof (induction x k last_id g f db rule: reindex_loop.induct)
  case (1 x k last_id g f db)
  have queue: "queued last_id e \<longleftrightarrow> waiting e" if "e \<in> set (entries db)" for e
    using 1(4) that by (auto simp: queued_def waiting_def)
  have calm: "\<And>i. \<not> rx_fault x k i" "\<And>i. \<not> rx_locked x k i" "rx_cut x k = None" and still: "still x k"
    using 1(5) by (auto simp: undisturbed_def)
  from still have alone: "others_write x k j d = d" for j d by (simp add: still_def)
  let ?c = "claimed (rx_locked x k) last_id REINDEX_BATCH_SIZE db"
  have claim: "filter (\<lambda>e. \<exists>t \<in> set (topics db). tp_id t = en_topic e) ?c = ?c"
    using 1(3) by (auto simp: claimed_def sql_select_def filter_id_conv dest!: in_set_takeD)
  have "\<exists>batch. get_unindexed (rx_aead x) (rx_cipher x) (rx_locked x k) last_id REINDEX_BATCH_SIZE db = Inr batch"
    unfolding get_unindexed_def claim
  proof (rule rmap_list_total)
    fix e assume "e \<in> set ?c"
    then have "e \<in> set (entries db)" "queued last_id e" by (auto simp: claimed_def sql_select_def dest!: in_set_takeD)
    with 1(4) queue have "embeddable x e" by blast
    then show "\<exists>y. rbind (open_column (rx_aead x) (rx_cipher x) (Some (en_content e))) (\<lambda>t. rmap (\<lambda>t'. (e, t')) (not_null t)) = Inr y"
      by (auto simp: embeddable_def)
  qed
  then obtain batch where batch: "get_unindexed (rx_aead x) (rx_cipher x) (rx_locked x k) last_id REINDEX_BATCH_SIZE db = Inr batch" by blast
  have rows: "map fst batch = ?c" using batch_rows [OF batch] claim by simp
  obtain db2 ok bad where round: "embed_batch x k batch db = (db2, ok, bad)" by (cases "embed_batch x k batch db") auto
  show ?case
  proof (cases "batch = []")
    case True
    with rows have "length (sort_key en_id (sql_select (queued last_id) (entries db))) = 0" using calm(2) by (simp add: claimed_def REINDEX_BATCH_SIZE_def)
    then have "filter (queued last_id) (entries db) = []" by (simp add: sql_select_def)
    then have "filter waiting (entries db) = []" using queue by (auto simp: filter_empty_conv)
    with True batch show ?thesis by (simp add: reindex_loop.simps [of x k] alone waiting_count_def)
  next
    case False
    define db3 where "db3 = (if bad \<noteq> [] then reset_indexed_at_for_ids bad db2 else db2)"
    note effect = round_effect [OF batch round 1(2) db3_def still]
    note run = round [unfolded embed_batch_def]
    have ids: "set ok \<union> set bad = (en_id \<circ> fst) ` set batch" using embed_rows_frame [OF still run] by blast
    have all: "en_id e \<in> set ok" if "(e, t) \<in> set batch" for e t
    proof (rule embed_rows_complete [OF still run that])
      have row: "e \<in> set (entries db)" "queued last_id e" "open_column (rx_aead x) (rx_cipher x) (Some (en_content e)) = Inr (Some t)"
        using get_unindexed_rows [OF batch that] by simp_all
      then show "rx_encode x t \<noteq> None" using 1(4) queue by (fastforce simp: embeddable_def)
      show "\<not> rx_fault x k (en_id e)" by (rule calm(1))
      from row(1) show "\<exists>e' \<in> set (entries (mark_indexed_batch (rx_now x k) (map (en_id \<circ> fst) batch) db)). en_id e' = en_id e \<and> en_user e' = en_user e"
        by (auto simp: mark_batch_stamp)
    qed
    have ok: "set ok = en_id ` set ?c"
    proof
      show "set ok \<subseteq> en_id ` set ?c" using ids unfolding rows [symmetric] by force
      show "en_id ` set ?c \<subseteq> set ok" using all unfolding rows [symmetric] by force
    qed
    have image: "(en_id \<circ> fst) ` set batch = en_id ` set ?c" unfolding rows [symmetric] by force
    with ids ok have "set bad \<subseteq> set ok" by blast
    with embed_rows_distinct [OF still run batch_distinct [OF batch 1(2)]] have "bad = []" by (cases bad) auto
    moreover have "ok \<noteq> []" using False ok image by auto
    ultimately have good: "bad = []" "ok \<noteq> []" by auto
    have rest: "\<forall>e \<in> set (entries db3). waiting e \<longrightarrow> Max (set ok) < en_id e \<and> embeddable x e"
    proof (intro ballI impI)
      fix e3 assume e3: "e3 \<in> set (entries db3)" "waiting e3"
      then obtain e where e: "e \<in> set (entries db)" "e3 = stamp (rx_now x k) ok e" by (auto simp: effect(1))
      with e3(2) have out: "en_id e \<notin> set ok" and same: "e3 = e" by (auto simp: stamp_def waiting_def split: if_splits)
      have in_queue: "e \<in> set (filter (\<lambda>e. \<not> rx_locked x k (en_id e)) (sql_select (queued last_id) (entries db)))"
        using e(1) e3(2) same queue calm(2) by (simp add: sql_simps)
      have apart: "e \<notin> set ?c" using out ok by blast
      have "en_id e' < en_id e" if "e' \<in> set ?c" for e'
      proof -
        have "en_id e' \<in> set ok" using that ok by blast
        with out have "en_id e' \<noteq> en_id e" by auto
        with take_sort_key_less [OF in_queue apart [unfolded claimed_def] that [unfolded claimed_def]] show ?thesis by simp
      qed
      then have "\<forall>i \<in> set ok. i < en_id e" unfolding ok by (intro ballI) (erule imageE, simp)
      then have "Max (set ok) < en_id e" using good(2) by simp
      then show "Max (set ok) < en_id e3 \<and> embeddable x e3" using e(1) e3(2) same 1(4) by blast
    qed
    have "map en_id (entries db3) = map en_id (entries db)" by (simp add: effect(1))
    then have unique: "unique_key en_id (entries db3)" using 1(2) by (simp add: unique_key_def)
    have "topics (db3\<lparr>entries := entries db, embs := embs db\<rparr>) = topics db" by (simp only: effect(2))
    then have "topics db3 = topics db" by simp
    then have topics: "\<forall>e \<in> set (entries db3). \<exists>t \<in> set (topics db3). tp_id t = en_topic e" using 1(3) by (auto simp: effect(1))
    from 1(1) [OF alone [symmetric] batch False calm(3) round [symmetric] refl alone [symmetric] _ db3_def refl refl good(2) unique topics rest 1(5)] good(1)
    obtain g' db' where "reindex_loop x (k + 1) (Max (set ok)) (g + length ok) (f + length bad) db3 = (Inr (g', f + length bad), db')"
      "waiting_count db' = 0" by auto
    then show ?thesis using batch False round good calm(3) db3_def by (simp add: reindex_loop.simps [of x k last_id] alone)
  qed
qed

text \<open>
  Property C35.  A reindex drains the queue.  When nobody else writes or holds an entry locked while
  it runs, it is not cut off, every waiting entry can be decrypted and embedded and no save fails,
  the run returns, however many batches it takes: no entry is left waiting, each one that waited
  has been embedded once, none is counted as failed and the status is \<open>ok\<close>.
\<close>

theorem reindex_drains_queue:
  assumes "jdb_ok db" and "\<forall>e \<in> set (entries db). waiting e \<longrightarrow> 0 < en_id e \<and> embeddable x e" and "undisturbed x"
    and "rx_admin_pool x"
  shows "\<exists>db'. run_reindex x db = (Inr \<lparr>rr_semantic_status = ''ok'', rr_generated = waiting_count db, rr_failed = 0\<rparr>, db') \<and>
    filter waiting (entries db') = []"
proof -
  have unique: "unique_key en_id (entries db)" and topics: "\<forall>e \<in> set (entries db). \<exists>t \<in> set (topics db). tp_id t = en_topic e"
    using assms(1) by (auto simp: jdb_ok_def entries_ok_def topic_keys_def) force
  have still: "\<forall>k. still x k" using assms(3) by (simp add: undisturbed_def)
  from reindex_loop_drains [OF unique topics assms(2,3), of 0 0 0] obtain g db' where
    loop: "reindex_loop x 0 0 0 0 db = (Inr (g, 0), db')" "waiting_count db' = 0" by blast
  have "reindexed x db db" by (auto simp: reindexed_def reindexed_entry_def intro: list_all2_refl)
  from reindex_loop_sound [OF loop(1) unique this _ _ still] have "g + waiting_count db' = waiting_count db" by simp
  with loop assms(4) show ?thesis by (simp add: run_reindex_def) (simp add: waiting_count_def)
qed

text \<open>
  One entry that cannot be decrypted stops the whole queue: while it is among the first to be
  claimed, every run raises before anything is embedded, for every user.
\<close>

lemma corrupt_entry_blocks_queue:
  assumes "jdb_ok db" and "e \<in> set (claimed (rx_locked x 0) 0 REINDEX_BATCH_SIZE db)" and "still x 0" and "open_column (rx_aead x) (rx_cipher x) (Some (en_content e)) = Inl err"
  shows "\<exists>err'. run_reindex x db = (Inl err', db)"
proof -
  have "e \<in> set (entries db)" using assms(2) by (auto simp: claimed_def sql_select_def dest!: in_set_takeD)
  then have "\<exists>t \<in> set (topics db). tp_id t = en_topic e" using assms(1) by (auto simp: jdb_ok_def entries_ok_def topic_keys_def) force
  then have "e \<in> set (filter (\<lambda>e. \<exists>t \<in> set (topics db). tp_id t = en_topic e) (claimed (rx_locked x 0) 0 REINDEX_BATCH_SIZE db))" using assms(2) by simp
  moreover have "rmap_list f xs = Inr ys \<Longrightarrow> z \<in> set xs \<Longrightarrow> \<exists>y. f z = Inr y" for f :: "entry_row \<Rightarrow> jerror + (entry_row \<times> ptext)" and xs ys z
    by (induction xs arbitrary: ys) (auto simp: res_simps)
  ultimately have "get_unindexed (rx_aead x) (rx_cipher x) (rx_locked x 0) 0 REINDEX_BATCH_SIZE db \<noteq> Inr batch" for batch
    using assms(4) unfolding get_unindexed_def by fastforce
  then obtain err' where "get_unindexed (rx_aead x) (rx_cipher x) (rx_locked x 0) 0 REINDEX_BATCH_SIZE db = Inl err'"
    by (cases "get_unindexed (rx_aead x) (rx_cipher x) (rx_locked x 0) 0 REINDEX_BATCH_SIZE db") auto
  then show ?thesis using assms(3) by (simp add: run_reindex_def reindex_loop.simps [of x 0] still_def)
qed

section \<open>A sample\<close>

definition reindex_jdb :: jdb where
  "reindex_jdb = sample_jdb\<lparr>entries := map (\<lambda>e. e\<lparr>en_content := demo_seal [104, 105]\<rparr>) (entries sample_jdb)\<rparr>"

definition demo_reindex :: reindex_env where
  "demo_reindex = \<lparr>rx_admin_pool = True, rx_aead = demo_aead, rx_cipher = demo_cipher, rx_now = (\<lambda>k. 20), rx_encode = (\<lambda>t. Some [1]),
     rx_fault = (\<lambda>k i. False), rx_reset_fault = (\<lambda>k. False), rx_busy = 0, rx_other = (\<lambda>k j d. d), rx_locked = (\<lambda>k i. False), rx_cut = (\<lambda>k. None)\<rparr>"

lemma demo_undisturbed: "undisturbed demo_reindex"
  by (simp add: undisturbed_def demo_reindex_def still_def others_write_def)

lemma reindex_jdb_ok: "jdb_ok reindex_jdb"
  by (simp add: reindex_jdb_def jdb_ok_def topics_ok_def convs_ok_def entries_ok_def embs_ok_def msgs_ok_def topic_keys_def
      conv_keys_def entry_keys_def sample_jdb_def empty_jdb_def unique_key_def)

lemma reindex_jdb_entries:
  "\<forall>e \<in> set (entries reindex_jdb). 0 < en_id e \<and> en_content e = demo_seal [104, 105]" "waiting_count reindex_jdb = 2"
  by (simp_all add: reindex_jdb_def sample_jdb_def empty_jdb_def waiting_count_def waiting_def)

lemma demo_embeddable: "\<forall>e \<in> set (entries reindex_jdb). waiting e \<longrightarrow> 0 < en_id e \<and> embeddable demo_reindex e"
proof -
  have "open_column demo_aead demo_cipher (Some (demo_seal [104, 105])) = Inr (Some [104, 105])"
    by (rule demo_open) (simp add: scalar_value_def)
  then show ?thesis using reindex_jdb_entries(1) by (auto simp: embeddable_def demo_reindex_def)
qed

theorem reindex_drains_queue_witness:
  "\<exists>db'. run_reindex demo_reindex reindex_jdb = (Inr \<lparr>rr_semantic_status = ''ok'', rr_generated = 2, rr_failed = 0\<rparr>, db')"
  using reindex_drains_queue [OF reindex_jdb_ok demo_embeddable demo_undisturbed] reindex_jdb_entries(2) by (auto simp: demo_reindex_def)

text \<open>The sample, where somebody works on entry 3 between the claim and its save.\<close>

definition busy_reindex :: reindex_env where
  "busy_reindex = demo_reindex\<lparr>rx_busy := 1, rx_other := (\<lambda>k j d. if j = 1
     then d\<lparr>entries := map (\<lambda>e. if en_id e = 3 then e\<lparr>en_updated := 99\<rparr> else e) (entries d)\<rparr> else d)\<rparr>"

lemma filter_map_same:
  "(\<And>x. key (f x) = key x) \<Longrightarrow> (\<And>x. key x = i \<Longrightarrow> f x = x) \<Longrightarrow> filter (\<lambda>x. key x = i) (map f xs) = filter (\<lambda>x. key x = i) xs"
  by (induction xs) auto

lemma busy_leaves: "i \<noteq> 3 \<Longrightarrow> left_alone busy_reindex i"
  unfolding left_alone_def busy_reindex_def row_of_def vectors_of_def
  by (auto intro: filter_map_same)

lemma claim_not_postgres: "get_unindexed a c locked last_id n db \<noteq> Inl (PostgresError m)"
proof -
  have "open_column a c col \<noteq> Inl (PostgresError m)" for col
    by (cases "decrypt_content_field a c (map_option fst col) (map_option snd col)") (simp_all add: open_column_def)
  moreover have "not_null t \<noteq> Inl (PostgresError m)" for t :: "ptext option" by (cases t) simp_all
  ultimately have "rbind (open_column a c col) (\<lambda>t. rmap (\<lambda>t'. (e, t')) (not_null t)) \<noteq> Inl (PostgresError m)" for col and e :: entry_row
    by (auto simp: res_simps)
  then have "rmap_list (\<lambda>e. rbind (open_column a c (Some (en_content e))) (\<lambda>t. rmap (\<lambda>t'. (e, t')) (not_null t))) es \<noteq> Inl (PostgresError m)" for es
    by (induction es) (auto simp: res_simps)
  then show ?thesis unfolding get_unindexed_def by blast
qed

lemma reindex_loop_ends:
  assumes "\<forall>k. \<not> rx_reset_fault x k" and "\<forall>k. rx_cut x k = None"
  shows "fst (reindex_loop x k last_id g f db) \<noteq> Inl (ReindexRaised (PostgresError m)) \<and> fst (reindex_loop x k last_id g f db) \<noteq> Inl ReindexCutOff"
  using assms
proof (induction x k last_id g f db rule: reindex_loop.induct)
  case (1 x k last_id g f db)
  show ?case
  proof (cases "get_unindexed (rx_aead x) (rx_cipher x) (rx_locked x k) last_id REINDEX_BATCH_SIZE (others_write x k 0 db)")
    case (Inl e)
    with claim_not_postgres show ?thesis by (auto simp: reindex_loop.simps [of x k] Let_def)
  next
    case (Inr batch)
    obtain db2 ok bad where round: "embed_batch x k batch (others_write x k 0 db) = (db2, ok, bad)"
      by (cases "embed_batch x k batch (others_write x k 0 db)") auto
    show ?thesis
    proof (cases "batch = [] \<or> ok = []")
      case True
      with Inr round 1(2,3) show ?thesis by (auto simp: reindex_loop.simps [of x k] Let_def)
    next
      case False
      then have "batch \<noteq> []" "ok \<noteq> []" by auto
      note IH = 1(1) [OF refl Inr this(1) _ round [symmetric] refl refl _ refl refl refl this(2)]
      with Inr round False 1(2,3) show ?thesis by (cases "bad = []") (simp_all add: reindex_loop.simps [of x k last_id] Let_def)
    qed
  qed
qed

theorem reindex_sound_witness:
  "\<exists>r db' e. run_reindex busy_reindex reindex_jdb = (r, db') \<and> e \<in> set (entries reindex_jdb) \<and> en_id e = 2 \<and>
     (row_of 2 db' = [e] \<or> (\<exists>now. row_of 2 db' = [e\<lparr>en_indexed := Some now\<rparr>]) \<and> stored busy_reindex (embs db') e)"
proof -
  obtain r db' where run: "run_reindex busy_reindex reindex_jdb = (r, db')" by (cases "run_reindex busy_reindex reindex_jdb")
  have "\<forall>k. \<not> rx_reset_fault busy_reindex k" "\<forall>k. rx_cut busy_reindex k = None" by (simp_all add: busy_reindex_def demo_reindex_def)
  from reindex_loop_ends [OF this, of 0 0 0 0 reindex_jdb "''reset''"] run
  have ends: "r \<noteq> Inl (ReindexRaised (PostgresError ''reset''))" "r \<noteq> Inl ReindexCutOff"
    by (auto simp: run_reindex_def split: sum.splits prod.splits if_splits)
  let ?e = "entries reindex_jdb ! 1"
  have e: "?e \<in> set (entries reindex_jdb)" "en_id ?e = 2" by (simp_all add: reindex_jdb_def sample_jdb_def empty_jdb_def)
  from reindex_sound [OF run reindex_jdb_ok ends] e busy_leaves [of 2] run show ?thesis
    by (intro exI [of _ r] exI [of _ db'] exI [of _ ?e]) fastforce
qed

end
