(* ===== verification/Period.thy ===== *)
theory Period
  imports PyDate
begin

text \<open>
  The period vocabulary of the timeline, \<open>resolve_period\<close> in \<open>gubbi/tools/context.py\<close>.

  Dates are the proleptic Gregorian dates of \<open>PyDate\<close>; subtracting or adding a
  \<open>timedelta\<close> that leaves the range of \<open>date\<close> is Python's \<open>OverflowError\<close>, which the code
  catches in the ISO-week branch only.  \<open>period_range\<close> is the function before its three results
  are formatted, \<open>resolve_period\<close> the strings it returns.  \<open>strftime("%B %Y")\<close> is the English
  month name and the year without padding (the C locale of glibc).
\<close>

datatype period_error = PeriodValueError string | PeriodOverflowError

definition month_name :: "int \<Rightarrow> string" where
  "month_name m = [''January'', ''February'', ''March'', ''April'', ''May'', ''June'', ''July'',
     ''August'', ''September'', ''October'', ''November'', ''December''] ! nat (m - 1)"

definition strftime_month :: "ymd \<Rightarrow> string" where
  "strftime_month d = month_name (dmonth d) @ '' '' @ dec_int (dyear d)"

definition shift :: "ymd \<Rightarrow> int \<Rightarrow> period_error + ymd" where
  "shift d k = (case date_add d k of None \<Rightarrow> Inl PeriodOverflowError | Some e \<Rightarrow> Inr e)"

definition month_end :: "int \<Rightarrow> int \<Rightarrow> ymd option" where
  "month_end year month =
     (if month = 12 then mk_date year 12 31
      else case mk_date year (month + 1) 1 of None \<Rightarrow> None | Some d \<Rightarrow> date_add d (- 1))"

text \<open>\<open>re.sub(r"[\s_]+", "-", period.strip().lower())\<close>: a run becomes one hyphen.\<close>

definition gap_char :: "char \<Rightarrow> bool" where
  "gap_char c = (py_isspace c \<or> c = CHR ''_'')"

fun sub_gaps :: "bool \<Rightarrow> string \<Rightarrow> string" where
  "sub_gaps in_gap [] = []"
| "sub_gaps in_gap (c # cs) =
     (if gap_char c then (if in_gap then sub_gaps True cs else CHR ''-'' # sub_gaps True cs)
      else c # sub_gaps False cs)"

definition normalize_period :: "string \<Rightarrow> string" where
  "normalize_period p = sub_gaps False (py_lower (py_strip py_isspace p))"

text \<open>\<open>period.split("-w")\<close>.\<close>

fun split_dash_w :: "string \<Rightarrow> string \<Rightarrow> string list" where
  "split_dash_w acc (c # d # cs) =
     (if c = CHR ''-'' \<and> d = CHR ''w'' then acc # split_dash_w [] cs else split_dash_w (acc @ [c]) (d # cs))"
| "split_dash_w acc cs = [acc @ cs]"

definition week_label :: "int \<Rightarrow> int \<Rightarrow> string" where
  "week_label week year = ''Week '' @ dec_int week @ '', '' @ dec_int year"

definition this_week :: "ymd \<Rightarrow> period_error + (ymd \<times> ymd \<times> string)" where
  "this_week today =
     rbind (shift today (- weekday today)) (\<lambda>start.
     rbind (shift start 6) (\<lambda>end.
     Inr (start, end, week_label (fst (snd (isocalendar today))) (dyear today))))"

definition last_week :: "ymd \<Rightarrow> period_error + (ymd \<times> ymd \<times> string)" where
  "last_week today =
     rbind (shift today (- (weekday today + 7))) (\<lambda>start.
     rbind (shift start 6) (\<lambda>end.
     Inr (start, end, week_label (fst (snd (isocalendar start))) (dyear start))))"

definition this_month :: "ymd \<Rightarrow> period_error + (ymd \<times> ymd \<times> string)" where
  "this_month today =
     (let start = today\<lparr>dday := 1\<rparr> in
      case month_end (dyear today) (dmonth today) of
        None \<Rightarrow> Inl (PeriodValueError [])
      | Some end \<Rightarrow> Inr (start, end, strftime_month today))"

definition last_month :: "ymd \<Rightarrow> period_error + (ymd \<times> ymd \<times> string)" where
  "last_month today =
     rbind (shift (today\<lparr>dday := 1\<rparr>) (- 1)) (\<lambda>end.
     (let start = end\<lparr>dday := 1\<rparr> in Inr (start, end, strftime_month start)))"

text \<open>
  The three numeric forms; \<open>None\<close> when the form does not apply or its body raises the error it
  catches, so that the next form is tried.
\<close>

definition year_form :: "string \<Rightarrow> (ymd \<times> ymd \<times> string) option" where
  "year_form p =
     (if length p = 4 \<and> py_isdigit p
      then case py_int p of None \<Rightarrow> None | Some y \<Rightarrow>
        (case (mk_date y 1 1, mk_date y 12 31) of (Some s, Some e) \<Rightarrow> Some (s, e, p) | _ \<Rightarrow> None)
      else None)"

definition month_form :: "string \<Rightarrow> (ymd \<times> ymd \<times> string) option" where
  "month_form p =
     (if length p = 7 \<and> p ! 4 = CHR ''-'' \<and> py_isdigit (drop 5 p)
      then case (py_int (take 4 p), py_int (drop 5 p)) of
             (Some y, Some m) \<Rightarrow>
               (case (mk_date y m 1, month_end y m) of
                  (Some s, Some e) \<Rightarrow> Some (s, e, strftime_month s) | _ \<Rightarrow> None)
           | _ \<Rightarrow> None
      else None)"

definition week_form :: "string \<Rightarrow> (ymd \<times> ymd \<times> string) option" where
  "week_form p =
     (case split_dash_w [] p of
        [y, w] \<Rightarrow>
          if y \<noteq> [] \<and> py_isdigit w
          then case (py_int y, py_int w) of
                 (Some year, Some week) \<Rightarrow>
                   (case fromisocalendar year week 1 of
                      None \<Rightarrow> None
                    | Some start \<Rightarrow> map_option (\<lambda>end. (start, end, week_label week year)) (date_add start 6))
               | _ \<Rightarrow> None
          else None
      | _ \<Rightarrow> None)"

definition period_range :: "string \<Rightarrow> ymd \<Rightarrow> period_error + (ymd \<times> ymd \<times> string)" where
  "period_range period today =
     (let p = normalize_period period in
      if p = ''today'' then Inr (today, today, ''Today ('' @ isoformat today @ '')'')
      else if p = ''this-week'' then this_week today
      else if p = ''last-week'' then last_week today
      else if p = ''this-month'' then this_month today
      else if p = ''last-month'' then last_month today
      else case year_form p of Some r \<Rightarrow> Inr r
      | None \<Rightarrow> (case month_form p of Some r \<Rightarrow> Inr r
      | None \<Rightarrow> (case week_form p of Some r \<Rightarrow> Inr r
      | None \<Rightarrow> Inl (PeriodValueError p))))"

definition resolve_period :: "string \<Rightarrow> ymd \<Rightarrow> period_error + (string \<times> string \<times> string)" where
  "resolve_period period today =
     rmap (\<lambda>(s, e, label). (isoformat s, isoformat e, label)) (period_range period today)"

section \<open>ISO weeks\<close>

definition long_year :: "int \<Rightarrow> bool" where
  "long_year y = (let fw = (days_before_year y + 1) mod 7 in fw = 4 \<or> (fw = 3 \<and> leap y))"

lemma week1_eq:
  "iso_week1_monday y = days_before_year y + 1 - days_before_year y mod 7 +
     (if days_before_year y mod 7 > 3 then 7 else 0)"
  by (simp add: iso_week1_monday_def Let_def)

lemma week1_bounds: "days_before_year y - 2 \<le> iso_week1_monday y" "iso_week1_monday y \<le> days_before_year y + 4"
proof -
  obtain r where r: "r = days_before_year y mod 7" "0 \<le> r" "r < 7" by simp
  have "iso_week1_monday y = days_before_year y + 1 - r + (if r > 3 then 7 else 0)"
    by (simp only: week1_eq r(1))
  with r(2,3) show "days_before_year y - 2 \<le> iso_week1_monday y" "iso_week1_monday y \<le> days_before_year y + 4"
    by (simp_all split: if_splits)
qed

lemma week1_step: "iso_week1_monday (y + 1) = iso_week1_monday y + (if long_year y then 371 else 364)"
proof -
  define f q r where "f = days_before_year y" and "q = f div 7" and "r = f mod 7"
  have f: "f = 7 * q + r" by (simp add: q_def r_def)
  have m: "(7 * q + c) mod 7 = c mod 7" for c by simp
  have next_year: "days_before_year (y + 1) = 7 * q + (r + (if leap y then 366 else 365))"
    using f by (simp add: days_before_year_Suc f_def)
  have long: "long_year y \<longleftrightarrow> (r + 1) mod 7 = 4 \<or> (r + 1) mod 7 = 3 \<and> leap y"
    using f m [of "r + 1"] by (simp only: long_year_def Let_def f_def [symmetric] add.assoc)
  have r: "r = 0 \<or> r = 1 \<or> r = 2 \<or> r = 3 \<or> r = 4 \<or> r = 5 \<or> r = 6"
    using pos_mod_bound [of 7 f] pos_mod_sign [of 7 f] unfolding r_def by linarith
  have week: "iso_week1_monday y = f + 1 - r + (if r > 3 then 7 else 0)"
    by (simp only: week1_eq f_def [symmetric] r_def)
  show ?thesis
    unfolding week long week1_eq [of "y + 1"] next_year m f
    using r by (elim disjE) simp_all
qed

text \<open>The ISO year of a date is the one whose weeks contain it.\<close>

lemma isocalendar_year:
  assumes "valid_ymd d" and "iso_week1_monday y \<le> ord_of d" and "ord_of d < iso_week1_monday (y + 1)"
  shows "isocalendar d = (y, (ord_of d - iso_week1_monday y) div 7 + 1, (ord_of d - iso_week1_monday y) mod 7 + 1)"
proof -
  let ?W = iso_week1_monday and ?Y = "dyear d" and ?n = "ord_of d"
  have n: "days_before_year ?Y < ?n" "?n \<le> days_before_year (?Y + 1)"
    using valid_ymd_ord_bounds [OF assms(1)] by auto
  have "y \<le> ?Y + 1"
  proof (rule ccontr)
    assume "\<not> y \<le> ?Y + 1"
    then have "days_before_year (?Y + 2) \<le> days_before_year y" by (intro days_before_year_mono) simp
    moreover have "days_before_year (?Y + 2) \<ge> days_before_year (?Y + 1) + 365"
      using days_before_year_Suc [of "?Y + 1"] by (simp add: add.assoc)
    ultimately show False using n week1_bounds(1) [of y] assms(2) by simp
  qed
  moreover have "?Y - 1 \<le> y"
  proof (rule ccontr)
    assume "\<not> ?Y - 1 \<le> y"
    then have "days_before_year (y + 1) \<le> days_before_year (?Y - 1)" by (intro days_before_year_mono) simp
    moreover have "days_before_year ?Y \<ge> days_before_year (?Y - 1) + 365"
      using days_before_year_Suc [of "?Y - 1"] by simp
    ultimately show False using n week1_bounds(2) [of "y + 1"] assms(3) by simp
  qed
  ultimately consider "y = ?Y - 1" | "y = ?Y" | "y = ?Y + 1" by linarith
  then show ?thesis
  proof cases
    case 1
    then have "(?n - ?W ?Y) div 7 < 0" using assms(3) by simp
    with 1 show ?thesis by (simp add: isocalendar_def Let_def)
  next
    case 2
    then have "\<not> (?n - ?W ?Y) div 7 < 0" using assms(2) by simp
    with 2 assms(3) show ?thesis by (simp add: isocalendar_def Let_def)
  next
    case 3
    have w: "?W y = ?W ?Y + 7 * (if long_year ?Y then 53 else 52)" using week1_step [of ?Y] 3 by simp
    define m :: int where "m = (if long_year ?Y then 53 else 52)"
    define t where "t = ?n - ?W y"
    have "?n - ?W y < 7"
      using n week1_bounds(1) [of y] 3 by simp
    then have t: "0 \<le> t" "t < 7" using assms(2) by (simp_all add: t_def)
    have n_eq: "?n - ?W ?Y = m * 7 + t" using w by (simp add: m_def t_def)
    have "52 \<le> m" by (simp add: m_def)
    moreover have "(m * 7 + t) div 7 = m" "(m * 7 + t) mod 7 = t"
      by (rule int_div_pos_eq [of _ _ _ t], use t in simp_all)
    moreover have "t div 7 = 0" "t mod 7 = t" using t by simp_all
    moreover have "?n \<ge> ?W (?Y + 1)" using assms(2) 3 by simp
    moreover have "?n - ?W (?Y + 1) = t" using 3 by (simp add: t_def)
    ultimately show ?thesis
      by (simp add: isocalendar_def Let_def n_eq 3)
  qed
qed

lemma fromisocalendar_Some:
  assumes "fromisocalendar y w k = Some d"
  shows "valid_ymd d" and "ord_of d = iso_week1_monday y + (w - 1) * 7 + (k - 1)"
    and "1 \<le> k" and "k \<le> 7" and "1 \<le> w" and "w \<le> (if long_year y then 53 else 52)"
  using assms of_ord_valid of_ord_correct(1)
  by (auto simp: fromisocalendar_def Let_def long_year_def split: if_splits)

lemma isocalendar_fromisocalendar:
  assumes "fromisocalendar y w k = Some d"
  shows "isocalendar d = (y, w, k)"
proof -
  note d = fromisocalendar_Some [OF assms]
  have "ord_of d - iso_week1_monday y = (w - 1) * 7 + (k - 1)" using d(2) by simp
  moreover have "ord_of d < iso_week1_monday (y + 1)"
    using d by (simp add: week1_step split: if_splits)
  moreover have "iso_week1_monday y \<le> ord_of d" using d by simp
  moreover have "((w - 1) * 7 + (k - 1)) div 7 = w - 1" "((w - 1) * 7 + (k - 1)) mod 7 = k - 1"
    by (rule int_div_pos_eq [of _ _ _ "k - 1"], use d(3,4) in simp_all)
      (rule int_mod_pos_eq [of _ _ "w - 1"], use d(3,4) in simp_all)
  ultimately show ?thesis using isocalendar_year [OF d(1)] by simp
qed

section \<open>Months and relative periods\<close>

lemma ord_first: "ord_of (d\<lparr>dday := 1\<rparr>) = ord_of d - dday d + 1"
  by (simp add: ord_of_def)

lemma valid_first: "valid_ymd d \<Longrightarrow> valid_ymd (d\<lparr>dday := 1\<rparr>)"
  by (simp add: valid_ymd_def days_in_month_pos [THEN order.trans [rotated]])

lemma days_in_month_max: "1 \<le> m \<Longrightarrow> m \<le> 12 \<Longrightarrow> days_in_month y m \<le> 31"
  using month_lengths_bounds [of "nat (m - 1)" "leap y"] by (simp add: days_in_month_def)

lemma mk_date_Some: "mk_date y m d = Some t \<longleftrightarrow> t = \<lparr>dyear = y, dmonth = m, dday = d\<rparr> \<and> valid_ymd t"
  by (auto simp: mk_date_def Let_def)

lemma month_end_correct:
  assumes "1 \<le> y" "y \<le> 9999" "1 \<le> m" "m \<le> 12"
  shows "month_end y m = Some \<lparr>dyear = y, dmonth = m, dday = days_in_month y m\<rparr>"
proof (cases "m = 12")
  case True
  then show ?thesis
    using assms by (simp add: month_end_def mk_date_def valid_ymd_def days_in_month_def month_lengths_def)
next
  case False
  let ?last = "\<lparr>dyear = y, dmonth = m, dday = days_in_month y m\<rparr>"
    and ?next = "\<lparr>dyear = y, dmonth = m + 1, dday = 1\<rparr>"
  have last: "valid_ymd ?last"
    using assms days_in_month_pos [of m y] by (simp add: valid_ymd_def)
  have "valid_ymd ?next"
    using assms False days_in_month_pos [of "m + 1" y] by (simp add: valid_ymd_def)
  then have next_month: "mk_date y (m + 1) 1 = Some ?next" by (simp add: mk_date_Some)
  have ord: "ord_of ?next + (- 1) = ord_of ?last"
    using assms False by (simp add: ord_of_def days_before_month_Suc)
  have "date_add ?next (- 1) = Some ?last"
    unfolding date_add_Some ord using valid_ymd_ord_range [OF last] of_ord_of [OF last] by simp
  then show ?thesis using False next_month by (simp add: month_end_def)
qed

lemma shift_Inr: "shift d k = Inr e \<longleftrightarrow> date_add d k = Some e"
  by (simp add: shift_def split: option.splits)

lemma date_add_Some_facts: "date_add d k = Some e \<Longrightarrow> valid_ymd e \<and> ord_of e = ord_of d + k"
  using date_add_SomeD by blast

lemma weekday_range: "0 \<le> weekday d" "weekday d \<le> 6"
  by (simp_all add: weekday_def zmod_le_nonneg_dividend pos_mod_bound [THEN zless_imp_add1_zle] )

lemma monday_of: "(n - (n + 6) mod 7 + 6) mod 7 = (0 :: int)"
  by presburger

lemma normalize_keywords [simp]:
  "normalize_period ''today'' = ''today''"
  "normalize_period ''this-week'' = ''this-week''" "normalize_period ''last-week'' = ''last-week''"
  "normalize_period ''this-month'' = ''this-month''" "normalize_period ''last-month'' = ''last-month''"
  by (simp_all add: normalize_period_def py_strip_def py_rstrip_def py_lstrip_def py_lower_def
      py_lower_char_def gap_char_def py_isspace_def cp_def is_AZ_def between_def)

lemma this_week_Inr:
  assumes "this_week today = Inr (start, end, label)"
  shows "valid_ymd start" "valid_ymd end" "weekday start = 0" "ord_of start = ord_of today - weekday today"
    "ord_of end = ord_of start + 6"
  using assms
  by (auto simp: this_week_def res_simps shift_Inr weekday_def monday_of dest!: date_add_Some_facts)

lemma last_week_Inr:
  assumes "last_week today = Inr (start, end, label)"
  shows "valid_ymd start" "valid_ymd end" "ord_of start = ord_of today - weekday today - 7"
    "ord_of end = ord_of start + 6"
  using assms by (auto simp: last_week_def res_simps shift_Inr dest!: date_add_Some_facts)

lemma month_Inr:
  assumes "valid_ymd today"
  shows "this_month today =
    Inr (today\<lparr>dday := 1\<rparr>, today\<lparr>dday := days_in_month (dyear today) (dmonth today)\<rparr>, strftime_month today)"
  using assms month_end_correct [of "dyear today" "dmonth today"]
  by (cases today) (auto simp: this_month_def Let_def valid_ymd_def)

lemma last_month_Inr:
  assumes "valid_ymd today" and "last_month today = Inr (start, end, label)"
  shows "valid_ymd start" "valid_ymd end" "start = end\<lparr>dday := 1\<rparr>" "ord_of end + 1 = ord_of (today\<lparr>dday := 1\<rparr>)"
  using assms
  by (auto simp: last_month_def res_simps shift_Inr Let_def dest!: date_add_Some_facts intro: valid_first)

text \<open>
  The relative weeks are whole ISO weeks around the given day: \<open>this-week\<close> starts
  on a Monday, ends on the Sunday six days later and contains today; \<open>last-week\<close> is the seven
  days right before it.
\<close>

lemma week_periods_tile:
  assumes "valid_ymd today"
    and "period_range ''this-week'' today = Inr (start, end, label)"
    and "period_range ''last-week'' today = Inr (start', end', label')"
  shows "valid_ymd start \<and> valid_ymd end \<and> weekday start = 0 \<and> weekday end = 6 \<and>
    ord_of start \<le> ord_of today \<and> ord_of today \<le> ord_of end \<and> ord_of end = ord_of start + 6 \<and>
    valid_ymd start' \<and> valid_ymd end' \<and> weekday start' = 0 \<and>
    ord_of start' = ord_of start - 7 \<and> ord_of end' + 1 = ord_of start"
proof -
  have tw: "this_week today = Inr (start, end, label)" using assms(2) by (simp add: period_range_def)
  have lw: "last_week today = Inr (start', end', label')" using assms(3) by (simp add: period_range_def)
  note facts = this_week_Inr [OF tw] last_week_Inr [OF lw] weekday_range [of today]
  have "weekday end = 6" "weekday start' = 0"
    using facts by (simp_all add: weekday_def) presburger+
  with facts show ?thesis by simp
qed

lemma week_periods_tile_witness:
  "\<exists>start. period_range ''this-week'' \<lparr>dyear = 2026, dmonth = 6, dday = 11\<rparr> = Inr start \<and>
     weekday (fst start) = 0"
proof -
  let ?today = "\<lparr>dyear = 2026, dmonth = 6, dday = 11\<rparr>"
  have valid: "valid_ymd ?today" by code_simp
  have "this_week ?today = Inr (\<lparr>dyear = 2026, dmonth = 6, dday = 8\<rparr>, \<lparr>dyear = 2026, dmonth = 6, dday = 14\<rparr>,
      week_label 24 2026)" by code_simp
  then have tw: "period_range ''this-week'' ?today =
      Inr (\<lparr>dyear = 2026, dmonth = 6, dday = 8\<rparr>, \<lparr>dyear = 2026, dmonth = 6, dday = 14\<rparr>, week_label 24 2026)"
    by (simp add: period_range_def)
  have "last_week ?today = Inr (\<lparr>dyear = 2026, dmonth = 6, dday = 1\<rparr>, \<lparr>dyear = 2026, dmonth = 6, dday = 7\<rparr>,
      week_label 23 2026)" by code_simp
  then have lw: "period_range ''last-week'' ?today =
      Inr (\<lparr>dyear = 2026, dmonth = 6, dday = 1\<rparr>, \<lparr>dyear = 2026, dmonth = 6, dday = 7\<rparr>, week_label 23 2026)"
    by (simp add: period_range_def)
  from week_periods_tile [OF valid tw lw] tw show ?thesis by auto
qed

lemma period_range_bounds:
  assumes "valid_ymd today" and "period_range p today = Inr (start, end, label)"
  shows "valid_ymd start \<and> valid_ymd end \<and> ord_of start \<le> ord_of end \<and> ord_of end - ord_of start \<le> 365"
proof -
  have week: ?thesis if "week_form q = Some (start, end, label)" for q
    using that fromisocalendar_Some(1) date_add_SomeD
    by (fastforce simp: week_form_def split: list.splits if_splits option.splits)
  have year: ?thesis if "year_form q = Some (start, end, label)" for q
  proof -
    from that obtain y where "mk_date y 1 1 = Some start" "mk_date y 12 31 = Some end"
      by (auto simp: year_form_def split: if_splits option.splits)
    then show ?thesis
      by (auto simp: mk_date_Some ord_of_def days_before_month_def month_lengths_def)
  qed
  have month: ?thesis if "month_form q = Some (start, end, label)" for q
  proof -
    from that obtain y m where s: "mk_date y m 1 = Some start" and e: "month_end y m = Some end"
      by (auto simp: month_form_def split: if_splits option.splits)
    then have "1 \<le> y" "y \<le> 9999" "1 \<le> m" "m \<le> 12" by (auto simp: mk_date_Some valid_ymd_def)
    then show ?thesis
      using s e month_end_correct [of y m] days_in_month_pos [of m y] days_in_month_max [of m y]
      by (auto simp: mk_date_Some ord_of_def valid_ymd_def)
  qed
  have m: ?thesis if "this_month today = Inr (start, end, label)"
    using that month_Inr [OF assms(1)] assms(1) days_in_month_pos [of "dmonth today" "dyear today"]
      days_in_month_max [of "dmonth today" "dyear today"]
    by (auto simp: ord_of_def valid_ymd_def)
  have lm: ?thesis if "last_month today = Inr (start, end, label)"
    using last_month_Inr [OF assms(1) that] days_in_month_max [of "dmonth end" "dyear end"]
    by (auto simp: ord_of_def valid_ymd_def)
  show ?thesis
    using assms week year month m lm this_week_Inr [of today start "end" label] last_week_Inr [of today start "end" label]
    by (auto simp: period_range_def Let_def split: if_splits option.splits)
qed

lemma resolve_period_Inr:
  assumes "valid_ymd today" and "resolve_period p today = Inr (date_from, date_to, label)"
  obtains start "end" where "period_range p today = Inr (start, end, label)" "date_from = isoformat start" "date_to = isoformat end"
    "valid_ymd start" "valid_ymd end" "ord_of start \<le> ord_of end" "ord_of end - ord_of start \<le> 365"
  using assms period_range_bounds [OF assms(1)] by (auto simp: resolve_period_def res_simps)

text \<open>
  Whatever the text and the day, a resolved period is a pair of ISO texts of
  representable dates in order, at most 366 days long.
\<close>

theorem period_range_sound:
  assumes "valid_ymd today" and "resolve_period p today = Inr (date_from, date_to, label)"
  shows "\<exists>start end. date_fromisoformat date_from = Some start \<and> date_fromisoformat date_to = Some end \<and>
    ord_of start \<le> ord_of end \<and> ord_of end - ord_of start \<le> 365"
proof -
  obtain start "end" where "date_from = isoformat start" "date_to = isoformat end" "valid_ymd start" "valid_ymd end"
    "ord_of start \<le> ord_of end" "ord_of end - ord_of start \<le> 365"
    using assms by (rule resolve_period_Inr)
  then show ?thesis by (auto simp: date_fromisoformat_isoformat)
qed

theorem period_range_sound_witness:
  "\<exists>date_from date_to label start end. resolve_period ''last-month'' \<lparr>dyear = 2026, dmonth = 1, dday = 31\<rparr> = Inr (date_from, date_to, label) \<and>
     date_fromisoformat date_from = Some start \<and> date_fromisoformat date_to = Some end \<and> ord_of end - ord_of start \<le> 365"
proof -
  have valid: "valid_ymd \<lparr>dyear = 2026, dmonth = 1, dday = 31\<rparr>" by code_simp
  have "last_month \<lparr>dyear = 2026, dmonth = 1, dday = 31\<rparr> = Inr (\<lparr>dyear = 2025, dmonth = 12, dday = 1\<rparr>,
      \<lparr>dyear = 2025, dmonth = 12, dday = 31\<rparr>, strftime_month \<lparr>dyear = 2025, dmonth = 12, dday = 1\<rparr>)"
    by code_simp
  then obtain r where "resolve_period ''last-month'' \<lparr>dyear = 2026, dmonth = 1, dday = 31\<rparr> = Inr r"
    by (simp add: resolve_period_def period_range_def)
  moreover obtain f t l where "r = (f, t, l)" by (cases r)
  ultimately have run: "resolve_period ''last-month'' \<lparr>dyear = 2026, dmonth = 1, dday = 31\<rparr> = Inr (f, t, l)" by simp
  from period_range_sound [OF valid run] run show ?thesis by blast
qed

section \<open>Week numbers\<close>

lemma digit_not_gap: "is_digit c \<Longrightarrow> \<not> gap_char c \<and> py_lower_char c = c \<and> c \<noteq> CHR ''-''"
  by (auto simp: gap_char_def digit_not_space is_digit_def between_def cp_def py_lower_char_def is_AZ_def)

lemma sub_gaps_id: "list_all (\<lambda>c. \<not> gap_char c) s \<Longrightarrow> sub_gaps False s = s"
  by (induction s) auto

lemma split_dash_w_digits:
  assumes "list_all is_digit y" "list_all is_digit w"
  shows "split_dash_w acc (y @ ''-w'' @ w) = [acc @ y, w]"
proof -
  have tail: "split_dash_w acc w = [acc @ w]" for acc
    using assms(2)
  proof (induction acc w rule: split_dash_w.induct)
    case (1 acc c d cs)
    then show ?case using digit_not_gap [of c] by simp
  qed simp_all
  show ?thesis
    using assms(1)
  proof (induction y arbitrary: acc)
    case Nil
    then show ?case using tail [of "[]"] by simp
  next
    case (Cons c cs)
    then have "c \<noteq> CHR ''-''" using digit_not_gap [of c] by simp
    then show ?case using Cons by (cases cs) simp_all
  qed
qed

lemma normalize_week_text:
  assumes "y \<noteq> []" "list_all is_digit y" "w \<noteq> []" "list_all is_digit w"
  shows "normalize_period (y @ ''-W'' @ w) = y @ ''-w'' @ w"
proof -
  have "\<not> py_isspace (hd y)" "\<not> py_isspace (last w)"
    using assms digit_not_space by (auto simp: list_all_iff)
  then have "py_strip py_isspace (y @ ''-W'' @ w) = y @ ''-W'' @ w"
    using assms by (intro py_strip_id) simp
  moreover have "map py_lower_char y = y" "map py_lower_char w = w"
    using assms digit_not_gap by (auto simp: list_all_iff intro!: map_idI)
  moreover have "list_all (\<lambda>c. \<not> gap_char c) (y @ ''-w'' @ w)"
    using assms digit_not_gap
    by (auto simp: list_all_iff gap_char_def py_isspace_def cp_def)
  moreover have "py_lower_char (CHR ''W'') = CHR ''w''" "py_lower_char (CHR ''-'') = CHR ''-''" by code_simp+
  ultimately show ?thesis
    using sub_gaps_id by (simp add: normalize_period_def py_lower_def)
qed

text \<open>
  The ISO-week text resolves to exactly that ISO week: for a week the calendar has
  and whose Sunday is representable, \<open>YYYY-WNN\<close> gives its Monday and Sunday, and
  \<open>isocalendar\<close> reads the same year and week back from both.
\<close>

lemma iso_week_text_roundtrip:
  assumes "fromisocalendar y w 1 = Some monday" and "date_add monday 6 = Some sunday"
  shows "period_range (dec_nat (nat y) @ ''-W'' @ dec_nat (nat w)) today =
      Inr (monday, sunday, week_label w y) \<and>
    isocalendar monday = (y, w, 1) \<and> isocalendar sunday = (y, w, 7)"
proof -
  let ?y = "dec_nat (nat y)" and ?w = "dec_nat (nat w)"
  have digits: "?y \<noteq> []" "list_all is_digit ?y" "?w \<noteq> []" "list_all is_digit ?w"
    using dec_nat_digits by auto
  have pos: "1 \<le> y" "1 \<le> w" using assms(1) by (auto simp: fromisocalendar_def Let_def split: if_splits)
  have norm: "normalize_period (?y @ ''-W'' @ ?w) = ?y @ ''-w'' @ ?w"
    by (rule normalize_week_text [OF digits])
  have first: "is_digit (hd (?y @ ''-w'' @ ?w))" using digits by (cases ?y) auto
  have kw: "?y @ ''-w'' @ ?w \<noteq> k" if "\<not> is_digit (hd k)" for k using that first by metis
  have isdigit: "py_isdigit ?w"
    using digits by (auto simp: py_isdigit_def py_isdigit_char_def list_all_iff)
  have "year_form (?y @ ''-w'' @ ?w) = None"
    by (simp add: year_form_def py_isdigit_def py_isdigit_char_def is_digit_def between_def cp_def)
  moreover have "month_form (?y @ ''-w'' @ ?w) = None"
  proof (cases "(?y @ ''-w'' @ ?w) ! 4 = CHR ''-'' \<and> length (?y @ ''-w'' @ ?w) = 7")
    case True
    have "length ?y = 4"
    proof (rule ccontr)
      assume "length ?y \<noteq> 4"
      then consider "4 < length ?y" | "length ?y = 3" | "length ?y < 3" by linarith
      then show False
      proof cases
        case 1
        then have "is_digit (?y ! 4)" using digits by (simp add: list_all_length)
        with 1 True show False using digit_not_gap by (auto simp: nth_append)
      next
        case 2
        with True show False by (simp add: nth_append)
      next
        case 3
        then have "(?y @ ''-w'' @ ?w) ! 4 = ?w ! (2 - length ?y)" "2 - length ?y < length ?w"
          using True by (auto simp: nth_append less_Suc_eq numeral_eq_Suc)
        then show False using True digits digit_not_gap by (auto simp: list_all_length)
      qed
    qed
    then have "drop 5 (?y @ ''-w'' @ ?w) = CHR ''w'' # ?w" by simp
    then show ?thesis
      by (simp add: month_form_def py_isdigit_def py_isdigit_char_def is_digit_def between_def cp_def)
  next
    case False
    then show ?thesis by (auto simp: month_form_def)
  qed
  moreover have "week_form (?y @ ''-w'' @ ?w) = Some (monday, sunday, week_label w y)"
    using assms pos digits isdigit split_dash_w_digits [of ?y ?w "[]"]
    by (simp add: week_form_def py_int_dec_nat)
  ultimately have "period_range (?y @ ''-W'' @ ?w) today = Inr (monday, sunday, week_label w y)"
    unfolding period_range_def Let_def norm
    using kw [of "''today''"] kw [of "''this-week''"] kw [of "''last-week''"] kw [of "''this-month''"]
      kw [of "''last-month''"] by (simp add: is_digit_def between_def cp_def)
  moreover have "isocalendar sunday = (y, w, 7)"
  proof -
    have "fromisocalendar y w 7 = Some sunday"
      using assms of_ord_correct(1)
      by (auto simp: fromisocalendar_def Let_def date_add_Some split: if_splits)
    then show ?thesis by (rule isocalendar_fromisocalendar)
  qed
  ultimately show ?thesis using isocalendar_fromisocalendar [OF assms(1)] by simp
qed

lemma iso_week_text_roundtrip_witness:
  "isocalendar \<lparr>dyear = 2020, dmonth = 12, dday = 28\<rparr> = (2020, 53, 1)"
proof -
  have "fromisocalendar 2020 53 1 = Some \<lparr>dyear = 2020, dmonth = 12, dday = 28\<rparr>"
    and "date_add \<lparr>dyear = 2020, dmonth = 12, dday = 28\<rparr> 6 = Some \<lparr>dyear = 2021, dmonth = 1, dday = 3\<rparr>"
    by code_simp+
  from iso_week_text_roundtrip [OF this] show ?thesis by simp
qed

section \<open>Observations\<close>

text \<open>
  The label of \<open>this-week\<close> pairs the ISO week number with the calendar year: on 30 December 2024,
  in the first week of ISO year 2025, it reads "Week 1, 2024", which is the label of another
  week.  \<open>last-week\<close> takes the calendar year of the Monday and is wrong in the same weeks.
\<close>

lemma week_label_of_wrong_year:
  "this_week \<lparr>dyear = 2024, dmonth = 12, dday = 30\<rparr> =
     Inr (\<lparr>dyear = 2024, dmonth = 12, dday = 30\<rparr>, \<lparr>dyear = 2025, dmonth = 1, dday = 5\<rparr>, week_label 1 2024)"
proof -
  have "isocalendar \<lparr>dyear = 2024, dmonth = 12, dday = 30\<rparr> = (2025, 1, 1)" by code_simp
  moreover have "shift \<lparr>dyear = 2024, dmonth = 12, dday = 30\<rparr> (- weekday \<lparr>dyear = 2024, dmonth = 12, dday = 30\<rparr>) =
      Inr \<lparr>dyear = 2024, dmonth = 12, dday = 30\<rparr>" by code_simp
  moreover have "shift \<lparr>dyear = 2024, dmonth = 12, dday = 30\<rparr> 6 = Inr \<lparr>dyear = 2025, dmonth = 1, dday = 5\<rparr>" by code_simp
  ultimately show ?thesis by (simp only: this_week_def rbind.simps fst_conv snd_conv ymd.simps)
qed

text \<open>
  At the end of the calendar \<open>this-week\<close> raises \<open>OverflowError\<close>, not the documented
  \<open>ValueError\<close>.
\<close>

lemma this_week_overflows:
  "this_week \<lparr>dyear = 9999, dmonth = 12, dday = 31\<rparr> = Inl PeriodOverflowError"
proof -
  have "shift \<lparr>dyear = 9999, dmonth = 12, dday = 31\<rparr> (- weekday \<lparr>dyear = 9999, dmonth = 12, dday = 31\<rparr>) =
      Inr \<lparr>dyear = 9999, dmonth = 12, dday = 27\<rparr>" by code_simp
  moreover have "shift \<lparr>dyear = 9999, dmonth = 12, dday = 27\<rparr> 6 = Inl PeriodOverflowError" by code_simp
  ultimately show ?thesis by (simp only: this_week_def rbind.simps)
qed

end
