(* ===== verification/Timeline.thy ===== *)
theory Timeline
  imports Replies Period "HOL-Library.Char_ord" "HOL-Library.List_Lexorder"
begin

text \<open>
  Browsing by date: \<open>get_timeline_counts\<close>, \<open>get_by_date_range\<close> and \<open>get_stats\<close> of
  \<open>gubbi/storage/repositories/entries.py\<close>, the dashboard aggregate of \<open>stats.py\<close> and the probes of
  \<open>setup_signals.py\<close> beside it, the tool \<open>journal_timeline\<close> and the web routes of
  \<open>gubbi/api/v1/web/timeline.py\<close> and \<open>stats.py\<close>.

  Texts are ordered by their characters, as the buckets (digits and hyphens) are in the database.
\<close>

section \<open>Rows of a date range\<close>

text \<open>A row of the UNION of entries that belong to no conversation and of conversations.\<close>

record doc_row =
  dr_id :: int
  dr_type :: string
  dr_date :: ymd
  dr_content :: "sealed option"
  dr_title :: "sealed option"
  dr_summary :: "sealed option"
  dr_tags :: "ptext list"
  dr_topic :: string
  dr_topic_title :: string
  dr_conv :: "int option"

definition conv_date :: "conv_row \<Rightarrow> ymd" where
  "conv_date c = ts_date (cv_created c)"

definition under :: "string option \<Rightarrow> topic_row \<Rightarrow> bool" where
  "under pattern t = (case pattern of None \<Rightarrow> True | Some p \<Rightarrow> sql_like p (tp_path t))"

definition entry_doc :: "session \<Rightarrow> string option \<Rightarrow> jdb \<Rightarrow> entry_row \<Rightarrow> doc_row option" where
  "entry_doc s pattern db e =
     (case topic_by_id s (en_topic e) db of
        None \<Rightarrow> None
      | Some t \<Rightarrow> if under pattern t
          then Some \<lparr>dr_id = en_id e, dr_type = ''entry'', dr_date = en_date e, dr_content = Some (en_content e), dr_title = None,
                 dr_summary = None, dr_tags = en_tags e, dr_topic = tp_path t, dr_topic_title = tp_title t, dr_conv = None\<rparr>
          else None)"

definition entry_docs :: "session \<Rightarrow> ymd \<Rightarrow> ymd \<Rightarrow> string option \<Rightarrow> jdb \<Rightarrow> doc_row list" where
  "entry_docs s lo hi pattern db =
     List.map_filter (entry_doc s pattern db)
       (sql_select (\<lambda>e. vis s (en_user e) \<and> in_range (Some lo) (Some hi) (en_date e) \<and> en_deleted e = None \<and> en_conv e = None)
         (entries db))"

definition conv_doc :: "session \<Rightarrow> string option \<Rightarrow> jdb \<Rightarrow> conv_row \<Rightarrow> doc_row option" where
  "conv_doc s pattern db c =
     (case topic_by_id s (cv_topic c) db of
        None \<Rightarrow> None
      | Some t \<Rightarrow> if under pattern t
          then Some \<lparr>dr_id = cv_id c, dr_type = ''conversation'', dr_date = conv_date c, dr_content = None, dr_title = Some (cv_title c),
                 dr_summary = Some (cv_summary c), dr_tags = cv_tags c, dr_topic = tp_path t, dr_topic_title = tp_title t, dr_conv = Some (cv_id c)\<rparr>
          else None)"

definition conv_docs :: "session \<Rightarrow> ymd \<Rightarrow> ymd \<Rightarrow> string option \<Rightarrow> jdb \<Rightarrow> doc_row list" where
  "conv_docs s lo hi pattern db =
     List.map_filter (conv_doc s pattern db)
       (sql_select (\<lambda>c. vis s (cv_user c) \<and> in_range (Some lo) (Some hi) (conv_date c)) (convs db))"

definition date_order :: "bool \<Rightarrow> doc_row list \<Rightarrow> doc_row list" where
  "date_order ascending ds =
     (if ascending then sort_key (\<lambda>d. (ord_of (dr_date d), dr_type d, dr_id d)) ds
      else sort_key (\<lambda>d. (- ord_of (dr_date d), dr_type d, - dr_id d)) ds)"

record timeline_row =
  tl_entry :: "int option"
  tl_conv :: "int option"
  tl_type :: string
  tl_topic :: string
  tl_topic_title :: "string option"
  tl_title :: ptext
  tl_description :: "ptext option"
  tl_updated :: string
  tl_tags :: "ptext list"

definition build_entry_title :: "doc_row \<Rightarrow> string" where
  "build_entry_title r =
     (let topic_title = dr_topic_title r; date_str = isoformat (dr_date r) in
      if topic_title \<noteq> [] \<and> date_str \<noteq> [] then topic_title @ '' ('' @ date_str @ '')''
      else if topic_title \<noteq> [] then topic_title else date_str)"

definition decrypt_conv_title_or_none :: "aead \<Rightarrow> content_cipher option \<Rightarrow> doc_row \<Rightarrow> ptext" where
  "decrypt_conv_title_or_none a oc r =
     (case oc of
        None \<Rightarrow> text_of (dr_topic_title r)
      | Some c \<Rightarrow> (case open_column a c (dr_title r) of
            Inl e \<Rightarrow> text_of (dr_topic_title r)
          | Inr None \<Rightarrow> []
          | Inr (Some title) \<Rightarrow> title))"

definition to_title_only_row :: "aead \<Rightarrow> content_cipher option \<Rightarrow> doc_row \<Rightarrow> timeline_row" where
  "to_title_only_row a oc r =
     (if dr_type r = ''entry''
      then \<lparr>tl_entry = Some (dr_id r), tl_conv = None, tl_type = ''entry'', tl_topic = dr_topic r, tl_topic_title = Some (dr_topic_title r),
            tl_title = text_of (build_entry_title r), tl_description = None, tl_updated = isoformat (dr_date r), tl_tags = dr_tags r\<rparr>
      else \<lparr>tl_entry = None, tl_conv = dr_conv r, tl_type = ''conversation'', tl_topic = dr_topic r, tl_topic_title = Some (dr_topic_title r),
            tl_title = decrypt_conv_title_or_none a oc r, tl_description = None, tl_updated = isoformat (dr_date r), tl_tags = dr_tags r\<rparr>)"

definition SNIPPET_PREVIEW_LEN :: nat where "SNIPPET_PREVIEW_LEN = 200"

definition to_full_row :: "aead \<Rightarrow> content_cipher \<Rightarrow> doc_row \<Rightarrow> jerror + timeline_row" where
  "to_full_row a c r =
     (if dr_type r = ''entry''
      then rbind (open_column a c (dr_content r)) (\<lambda>decrypted. rmap (\<lambda>content.
        (let title_text = take 80 (takeWhile (\<lambda>ch. ch \<noteq> 10) content) in
         \<lparr>tl_entry = Some (dr_id r), tl_conv = None, tl_type = ''entry'', tl_topic = dr_topic r, tl_topic_title = None,
          tl_title = (if title_text \<noteq> [] then title_text else text_of (dr_topic_title r)),
          tl_description = Some (take SNIPPET_PREVIEW_LEN content), tl_updated = isoformat (dr_date r), tl_tags = dr_tags r\<rparr>))
        (not_null decrypted))
      else rbind (open_column a c (dr_title r)) (\<lambda>title. rbind (open_column a c (dr_summary r)) (\<lambda>summary.
        rbind (not_null title) (\<lambda>t. rmap (\<lambda>u.
         \<lparr>tl_entry = None, tl_conv = dr_conv r, tl_type = ''conversation'', tl_topic = dr_topic r, tl_topic_title = None,
          tl_title = t, tl_description = Some (take SNIPPET_PREVIEW_LEN u), tl_updated = isoformat (dr_date r), tl_tags = dr_tags r\<rparr>)
        (not_null summary)))))"

text \<open>Here a missing cipher is found only after the query.\<close>

definition get_by_date_range ::
  "session \<Rightarrow> aead \<Rightarrow> content_cipher option \<Rightarrow> string \<Rightarrow> string \<Rightarrow> int option \<Rightarrow> bool \<Rightarrow> int \<Rightarrow> bool \<Rightarrow> string option \<Rightarrow> jdb \<Rightarrow>
   jerror + timeline_row list" where
  "get_by_date_range s a oc date_from date_to limit ascending offset title_only topic_prefix db =
     rbind (prefix_pattern topic_prefix) (\<lambda>pattern.
     rbind (parse_date date_from) (\<lambda>lo.
     rbind (parse_date date_to) (\<lambda>hi.
     rbind (pg_page limit offset (date_order ascending (entry_docs s lo hi pattern db @ conv_docs s lo hi pattern db))) (\<lambda>rows.
       if title_only then Inr (map (to_title_only_row a oc) rows)
       else case oc of
         None \<Rightarrow> Inl JRuntimeError
       | Some c \<Rightarrow> rmap_list (to_full_row a c) rows))))"

section \<open>Counts by day and month\<close>

text \<open>\<open>to_char(date, 'YYYY-MM')\<close> and \<open>date::text\<close>.\<close>

definition month_text :: "ymd \<Rightarrow> string" where
  "month_text d = zero_pad 4 (dec_int (dyear d)) @ ''-'' @ zero_pad 2 (dec_int (dmonth d))"

definition timeline_bucket_expr :: "string \<Rightarrow> jerror + (ymd \<Rightarrow> string)" where
  "timeline_bucket_expr bucket =
     (if bucket = ''month'' then Inr month_text
      else if bucket = ''day'' then Inr isoformat
      else Inl (JValueError ''Invalid bucket''))"

record bucket_row =
  bk_bucket :: string
  bk_entries :: nat
  bk_convs :: nat

definition get_timeline_counts :: "session \<Rightarrow> string \<Rightarrow> string \<Rightarrow> string \<Rightarrow> string option \<Rightarrow> jdb \<Rightarrow> jerror + bucket_row list" where
  "get_timeline_counts s date_from date_to bucket topic_prefix db =
     rbind (parse_date date_from) (\<lambda>lo.
     rbind (parse_date date_to) (\<lambda>hi.
     rbind (prefix_pattern topic_prefix) (\<lambda>pattern.
     rmap (\<lambda>key.
       (let counted = (\<lambda>i. case topic_by_id s i db of None \<Rightarrow> False | Some t \<Rightarrow> under pattern t);
            is_entry = map (key \<circ> en_date) (sql_select (\<lambda>e. vis s (en_user e) \<and> counted (en_topic e) \<and>
                in_range (Some lo) (Some hi) (en_date e) \<and> en_deleted e = None \<and> en_conv e = None) (entries db));
            is_conv = map (key \<circ> conv_date) (sql_select (\<lambda>c. vis s (cv_user c) \<and> counted (cv_topic c) \<and>
                in_range (Some lo) (Some hi) (conv_date c)) (convs db))
        in map (\<lambda>b. \<lparr>bk_bucket = b, bk_entries = count_list is_entry b, bk_convs = count_list is_conv b\<rparr>)
             (sort (remdups (is_entry @ is_conv)))))
       (timeline_bucket_expr bucket))))"

section \<open>The surfaces\<close>

definition MAX_TIMELINE_ENTRIES :: int where "MAX_TIMELINE_ENTRIES = 50"

record timeline_page =
  jt_period :: string
  jt_label :: string
  jt_from :: string
  jt_to :: string
  jt_entries :: "timeline_row list"
  jt_count :: nat

text \<open>
  The tool for a user whose local date is \<open>today\<close>; the server has a cipher, and \<open>json_size\<close> is the
  length of an answer's JSON.
\<close>

definition journal_timeline ::
  "session \<Rightarrow> aead \<Rightarrow> content_cipher \<Rightarrow> (timeline_page \<Rightarrow> nat option) \<Rightarrow> ymd \<Rightarrow> string \<Rightarrow> int \<Rightarrow> int \<Rightarrow> jdb \<Rightarrow>
   (period_error + timeline_page tool_reply)" where
  "journal_timeline s a c json_size today period limit offset db =
     (case resolve_period period today of
        Inl (PeriodValueError p) \<Rightarrow> Inr (ToolError (validation_error (''Invalid period '' @ p)))
      | Inl e \<Rightarrow> Inl e
      | Inr (date_from, date_to, label) \<Rightarrow>
          (case get_by_date_range s a (Some c) date_from date_to (Some (max 1 (min limit MAX_TIMELINE_ENTRIES))) True (max 0 offset) True None db of
             Inl e \<Rightarrow> Inr (ToolRaised e)
           | Inr rows \<Rightarrow> Inr (sized json_size (\<lambda>p. DictPayload [(''entries'', Some (length (jt_entries p)))])
               \<lparr>jt_period = period, jt_label = label, jt_from = date_from, jt_to = date_to, jt_entries = rows, jt_count = length rows\<rparr>)))"

definition MAX_TIMELINE_SPAN_DAYS :: int where "MAX_TIMELINE_SPAN_DAYS = 366"

definition parse_range :: "string \<Rightarrow> string \<Rightarrow> string + (ymd \<times> ymd)" where
  "parse_range date_from date_to =
     (case (validate_date date_from, validate_date date_to) of
        (Inr _, Inr _) \<Rightarrow>
          (case (date_fromisoformat date_from, date_fromisoformat date_to) of
             (Some start, Some end) \<Rightarrow>
               if ord_of start > ord_of end then Inl ''date_from must be on or before date_to.''
               else if ord_of end - ord_of start > MAX_TIMELINE_SPAN_DAYS then Inl ''Date range exceeds the 366-day maximum.''
               else Inr (start, end)
           | _ \<Rightarrow> Inl ''ValueError'')
      | _ \<Rightarrow> Inl ''Invalid date'')"

definition parse_prefix :: "string option \<Rightarrow> verror + string option" where
  "parse_prefix topic_prefix = (case non_empty topic_prefix of None \<Rightarrow> Inr None | Some p \<Rightarrow> rmap Some (validate_topic p))"

definition count_rows_to_buckets :: "bucket_row list \<Rightarrow> bucket_row list" where
  "count_rows_to_buckets rows = filter (\<lambda>r. bk_bucket r \<noteq> []) rows"

text \<open>The framework refuses a bucket other than \<open>day\<close> and \<open>month\<close>.\<close>

definition web_timeline :: "session \<Rightarrow> string \<Rightarrow> string \<Rightarrow> string \<Rightarrow> string option \<Rightarrow> jdb \<Rightarrow> bucket_row list http_reply" where
  "web_timeline s date_from date_to bucket topic_prefix db =
     (if bucket \<notin> {''day'', ''month''} then HttpError 422 ''bucket''
      else case parse_range date_from date_to of
        Inl detail \<Rightarrow> HttpError 422 detail
      | Inr (start, end) \<Rightarrow>
          (case parse_prefix topic_prefix of
             Inl e \<Rightarrow> HttpError 422 ''Invalid topic path''
           | Inr prefix \<Rightarrow>
               (case get_timeline_counts s date_from date_to bucket prefix db of
                  Inl e \<Rightarrow> HttpRaised e
                | Inr rows \<Rightarrow> HttpOk (count_rows_to_buckets rows))))"

section \<open>The dashboard\<close>

record journal_stats =
  js_documents :: nat
  js_conversations :: nat
  js_topics :: nat

definition get_stats :: "session \<Rightarrow> jdb \<Rightarrow> journal_stats" where
  "get_stats s db =
     (let entry_count = sql_count (\<lambda>e. vis s (en_user e) \<and> en_deleted e = None) (entries db);
          conv_count = sql_count (\<lambda>c. vis s (cv_user c)) (convs db);
          topic_count = length (remdups (map tp_id (sql_select (\<lambda>t. vis s (tp_user t) \<and>
            list_ex (\<lambda>e. vis s (en_user e) \<and> en_topic e = tp_id t \<and> en_deleted e = None) (entries db)) (topics db))))
      in \<lparr>js_documents = entry_count + conv_count, js_conversations = conv_count, js_topics = topic_count\<rparr>)"

definition MOST_ACTIVE_TOPICS_LIMIT :: nat where "MOST_ACTIVE_TOPICS_LIMIT = 5"
definition ACTIVE_WINDOW_DAYS :: int where "ACTIVE_WINDOW_DAYS = 30"

text \<open>The user's own time zone decides what this week is; the column may be NULL or empty.\<close>

definition read_user_timezone :: "string option \<Rightarrow> string" where
  "read_user_timezone tz = (case non_empty tz of None \<Rightarrow> ''UTC'' | Some t \<Rightarrow> t)"

datatype stats_error = StatsDate date_error | StatsPeriod period_error

definition stats_iso :: "string \<Rightarrow> stats_error + ymd" where
  "stats_iso text = (case date_fromisoformat text of None \<Rightarrow> Inl (StatsDate DateFormat) | Some d \<Rightarrow> Inr d)"

definition user_week_bounds ::
  "(string \<Rightarrow> zone_error + 'tz) \<Rightarrow> ('tz \<Rightarrow> ymd) \<Rightarrow> string \<Rightarrow> stats_error + (ymd \<times> ymd)" where
  "user_week_bounds zone_info today_at timezone =
     (case local_today zone_info today_at timezone of
        Inl e \<Rightarrow> Inl (StatsDate e)
      | Inr text \<Rightarrow> rbind (stats_iso text) (\<lambda>today.
          (case resolve_period ''this-week'' today of
             Inl e \<Rightarrow> Inl (StatsPeriod e)
           | Inr (date_from, date_to, label) \<Rightarrow> rbind (stats_iso date_from) (\<lambda>a. rmap (\<lambda>b. (a, b)) (stats_iso date_to)))))"

definition active_window_start :: "ymd \<Rightarrow> stats_error + ymd" where
  "active_window_start reference =
     (case date_add reference (- (ACTIVE_WINDOW_DAYS - 1)) of None \<Rightarrow> Inl (StatsPeriod PeriodOverflowError) | Some d \<Rightarrow> Inr d)"

definition active_count :: "session \<Rightarrow> ymd \<Rightarrow> jdb \<Rightarrow> topic_row \<Rightarrow> nat" where
  "active_count s start db t =
     sql_count (\<lambda>e. vis s (en_user e) \<and> en_topic e = tp_id t \<and> en_deleted e = None \<and> ord_of start \<le> ord_of (en_date e)) (entries db)"

definition most_active_topics :: "session \<Rightarrow> ymd \<Rightarrow> jdb \<Rightarrow> (string \<times> string \<times> nat) list" where
  "most_active_topics s start db =
     map (\<lambda>t. (tp_path t, tp_title t, active_count s start db t))
       (take MOST_ACTIVE_TOPICS_LIMIT
         (sort_key (\<lambda>t. (- int (active_count s start db t), tp_path t))
           (sql_select (\<lambda>t. vis s (tp_user t) \<and> active_count s start db t \<noteq> 0) (topics db))))"

record dashboard_stats =
  ds_topics :: nat
  ds_entries :: nat
  ds_week :: nat
  ds_conversations :: nat
  ds_last_entry :: "int option"
  ds_active :: "(string \<times> string \<times> nat) list"

definition get_dashboard_stats ::
  "session \<Rightarrow> (string \<Rightarrow> zone_error + 'tz) \<Rightarrow> ('tz \<Rightarrow> ymd) \<Rightarrow> string option \<Rightarrow> jdb \<Rightarrow> stats_error + dashboard_stats" where
  "get_dashboard_stats s zone_info today_at tz db =
     rbind (user_week_bounds zone_info today_at (read_user_timezone tz)) (\<lambda>(week_from, week_to).
     rmap (\<lambda>start.
       (let live = (\<lambda>e. vis s (en_user e) \<and> en_deleted e = None);
            stamps = map en_updated (sql_select live (entries db))
        in \<lparr>ds_topics = sql_count (\<lambda>t. vis s (tp_user t)) (topics db),
            ds_entries = sql_count live (entries db),
            ds_week = sql_count (\<lambda>e. live e \<and> in_range (Some week_from) (Some week_to) (en_date e)) (entries db),
            ds_conversations = sql_count (\<lambda>c. vis s (cv_user c)) (convs db),
            ds_last_entry = (if stamps = [] then None else Some (Max (set stamps))),
            ds_active = most_active_topics s start db\<rparr>))
       (active_window_start week_to))"

definition SYNCED_CONVERSATION_SOURCES :: "string list" where
  "SYNCED_CONVERSATION_SOURCES = [''extension_chatgpt'', ''extension_claude'', ''zip_upload'']"

definition get_setup_signals :: "session \<Rightarrow> jdb \<Rightarrow> bool \<times> bool" where
  "get_setup_signals s db =
     (list_ex (\<lambda>e. vis s (en_user e) \<and> en_deleted e = None) (entries db),
      list_ex (\<lambda>c. vis s (cv_user c) \<and> (cv_platform_id c \<noteq> None \<or> cv_source c \<in> set SYNCED_CONVERSATION_SOURCES)) (convs db))"

section \<open>Counts and rows agree\<close>

text \<open>A date column holds dates of the years 1 to 9999.\<close>

definition dates_ok :: "jdb \<Rightarrow> bool" where
  "dates_ok db = ((\<forall>e \<in> set (entries db). valid_ymd (en_date e)) \<and> (\<forall>c \<in> set (convs db). valid_ymd (conv_date c)))"

definition docs :: "session \<Rightarrow> ymd \<Rightarrow> ymd \<Rightarrow> string option \<Rightarrow> jdb \<Rightarrow> doc_row list" where
  "docs s lo hi pattern db = entry_docs s lo hi pattern db @ conv_docs s lo hi pattern db"

lemma set_map_filter: "x \<in> set (List.map_filter f xs) \<longleftrightarrow> (\<exists>y \<in> set xs. f y = Some x)"
  by (force simp: map_filter_def)

lemma map_map_filter:
  assumes "\<And>x d. g x = Some d \<Longrightarrow> f d = f' x"
  shows "map f (List.map_filter g (filter P xs)) = map f' (filter (\<lambda>x. P x \<and> g x \<noteq> None) xs)"
  using assms by (induction xs) (auto split: option.split)

lemma entry_doc_date: "entry_doc s pattern db e = Some d \<Longrightarrow> dr_date d = en_date e \<and> dr_type d = ''entry'' \<and> dr_id d = en_id e"
  by (auto simp: entry_doc_def split: option.splits if_splits)

lemma conv_doc_date: "conv_doc s pattern db c = Some d \<Longrightarrow> dr_date d = conv_date c \<and> dr_type d = ''conversation'' \<and> dr_id d = cv_id c"
  by (auto simp: conv_doc_def split: option.splits if_splits)

lemma entry_buckets:
  "map (key \<circ> en_date) (sql_select (\<lambda>e. vis s (en_user e) \<and> (case topic_by_id s (en_topic e) db of None \<Rightarrow> False | Some t \<Rightarrow> under pattern t) \<and>
     in_range (Some lo) (Some hi) (en_date e) \<and> en_deleted e = None \<and> en_conv e = None) (entries db)) =
   map (key \<circ> dr_date) (entry_docs s lo hi pattern db)"
proof -
  have "entry_doc s pattern db e \<noteq> None \<longleftrightarrow> (case topic_by_id s (en_topic e) db of None \<Rightarrow> False | Some t \<Rightarrow> under pattern t)" for e
    by (simp add: entry_doc_def split: option.split)
  then show ?thesis
    unfolding entry_docs_def sql_select_def
    by (subst map_map_filter [where f' = "key \<circ> en_date"])
       (auto dest: entry_doc_date intro!: arg_cong [where f = "map _"] filter_cong)
qed

lemma conv_buckets:
  "map (key \<circ> conv_date) (sql_select (\<lambda>c. vis s (cv_user c) \<and> (case topic_by_id s (cv_topic c) db of None \<Rightarrow> False | Some t \<Rightarrow> under pattern t) \<and>
     in_range (Some lo) (Some hi) (conv_date c)) (convs db)) =
   map (key \<circ> dr_date) (conv_docs s lo hi pattern db)"
proof -
  have "conv_doc s pattern db c \<noteq> None \<longleftrightarrow> (case topic_by_id s (cv_topic c) db of None \<Rightarrow> False | Some t \<Rightarrow> under pattern t)" for c
    by (simp add: conv_doc_def split: option.split)
  then show ?thesis
    unfolding conv_docs_def sql_select_def
    by (subst map_map_filter [where f' = "key \<circ> conv_date"])
       (auto dest: conv_doc_date intro!: arg_cong [where f = "map _"] filter_cong)
qed

lemma docs_facts:
  assumes "d \<in> set (docs s lo hi pattern db)"
  shows "dr_type d = ''entry'' \<or> dr_type d = ''conversation''" "in_range (Some lo) (Some hi) (dr_date d)"
    "dates_ok db \<Longrightarrow> valid_ymd (dr_date d)"
  using assms
  by (auto simp: docs_def entry_docs_def conv_docs_def set_map_filter sql_simps dates_ok_def dest!: entry_doc_date conv_doc_date)

lemma set_date_order [simp]: "set (date_order asc ds) = set ds"
  by (simp add: date_order_def)

lemma length_filter_date_order: "length (filter P (date_order asc ds)) = length (filter P ds)"
  by (simp add: date_order_def filter_sort)

lemma entry_docs_type: "d \<in> set (entry_docs s lo hi pattern db) \<Longrightarrow> dr_type d = ''entry''"
  by (auto simp: entry_docs_def set_map_filter dest: entry_doc_date)

lemma conv_docs_type: "d \<in> set (conv_docs s lo hi pattern db) \<Longrightarrow> dr_type d = ''conversation''"
  by (auto simp: conv_docs_def set_map_filter dest: conv_doc_date)

lemma month_text_take:
  assumes "valid_ymd d"
  shows "take 7 (isoformat d) = month_text d"
proof -
  have "dmonth d \<le> 12" "0 \<le> dyear d" "nat (dyear d) < 10 ^ 4" "0 \<le> dmonth d" "nat (dmonth d) < 10 ^ 2"
    using assms by (auto simp: valid_ymd_def)
  then have "length (zero_pad 4 (dec_int (dyear d))) = 4" "length (zero_pad 2 (dec_int (dmonth d))) = 2"
    using zero_pad_dec(1) [of "nat (dyear d)" 4] zero_pad_dec(1) [of "nat (dmonth d)" 2] by (simp_all add: dec_int_def)
  then show ?thesis by (simp add: isoformat_def month_text_def)
qed

text \<open>The rows of a range without a limit, as the index shows them.\<close>

lemma title_only_rows:
  assumes "prefix_pattern prefix = Inr pattern" and "parse_date df = Inr lo" and "parse_date dt = Inr hi"
  shows "get_by_date_range s a oc df dt None asc 0 True prefix db =
    Inr (map (to_title_only_row a oc) (date_order asc (docs s lo hi pattern db)))"
  using assms by (simp add: get_by_date_range_def pg_page_def docs_def)

lemma title_only_fields [simp]:
  "tl_updated (to_title_only_row a oc d) = isoformat (dr_date d)"
  "tl_type (to_title_only_row a oc d) = (if dr_type d = ''entry'' then ''entry'' else ''conversation'')"
  by (simp_all add: to_title_only_row_def)

lemma get_timeline_counts_Inr:
  assumes "get_timeline_counts s df dt bucket prefix db = Inr bs"
  obtains lo hi pattern key where "parse_date df = Inr lo" "parse_date dt = Inr hi" "prefix_pattern prefix = Inr pattern"
    "timeline_bucket_expr bucket = Inr key"
    "bs = (let es = map (key \<circ> dr_date) (entry_docs s lo hi pattern db); cs = map (key \<circ> dr_date) (conv_docs s lo hi pattern db)
       in map (\<lambda>b. \<lparr>bk_bucket = b, bk_entries = count_list es b, bk_convs = count_list cs b\<rparr>) (sort (remdups (es @ cs))))"
proof -
  from assms obtain lo hi pattern key where
    *: "parse_date df = Inr lo" "parse_date dt = Inr hi" "prefix_pattern prefix = Inr pattern" "timeline_bucket_expr bucket = Inr key"
    unfolding get_timeline_counts_def rbind_eq_Inr rmap_eq_Inr by blast
  show ?thesis
    by (rule that [OF *]) (use assms * in \<open>simp add: get_timeline_counts_def Let_def flip: entry_buckets conv_buckets\<close>)
qed

lemma bucket_text:
  assumes "timeline_bucket_expr bucket = Inr key" and "valid_ymd d"
  shows "key d = (if bucket = ''month'' then take 7 (isoformat d) else isoformat d)"
  using assms by (auto simp: timeline_bucket_expr_def month_text_take split: if_splits)

lemma count_list_map: "count_list (map f xs) b = length (filter (\<lambda>x. f x = b) xs)"
  by (induction xs) auto

lemma sum_counts:
  assumes "distinct bs" and "set xs \<subseteq> set bs"
  shows "sum_list (map (count_list xs) bs) = length xs"
  using assms by (simp add: sum_list_distinct_conv_sum_set sum_count_set)

text \<open>
  Property C36.  The calendar and the index agree.  The bucket counts of a range are the result of
  grouping the rows the index lists for that range and prefix by day or by month: one bucket for
  each day or month that has a row, in increasing order, with as many entries and conversations as
  are listed there; together they count every row once.
\<close>

theorem timeline_counts_agree:
  assumes "dates_ok db" and "get_timeline_counts s df dt bucket prefix db = Inr bs"
  shows "\<exists>rows. get_by_date_range s a oc df dt None asc 0 True prefix db = Inr rows \<and>
    (let cut = (\<lambda>r. if bucket = ''month'' then take 7 (tl_updated r) else tl_updated r) in
     bs = map (\<lambda>b. \<lparr>bk_bucket = b, bk_entries = length (filter (\<lambda>r. tl_type r = ''entry'' \<and> cut r = b) rows),
                    bk_convs = length (filter (\<lambda>r. tl_type r = ''conversation'' \<and> cut r = b) rows)\<rparr>)
            (sort (remdups (map cut rows))) \<and>
     sorted_wrt (<) (map bk_bucket bs) \<and> sum_list (map (\<lambda>b. bk_entries b + bk_convs b) bs) = length rows)"
proof -
  obtain lo hi pattern key where ok: "parse_date df = Inr lo" "parse_date dt = Inr hi" "prefix_pattern prefix = Inr pattern" and key: "timeline_bucket_expr bucket = Inr key"
    and bs: "bs = (let es = map (key \<circ> dr_date) (entry_docs s lo hi pattern db); cs = map (key \<circ> dr_date) (conv_docs s lo hi pattern db)
       in map (\<lambda>b. \<lparr>bk_bucket = b, bk_entries = count_list es b, bk_convs = count_list cs b\<rparr>) (sort (remdups (es @ cs))))"
    using assms(2) by (rule get_timeline_counts_Inr)
  define cut where "cut r = (if bucket = ''month'' then take 7 (tl_updated r) else tl_updated r)" for r :: timeline_row
  define rows where "rows = map (to_title_only_row a oc) (date_order asc (docs s lo hi pattern db))"
  have cut: "cut (to_title_only_row a oc d) = key (dr_date d)" if "d \<in> set (docs s lo hi pattern db)" for d
    using bucket_text [OF key docs_facts(3) [OF that assms(1)]] by (simp add: cut_def)
  have count: "length (filter (\<lambda>r. tl_type r = ty \<and> cut r = b) rows) =
      length (filter (\<lambda>d. (if dr_type d = ''entry'' then ''entry'' else ''conversation'') = ty \<and> key (dr_date d) = b) (docs s lo hi pattern db))" for ty b
  proof -
    have "length (filter (\<lambda>r. tl_type r = ty \<and> cut r = b) rows) =
        length (filter (\<lambda>d. (if dr_type d = ''entry'' then ''entry'' else ''conversation'') = ty \<and> key (dr_date d) = b) (date_order asc (docs s lo hi pattern db)))"
      unfolding rows_def filter_map length_map by (rule arg_cong [where f = length], rule filter_cong [OF refl]) (simp add: cut)
    then show ?thesis by (simp add: length_filter_date_order)
  qed
  have entries: "length (filter (\<lambda>r. tl_type r = ''entry'' \<and> cut r = b) rows) = count_list (map (key \<circ> dr_date) (entry_docs s lo hi pattern db)) b" for b
  proof -
    have "filter (\<lambda>d. (if dr_type d = ''entry'' then ''entry'' else ''conversation'') = ''entry'' \<and> key (dr_date d) = b) (docs s lo hi pattern db) =
        filter (\<lambda>d. key (dr_date d) = b) (entry_docs s lo hi pattern db)"
      unfolding docs_def filter_append using conv_docs_type [of _ s lo hi pattern db] entry_docs_type [of _ s lo hi pattern db]
      by (subst (2) filter_False) (auto intro!: filter_cong)
    then show ?thesis by (simp add: count count_list_map comp_def)
  qed
  have convs: "length (filter (\<lambda>r. tl_type r = ''conversation'' \<and> cut r = b) rows) = count_list (map (key \<circ> dr_date) (conv_docs s lo hi pattern db)) b" for b
  proof -
    have "filter (\<lambda>d. (if dr_type d = ''entry'' then ''entry'' else ''conversation'') = ''conversation'' \<and> key (dr_date d) = b) (docs s lo hi pattern db) =
        filter (\<lambda>d. key (dr_date d) = b) (conv_docs s lo hi pattern db)"
      unfolding docs_def filter_append using entry_docs_type [of _ s lo hi pattern db] conv_docs_type [of _ s lo hi pattern db]
      by (subst (1) filter_False) (auto intro!: filter_cong)
    then show ?thesis by (simp add: count count_list_map comp_def)
  qed
  let ?all = "map (key \<circ> dr_date) (docs s lo hi pattern db)"
  have set_cut: "set (map cut rows) = set ?all" using cut by (auto simp: rows_def image_iff)
  have keys: "sort (remdups (map cut rows)) = sort (remdups ?all)"
    by (rule sorted_distinct_set_unique) (simp_all only: sorted_sort distinct_sort distinct_remdups set_sort set_remdups set_cut)
  have bs': "bs = map (\<lambda>b. \<lparr>bk_bucket = b, bk_entries = length (filter (\<lambda>r. tl_type r = ''entry'' \<and> cut r = b) rows),
                    bk_convs = length (filter (\<lambda>r. tl_type r = ''conversation'' \<and> cut r = b) rows)\<rparr>)
            (sort (remdups (map cut rows)))"
    unfolding bs keys entries convs by (simp add: docs_def Let_def)
  have names: "map bk_bucket bs = sort (remdups ?all)" unfolding bs' keys by (simp add: comp_def)
  have "map (\<lambda>b. bk_entries b + bk_convs b) bs = map (count_list ?all) (sort (remdups ?all))"
    unfolding bs' keys entries convs by (simp add: docs_def comp_def)
  then have "sum_list (map (\<lambda>b. bk_entries b + bk_convs b) bs) = length (docs s lo hi pattern db)"
    using sum_counts [of "sort (remdups ?all)" ?all] by simp
  moreover have "length rows = length (docs s lo hi pattern db)"
    by (simp add: rows_def date_order_def)
  moreover have "sorted_wrt (<) (map bk_bucket bs)" unfolding names strict_sorted_iff by simp
  moreover have "get_by_date_range s a oc df dt None asc 0 True prefix db = Inr rows" unfolding rows_def by (rule title_only_rows [OF ok(3,1,2)])
  ultimately show ?thesis using bs' unfolding cut_def [abs_def] Let_def by (intro exI [of _ rows] conjI) simp_all
qed

lemma sample_dates_ok: "dates_ok sample_jdb"
  by code_simp

abbreviation new_year :: ymd where "new_year \<equiv> \<lparr>dyear = 2026, dmonth = 1, dday = 1\<rparr>"
abbreviation year_end :: ymd where "year_end \<equiv> \<lparr>dyear = 2026, dmonth = 12, dday = 31\<rparr>"

lemma year_valid: "valid_ymd new_year" "valid_ymd year_end"
  by code_simp+

theorem timeline_counts_agree_witness:
  "\<forall>a oc. \<exists>bs rows. get_timeline_counts demo_session (isoformat new_year) (isoformat year_end) ''month'' None sample_jdb = Inr bs \<and>
     get_by_date_range demo_session a oc (isoformat new_year) (isoformat year_end) None True 0 True None sample_jdb = Inr rows \<and>
     sum_list (map (\<lambda>b. bk_entries b + bk_convs b) bs) = length rows"
proof (intro allI)
  fix a :: aead and oc :: "content_cipher option"
  obtain bs where bs: "get_timeline_counts demo_session (isoformat new_year) (isoformat year_end) ''month'' None sample_jdb = Inr bs"
    by (simp add: get_timeline_counts_def parse_date_def date_fromisoformat_isoformat [OF year_valid(1)]
        date_fromisoformat_isoformat [OF year_valid(2)] prefix_pattern_def timeline_bucket_expr_def)
  from timeline_counts_agree [OF sample_dates_ok bs, where a = a and oc = oc and asc = True] bs
  show "\<exists>bs rows. get_timeline_counts demo_session (isoformat new_year) (isoformat year_end) ''month'' None sample_jdb = Inr bs \<and>
     get_by_date_range demo_session a oc (isoformat new_year) (isoformat year_end) None True 0 True None sample_jdb = Inr rows \<and>
     sum_list (map (\<lambda>b. bk_entries b + bk_convs b) bs) = length rows" unfolding Let_def by blast
qed

section \<open>The calendar endpoint\<close>

lemma prefix_validates_again: "validate_topic p = Inr t \<Longrightarrow> validate_topic t = Inr t"
  by (auto simp: validate_topic_Inr)

lemma parsed_prefix: "parse_prefix prefix = Inr q \<Longrightarrow> \<exists>pattern. prefix_pattern q = Inr pattern"
  by (auto simp: parse_prefix_def prefix_pattern_def res_simps lift_Inr dest: prefix_validates_again split: option.splits)

lemma parse_range_Inr:
  assumes "parse_range df dt = Inr (lo, hi)"
  shows "date_fromisoformat df = Some lo" "date_fromisoformat dt = Some hi" "ord_of lo \<le> ord_of hi" "ord_of hi \<le> ord_of lo + 366"
  using assms by (auto simp: parse_range_def MAX_TIMELINE_SPAN_DAYS_def split: sum.splits option.splits if_splits)

lemma bucket_not_Nil: "timeline_bucket_expr bucket = Inr key \<Longrightarrow> key d \<noteq> []"
  by (auto simp: timeline_bucket_expr_def month_text_def isoformat_def split: if_splits)

lemma counts_length:
  assumes "dates_ok db" and "get_timeline_counts s df dt bucket prefix db = Inr bs" and "date_fromisoformat df = Some lo" and "date_fromisoformat dt = Some hi"
  shows "int (length bs) \<le> max 0 (ord_of hi - ord_of lo + 1)" "sorted_wrt (<) (map bk_bucket bs)"
    "list_all (\<lambda>b. 0 < bk_entries b + bk_convs b \<and> bk_bucket b \<noteq> []) bs"
proof -
  obtain lo' hi' pattern key where ok: "parse_date df = Inr lo'" "parse_date dt = Inr hi'" and key: "timeline_bucket_expr bucket = Inr key"
    and bs: "bs = (let es = map (key \<circ> dr_date) (entry_docs s lo' hi' pattern db); cs = map (key \<circ> dr_date) (conv_docs s lo' hi' pattern db)
       in map (\<lambda>b. \<lparr>bk_bucket = b, bk_entries = count_list es b, bk_convs = count_list cs b\<rparr>) (sort (remdups (es @ cs))))"
    using assms(2) by (rule get_timeline_counts_Inr)
  have same: "lo' = lo" "hi' = hi" using ok assms(3,4) by (simp_all add: parse_date_def)
  let ?ds = "docs s lo hi pattern db"
  have names: "map bk_bucket bs = sort (remdups (map (key \<circ> dr_date) ?ds))" unfolding bs same by (simp add: docs_def Let_def comp_def)
  show "sorted_wrt (<) (map bk_bucket bs)" unfolding names strict_sorted_iff by simp
  have "0 < bk_entries b + bk_convs b \<and> bk_bucket b \<noteq> []" if "b \<in> set bs" for b
  proof -
    have "bk_bucket b \<in> set (map bk_bucket bs)" using that by simp
    then have "bk_bucket b \<in> set (map (key \<circ> dr_date) ?ds)" unfolding names by simp
    then obtain d where "bk_bucket b = key (dr_date d)" "d \<in> set ?ds" by auto
    with that bucket_not_Nil [OF key] show ?thesis
      unfolding bs same by (auto simp: Let_def docs_def count_list_0_iff intro!: gr0I)
  qed
  then show "list_all (\<lambda>b. 0 < bk_entries b + bk_convs b \<and> bk_bucket b \<noteq> []) bs" by (simp add: list_all_iff)
  have days: "dr_date ` set ?ds \<subseteq> of_ord ` {ord_of lo..ord_of hi}"
  proof
    fix d assume "d \<in> dr_date ` set ?ds"
    then obtain r where r: "r \<in> set ?ds" "d = dr_date r" by auto
    have "valid_ymd d" "in_range (Some lo) (Some hi) d" using docs_facts(2,3) [OF r(1)] assms(1) r(2) by simp_all
    then show "d \<in> of_ord ` {ord_of lo..ord_of hi}" by (intro image_eqI [of _ _ "ord_of d"]) (simp_all add: of_ord_of in_range_def)
  qed
  have "length bs = card (set (map bk_bucket bs))" using names by (simp add: length_remdups_card_conv flip: length_map [of bk_bucket bs])
  also have "set (map bk_bucket bs) = key ` dr_date ` set ?ds" unfolding names by auto
  also have "card (key ` dr_date ` set ?ds) \<le> card (dr_date ` set ?ds)" by (rule card_image_le) simp
  also have "\<dots> \<le> card (of_ord ` {ord_of lo..ord_of hi})" by (rule card_mono [OF _ days]) simp
  also have "\<dots> \<le> card {ord_of lo..ord_of hi}" by (rule card_image_le) simp
  finally show "int (length bs) \<le> max 0 (ord_of hi - ord_of lo + 1)" by simp
qed

text \<open>
  The calendar endpoint is bounded and total.  It never ends in an exception: an
  answer is either a refusal of the request (422) or, for an ordered range of at most 367 days, the
  buckets of that range: at most 367 of them, in increasing order, none empty.
\<close>

theorem web_timeline_bounded:
  assumes "dates_ok db"
  shows "case web_timeline s df dt bucket prefix db of
      HttpOk bs \<Rightarrow> length bs \<le> 367 \<and> sorted_wrt (<) (map bk_bucket bs) \<and> list_all (\<lambda>b. 0 < bk_entries b + bk_convs b) bs \<and>
        (\<exists>lo hi q. parse_range df dt = Inr (lo, hi) \<and> parse_prefix prefix = Inr q \<and> get_timeline_counts s df dt bucket q db = Inr bs)
    | HttpError code detail \<Rightarrow> code = 422
    | HttpRaised e \<Rightarrow> False"
proof (cases "bucket \<in> {''day'', ''month''}")
  case bucket: True
  show ?thesis
  proof (cases "parse_range df dt")
    case (Inr range)
    obtain lo hi where range: "parse_range df dt = Inr (lo, hi)" using Inr by (cases range) auto
    note r = parse_range_Inr [OF range]
    show ?thesis
    proof (cases "parse_prefix prefix")
      case prefix: (Inr q)
      obtain pattern where "prefix_pattern q = Inr pattern" using parsed_prefix [OF prefix] by blast
      then obtain bs where bs: "get_timeline_counts s df dt bucket q db = Inr bs"
        using r(1,2) bucket by (auto simp: get_timeline_counts_def parse_date_def timeline_bucket_expr_def)
      note facts = counts_length [OF assms bs r(1,2)]
      have "count_rows_to_buckets bs = bs" using facts(3) by (simp add: count_rows_to_buckets_def filter_id_conv list_all_iff)
      then have "web_timeline s df dt bucket prefix db = HttpOk bs" using bucket by (simp add: web_timeline_def range prefix bs)
      with facts r(3,4) range prefix bs show ?thesis by (auto simp: list_all_iff)
    qed (use bucket range in \<open>simp add: web_timeline_def\<close>)
  qed (use bucket in \<open>simp add: web_timeline_def\<close>)
qed (simp add: web_timeline_def)

theorem web_timeline_bounded_witness:
  "\<exists>bs. web_timeline demo_session (isoformat new_year) (isoformat year_end) ''day'' None sample_jdb = HttpOk bs \<and> length bs \<le> 367"
proof -
  have "validate_date (isoformat new_year) = Inr (isoformat new_year)" "validate_date (isoformat year_end) = Inr (isoformat year_end)"
    using year_valid by (auto simp: validate_date_Inr)
  moreover have "ord_of year_end = ord_of new_year + 364" by code_simp
  ultimately have "\<exists>bs. web_timeline demo_session (isoformat new_year) (isoformat year_end) ''day'' None sample_jdb = HttpOk bs"
    by (simp add: web_timeline_def parse_range_def date_fromisoformat_isoformat [OF year_valid(1)] date_fromisoformat_isoformat [OF year_valid(2)]
        MAX_TIMELINE_SPAN_DAYS_def parse_prefix_def non_empty_def get_timeline_counts_def parse_date_def prefix_pattern_def timeline_bucket_expr_def)
  then obtain bs where bs: "web_timeline demo_session (isoformat new_year) (isoformat year_end) ''day'' None sample_jdb = HttpOk bs" ..
  show ?thesis
    using web_timeline_bounded [OF sample_dates_ok, where s = demo_session and df = "isoformat new_year" and dt = "isoformat year_end"
      and bucket = "''day''" and prefix = None] unfolding bs http_reply.case by blast
qed

section \<open>Pages of the index\<close>

lemma entry_doc_Some:
  assumes "jdb_ok db" and "e \<in> set (entries db)" and "vis s (en_user e)"
  shows "\<exists>d. entry_doc s None db e = Some d"
proof -
  have "(en_topic e, en_user e) \<in> topic_keys db" using entry_topic_key [OF assms(1,2)] .
  then obtain t where "t \<in> set (topics db)" "tp_id t = en_topic e" "tp_user t = en_user e" by (auto simp: topic_keys_def)
  with assms(3) have "topic_by_id s (en_topic e) db \<noteq> None" by (auto simp: topic_by_id_def sql_first_None intro!: bexI [of _ t])
  then show ?thesis by (auto simp: entry_doc_def under_def)
qed

lemma conv_doc_Some:
  assumes "jdb_ok db" and "c \<in> set (convs db)" and "vis s (cv_user c)"
  shows "\<exists>d. conv_doc s None db c = Some d"
proof -
  have "(cv_topic c, cv_user c) \<in> topic_keys db" using assms(1,2) by (auto simp: jdb_ok_def convs_ok_def)
  then obtain t where "t \<in> set (topics db)" "tp_id t = cv_topic c" "tp_user t = cv_user c" by (auto simp: topic_keys_def)
  with assms(3) have "topic_by_id s (cv_topic c) db \<noteq> None" by (auto simp: topic_by_id_def sql_first_None intro!: bexI [of _ t])
  then show ?thesis by (auto simp: conv_doc_def under_def)
qed

lemma entry_docs_ids:
  assumes "jdb_ok db"
  shows "map dr_id (entry_docs s lo hi None db) = map en_id (filter (\<lambda>e. vis s (en_user e) \<and> in_range (Some lo) (Some hi) (en_date e) \<and>
    en_deleted e = None \<and> en_conv e = None) (entries db))"
  unfolding entry_docs_def sql_select_def
  by (subst map_map_filter [where f' = en_id]) (auto dest: entry_doc_date entry_doc_Some [OF assms] intro!: arg_cong [where f = "map _"] filter_cong)

lemma conv_docs_ids:
  assumes "jdb_ok db"
  shows "map dr_id (conv_docs s lo hi None db) = map cv_id (filter (\<lambda>c. vis s (cv_user c) \<and> in_range (Some lo) (Some hi) (conv_date c)) (convs db))"
  unfolding conv_docs_def sql_select_def
  by (subst map_map_filter [where f' = cv_id]) (auto dest: conv_doc_date conv_doc_Some [OF assms] intro!: arg_cong [where f = "map _"] filter_cong)

lemma docs_distinct:
  assumes "jdb_ok db"
  shows "distinct (map (\<lambda>d. (dr_type d, dr_id d)) (docs s lo hi None db))"
proof -
  have "distinct (map dr_id (entry_docs s lo hi None db))" "distinct (map dr_id (conv_docs s lo hi None db))"
    unfolding entry_docs_ids [OF assms] conv_docs_ids [OF assms]
    using assms by (auto simp: jdb_ok_def entries_ok_def convs_ok_def unique_key_def distinct_map_filter)
  moreover have "map (\<lambda>d. (dr_type d, dr_id d)) (entry_docs s lo hi None db) = map (Pair ''entry'') (map dr_id (entry_docs s lo hi None db))"
      "map (\<lambda>d. (dr_type d, dr_id d)) (conv_docs s lo hi None db) = map (Pair ''conversation'') (map dr_id (conv_docs s lo hi None db))"
    by (auto dest: entry_docs_type conv_docs_type)
  ultimately show ?thesis unfolding docs_def map_append distinct_append by (simp add: distinct_map comp_def) (auto simp: inj_on_def)
qed

lemma conv_docs_conv: "d \<in> set (conv_docs s lo hi pattern db) \<Longrightarrow> dr_conv d = Some (dr_id d)"
  by (auto simp: conv_docs_def set_map_filter conv_doc_def split: option.splits if_splits)

lemma title_only_ids:
  assumes "d \<in> set (docs s lo hi pattern db)"
  shows "tl_entry (to_title_only_row a oc d) = (if dr_type d = ''entry'' then Some (dr_id d) else None)"
    "tl_conv (to_title_only_row a oc d) = (if dr_type d = ''entry'' then None else Some (dr_id d))"
  using assms conv_docs_conv by (auto simp: docs_def to_title_only_row_def dest: entry_docs_type conv_docs_type)

lemma nat_max_min: "nat (max 1 (min (int n) 50)) = max 1 (min n 50)"
  by (cases "n = 0"; cases "n \<le> 50") (auto simp: max_def min_def nat_eq_iff)

lemma entry_image:
  "tl_entry ` to_title_only_row a oc ` (set (entry_docs s lo hi pattern db) \<union> set (conv_docs s lo hi pattern db)) - {None} =
   Some ` dr_id ` set (entry_docs s lo hi pattern db)"
proof -
  have "tl_entry (to_title_only_row a oc d) = Some (dr_id d)" if "d \<in> set (entry_docs s lo hi pattern db)" for d
    using title_only_ids(1) [of d s lo hi pattern db] entry_docs_type [OF that] that by (simp add: docs_def)
  moreover have "tl_entry (to_title_only_row a oc d) = None" if "d \<in> set (conv_docs s lo hi pattern db)" for d
    using title_only_ids(1) [of d s lo hi pattern db] conv_docs_type [OF that] that by (simp add: docs_def)
  ultimately show ?thesis unfolding image_Un by (auto simp: image_image)
qed

lemma conv_image:
  "tl_conv ` to_title_only_row a oc ` (set (entry_docs s lo hi pattern db) \<union> set (conv_docs s lo hi pattern db)) - {None} =
   Some ` dr_id ` set (conv_docs s lo hi pattern db)"
proof -
  have "tl_conv (to_title_only_row a oc d) = None" if "d \<in> set (entry_docs s lo hi pattern db)" for d
    using title_only_ids(2) [of d s lo hi pattern db] entry_docs_type [OF that] that by (simp add: docs_def)
  moreover have "tl_conv (to_title_only_row a oc d) = Some (dr_id d)" if "d \<in> set (conv_docs s lo hi pattern db)" for d
    using title_only_ids(2) [of d s lo hi pattern db] conv_docs_type [OF that] that by (simp add: docs_def)
  ultimately show ?thesis unfolding image_Un by (auto simp: image_image)
qed

lemma index_rows:
  assumes "jdb_ok db" and "rows = map (to_title_only_row a oc) (date_order asc (docs s lo hi None db))"
  shows "distinct (map (\<lambda>r. (tl_entry r, tl_conv r)) rows)"
    "tl_entry ` set rows - {None} = Some ` {en_id e | e. e \<in> set (entries db) \<and> vis s (en_user e) \<and> in_range (Some lo) (Some hi) (en_date e) \<and>
        en_deleted e = None \<and> en_conv e = None}"
    "tl_conv ` set rows - {None} = Some ` {cv_id c | c. c \<in> set (convs db) \<and> vis s (cv_user c) \<and> in_range (Some lo) (Some hi) (conv_date c)}"
proof -
  let ?f = "\<lambda>d. (if dr_type d = ''entry'' then Some (dr_id d) else None, if dr_type d = ''entry'' then None else Some (dr_id d))"
  let ?ds = "docs s lo hi None db"
  have pairs: "distinct (date_order asc ?ds)" "inj_on (\<lambda>d. (dr_type d, dr_id d)) (set ?ds)"
    using docs_distinct [OF assms(1), of s lo hi] by (simp_all add: distinct_map date_order_def)
  have "inj_on ?f (set ?ds)"
  proof (rule inj_onI)
    fix x y assume xy: "x \<in> set ?ds" "y \<in> set ?ds" "?f x = ?f y"
    then have "(dr_type x, dr_id x) = (dr_type y, dr_id y)"
      using docs_facts(1) [OF xy(1)] docs_facts(1) [OF xy(2)] by (auto split: if_splits)
    with pairs(2) xy(1,2) show "x = y" by (auto dest: inj_onD)
  qed
  with pairs(1) have "distinct (map ?f (date_order asc ?ds))" by (simp add: distinct_map)
  moreover have "map (\<lambda>r. (tl_entry r, tl_conv r)) rows = map ?f (date_order asc ?ds)"
    unfolding assms(2) by (simp add: title_only_ids)
  ultimately show "distinct (map (\<lambda>r. (tl_entry r, tl_conv r)) rows)" by simp
  have entry: "tl_entry ` set rows - {None} = Some ` dr_id ` set (entry_docs s lo hi None db)"
    unfolding assms(2) set_map set_date_order docs_def set_append by (rule entry_image)
  show "tl_entry ` set rows - {None} = Some ` {en_id e | e. e \<in> set (entries db) \<and> vis s (en_user e) \<and> in_range (Some lo) (Some hi) (en_date e) \<and>
        en_deleted e = None \<and> en_conv e = None}"
    using arg_cong [OF entry_docs_ids [OF assms(1), of s lo hi], of set] unfolding entry by auto
  have conv: "tl_conv ` set rows - {None} = Some ` dr_id ` set (conv_docs s lo hi None db)"
    unfolding assms(2) set_map set_date_order docs_def set_append by (rule conv_image)
  show "tl_conv ` set rows - {None} = Some ` {cv_id c | c. c \<in> set (convs db) \<and> vis s (cv_user c) \<and> in_range (Some lo) (Some hi) (conv_date c)}"
    using arg_cong [OF conv_docs_ids [OF assms(1), of s lo hi], of set] unfolding conv by auto
qed

lemma index_sorted:
  assumes "dates_ok db"
  shows "sorted_wrt (\<lambda>x y. \<exists>d e. tl_updated x = isoformat d \<and> tl_updated y = isoformat e \<and> valid_ymd d \<and> valid_ymd e \<and> ord_of d \<le> ord_of e)
    (map (to_title_only_row a oc) (date_order True (docs s lo hi pattern db)))"
proof -
  let ?key = "\<lambda>d. (ord_of (dr_date d), dr_type d, dr_id d)"
  have "sorted (map ?key (date_order True (docs s lo hi pattern db)))" by (simp add: date_order_def)
  then have "sorted_wrt (\<lambda>x y. ?key x \<le> ?key y) (date_order True (docs s lo hi pattern db))" by (simp add: sorted_map)
  then have "sorted_wrt (\<lambda>x y. ord_of (dr_date x) \<le> ord_of (dr_date y)) (date_order True (docs s lo hi pattern db))"
    by (rule sorted_wrt_mono_rel [rotated]) (auto simp: less_eq_prod_def)
  then show ?thesis
    unfolding sorted_wrt_map
  proof (rule sorted_wrt_mono_rel [rotated])
    fix x y assume "x \<in> set (date_order True (docs s lo hi pattern db))" "y \<in> set (date_order True (docs s lo hi pattern db))"
      and le: "ord_of (dr_date x) \<le> ord_of (dr_date y)"
    then have "x \<in> set (docs s lo hi pattern db)" "y \<in> set (docs s lo hi pattern db)" by simp_all
    then have "valid_ymd (dr_date x)" "valid_ymd (dr_date y)" using docs_facts(3) assms by blast+
    with le show "\<exists>d e. tl_updated (to_title_only_row a oc x) = isoformat d \<and> tl_updated (to_title_only_row a oc y) = isoformat e \<and>
        valid_ymd d \<and> valid_ymd e \<and> ord_of d \<le> ord_of e"
      by (intro exI [of _ "dr_date x"] exI [of _ "dr_date y"]) simp
  qed
qed

text \<open>
  Paging through a period.  With a page size of 1 to 50 the pages of the timeline tool
  are the slices of one list, whatever the page size, so that going through them neither repeats nor
  skips a row.  The list has every live entry of the user in the period that belongs to no
  conversation, and every conversation begun in it, exactly once, in the order of the dates.  No
  page fails for a row that cannot be decrypted.
\<close>

theorem timeline_pages:
  assumes "jdb_ok db" and "dates_ok db" and "valid_ymd today" and "resolve_period period today = Inr (df, dt, label)"
  shows "\<exists>all lo hi. date_fromisoformat df = Some lo \<and> date_fromisoformat dt = Some hi \<and>
    (\<forall>n k. journal_timeline s a c json_size today period (int n) (int k) db =
       Inr (sized json_size (\<lambda>p. DictPayload [(''entries'', Some (length (jt_entries p)))])
         (let rows = take (max 1 (min n 50)) (drop k all) in
          \<lparr>jt_period = period, jt_label = label, jt_from = df, jt_to = dt, jt_entries = rows, jt_count = length rows\<rparr>))) \<and>
    (\<forall>n m. concat (map (\<lambda>k. take n (drop (k * n) all)) [0..<m]) = take (m * n) all) \<and>
    distinct (map (\<lambda>r. (tl_entry r, tl_conv r)) all) \<and>
    tl_entry ` set all - {None} = Some ` {en_id e | e. e \<in> set (entries db) \<and> vis s (en_user e) \<and> in_range (Some lo) (Some hi) (en_date e) \<and>
        en_deleted e = None \<and> en_conv e = None} \<and>
    tl_conv ` set all - {None} = Some ` {cv_id c | c. c \<in> set (convs db) \<and> vis s (cv_user c) \<and> in_range (Some lo) (Some hi) (conv_date c)} \<and>
    sorted_wrt (\<lambda>x y. \<exists>d e. tl_updated x = isoformat d \<and> tl_updated y = isoformat e \<and> valid_ymd d \<and> valid_ymd e \<and> ord_of d \<le> ord_of e) all"
proof -
  obtain lo hi where d: "df = isoformat lo" "dt = isoformat hi" "valid_ymd lo" "valid_ymd hi"
    using assms(3,4) by (rule resolve_period_Inr)
  then have p: "date_fromisoformat df = Some lo" "date_fromisoformat dt = Some hi" by (simp_all add: date_fromisoformat_isoformat)
  define all where "all = map (to_title_only_row a (Some c)) (date_order True (docs s lo hi None db))"
  have "get_by_date_range s a (Some c) df dt (Some (max 1 (min (int n) MAX_TIMELINE_ENTRIES))) True (max 0 (int k)) True None db =
      Inr (take (max 1 (min n 50)) (drop k all))" for n k
    by (simp add: get_by_date_range_def prefix_pattern_def parse_date_def p pg_page_def docs_def all_def take_map drop_map
        MAX_TIMELINE_ENTRIES_def nat_max_min)
  then have "journal_timeline s a c json_size today period (int n) (int k) db =
       Inr (sized json_size (\<lambda>p. DictPayload [(''entries'', Some (length (jt_entries p)))])
         (let rows = take (max 1 (min n 50)) (drop k all) in
          \<lparr>jt_period = period, jt_label = label, jt_from = df, jt_to = dt, jt_entries = rows, jt_count = length rows\<rparr>))" for n k
    by (simp add: journal_timeline_def assms(4) Let_def)
  note page = this
  show ?thesis
    by (rule exI [of _ all], rule exI [of _ lo], rule exI [of _ hi], intro conjI allI)
       (rule p page concat_pages index_rows [OF assms(1) all_def] index_sorted [OF assms(2), of a "Some c" s lo hi None, folded all_def])+
qed

theorem timeline_pages_witness:
  "\<exists>all df dt label. resolve_period ''today'' new_year = Inr (df, dt, label) \<and> distinct (map (\<lambda>r. (tl_entry r, tl_conv r)) all) \<and>
     journal_timeline demo_session demo_aead demo_cipher (\<lambda>p. None) new_year ''today'' (int 20) (int 0) sample_jdb =
     Inr (sized (\<lambda>p. None) (\<lambda>p. DictPayload [(''entries'', Some (length (jt_entries p)))])
       \<lparr>jt_period = ''today'', jt_label = label, jt_from = df, jt_to = dt, jt_entries = take 20 all, jt_count = length (take 20 all)\<rparr>)"
proof -
  obtain df dt label where r: "resolve_period ''today'' new_year = Inr (df, dt, label)"
    by (simp add: resolve_period_def period_range_def)
  from timeline_pages [OF sample_jdb_ok sample_dates_ok year_valid(1) r, where s = demo_session and a = demo_aead and c = demo_cipher and json_size = "\<lambda>p. None"]
  obtain all where all: "distinct (map (\<lambda>r. (tl_entry r, tl_conv r)) all)"
    "\<forall>n k. journal_timeline demo_session demo_aead demo_cipher (\<lambda>p. None) new_year ''today'' (int n) (int k) sample_jdb =
       Inr (sized (\<lambda>p. None) (\<lambda>p. DictPayload [(''entries'', Some (length (jt_entries p)))])
         (let rows = take (max 1 (min n 50)) (drop k all) in
          \<lparr>jt_period = ''today'', jt_label = label, jt_from = df, jt_to = dt, jt_entries = rows, jt_count = length rows\<rparr>))"
    by (elim exE conjE) (rule that)
  have "max 1 (min 20 50) = (20 :: nat)" by simp
  with all(2) [rule_format, of 20 0] have "journal_timeline demo_session demo_aead demo_cipher (\<lambda>p. None) new_year ''today'' (int 20) (int 0) sample_jdb =
       Inr (sized (\<lambda>p. None) (\<lambda>p. DictPayload [(''entries'', Some (length (jt_entries p)))])
          \<lparr>jt_period = ''today'', jt_label = label, jt_from = df, jt_to = dt, jt_entries = take 20 all, jt_count = length (take 20 all)\<rparr>)"
    unfolding Let_def by (simp only: drop_0)
  with all(1) r show ?thesis by blast
qed

section \<open>The dashboard adds up\<close>

lemma sum_of_groups:
  assumes "distinct (map g ts)"
  shows "sum_list (map (\<lambda>t. length (filter (\<lambda>e. P e \<and> f e = g t) es)) ts) \<le> length (filter P es)"
proof (induction es)
  case (Cons e es)
  have "sum_list (map (\<lambda>t. if P e \<and> f e = g t then 1 else 0) ts) \<le> (if P e then 1 else 0 :: nat)"
    using assms
  proof (induction ts)
    case (Cons t ts)
    have "f e = g t \<Longrightarrow> map (\<lambda>t. if P e \<and> f e = g t then 1 else 0 :: nat) ts = map (\<lambda>t. 0) ts"
      using Cons.prems by (auto simp: image_iff)
    with Cons show ?case by (cases "P e"; cases "f e = g t") (simp_all add: sum_list_triv)
  qed simp
  moreover have "map (\<lambda>t. length (filter (\<lambda>e. P e \<and> f e = g t) (e # es))) ts =
      map (\<lambda>t. (if P e \<and> f e = g t then 1 else 0) + length (filter (\<lambda>e. P e \<and> f e = g t) es)) ts" by simp
  ultimately show ?case using Cons.IH by (simp add: sum_list_addf del: map_eq_conv split: if_splits)
qed simp

lemma filter_mono_length: "(\<And>e. e \<in> set es \<Longrightarrow> P e \<Longrightarrow> Q e) \<Longrightarrow> length (filter P es) \<le> length (filter Q es)"
  by (induction es) auto

text \<open>
  Property C37.  The dashboard is consistent with the journal and with the briefing.  Entries and
  conversations add up to the briefing's documents; this week's entries are among all entries; there
  is a last entry exactly if there is an entry, which is also what the set-up probe answers; the
  active topics are at most five distinct ones, most active first, and their counts together do not
  exceed the number of entries.  Activity is the number of live entries of the topic dated on or
  after the 29th day before the Sunday of the user's week: each topic listed carries its own count,
  and a topic that is not listed has none or five are listed that are no less active.
\<close>

theorem dashboard_consistent:
  assumes "jdb_ok db" and "get_dashboard_stats s zone_info today_at tz db = Inr d"
  shows "ds_entries d + ds_conversations d = js_documents (get_stats s db) \<and> ds_conversations d = js_conversations (get_stats s db) \<and>
    js_topics (get_stats s db) \<le> ds_topics d \<and> ds_week d \<le> ds_entries d \<and>
    (ds_last_entry d = None) = (ds_entries d = 0) \<and> fst (get_setup_signals s db) = (0 < ds_entries d) \<and>
    length (ds_active d) \<le> 5 \<and> distinct (map fst (ds_active d)) \<and> sorted (rev (map (snd \<circ> snd) (ds_active d))) \<and>
    sum_list (map (snd \<circ> snd) (ds_active d)) \<le> ds_entries d \<and>
    (\<exists>monday sunday start. user_week_bounds zone_info today_at (read_user_timezone tz) = Inr (monday, sunday) \<and>
       date_add sunday (- 29) = Some start \<and>
       ds_week d = length (filter (\<lambda>e. vis s (en_user e) \<and> en_deleted e = None \<and> in_range (Some monday) (Some sunday) (en_date e)) (entries db)) \<and>
       (\<forall>x \<in> set (ds_active d). \<exists>t \<in> set (topics db). vis s (tp_user t) \<and> x = (tp_path t, tp_title t, active_count s start db t) \<and>
          active_count s start db t \<noteq> 0) \<and>
       (\<forall>t \<in> set (topics db). vis s (tp_user t) \<longrightarrow> tp_path t \<notin> fst ` set (ds_active d) \<longrightarrow>
          active_count s start db t = 0 \<or> length (ds_active d) = 5 \<and> (\<forall>x \<in> set (ds_active d). active_count s start db t \<le> snd (snd x))))"
proof -
  obtain from_day to_day start where bounds: "user_week_bounds zone_info today_at (read_user_timezone tz) = Inr (from_day, to_day)"
    "active_window_start to_day = Inr start" and d: "d =
       (let live = (\<lambda>e. vis s (en_user e) \<and> en_deleted e = None);
            stamps = map en_updated (sql_select live (entries db))
        in \<lparr>ds_topics = sql_count (\<lambda>t. vis s (tp_user t)) (topics db),
            ds_entries = sql_count live (entries db),
            ds_week = sql_count (\<lambda>e. live e \<and> in_range (Some from_day) (Some to_day) (en_date e)) (entries db),
            ds_conversations = sql_count (\<lambda>c. vis s (cv_user c)) (convs db),
            ds_last_entry = (if stamps = [] then None else Some (Max (set stamps))),
            ds_active = most_active_topics s start db\<rparr>)"
    using assms(2) by (auto simp: get_dashboard_stats_def res_simps)
  let ?key = "\<lambda>t. (- int (active_count s start db t), tp_path t)"
  define found where "found = sql_select (\<lambda>t. vis s (tp_user t) \<and> active_count s start db t \<noteq> 0) (topics db)"
  define top where "top = take 5 (sort_key ?key found)"
  have active: "ds_active d = map (\<lambda>t. (tp_path t, tp_title t, active_count s start db t)) top"
    by (simp add: d most_active_topics_def MOST_ACTIVE_TOPICS_LIMIT_def top_def found_def Let_def)
  have unique: "unique_key tp_id (topics db)" "unique_key (\<lambda>t. (tp_user t, tp_path t)) (topics db)"
    using assms(1) by (simp_all add: jdb_ok_def topics_ok_def)
  have ids: "distinct (map tp_id found)"
    using unique(1) by (simp add: found_def sql_select_def unique_key_def distinct_map_filter)
  have "inj_on tp_path (set found)"
  proof (rule inj_onI)
    fix t u assume tu: "t \<in> set found" "u \<in> set found" "tp_path t = tp_path u"
    then have "tp_user t = tp_user u" by (auto simp: found_def sql_simps vis_def)
    with tu unique(2) show "t = u" by (auto simp: found_def sql_simps dest: unique_keyD)
  qed
  with ids have "distinct (map tp_path found)" by (simp add: distinct_map)
  have top_distinct: "distinct (map tp_id top)" "distinct (map tp_path top)"
    using ids \<open>distinct (map tp_path found)\<close> unfolding top_def take_map [symmetric]
    by (intro distinct_take; simp add: distinct_map)+
  have sorted: "sorted (map ?key (sort_key ?key found))" by simp
  have "sorted (map ?key top)" using sorted by (simp add: top_def take_map [symmetric] sorted_wrt_take)
  then have "sorted_wrt (\<lambda>t u. active_count s start db u \<le> active_count s start db t) top"
    by (simp add: sorted_map) (rule sorted_wrt_mono_rel [rotated], assumption, auto simp: less_eq_prod_def)
  then have decreasing: "sorted (rev (map (snd \<circ> snd) (ds_active d)))"
    by (simp add: active sorted_wrt_rev sorted_wrt_map comp_def)
  have total: "sum_list (map (snd \<circ> snd) (ds_active d)) \<le> ds_entries d"
  proof -
    have "sum_list (map (\<lambda>t. length (filter (\<lambda>e. (vis s (en_user e) \<and> en_deleted e = None \<and> ord_of start \<le> ord_of (en_date e)) \<and> en_topic e = tp_id t) (entries db))) top) \<le>
        length (filter (\<lambda>e. vis s (en_user e) \<and> en_deleted e = None \<and> ord_of start \<le> ord_of (en_date e)) (entries db))"
      using top_distinct(1) by (rule sum_of_groups)
    also have "\<dots> \<le> ds_entries d" by (auto simp: d Let_def sql_count_def intro: filter_mono_length)
    finally show ?thesis by (simp add: active comp_def active_count_def sql_count_def conj_ac)
  qed
  have rest: "active_count s start db t = 0 \<or> length top = 5 \<and> (\<forall>u \<in> set top. active_count s start db t \<le> active_count s start db u)"
    if t: "t \<in> set (topics db)" "vis s (tp_user t)" "tp_path t \<notin> tp_path ` set top" for t
  proof (cases "active_count s start db t = 0")
    case False
    with t have "t \<in> set (sort_key ?key found)" by (simp add: found_def sql_simps)
    with t(3) have late: "t \<in> set (drop 5 (sort_key ?key found))" 
      using set_append [of "take 5 (sort_key ?key found)" "drop 5 (sort_key ?key found)"] by (auto simp: top_def simp del: set_append)
    then have "5 \<le> length (sort_key ?key found)" by (cases "length (sort_key ?key found) < 5") auto
    moreover have "active_count s start db t \<le> active_count s start db u" if "u \<in> set top" for u
    proof -
      have "sorted (map ?key (take 5 (sort_key ?key found)) @ map ?key (drop 5 (sort_key ?key found)))" using sorted by (simp flip: map_append)
      with late that have "?key u \<le> ?key t" unfolding top_def sorted_append by auto
      then show ?thesis by (auto simp: less_eq_prod_def)
    qed
    ultimately show ?thesis by (simp add: top_def)
  qed simp
  have topic_count: "js_topics (get_stats s db) \<le> ds_topics d"
    unfolding get_stats_def Let_def d journal_stats.simps dashboard_stats.simps sql_count_def sql_select_def
    by (rule order_trans [OF length_remdups_leq]) (auto intro: filter_mono_length)
  have "ds_week d \<le> ds_entries d" by (auto simp: d Let_def sql_count_def intro: filter_mono_length)
  moreover have "(ds_last_entry d = None) = (ds_entries d = 0)" by (simp add: d Let_def sql_count_def sql_select_def)
  moreover have "fst (get_setup_signals s db) = (0 < ds_entries d)"
    by (auto simp: d Let_def get_setup_signals_def sql_count_def list_ex_iff filter_empty_conv)
  moreover have "ds_entries d + ds_conversations d = js_documents (get_stats s db)" "ds_conversations d = js_conversations (get_stats s db)"
    by (simp_all add: d get_stats_def Let_def)
  moreover have "length (ds_active d) \<le> 5" "distinct (map fst (ds_active d))" using top_distinct(2) by (simp_all add: active top_def comp_def)
  moreover have "\<forall>t \<in> set (topics db). vis s (tp_user t) \<longrightarrow> tp_path t \<notin> fst ` set (ds_active d) \<longrightarrow>
       active_count s start db t = 0 \<or> length (ds_active d) = 5 \<and> (\<forall>x \<in> set (ds_active d). active_count s start db t \<le> snd (snd x))"
    using rest by (simp add: active image_image)
  moreover have "date_add to_day (- 29) = Some start"
    using bounds(2) by (auto simp: active_window_start_def ACTIVE_WINDOW_DAYS_def split: option.splits)
  moreover have "ds_week d = length (filter (\<lambda>e. vis s (en_user e) \<and> en_deleted e = None \<and> in_range (Some from_day) (Some to_day) (en_date e)) (entries db))"
    by (simp add: d Let_def sql_count_def)
  moreover have "\<forall>x \<in> set (ds_active d). \<exists>t \<in> set (topics db). vis s (tp_user t) \<and> x = (tp_path t, tp_title t, active_count s start db t) \<and>
      active_count s start db t \<noteq> 0"
    by (auto simp: active top_def found_def sql_simps dest!: in_set_takeD)
  ultimately show ?thesis using topic_count decreasing total bounds(1)
    by (intro conjI exI [of _ from_day] exI [of _ to_day] exI [of _ start]) assumption+
qed

theorem dashboard_consistent_witness:
  "\<exists>d. get_dashboard_stats demo_session (\<lambda>z. Inr ()) (\<lambda>u. \<lparr>dyear = 2026, dmonth = 1, dday = 5\<rparr>) None sample_jdb = Inr d \<and>
     ds_entries d + ds_conversations d = js_documents (get_stats demo_session sample_jdb)"
proof -
  let ?today = "\<lparr>dyear = 2026, dmonth = 1, dday = 5\<rparr>" and ?sunday = "\<lparr>dyear = 2026, dmonth = 1, dday = 11\<rparr>"
  have "date_add ?today (- weekday ?today) = Some ?today" "date_add ?today 6 = Some ?sunday" by code_simp+
  then have "\<exists>label. this_week ?today = Inr (?today, ?sunday, label)" by (simp add: this_week_def shift_def)
  then obtain label where "this_week ?today = Inr (?today, ?sunday, label)" ..
  moreover have "valid_ymd ?today" "valid_ymd ?sunday" by code_simp+
  ultimately have "user_week_bounds (\<lambda>z. Inr ()) (\<lambda>u. ?today) ''UTC'' = Inr (?today, ?sunday)"
    by (simp add: user_week_bounds_def local_today_def zone_or_utc_def stats_iso_def resolve_period_def period_range_def date_fromisoformat_isoformat)
  moreover have "date_add ?sunday (- 29) = Some \<lparr>dyear = 2025, dmonth = 12, dday = 13\<rparr>" by code_simp
  then have "active_window_start ?sunday = Inr \<lparr>dyear = 2025, dmonth = 12, dday = 13\<rparr>" by (simp add: active_window_start_def ACTIVE_WINDOW_DAYS_def)
  ultimately obtain d where d: "get_dashboard_stats demo_session (\<lambda>z. Inr ()) (\<lambda>u. \<lparr>dyear = 2026, dmonth = 1, dday = 5\<rparr>) None sample_jdb = Inr d"
    by (simp add: get_dashboard_stats_def read_user_timezone_def non_empty_def)
  with dashboard_consistent [OF sample_jdb_ok this, THEN conjunct1] show ?thesis by blast
qed

end
