(* ===== verification/ToolEntries.thy ===== *)
theory ToolEntries
  imports Replies Search Reindex
begin

text \<open>
  The MCP tools on entries (\<open>gubbi/tools/entries.py\<close>): what they accept, the transactions they
  run one after the other, and the embedding they store once the text is committed.

  The text arguments are strings of characters up to 255, as in the validation functions, and the
  messages that come from a \<open>ValueError\<close> are abbreviated.  Every
  \<open>user_scoped_connection\<close> is a transaction of its own; what other connections commit in between is
  a function of the environment.
\<close>

section \<open>Surroundings\<close>

text \<open>
  \<open>te_user\<close> is the authenticated caller, \<open>te_now k\<close> the time of the \<open>k\<close>-th transaction of the call,
  \<open>te_meanwhile k\<close> what others commit before it (for \<open>k > 0\<close>), \<open>te_fault k\<close> whether that
  transaction fails, \<open>te_today\<close> the result of \<open>local_today\<close> and \<open>te_is_future\<close> that of
  \<open>is_future_date\<close> for the server's time zone; \<open>te_encode\<close> is the embedding model.
\<close>

record tool_env =
  te_user :: "session option"
  te_aead :: aead
  te_cipher :: "content_cipher option"
  te_now :: "nat \<Rightarrow> int"
  te_rnd :: "nat \<Rightarrow> bytes"
  te_today :: "date_error + string"
  te_is_future :: "string \<Rightarrow> date_error + bool"
  te_encode :: "ptext \<Rightarrow> vec option"
  te_meanwhile :: "nat \<Rightarrow> jdb \<Rightarrow> jdb"
  te_fault :: "nat \<Rightarrow> bool"

definition MAX_ENTRY_CONTENT_CHARS :: nat where "MAX_ENTRY_CONTENT_CHARS = 1000"
definition MAX_ENTRY_REASONING_CHARS :: nat where "MAX_ENTRY_REASONING_CHARS = 5000"
definition MAX_READ_ENTRIES :: int where "MAX_READ_ENTRIES = 20"

definition missing_user :: "'a tool_reply" where
  "missing_user = ToolRaised (JValueError ''no authenticated user -- check BearerAuthMiddleware wiring'')"

definition no_cipher :: "'a tool_reply" where
  "no_cipher = ToolRaised (JCrypto CipherRequired)"

text \<open>The default lengths of \<open>sanitize_freetext\<close> and \<open>sanitize_label\<close>.\<close>

abbreviation FREETEXT_LEN :: int where "FREETEXT_LEN \<equiv> 1000000"
abbreviation LABEL_LEN :: int where "LABEL_LEN \<equiv> 50"

text \<open>\<open>if text:\<close>, \<open>not text.strip()\<close> and the two checks of an optional date.\<close>

definition blank :: "string \<Rightarrow> bool" where
  "blank s = (py_strip py_isspace s = [])"

definition clean_tags :: "string list option \<Rightarrow> string list option \<times> nat" where
  "clean_tags tags =
     (case tags of
        None \<Rightarrow> (None, 0)
      | Some ts \<Rightarrow>
          (let kept = filter (\<lambda>t. t \<noteq> []) (map (\<lambda>t. sanitize_label t LABEL_LEN) ts)
           in if ts = [] then (Some [], 0) else (Some kept, length ts - length kept)))"

definition bad_date :: "string option \<Rightarrow> bool" where
  "bad_date d = (case non_empty d of None \<Rightarrow> False | Some x \<Rightarrow> (case validate_date x of Inl e \<Rightarrow> True | Inr _ \<Rightarrow> False))"

text \<open>The note on a future date; the zone may be unusable, and then the call raises.\<close>

definition future_note :: "tool_env \<Rightarrow> string option \<Rightarrow> date_error + bool" where
  "future_note x date = (case non_empty date of None \<Rightarrow> Inr False | Some d \<Rightarrow> te_is_future x d)"

record entry_reply =
  ey_status :: string
  ey_topic :: "string option"
  ey_date :: "string option"
  ey_entry :: int
  ey_mode :: "string option"
  ey_future :: bool
  ey_dropped :: nat

section \<open>Appending\<close>

text \<open>The policy for the text of a new entry.\<close>

definition accept_append :: "string \<Rightarrow> string option \<Rightarrow> error_result + (string \<times> string option)" where
  "accept_append content reasoning =
     (if length content > MAX_ENTRY_CONTENT_CHARS then Inl (validation_error ''content exceeds 1000 characters'')
      else if (case reasoning of None \<Rightarrow> False | Some r \<Rightarrow> length r > MAX_ENTRY_REASONING_CHARS)
      then Inl (validation_error ''reasoning exceeds 5000 characters'')
      else let content = sanitize_freetext content FREETEXT_LEN in
        if blank content then Inl (validation_error ''content cannot be empty'')
        else case reject_tool_call_syntax content of
          Inl e \<Rightarrow> Inl (validation_error ''tool call syntax'')
        | Inr _ \<Rightarrow>
            (case non_empty reasoning of
               None \<Rightarrow> Inr (content, reasoning)
             | Some r \<Rightarrow>
                 (let r = sanitize_freetext r FREETEXT_LEN in
                  case reject_tool_call_syntax r of
                    Inl e \<Rightarrow> Inl (validation_error ''tool call syntax'')
                  | Inr _ \<Rightarrow> Inr (content, Some r))))"

text \<open>\<open>_embed_entry\<close>: encode, then store in transaction \<open>k\<close>; the flag is success.\<close>

definition embed_entry :: "tool_env \<Rightarrow> session \<Rightarrow> nat \<Rightarrow> int \<Rightarrow> ptext \<Rightarrow> jdb \<Rightarrow> bool \<times> jdb" where
  "embed_entry x s k entry_id content db =
     (case te_encode x content of
        None \<Rightarrow> (False, db)
      | Some v \<Rightarrow>
          (let db1 = te_meanwhile x k db in
           if te_fault x k then (False, db1)
           else case save_by_vector s (te_now x k) entry_id v db1 of Inl e \<Rightarrow> (False, db1) | Inr db2 \<Rightarrow> (True, db2)))"

definition journal_append_entry ::
  "tool_env \<Rightarrow> string \<Rightarrow> string \<Rightarrow> string option \<Rightarrow> string list option \<Rightarrow> string option \<Rightarrow> jdb \<Rightarrow> entry_reply tool_reply \<times> jdb" where
  "journal_append_entry x topic content reasoning tags date db =
     (case validate_topic topic of
        Inl e \<Rightarrow> (ToolError (invalid_topic topic ''Invalid topic path''), db)
      | Inr path \<Rightarrow>
     (case accept_append content reasoning of
        Inl e \<Rightarrow> (ToolError e, db)
      | Inr (content, reasoning) \<Rightarrow>
     (let (tags, dropped) = clean_tags tags in
      if bad_date date then (ToolError (invalid_date (the date)), db)
      else case (case non_empty date of None \<Rightarrow> te_today x | Some d \<Rightarrow> Inr d) of
        Inl e \<Rightarrow> (ToolRaised (JValueError ''local_today''), db)
      | Inr day \<Rightarrow>
     (case te_user x of
        None \<Rightarrow> (missing_user, db)
      | Some s \<Rightarrow>
     (case te_cipher x of
        None \<Rightarrow> (no_cipher, db)
      | Some c \<Rightarrow>
     (case append_entry s (te_aead x) c (te_now x 0) \<lparr>dyear = 1, dmonth = 1, dday = 1\<rparr> (te_rnd x 0) (te_rnd x 1) path (text_of content)
             (map_option text_of reasoning) (map_option (map text_of) tags) (Some day) db of
        Inl (TopicNotFound t) \<Rightarrow> (ToolError (not_found ''Topic'' path), db)
      | Inl e \<Rightarrow> (ToolRaised e, db)
      | Inr (entry_id, db1) \<Rightarrow>
     (let (embedded, db2) = embed_entry x s 1 entry_id (text_of content) db1;
          db3 = (if embedded then te_meanwhile x 2 db2 else db2)
      in if embedded \<and> te_fault x 2 then (ToolRaised (PostgresError ''mark_indexed''), db3)
         else (let db4 = (if embedded then mark_indexed s (te_now x 2) entry_id db3 else db3)
               in case future_note x date of
                    Inl e \<Rightarrow> (ToolRaised (JValueError ''is_future_date''), db4)
                  | Inr future \<Rightarrow>
                      (ToolOk \<lparr>ey_status = ''appended'', ey_topic = Some path, ey_date = Some day, ey_entry = entry_id,
                               ey_mode = None, ey_future = future, ey_dropped = dropped\<rparr>, db4)))))))))"

section \<open>Reading\<close>

record read_reply =
  rd_meta :: topic_meta
  rd_entries :: "entry_out list"
  rd_total :: nat
  rd_limit :: int
  rd_offset :: int

definition journal_read_topic ::
  "tool_env \<Rightarrow> (read_reply \<Rightarrow> nat option) \<Rightarrow> string \<Rightarrow> int \<Rightarrow> string option \<Rightarrow> string option \<Rightarrow> int \<Rightarrow> jdb \<Rightarrow> read_reply tool_reply" where
  "journal_read_topic x json_size topic limit date_from date_to offset db =
     (case validate_topic topic of
        Inl e \<Rightarrow> ToolError (invalid_topic topic ''Invalid topic path'')
      | Inr path \<Rightarrow>
          if bad_date date_from then ToolError (invalid_date (the date_from))
          else if bad_date date_to then ToolError (invalid_date (the date_to))
          else (let limit = max 1 (min limit MAX_READ_ENTRIES); offset = max 0 offset in
            case te_user x of
              None \<Rightarrow> missing_user
            | Some s \<Rightarrow> (case te_cipher x of
                None \<Rightarrow> no_cipher
              | Some c \<Rightarrow>
                  (case read_entries s (te_aead x) c path (Some limit) date_from date_to offset db of
                     Inl (TopicNotFound t) \<Rightarrow> ToolError (not_found ''Topic'' path)
                   | Inl e \<Rightarrow> ToolRaised e
                   | Inr (meta, found, amount) \<Rightarrow>
                       sized json_size (\<lambda>r. DictPayload [(''entries'', Some (length (rd_entries r)))])
                         \<lparr>rd_meta = meta, rd_entries = found, rd_total = amount, rd_limit = limit, rd_offset = offset\<rparr>))))"

section \<open>Updating\<close>

text \<open>The texts an update is left with; reasoning that says nothing counts as not given.\<close>

definition accept_update :: "string option \<Rightarrow> string option \<Rightarrow> error_result + (string option \<times> string option)" where
  "accept_update content reasoning =
     (case (case content of
              None \<Rightarrow> Inr None
            | Some t \<Rightarrow>
                if length t > MAX_ENTRY_CONTENT_CHARS then Inl (validation_error ''content exceeds 1000 characters'')
                else let t = sanitize_freetext t FREETEXT_LEN in
                  if blank t then Inl (validation_error ''content cannot be empty'')
                  else case reject_tool_call_syntax t of Inl e \<Rightarrow> Inl (validation_error ''tool call syntax'') | Inr _ \<Rightarrow> Inr (Some t)) of
        Inl e \<Rightarrow> Inl e
      | Inr content' \<Rightarrow>
          (case reasoning of
             None \<Rightarrow> Inr (content', None)
           | Some r \<Rightarrow>
               if length r > MAX_ENTRY_REASONING_CHARS then Inl (validation_error ''reasoning exceeds 5000 characters'')
               else let r = sanitize_freetext r FREETEXT_LEN in
                 case reject_tool_call_syntax r of
                   Inl e \<Rightarrow> Inl (validation_error ''tool call syntax'')
                 | Inr _ \<Rightarrow> Inr (content', if blank r then None else Some r)))"

text \<open>The text that is embedded: content and reasoning with a space between, stripped.\<close>

definition embed_text :: "ptext option \<times> ptext option \<Rightarrow> ptext" where
  "embed_text d = text_strip (case_option [] id (fst d) @ [32] @ case_option [] id (snd d))"

text \<open>
  Storing the embedding of the text \<open>d\<close> read when the update was made: one transaction that first
  reads the text again.  Every failure is logged and passed over.
\<close>

definition reembed_entry :: "tool_env \<Rightarrow> session \<Rightarrow> content_cipher \<Rightarrow> int \<Rightarrow> ptext option \<times> ptext option \<Rightarrow> jdb \<Rightarrow> jdb" where
  "reembed_entry x s c entry_id d db =
     (case te_encode x (embed_text d) of
        None \<Rightarrow> db
      | Some v \<Rightarrow>
          (let db1 = te_meanwhile x 1 db in
           if te_fault x 1 then db1
           else case get_text s (te_aead x) c entry_id db1 of
             Inl e \<Rightarrow> db1
           | Inr current \<Rightarrow>
               if current \<noteq> Some d then db1
               else case save_by_vector s (te_now x 1) entry_id v db1 of
                 Inl e \<Rightarrow> db1
               | Inr db2 \<Rightarrow> mark_indexed s (te_now x 1) entry_id db2))"

definition update_text ::
  "tool_env \<Rightarrow> session \<Rightarrow> content_cipher \<Rightarrow> int \<Rightarrow> string option \<Rightarrow> string option \<Rightarrow> string \<Rightarrow> string option \<Rightarrow> string list option \<Rightarrow> jdb \<Rightarrow>
   jerror + ((ptext option \<times> ptext option) option \<times> jdb)" where
  "update_text x s c entry_id content reasoning mode date tags db =
     rbind (update_entry s (te_aead x) c (te_now x 0) (te_rnd x 0) (te_rnd x 1) entry_id (map_option text_of content)
              (map_option text_of reasoning) mode date (map_option (map text_of) tags) db) (\<lambda>db1.
       if content = None \<and> reasoning = None then Inr (None, db1)
       else rmap (\<lambda>d. (d, db1)) (get_text s (te_aead x) c entry_id db1))"

definition journal_update_entry ::
  "tool_env \<Rightarrow> int \<Rightarrow> string option \<Rightarrow> string option \<Rightarrow> string \<Rightarrow> string option \<Rightarrow> string list option \<Rightarrow> jdb \<Rightarrow> entry_reply tool_reply \<times> jdb" where
  "journal_update_entry x entry_id content reasoning mode date tags db =
     (case accept_update content reasoning of
        Inl e \<Rightarrow> (ToolError e, db)
      | Inr (content, reasoning) \<Rightarrow>
     (if bad_date date then (ToolError (invalid_date (the date)), db)
      else let (tags, dropped) = clean_tags tags in
      if content = None \<and> reasoning = None \<and> date = None \<and> tags = None then (ToolError (validation_error ''No fields to update''), db)
      else case te_user x of
        None \<Rightarrow> (missing_user, db)
      | Some s \<Rightarrow>
     (case te_cipher x of
        None \<Rightarrow> (no_cipher, db)
      | Some c \<Rightarrow>
     (case update_text x s c entry_id content reasoning mode date tags db of
        Inl (EntryNotFound i) \<Rightarrow> (ToolError (not_found ''Entry'' (dec_int entry_id)), db)
      | Inl e \<Rightarrow> (ToolRaised e, db)
      | Inr (row_data, db1) \<Rightarrow>
     (let db2 = (case row_data of None \<Rightarrow> db1 | Some d \<Rightarrow> reembed_entry x s c entry_id d db1)
      in case future_note x date of
           Inl e \<Rightarrow> (ToolRaised (JValueError ''is_future_date''), db2)
         | Inr future \<Rightarrow>
             (ToolOk \<lparr>ey_status = ''updated'', ey_topic = None, ey_date = None, ey_entry = entry_id,
                      ey_mode = Some mode, ey_future = future, ey_dropped = dropped\<rparr>, db2))))))"

section \<open>Deleting\<close>

definition journal_delete_entry :: "tool_env \<Rightarrow> int \<Rightarrow> jdb \<Rightarrow> entry_reply tool_reply \<times> jdb" where
  "journal_delete_entry x entry_id db =
     (case te_user x of
        None \<Rightarrow> (missing_user, db)
      | Some s \<Rightarrow>
          (case delete_entry s (te_now x 0) entry_id db of
             Inl (EntryNotFound i) \<Rightarrow> (ToolError (not_found ''Entry'' (dec_int entry_id)), db)
           | Inl e \<Rightarrow> (ToolRaised e, db)
           | Inr (topic_id, db1) \<Rightarrow>
               (ToolOk \<lparr>ey_status = ''deleted'', ey_topic = None, ey_date = None, ey_entry = entry_id, ey_mode = None,
                        ey_future = False, ey_dropped = 0\<rparr>, db1)))"

section \<open>Storing a vector\<close>

lemma save_by_vector_ok:
  assumes "jdb_ok db" and "save_by_vector s now i v db = Inr db'"
  shows "jdb_ok db'" "others (gs_user s) db' = others (gs_user s) db" "entries db' = entries db"
    "embs db' = sql_upsert em_entry \<lparr>em_entry = i, em_vec = v, em_indexed = now, em_user = gs_user s\<rparr> (embs db)"
proof -
  from assms(2) have db': "db' = db\<lparr>embs := sql_upsert em_entry \<lparr>em_entry = i, em_vec = v, em_indexed = now, em_user = gs_user s\<rparr> (embs db)\<rparr>"
    and mine: "\<forall>b \<in> set (embs db). em_entry b = i \<longrightarrow> em_user b = gs_user s" and key: "(i, gs_user s) \<in> entry_keys db"
    by (auto simp: save_by_vector_def list_ex_iff entry_keys_def split: if_splits)
  show "jdb_ok db'"
    unfolding db' by (rule jdb_ok_embs [OF assms(1)]) (use assms(1) key in \<open>auto simp: jdb_ok_def embs_ok_def sql_simps\<close>)
  show "entries db' = entries db"
    "embs db' = sql_upsert em_entry \<lparr>em_entry = i, em_vec = v, em_indexed = now, em_user = gs_user s\<rparr> (embs db)" by (simp_all add: db')
  have "filter (\<lambda>b. em_user b \<noteq> gs_user s) (sql_delete (\<lambda>q. em_entry q = i) (embs db)) = filter (\<lambda>b. em_user b \<noteq> gs_user s) (embs db)"
    unfolding sql_delete_def filter_filter by (rule filter_cong) (use mine in auto)
  then show "others (gs_user s) db' = others (gs_user s) db"
    by (simp add: db' others_def sql_upsert_def sql_insert_def)
qed

lemma mark_indexed_ok:
  assumes "jdb_ok db"
  shows "jdb_ok (mark_indexed s now i db)" "others (gs_user s) (mark_indexed s now i db) = others (gs_user s) db"
proof -
  show "jdb_ok (mark_indexed s now i db)"
    unfolding mark_indexed_def by (rule jdb_ok_entries_update [OF assms]) (auto simp: entry_topic_key [OF assms])
  show "others (gs_user s) (mark_indexed s now i db) = others (gs_user s) db"
    by (auto simp: mark_indexed_def others_def vis_def intro!: other_rules)
qed

section \<open>Stored vectors belong to current texts\<close>

definition row_text :: "aead \<Rightarrow> content_cipher \<Rightarrow> entry_row \<Rightarrow> jerror + (ptext option \<times> ptext option)" where
  "row_text a c e = rbind (open_column a c (Some (en_content e))) (\<lambda>content. rmap (\<lambda>reasoning. (content, reasoning)) (open_column a c (en_reasoning e)))"

lemma get_text_row: "get_text s a c i db = (case live_entry s i db of None \<Rightarrow> Inr None | Some e \<Rightarrow> rmap Some (row_text a c e))"
proof -
  have "rmap Some (rbind r (\<lambda>y. rmap (Pair y) q)) = rbind r (\<lambda>y. rmap (\<lambda>z. Some (y, z)) q)"
    for r :: "jerror + ptext option" and q :: "jerror + ptext option"
    by (cases r; cases q) simp_all
  then show ?thesis by (simp add: get_text_def row_text_def split: option.split)
qed

text \<open>Each stored vector of a live entry of the user is the one of the text the entry has.\<close>

definition emb_current :: "tool_env \<Rightarrow> session \<Rightarrow> content_cipher \<Rightarrow> jdb \<Rightarrow> bool" where
  "emb_current x s c db =
     (\<forall>b \<in> set (embs db). \<forall>e \<in> set (entries db). en_id e = em_entry b \<longrightarrow> en_deleted e = None \<longrightarrow> vis s (en_user e) \<longrightarrow>
        (\<exists>d. row_text (te_aead x) c e = Inr d \<and> te_encode x (embed_text d) = Some (em_vec b)))"

lemma update_keeps_current:
  assumes "jdb_ok db" and "emb_current x s c db"
    and "update_entry s a c now r1 r2 i content reasoning mode date tags db = Inr db'" and "a = te_aead x"
  shows "emb_current x s c db'"
  using assms(3)
proof (rule update_entry_Inr)
  fix row y r d content' reasoning'
  assume row: "live_entry s i db = Some row"
    and content': "new_content a c row mode content = Inr content'"
    and reasoning': "new_reasoning a c row mode reasoning = Inr reasoning'"
    and y: "case content' of None \<Rightarrow> y = None
          | Some t \<Rightarrow> (\<exists>z. y = Some (z, t) \<and> lift_crypto (encrypt a c r1 t) = Inr z)"
    and r: "seal_opt a c r2 reasoning' = Inr r"
    and db': "db' = (let db1 = touch_topic s now (en_topic row)
        (db\<lparr>entries := sql_update (\<lambda>e. vis s (en_user e) \<and> en_id e = i) (set_entry now y r d tags) (entries db)\<rparr>)
      in if content \<noteq> None \<or> reasoning \<noteq> None then delete_embedding s i db1 else db1)"
  have flags: "(y = None) = (content = None)" "(r = None) = (reasoning = None)"
    using y new_content_None [OF content'] seal_opt_None [OF r] new_reasoning_None [OF reasoning'] by (auto split: option.splits)
  have es: "entries db' = map (\<lambda>e. if en_id e = i then set_entry now y r d tags e else e) (entries db)"
    unfolding db' by (simp add: Let_def touch_topic_def delete_embedding_def update_entry_by_id [OF assms(1) row])
  have embs: "embs db' = (if content = None \<and> reasoning = None then embs db else filter (\<lambda>b. em_entry b \<noteq> i) (embs db))"
  proof -
    have "embs (delete_embedding s i (touch_topic s now t (db\<lparr>entries := es\<rparr>))) = embs (delete_embedding s i db)" for t es
      by (simp add: delete_embedding_def touch_topic_def)
    with delete_embedding_exact [OF assms(1) row] show ?thesis by (simp add: db' Let_def touch_topic_def)
  qed
  show "emb_current x s c db'"
    unfolding emb_current_def
  proof (intro ballI impI)
    fix b e' assume b: "b \<in> set (embs db')" and e': "e' \<in> set (entries db')" "en_id e' = em_entry b" "en_deleted e' = None" "vis s (en_user e')"
    obtain e where e: "e \<in> set (entries db)" "e' = (if en_id e = i then set_entry now y r d tags e else e)" using e'(1) by (auto simp: es)
    have "b \<in> set (embs db)" using b by (auto simp: embs split: if_splits)
    moreover have "en_id e = em_entry b" "en_deleted e = None" "vis s (en_user e)" using e e'(2-4) by (auto split: if_splits)
    ultimately have old: "\<exists>d. row_text (te_aead x) c e = Inr d \<and> te_encode x (embed_text d) = Some (em_vec b)"
      using assms(2) e(1) by (auto simp: emb_current_def)
    have "row_text (te_aead x) c e' = row_text (te_aead x) c e"
    proof (cases "en_id e = i")
      case True
      with b e'(2) e(2) have "content = None \<and> reasoning = None" by (auto simp: embs split: if_splits)
      with flags have "y = None" "r = None" by auto
      with True e(2) show ?thesis by (simp add: row_text_def set_entry_def)
    qed (use e(2) in simp)
    with old show "\<exists>d. row_text (te_aead x) c e' = Inr d \<and> te_encode x (embed_text d) = Some (em_vec b)" by simp
  qed
qed

lemma delete_keeps_current:
  assumes "emb_current x s c db" and "delete_entry s now i db = Inr (t, db')"
  shows "emb_current x s c db'"
proof -
  obtain row where "live_entry s i db = Some row" using assms(2) by (auto simp: delete_entry_def split: option.splits)
  then have db': "db' = touch_topic s now (en_topic row) (delete_embedding s i
      (db\<lparr>entries := sql_update (\<lambda>e. vis s (en_user e) \<and> en_id e = i \<and> en_deleted e = None)
                (\<lambda>e. e\<lparr>en_deleted := Some now, en_updated := now\<rparr>) (entries db)\<rparr>))"
    using assms(2) by (auto simp: delete_entry_def)
  have "b \<in> set (embs db)" if "b \<in> set (embs db')" for b
    using that by (auto simp: db' touch_topic_def delete_embedding_def sql_simps)
  moreover have "e \<in> set (entries db)" if "e \<in> set (entries db')" "en_deleted e = None" for e
    using that by (auto simp: db' touch_topic_def delete_embedding_def sql_simps split: if_splits)
  ultimately show ?thesis using assms(1) unfolding emb_current_def by blast
qed

lemma mark_indexed_current: "emb_current x s c db \<Longrightarrow> emb_current x s c (mark_indexed s now i db)"
  unfolding emb_current_def mark_indexed_def by (auto simp: sql_simps row_text_def split: if_splits)

lemma save_keeps_current:
  assumes "jdb_ok db" and "emb_current x s c db" and "save_by_vector s now i v db = Inr db'"
    and "get_text s (te_aead x) c i db = Inr (Some d)" and "te_encode x (embed_text d) = Some v"
  shows "emb_current x s c db'"
proof -
  obtain row where row: "live_entry s i db = Some row" "row_text (te_aead x) c row = Inr d"
    using assms(4) by (auto simp: get_text_row res_simps split: option.splits)
  have only: "e = row" if "e \<in> set (entries db)" "en_id e = i" for e
    using that row(1) assms(1) live_entry_SomeD [OF row(1)] by (auto simp: jdb_ok_def entries_ok_def dest: unique_keyD)
  show ?thesis
    unfolding emb_current_def save_by_vector_ok(3,4) [OF assms(1,3)]
  proof (intro ballI impI)
    fix b e assume b: "b \<in> set (sql_upsert em_entry \<lparr>em_entry = i, em_vec = v, em_indexed = now, em_user = gs_user s\<rparr> (embs db))"
      and e: "e \<in> set (entries db)" "en_id e = em_entry b" "en_deleted e = None" "vis s (en_user e)"
    show "\<exists>d. row_text (te_aead x) c e = Inr d \<and> te_encode x (embed_text d) = Some (em_vec b)"
    proof (cases "em_entry b = i")
      case True
      with e(2) only [OF e(1)] have "e = row" by simp
      moreover have "em_vec b = v" using b True by (auto simp: sql_simps)
      ultimately show ?thesis using row(2) assms(5) by blast
    next
      case False
      with b have "b \<in> set (embs db)" by (auto simp: sql_simps)
      with e assms(2) show ?thesis unfolding emb_current_def by blast
    qed
  qed
qed

lemma reembed_keeps:
  assumes "jdb_ok (te_meanwhile x 1 db)" and "emb_current x s c (te_meanwhile x 1 db)" and "jdb_ok db" and "emb_current x s c db"
  shows "jdb_ok (reembed_entry x s c i d db) \<and> emb_current x s c (reembed_entry x s c i d db)"
proof -
  let ?db1 = "te_meanwhile x 1 db"
  have store: "jdb_ok (mark_indexed s now i db2) \<and> emb_current x s c (mark_indexed s now i db2)"
    if "save_by_vector s now i v ?db1 = Inr db2" "get_text s (te_aead x) c i ?db1 = Inr (Some d)" "te_encode x (embed_text d) = Some v" for now v db2
    using save_keeps_current [OF assms(1,2) that] save_by_vector_ok(1) [OF assms(1) that(1)] mark_indexed_ok(1) mark_indexed_current by blast
  show ?thesis
    using assms store by (auto simp: reembed_entry_def Let_def split: option.split sum.split)
qed

lemma update_text_ok:
  assumes "jdb_ok db" and "emb_current x s c db" and "update_text x s c i content reasoning mode date tags db = Inr (d, db1)"
  shows "jdb_ok db1" "emb_current x s c db1" "others (gs_user s) db1 = others (gs_user s) db"
proof -
  obtain db0 where u: "update_entry s (te_aead x) c (te_now x 0) (te_rnd x 0) (te_rnd x 1) i (map_option text_of content)
              (map_option text_of reasoning) mode date (map_option (map text_of) tags) db = Inr db0" and "db1 = db0"
    using assms(3) by (auto simp: update_text_def res_simps split: if_splits)
  with update_entry_ok [OF assms(1) u] update_keeps_current [OF assms(1,2) u refl]
  show "jdb_ok db1" "emb_current x s c db1" "others (gs_user s) db1 = others (gs_user s) db" by simp_all
qed

text \<open>
  Property C18.  Changing an entry never leaves a vector of its old text in the index.  Suppose that
  every stored vector of the user's live entries is the one of the text the entry has, and that the
  other connections keep it so between the two transactions of a call.  Then it is so again after
  an update, whatever the arguments, the outcome of the call and the point at which the embedding
  fails, even if the entry is changed by others in between; and the same holds of a deletion.
\<close>

theorem update_tool_keeps_vectors:
  assumes "jdb_ok db" and "emb_current x s c db" and "te_user x = Some s" and "te_cipher x = Some c"
    and "\<And>d. jdb_ok d \<Longrightarrow> emb_current x s c d \<Longrightarrow> jdb_ok (te_meanwhile x 1 d) \<and> emb_current x s c (te_meanwhile x 1 d)"
  shows "emb_current x s c (snd (journal_update_entry x i content reasoning mode date tags db)) \<and>
    emb_current x s c (snd (journal_delete_entry x i db))"
proof
  show "emb_current x s c (snd (journal_delete_entry x i db))"
  proof (cases "delete_entry s (te_now x 0) i db")
    case (Inl e)
    then show ?thesis using assms(2,3) by (cases e) (simp_all add: journal_delete_entry_def)
  next
    case (Inr r)
    obtain t db1 where "delete_entry s (te_now x 0) i db = Inr (t, db1)" using Inr by (cases r) auto
    then show ?thesis using delete_keeps_current [OF assms(2)] assms(3) by (simp add: journal_delete_entry_def)
  qed
  show "emb_current x s c (snd (journal_update_entry x i content reasoning mode date tags db))"
  proof (cases "accept_update content reasoning")
    case (Inl e)
    then show ?thesis using assms(2) by (simp add: journal_update_entry_def)
  next
    case (Inr texts)
    obtain content' reasoning' where texts: "accept_update content reasoning = Inr (content', reasoning')" using Inr by (cases texts) auto
    obtain tags' dropped where tags': "clean_tags tags = (tags', dropped)" by (cases "clean_tags tags") auto
    show ?thesis
    proof (cases "update_text x s c i content' reasoning' mode date tags' db")
      case (Inl e)
      then show ?thesis using assms(2,3,4) texts tags' by (cases e) (simp_all add: journal_update_entry_def Let_def)
    next
      case (Inr r)
      obtain d db1 where run: "update_text x s c i content' reasoning' mode date tags' db = Inr (d, db1)" using Inr by (cases r) auto
      note ok = update_text_ok [OF assms(1,2) run]
      have "emb_current x s c (reembed_entry x s c i t db1)" for t
        using reembed_keeps [OF _ _ ok(1,2)] assms(5) [OF ok(1,2)] by blast
      then show ?thesis using assms(2,3,4) texts tags' run ok(2)
        by (auto simp: journal_update_entry_def Let_def split: option.split sum.split)
    qed
  qed
qed

section \<open>What an append stores\<close>

lemma append_tool_Ok:
  assumes "journal_append_entry x topic content reasoning tags date db = (ToolOk r, db')"
    and "te_user x = Some s" and "te_cipher x = Some c"
  obtains path c' r' ts n day i db1 embedded db2 where "validate_topic topic = Inr path" "accept_append content reasoning = Inr (c', r')"
    "clean_tags tags = (ts, n)" "\<not> bad_date date" "(case non_empty date of None \<Rightarrow> te_today x | Some d \<Rightarrow> Inr d) = Inr day"
    "append_entry s (te_aead x) c (te_now x 0) \<lparr>dyear = 1, dmonth = 1, dday = 1\<rparr> (te_rnd x 0) (te_rnd x 1) path (text_of c')
       (map_option text_of r') (map_option (map text_of) ts) (Some day) db = Inr (i, db1)"
    "embed_entry x s 1 i (text_of c') db1 = (embedded, db2)" "embedded \<longrightarrow> \<not> te_fault x 2"
    "db' = (if embedded then mark_indexed s (te_now x 2) i (te_meanwhile x 2 db2) else db2)"
    "ey_entry r = i" "ey_topic r = Some path" "ey_date r = Some day" "ey_dropped r = n"
proof -
  obtain path where path: "validate_topic topic = Inr path" using assms(1) by (auto simp: journal_append_entry_def split: sum.splits)
  obtain c' r' where texts: "accept_append content reasoning = Inr (c', r')" using assms(1) path by (auto simp: journal_append_entry_def split: sum.splits)
  obtain ts n where tags: "clean_tags tags = (ts, n)" by (cases "clean_tags tags") auto
  have date: "\<not> bad_date date" using assms(1) path texts tags by (auto simp: journal_append_entry_def Let_def)
  note run = assms(1) [unfolded journal_append_entry_def path texts tags assms(2,3) sum.case prod.case option.case Let_def if_not_P [OF date]]
  obtain day where day: "(case non_empty date of None \<Rightarrow> te_today x | Some d \<Rightarrow> Inr d) = Inr day" using run by (auto split: sum.splits)
  note run = run [unfolded day sum.case]
  let ?append = "append_entry s (te_aead x) c (te_now x 0) \<lparr>dyear = 1, dmonth = 1, dday = 1\<rparr> (te_rnd x 0) (te_rnd x 1) path (text_of c')
       (map_option text_of r') (map_option (map text_of) ts) (Some day) db"
  obtain i db1 where append: "?append = Inr (i, db1)"
  proof (cases ?append)
    case (Inl e)
    with run show ?thesis by (cases e) simp_all
  next
    case (Inr q)
    with that show ?thesis by (cases q) simp
  qed
  obtain embedded db2 where embed: "embed_entry x s 1 i (text_of c') db1 = (embedded, db2)" by (cases "embed_entry x s 1 i (text_of c') db1") auto
  note run = run [unfolded append sum.case prod.case embed]
  have live: "embedded \<longrightarrow> \<not> te_fault x 2" using run by (auto split: if_splits)
  show ?thesis
    by (rule that [OF path texts tags date day append embed live]) (use run live in \<open>auto split: if_splits sum.splits\<close>)
qed

lemma accept_append_Inr:
  assumes "accept_append content reasoning = Inr (c', r')"
  shows "c' = filter (\<lambda>ch. \<not> control_chars ch) content" "\<not> blank c'" "\<not> has_tool_call c'" "length c' \<le> 1000"
    "r' = map_option (filter (\<lambda>ch. \<not> control_chars ch)) reasoning" "\<not> has_tool_call (case_option [] id r')"
proof -
  have clean: "sanitize_freetext t FREETEXT_LEN = filter (\<lambda>ch. \<not> control_chars ch) t" if "length t \<le> 5000" for t
    unfolding sanitize_freetext_def using that length_filter_le [of "\<lambda>ch. \<not> control_chars ch" t] by (intro py_head_short) linarith
  have tool: "reject_tool_call_syntax t = Inr u \<Longrightarrow> \<not> has_tool_call t" for t u
    using reject_tool_call_iff [of t] by auto
  have len: "length content \<le> 1000" "\<forall>r. reasoning = Some r \<longrightarrow> length r \<le> 5000"
    using assms by (auto simp: accept_append_def MAX_ENTRY_CONTENT_CHARS_def MAX_ENTRY_REASONING_CHARS_def split: if_splits option.splits)
  have c': "c' = sanitize_freetext content FREETEXT_LEN" "\<not> blank c'" "reject_tool_call_syntax c' = Inr ()"
    using assms by (auto simp: accept_append_def Let_def split: if_splits option.splits sum.splits)
  then show "c' = filter (\<lambda>ch. \<not> control_chars ch) content" "\<not> blank c'" "\<not> has_tool_call c'"
    using clean len tool by auto
  then show "length c' \<le> 1000" using len(1) length_filter_le order_trans by blast
  have r': "r' = (case non_empty reasoning of None \<Rightarrow> reasoning | Some r \<Rightarrow> Some (sanitize_freetext r FREETEXT_LEN))"
      "\<forall>r. non_empty reasoning = Some r \<longrightarrow> reject_tool_call_syntax (sanitize_freetext r FREETEXT_LEN) = Inr ()"
    using assms by (auto simp: accept_append_def Let_def split: if_splits option.splits sum.splits)
  show "r' = map_option (filter (\<lambda>ch. \<not> control_chars ch)) reasoning"
    using r'(1) len(2) clean by (auto simp: non_empty_def split: option.splits if_splits)
  show "\<not> has_tool_call (case_option [] id r')"
  proof (cases "non_empty reasoning")
    case None
    then have "case_option [] id r' = []" using r'(1) by (auto simp: non_empty_def split: if_splits option.splits)
    moreover have "\<not> has_tool_call []" by (simp add: has_tool_call_def)
    ultimately show ?thesis by simp
  next
    case (Some r)
    with r' tool show ?thesis by auto
  qed
qed

lemma save_new_vector:
  assumes "live_entry s i db = Some e" and "\<forall>b \<in> set (embs db). em_entry b \<noteq> i"
  shows "save_by_vector s now i v db = Inr (db\<lparr>embs := embs db @ [\<lparr>em_entry = i, em_vec = v, em_indexed = now, em_user = gs_user s\<rparr>]\<rparr>)"
proof -
  have "e \<in> set (entries db)" "en_id e = i" "en_user e = gs_user s" "gs_active s"
    using assms(1) by (auto simp: live_entry_def vis_def dest: sql_first_SomeD)
  moreover have "sql_delete (\<lambda>b. em_entry b = i) (embs db) = embs db" using assms(2) by (simp add: sql_delete_def filter_id_conv)
  ultimately show ?thesis
    using assms(2) by (auto simp: save_by_vector_def list_ex_iff sql_upsert_def sql_insert_def)
qed

lemma get_text_mark_indexed:
  "jdb_ok db \<Longrightarrow> get_text s a c i (mark_indexed s' now j db) = get_text s a c i db"
proof -
  assume ok: "jdb_ok db"
  let ?f = "\<lambda>e. if vis s' (en_user e) \<and> en_id e = j then e\<lparr>en_indexed := Some now\<rparr> else e"
  have rows: "entries (mark_indexed s' now j db) = map ?f (entries db)" by (simp add: mark_indexed_def sql_update_def)
  have ok': "jdb_ok (mark_indexed s' now j db)" using mark_indexed_ok(1) [OF ok] .
  show ?thesis
  proof (cases "live_entry s i db")
    case None
    then have "live_entry s i (mark_indexed s' now j db) = None"
      by (auto simp: live_entry_def sql_first_None rows)
    with None show ?thesis by (simp add: get_text_def)
  next
    case (Some e)
    then have "live_entry s i (mark_indexed s' now j db) = Some (?f e)"
      unfolding live_entry_iff [OF ok] live_entry_iff [OF ok'] rows by auto
    with Some show ?thesis by (simp add: get_text_def)
  qed
qed

text \<open>
  Property C17.  What a successful \<open>journal_append_entry\<close> leaves behind when nothing else runs: exactly
  one new row, in the topic named, under a fresh id, from which \<open>get_text\<close> reads back the text
  without its control characters, which is not blank and holds no tool-call syntax; and, exactly when
  the model gave an embedding and its transaction went through, exactly one new vector, the one of
  the content alone, and the row is marked as indexed.
\<close>

theorem append_tool_stores:
  assumes "jdb_ok db" and "cipher_ok (te_aead x) c" and "length (te_rnd x 0) = 11" and "length (te_rnd x 1) = 11"
    and "te_user x = Some s" and "te_cipher x = Some c" and "\<And>k d. te_meanwhile x k d = d"
    and "journal_append_entry x topic content reasoning tags date db = (ToolOk r, db')"
  shows "let clean = filter (\<lambda>ch. \<not> control_chars ch); i = ey_entry r in
    \<exists>e t. validate_topic topic = Inr t \<and> ey_topic r = Some t \<and> get_id s t db = Inr (en_topic e) \<and>
      entries db' = entries db @ [e] \<and> en_id e = i \<and> i \<notin> en_id ` set (entries db) \<and>
      get_text s (te_aead x) c i db' = Inr (Some (Some (text_of (clean content)), map_option (\<lambda>q. text_of (clean q)) reasoning)) \<and>
      \<not> blank (clean content) \<and> \<not> has_tool_call (clean content) \<and> \<not> has_tool_call (case_option [] clean reasoning) \<and>
      (case te_encode x (text_of (clean content)) of
         None \<Rightarrow> embs db' = embs db \<and> en_indexed e = None
       | Some v \<Rightarrow>
           if te_fault x 1 then embs db' = embs db \<and> en_indexed e = None
           else embs db' = embs db @ [\<lparr>em_entry = i, em_vec = v, em_indexed = te_now x 1, em_user = gs_user s\<rparr>] \<and>
             en_indexed e = Some (te_now x 2))"
proof -
  obtain path c' r' ts n day i db1 embedded db2 where f: "validate_topic topic = Inr path" "accept_append content reasoning = Inr (c', r')"
    "append_entry s (te_aead x) c (te_now x 0) \<lparr>dyear = 1, dmonth = 1, dday = 1\<rparr> (te_rnd x 0) (te_rnd x 1) path (text_of c')
       (map_option text_of r') (map_option (map text_of) ts) (Some day) db = Inr (i, db1)"
    "embed_entry x s 1 i (text_of c') db1 = (embedded, db2)"
    "db' = (if embedded then mark_indexed s (te_now x 2) i db2 else db2)" "ey_entry r = i" "ey_topic r = Some path"
    using assms(8,5,6) by (rule append_tool_Ok) (simp add: assms(7))
  note texts = accept_append_Inr [OF f(2)]
  note stored = append_entry_stored [OF assms(1-4) f(3)]
  have ok1: "jdb_ok db1" using append_entry_ok [OF assms(1) f(3)] by simp
  from stored obtain e where e: "entries db1 = entries db @ [e]" "en_id e = i" "i \<notin> en_id ` set (entries db)" "embs db1 = embs db" by blast
  have "\<exists>e. live_entry s i db1 = Some e" using stored by (auto simp: get_text_def split: option.splits)
  then obtain e0 where e0: "live_entry s i db1 = Some e0" ..
  have same: "e0 = e"
    using e0 e(1-3) unfolding live_entry_iff [OF ok1] by (auto simp: image_iff)
  with e0 have live: "live_entry s i db1 = Some e" by simp
  then have visible: "vis s (en_user e)" by (simp add: live_entry_iff [OF ok1])
  have reads: "get_text s (te_aead x) c i db1 = Inr (Some (Some (text_of c'), map_option text_of r'))"
    and row: "get_id s path db = Inr (en_topic e)" "en_indexed e = None" using stored live by blast+
  have fresh: "\<forall>b \<in> set (embs db1). em_entry b \<noteq> i"
    using assms(1) e(3,4) by (force simp: jdb_ok_def embs_ok_def entry_keys_def)
  let ?new = "\<lambda>v. \<lparr>em_entry = i, em_vec = v, em_indexed = te_now x 1, em_user = gs_user s\<rparr>"
  have saved: "save_by_vector s (te_now x 1) i v db1 = Inr (db1\<lparr>embs := embs db @ [?new v]\<rparr>)" for v
    using save_new_vector [OF live fresh] e(4) by simp
  have unmarked: "sql_update (\<lambda>e. vis s (en_user e) \<and> en_id e = i) g (entries db) = entries db" for g
    using e(3) by (force simp: sql_update_def intro!: map_idI)
  define late where "late = (case te_encode x (text_of c') of None \<Rightarrow> None | Some v \<Rightarrow> if te_fault x 1 then None else Some v)"
  have "\<exists>e'. entries db' = entries db @ [e'] \<and> en_id e' = i \<and> en_topic e' = en_topic e \<and>
      get_text s (te_aead x) c i db' = get_text s (te_aead x) c i db1 \<and>
      (case late of None \<Rightarrow> embs db' = embs db \<and> en_indexed e' = None
       | Some v \<Rightarrow> embs db' = embs db @ [?new v] \<and> en_indexed e' = Some (te_now x 2))"
  proof (cases late)
    case None
    then have "(embedded, db2) = (False, db1)"
      using f(4) assms(7) by (auto simp: late_def embed_entry_def Let_def split: option.splits if_splits)
    then show ?thesis using None f(5) e row by simp
  next
    case (Some v)
    then have emb: "(embedded, db2) = (True, db1\<lparr>embs := embs db @ [?new v]\<rparr>)"
      using f(4) assms(7) saved by (auto simp: late_def embed_entry_def Let_def split: option.splits if_splits)
    let ?db2 = "db1\<lparr>embs := embs db @ [?new v]\<rparr>"
    have ok2: "jdb_ok ?db2" using save_by_vector_ok(1) [OF ok1 saved] .
    have "entries db' = entries db @ [e\<lparr>en_indexed := Some (te_now x 2)\<rparr>]"
      using emb f(5) e(1,2) unmarked visible by (simp add: mark_indexed_def sql_update_def)
    moreover have "get_text s (te_aead x) c i db' = get_text s (te_aead x) c i ?db2"
      using emb f(5) get_text_mark_indexed [OF ok2] by simp
    moreover have "get_text s (te_aead x) c i ?db2 = get_text s (te_aead x) c i db1" by (simp add: get_text_def live_entry_def)
    moreover have "embs db' = embs db @ [?new v]" using emb f(5) by (simp add: mark_indexed_def)
    ultimately show ?thesis using Some e(2) by (intro exI [of _ "e\<lparr>en_indexed := Some (te_now x 2)\<rparr>"]) simp
  qed
  then obtain e' where e': "entries db' = entries db @ [e']" "en_id e' = i" "en_topic e' = en_topic e"
      "get_text s (te_aead x) c i db' = get_text s (te_aead x) c i db1"
      "case late of None \<Rightarrow> embs db' = embs db \<and> en_indexed e' = None
       | Some v \<Rightarrow> embs db' = embs db @ [?new v] \<and> en_indexed e' = Some (te_now x 2)" by blast
  have "map_option text_of r' = map_option (\<lambda>q. text_of (filter (\<lambda>ch. \<not> control_chars ch) q)) reasoning"
    "case_option [] id r' = case_option [] (filter (\<lambda>ch. \<not> control_chars ch)) reasoning"
    using texts(5) by (cases reasoning; simp)+
  then show ?thesis
    unfolding Let_def f(6)
    by (intro exI [of _ e'] exI [of _ path] conjI)
       (use f(1,7) row(1) e' e(3) reads texts in \<open>auto simp: late_def split: option.splits if_splits\<close>)
qed

text \<open>An environment for the witnesses: the owner of the sample journal, and the length as embedding.\<close>

definition demo_tool :: tool_env where
  "demo_tool =
     \<lparr>te_user = Some demo_session, te_aead = demo_aead, te_cipher = Some demo_cipher, te_now = (\<lambda>k. 50 + int k),
      te_rnd = (\<lambda>k. replicate 11 0), te_today = Inr ''2026-01-09'', te_is_future = (\<lambda>d. Inr False),
      te_encode = (\<lambda>t. Some [of_nat (length t)]), te_meanwhile = (\<lambda>k d. d), te_fault = (\<lambda>k. False)\<rparr>"

definition demo_indexed :: "(bytes \<times> bytes) \<Rightarrow> jdb" where
  "demo_indexed y = sample_jdb\<lparr>
     entries := [\<lparr>en_id = 1, en_topic = 1, en_date = \<lparr>dyear = 2026, dmonth = 1, dday = 2\<rparr>, en_conv = Some 1, en_tags = [], en_created = 8, en_updated = 8,
                en_deleted = None, en_indexed = Some 9, en_user = 7, en_content = y, en_reasoning = None, en_search = None\<rparr>],
     embs := [\<lparr>em_entry = 1, em_vec = [2], em_indexed = 9, em_user = 7\<rparr>]\<rparr>"

lemma demo_indexed_current: "jdb_ok (demo_indexed y)"
  "open_column demo_aead demo_cipher (Some y) = Inr (Some [104, 105]) \<Longrightarrow> emb_current demo_tool demo_session demo_cipher (demo_indexed y)"
proof -
  show "jdb_ok (demo_indexed y)"
    by (simp add: jdb_ok_def topics_ok_def convs_ok_def entries_ok_def embs_ok_def msgs_ok_def topic_keys_def
        conv_keys_def entry_keys_def demo_indexed_def sample_jdb_def empty_jdb_def unique_key_def)
  have "text_strip [104, 105, 32] = [104, 105]" "open_column demo_aead demo_cipher None = Inr None" 
    by (simp_all add: text_strip_def is_white_def open_column_def decrypt_content_field_def)
  then show "emb_current demo_tool demo_session demo_cipher (demo_indexed y)" if "open_column demo_aead demo_cipher (Some y) = Inr (Some [104, 105])"
    using that by (simp add: emb_current_def demo_indexed_def demo_tool_def row_text_def embed_text_def res_simps)
qed

theorem update_tool_keeps_vectors_witness:
  "\<exists>y. emb_current demo_tool demo_session demo_cipher (demo_indexed y) \<and> embs (demo_indexed y) \<noteq> [] \<and>
     emb_current demo_tool demo_session demo_cipher (snd (journal_update_entry demo_tool 1 (Some ''yes'') None ''replace'' None None (demo_indexed y))) \<and>
     emb_current demo_tool demo_session demo_cipher (snd (journal_delete_entry demo_tool 1 (demo_indexed y)))"
proof -
  obtain y where y: "encrypt demo_aead demo_cipher (replicate 11 0) [104, 105] = Inr y"
    by (simp add: demo_encrypt [OF utf8_hi])
  have "open_column demo_aead demo_cipher (Some y) = Inr (Some [104, 105])"
    by (rule seal_open_column [OF demo_cipher_ok _ y]) simp
  note cur = demo_indexed_current(2) [OF this]
  have env: "te_user demo_tool = Some demo_session" "te_cipher demo_tool = Some demo_cipher" "te_meanwhile demo_tool 1 d = d" for d
    by (simp_all add: demo_tool_def)
  from update_tool_keeps_vectors [OF demo_indexed_current(1) cur env(1,2), of 1 "Some ''yes''" None "''replace''" None None] env(3) cur
  show ?thesis by (intro exI [of _ y]) (auto simp: demo_indexed_def)
qed

theorem append_tool_stores_witness:
  "\<exists>r db'. journal_append_entry demo_tool ''work'' ''hi'' None None None sample_jdb = (ToolOk r, db') \<and> length (entries db') = 4 \<and> length (embs db') = 2"
proof -
  have v: "validate_topic ''work'' = Inr ''work''" by code_simp
  have "reject_tool_call_syntax ''hi'' = Inr ()" "\<not> blank ''hi''" "filter (\<lambda>ch. \<not> control_chars ch) ''hi'' = ''hi''" by code_simp+
  then have "accept_append ''hi'' None = Inr (''hi'', None)"
    by (simp add: accept_append_def MAX_ENTRY_CONTENT_CHARS_def sanitize_freetext_def py_head_short non_empty_def)
  note v = v this
  have text_hi: "text_of ''hi'' = [104, 105]" by code_simp
  have "get_id demo_session ''work'' sample_jdb = Inr 1" "date_fromisoformat ''2026-01-09'' = Some \<lparr>dyear = 2026, dmonth = 1, dday = 9\<rparr>" by code_simp+
  then have "\<exists>i db1. append_entry demo_session demo_aead demo_cipher 50 \<lparr>dyear = 1, dmonth = 1, dday = 1\<rparr> (replicate 11 0) (replicate 11 0)
       ''work'' (text_of ''hi'') None None (Some ''2026-01-09'') sample_jdb = Inr (i, db1)"
    by (simp add: append_entry_def parse_date_def seal_opt_def insert_entry_def text_hi demo_encrypt [OF utf8_hi])
  then have "\<exists>r db'. journal_append_entry demo_tool ''work'' ''hi'' None None None sample_jdb = (ToolOk r, db')"
    by (auto simp: journal_append_entry_def v clean_tags_def bad_date_def future_note_def non_empty_def demo_tool_def Let_def
        missing_user_def split: prod.split)
  then obtain r db' where run: "journal_append_entry demo_tool ''work'' ''hi'' None None None sample_jdb = (ToolOk r, db')" by blast
  have "length (entries db') = 4 \<and> length (embs db') = 2"
    using append_tool_stores [OF sample_jdb_ok _ _ _ _ _ _ run, of demo_cipher demo_session]
    by (auto simp: demo_tool_def demo_cipher_ok sample_jdb_def empty_jdb_def Let_def)
  with run show ?thesis by blast
qed

section \<open>Refusals\<close>

text \<open>
  A structured error of the three tools that write means that nothing was written: the database is
  the one before the call.
\<close>

lemma append_error_db:
  assumes "journal_append_entry x topic content reasoning tags date db = (ToolError e, db')"
  shows "db' = db"
proof (rule ccontr)
  assume n: "db' \<noteq> db"
  obtain path where path: "validate_topic topic = Inr path" using assms n by (cases "validate_topic topic") (simp_all add: journal_append_entry_def)
  obtain c' r' where texts: "accept_append content reasoning = Inr (c', r')"
    using assms path n by (cases "accept_append content reasoning") (auto simp: journal_append_entry_def)
  obtain ts k where tags: "clean_tags tags = (ts, k)" by (cases "clean_tags tags") auto
  have date: "\<not> bad_date date" using assms path texts tags n by (auto simp: journal_append_entry_def Let_def)
  obtain s where s: "te_user x = Some s"
    using assms path texts tags date n by (cases "te_user x") (auto simp: journal_append_entry_def missing_user_def Let_def split: sum.splits)
  obtain c where c: "te_cipher x = Some c"
    using assms path texts tags date s n by (cases "te_cipher x") (auto simp: journal_append_entry_def no_cipher_def Let_def split: sum.splits)
  note run = assms [unfolded journal_append_entry_def path texts tags s c sum.case prod.case option.case Let_def if_not_P [OF date]]
  obtain day where day: "(case non_empty date of None \<Rightarrow> te_today x | Some d \<Rightarrow> Inr d) = Inr day" using run by (auto split: sum.splits)
  note run = run [unfolded day sum.case]
  let ?append = "append_entry s (te_aead x) c (te_now x 0) \<lparr>dyear = 1, dmonth = 1, dday = 1\<rparr> (te_rnd x 0) (te_rnd x 1) path (text_of c')
       (map_option text_of r') (map_option (map text_of) ts) (Some day) db"
  show False
  proof (cases ?append)
    case (Inl q)
    with run n show False by (cases q) simp_all
  next
    case (Inr q)
    with run n show False by (cases q) (auto split: prod.splits if_splits sum.splits)
  qed
qed

lemma update_error_db:
  assumes "journal_update_entry x i content reasoning mode date tags db = (ToolError e, db')"
  shows "db' = db"
proof (rule ccontr)
  assume n: "db' \<noteq> db"
  obtain c' r' where texts: "accept_update content reasoning = Inr (c', r')"
    using assms n by (cases "accept_update content reasoning") (auto simp: journal_update_entry_def)
  obtain ts k where tags: "clean_tags tags = (ts, k)" by (cases "clean_tags tags") auto
  note run = assms [unfolded journal_update_entry_def texts tags sum.case prod.case Let_def]
  have date: "\<not> bad_date date"
  proof
    assume "bad_date date"
    from run [unfolded if_P [OF this]] n show False by simp
  qed
  note run = run [unfolded if_not_P [OF date]]
  have changes: "\<not> (c' = None \<and> r' = None \<and> date = None \<and> ts = None)"
  proof
    assume "c' = None \<and> r' = None \<and> date = None \<and> ts = None"
    from run [unfolded if_P [OF this]] n show False by simp
  qed
  note run = run [unfolded if_not_P [OF changes]]
  obtain s c where env: "te_user x = Some s" "te_cipher x = Some c"
    using run n by (cases "te_user x"; cases "te_cipher x") (simp_all add: missing_user_def no_cipher_def)
  note run = run [unfolded env option.case]
  show False
  proof (cases "update_text x s c i c' r' mode date ts db")
    case (Inl q)
    with run n show False by (cases q) simp_all
  next
    case (Inr q)
    with run n show False by (cases q) (auto split: sum.splits)
  qed
qed

lemma delete_error_db:
  assumes "journal_delete_entry x i db = (ToolError e, db')"
  shows "db' = db"
proof (cases "te_user x")
  case None
  with assms show ?thesis by (simp add: journal_delete_entry_def missing_user_def)
next
  case (Some s)
  show ?thesis
  proof (cases "delete_entry s (te_now x 0) i db")
    case (Inl q)
    with assms Some show ?thesis by (cases q) (simp_all add: journal_delete_entry_def)
  next
    case (Inr q)
    with assms Some show ?thesis by (cases q) (simp add: journal_delete_entry_def)
  qed
qed

lemmas tool_error_db = append_error_db update_error_db delete_error_db

end
