(* ===== verification/ToolConversations.thy ===== *)
theory ToolConversations
  imports ToolEntries
begin

text \<open>
  The MCP tools on conversations and topics (\<open>gubbi/tools/conversations.py\<close>, \<open>topics.py\<close>), in the
  surroundings \<open>tool_env\<close> of the entry tools.

  A message comes in with its role, its text and, if there is one, the text of its timestamp; the
  framework has checked that these are strings.
\<close>

section \<open>Saving\<close>

definition MAX_MSG_CHARS :: nat where "MAX_MSG_CHARS = 20000"
definition MAX_MESSAGES_PER_CONVERSATION :: nat where "MAX_MESSAGES_PER_CONVERSATION = 1000"
definition MAX_CONVERSATIONS_RESULTS :: int where "MAX_CONVERSATIONS_RESULTS = 20"
definition MAX_CONVERSATION_MESSAGES :: int where "MAX_CONVERSATION_MESSAGES = 100"
definition LIST_SUMMARY_PREVIEW_CHARS :: nat where "LIST_SUMMARY_PREVIEW_CHARS = 400"
definition MAX_TOPICS_RESULTS :: int where "MAX_TOPICS_RESULTS = 20"
definition KEEP_ROLES :: "string set" where "KEEP_ROLES = {''user'', ''assistant''}"

record message_input =
  mi_role :: string
  mi_content :: string
  mi_timestamp :: "string option"

definition keepable :: "message_input list \<Rightarrow> message_input list" where
  "keepable ms = filter (\<lambda>m. mi_role m \<in> KEEP_ROLES) ms"

definition message_text :: "message_input \<Rightarrow> string" where
  "message_text m = take MAX_MSG_CHARS (sanitize_freetext (mi_content m) FREETEXT_LEN)"

definition parse_messages :: "message_input list \<Rightarrow> message_input list" where
  "parse_messages ms = map (\<lambda>m. m\<lparr>mi_content := message_text m\<rparr>) (filter (\<lambda>m. \<not> blank (mi_content m)) (keepable ms))"

definition as_message :: "message_input \<Rightarrow> message" where
  "as_message m = \<lparr>ms_role = mi_role m, ms_content = text_of (mi_content m), ms_timestamp = mi_timestamp m, ms_failed = False\<rparr>"

text \<open>The checks of the messages, and the number of those dropped as empty.\<close>

definition accept_messages :: "message_input list \<Rightarrow> error_result + (message_input list \<times> nat)" where
  "accept_messages messages =
     (if length messages > MAX_MESSAGES_PER_CONVERSATION then Inl (validation_error ''Too many messages'')
      else let parsed = parse_messages messages in
        if list_ex (\<lambda>m. reject_tool_call_syntax (mi_content m) \<noteq> Inr ()) parsed then Inl (validation_error ''Message content'')
        else if parsed = [] then Inl (validation_error ''No user/assistant messages found after filtering.'')
        else Inr (parsed, length (keepable messages) - length parsed))"

record save_reply =
  sv_status :: string
  sv_conv :: int
  sv_summary :: ptext
  sv_topic :: string
  sv_title :: string
  sv_tags_dropped :: nat
  sv_empty_dropped :: nat

text \<open>Storing the vector of the linked entry; a failure of any kind is logged and passed over.\<close>

definition embed_linked :: "tool_env \<Rightarrow> session \<Rightarrow> int \<Rightarrow> ptext \<Rightarrow> jdb \<Rightarrow> jdb" where
  "embed_linked x s entry_id linked_content db =
     (case te_encode x linked_content of
        None \<Rightarrow> db
      | Some v \<Rightarrow>
          (let db1 = te_meanwhile x 1 db in
           if te_fault x 1 then db1
           else case save_by_vector s (te_now x 1) entry_id v db1 of
             Inl e \<Rightarrow> db1
           | Inr db2 \<Rightarrow> mark_indexed s (te_now x 1) entry_id db2))"

definition journal_save_conversation ::
  "tool_env \<Rightarrow> string \<Rightarrow> string \<Rightarrow> string \<Rightarrow> message_input list \<Rightarrow> string \<Rightarrow> string \<Rightarrow> string list option \<Rightarrow> string option \<Rightarrow>
   jdb \<Rightarrow> archive \<Rightarrow> save_reply tool_reply \<times> jdb \<times> archive" where
  "journal_save_conversation x uuid topic title messages summary source tags date db files =
     (case validate_topic topic of
        Inl e \<Rightarrow> (ToolError (invalid_topic topic ''Invalid topic path''), db, files)
      | Inr path \<Rightarrow>
     (case validate_title title of
        Inl e \<Rightarrow> (ToolError (validation_error ''title''), db, files)
      | Inr title \<Rightarrow>
     (let source = sanitize_label source LABEL_LEN; summary = sanitize_freetext summary FREETEXT_LEN in
      case reject_tool_call_syntax summary of
        Inl e \<Rightarrow> (ToolError (validation_error ''tool call syntax''), db, files)
      | Inr _ \<Rightarrow>
     (let (tags, tags_dropped) = clean_tags tags in
      if bad_date date then (ToolError (invalid_date (the date)), db, files)
      else case (case non_empty date of None \<Rightarrow> te_today x | Some d \<Rightarrow> Inr d) of
        Inl e \<Rightarrow> (ToolRaised (JValueError ''local_today''), db, files)
      | Inr day \<Rightarrow>
     (case accept_messages messages of
        Inl e \<Rightarrow> (ToolError e, db, files)
      | Inr (parsed, empty_dropped) \<Rightarrow>
     (case te_user x of
        None \<Rightarrow> (missing_user, db, files)
      | Some s \<Rightarrow>
     (case te_cipher x of
        None \<Rightarrow> (no_cipher, db, files)
      | Some c \<Rightarrow>
     (case save_conversation s (te_aead x) c (te_now x 0) \<lparr>dyear = 1, dmonth = 1, dday = 1\<rparr> (te_rnd x) uuid path title
             (map as_message parsed) (text_of summary) source (map_option (map text_of) tags) (Some day) db files of
        (Inl (TopicNotFound t), files1) \<Rightarrow> (ToolError (not_found ''Topic'' path), db, files1)
      | (Inl e, files1) \<Rightarrow> (ToolRaised e, db, files1)
      | (Inr (r, db1), files1) \<Rightarrow>
          (let files2 = (case sr_superseded r of None \<Rightarrow> files1 | Some p \<Rightarrow> delete_superseded_json_archive p files1);
               db2 = embed_linked x s (sr_entry r) (linked_text title (text_of summary)) db1
           in (ToolOk \<lparr>sv_status = (if sr_is_update r then ''updated'' else ''saved''), sv_conv = sr_id r, sv_summary = sr_summary r,
                       sv_topic = path, sv_title = title, sv_tags_dropped = tags_dropped, sv_empty_dropped = empty_dropped\<rparr>,
               db2, files2))))))))))"

section \<open>Listing and reading\<close>

definition clean_prefix_arg :: "string option \<Rightarrow> string option" where
  "clean_prefix_arg p = (case non_empty p of None \<Rightarrow> p | Some q \<Rightarrow> non_empty (Some (py_rstrip (\<lambda>ch. ch = CHR ''/'') q)))"

definition checked_prefix :: "string option \<Rightarrow> error_result + string option" where
  "checked_prefix p =
     (let q = clean_prefix_arg p in
      case non_empty q of
        None \<Rightarrow> Inr q
      | Some t \<Rightarrow> (case validate_topic t of Inl e \<Rightarrow> Inl (invalid_topic t ''Invalid topic path'') | Inr path \<Rightarrow> Inr (Some path)))"

record list_reply =
  ls_convs :: "(conv_meta \<times> bool) list"
  ls_total :: nat
  ls_limit :: int
  ls_offset :: int

definition shorten_summary :: "conv_meta \<Rightarrow> conv_meta \<times> bool" where
  "shorten_summary m =
     (if length (cm_summary m) > LIST_SUMMARY_PREVIEW_CHARS
      then (m\<lparr>cm_summary := take LIST_SUMMARY_PREVIEW_CHARS (cm_summary m)\<rparr>, True) else (m, False))"

definition journal_list_conversations ::
  "tool_env \<Rightarrow> (list_reply \<Rightarrow> nat option) \<Rightarrow> string option \<Rightarrow> int \<Rightarrow> int \<Rightarrow> jdb \<Rightarrow> list_reply tool_reply" where
  "journal_list_conversations x json_size topic_prefix limit offset db =
     (let limit = max 1 (min limit MAX_CONVERSATIONS_RESULTS); offset = max 0 offset in
      case checked_prefix topic_prefix of
        Inl e \<Rightarrow> ToolError e
      | Inr prefix \<Rightarrow> (case te_user x of
          None \<Rightarrow> missing_user
        | Some s \<Rightarrow> (case te_cipher x of
            None \<Rightarrow> no_cipher
          | Some c \<Rightarrow> (case list_conversations s (te_aead x) c prefix (Some limit) offset False db of
              Inl e \<Rightarrow> ToolRaised e
            | Inr (metas, n) \<Rightarrow>
                sized json_size (\<lambda>r. DictPayload [(''conversations'', Some (length (ls_convs r)))])
                  \<lparr>ls_convs = map shorten_summary metas, ls_total = n, ls_limit = limit, ls_offset = offset\<rparr>))))"

text \<open>\<open>_format_messages_as_markdown\<close>.\<close>

definition message_part :: "message \<Rightarrow> ptext" where
  "message_part m =
     text_of ''---'' @ [10, 10] @ text_of ''### '' @ text_of (if ms_role m = ''user'' then ''User'' else ''Assistant'') @
     (case non_empty (ms_timestamp m) of None \<Rightarrow> [] | Some t \<Rightarrow> text_of '' ('' @ text_of t @ text_of '')'') @ [10, 10] @ ms_content m"

definition format_messages_as_markdown :: "ptext \<Rightarrow> message list \<Rightarrow> ptext" where
  "format_messages_as_markdown title messages =
     (text_of ''# '' @ title @ [10]) @ concat (map (\<lambda>m. [10, 10] @ message_part m) messages)"

record conversation_reply =
  cr_meta :: conv_meta
  cr_content :: ptext
  cr_preview :: bool
  cr_shown :: nat
  cr_total :: nat

definition journal_read_conversation ::
  "tool_env \<Rightarrow> (conversation_reply \<Rightarrow> nat option) \<Rightarrow> int \<Rightarrow> bool \<Rightarrow> int \<Rightarrow> int \<Rightarrow> jdb \<Rightarrow> conversation_reply tool_reply" where
  "journal_read_conversation x json_size conversation_id preview messages_limit messages_offset db =
     (case te_user x of
        None \<Rightarrow> missing_user
      | Some s \<Rightarrow> (case te_cipher x of
          None \<Rightarrow> no_cipher
        | Some c \<Rightarrow>
            (case (if preview then read_conversation_by_id s (te_aead x) c conversation_id True db
                   else read_conversation_by_id_paginated s (te_aead x) c conversation_id
                     (max 1 (min messages_limit MAX_CONVERSATION_MESSAGES)) (max 0 messages_offset) False db) of
               Inl ConversationNotFound \<Rightarrow> ToolError (not_found ''Conversation'' (dec_int conversation_id))
             | Inl e \<Rightarrow> ToolRaised e
             | Inr (meta, messages, amount) \<Rightarrow>
                 sized json_size (\<lambda>r. DictPayload [])
                   \<lparr>cr_meta = meta, cr_content = format_messages_as_markdown (cm_title meta) messages, cr_preview = preview,
                    cr_shown = length messages, cr_total = amount\<rparr>)))"

section \<open>Topics\<close>

record topics_reply =
  tr_topics :: "topic_meta list"
  tr_total :: nat
  tr_limit :: int
  tr_offset :: int

definition journal_list_topics ::
  "tool_env \<Rightarrow> (topics_reply \<Rightarrow> nat option) \<Rightarrow> string option \<Rightarrow> int \<Rightarrow> int \<Rightarrow> jdb \<Rightarrow> topics_reply tool_reply" where
  "journal_list_topics x json_size topic_prefix limit offset db =
     (let limit = max 1 (min limit MAX_TOPICS_RESULTS); offset = max 0 offset in
      case checked_prefix topic_prefix of
        Inl e \<Rightarrow> ToolError e
      | Inr prefix \<Rightarrow> (case te_user x of
          None \<Rightarrow> missing_user
        | Some s \<Rightarrow> (case list_all_topics s prefix (Some (nat limit)) (nat offset) db of
            Inl e \<Rightarrow> ToolRaised e
          | Inr (ts, n) \<Rightarrow>
              sized json_size (\<lambda>r. DictPayload [(''topics'', Some (length (tr_topics r)))])
                \<lparr>tr_topics = ts, tr_total = n, tr_limit = limit, tr_offset = offset\<rparr>)))"

record topic_reply =
  tp_reply_path :: string
  tp_reply_id :: int
  tp_reply_from :: "string option"

definition journal_create_topic :: "tool_env \<Rightarrow> string \<Rightarrow> string \<Rightarrow> string \<Rightarrow> jdb \<Rightarrow> topic_reply tool_reply \<times> jdb" where
  "journal_create_topic x topic title description db =
     (case validate_topic topic of
        Inl e \<Rightarrow> (ToolError (invalid_topic topic ''Invalid topic path''), db)
      | Inr path \<Rightarrow>
          (let title = sanitize_label title 100 in
           if title = [] then (ToolError (validation_error ''title cannot be empty after sanitization''), db)
           else let description = (if description = [] then [] else sanitize_freetext description 500) in
             case te_user x of
               None \<Rightarrow> (missing_user, db)
             | Some s \<Rightarrow>
                 (case create_topic s (te_now x 0) path title description None db of
                    Inl (TopicAlreadyExists p) \<Rightarrow> (ToolError (already_exists path), db)
                  | Inl e \<Rightarrow> (ToolRaised e, db)
                  | Inr (i, db1) \<Rightarrow>
                      (ToolOk \<lparr>tp_reply_path = path, tp_reply_id = i, tp_reply_from = (if topic \<noteq> path then Some topic else None)\<rparr>, db1))))"

section \<open>What a saved conversation reads as\<close>

lemma embed_linked_frame:
  assumes "\<And>k d. te_meanwhile x k d = d"
  shows "convs (embed_linked x s i t db) = convs db" "topics (embed_linked x s i t db) = topics db" "msgs (embed_linked x s i t db) = msgs db"
  using assms by (auto simp: embed_linked_def Let_def save_by_vector_def mark_indexed_def split: option.split sum.split)

lemma save_tool_Ok:
  assumes "journal_save_conversation x uuid topic title messages summary source tags date db files = (ToolOk r, db', files')"
    and "te_user x = Some s" and "te_cipher x = Some c"
  obtains path title' summary' ts n day parsed k r0 db1 files1 where "validate_topic topic = Inr path" "validate_title title = Inr title'"
    "summary' = sanitize_freetext summary FREETEXT_LEN" "reject_tool_call_syntax summary' = Inr ()" "clean_tags tags = (ts, n)"
    "accept_messages messages = Inr (parsed, k)"
    "save_conversation s (te_aead x) c (te_now x 0) \<lparr>dyear = 1, dmonth = 1, dday = 1\<rparr> (te_rnd x) uuid path title'
       (map as_message parsed) (text_of summary') (sanitize_label source LABEL_LEN) (map_option (map text_of) ts) (Some day) db files = (Inr (r0, db1), files1)"
    "db' = embed_linked x s (sr_entry r0) (linked_text title' (text_of summary')) db1" "sv_conv r = sr_id r0" "sv_title r = title'"
proof -
  obtain path where path: "validate_topic topic = Inr path" using assms(1) by (auto simp: journal_save_conversation_def split: sum.splits)
  obtain title' where title: "validate_title title = Inr title'" using assms(1) path by (auto simp: journal_save_conversation_def split: sum.splits)
  let ?summary = "sanitize_freetext summary FREETEXT_LEN"
  obtain ts n where tags: "clean_tags tags = (ts, n)" by (cases "clean_tags tags") auto
  note run = assms(1) [unfolded journal_save_conversation_def path title tags assms(2,3) sum.case prod.case option.case Let_def]
  have summary: "reject_tool_call_syntax ?summary = Inr ()" using run by (auto split: sum.splits)
  note run = run [unfolded summary sum.case]
  have date: "\<not> bad_date date" using run by (auto split: if_splits)
  note run = run [unfolded if_not_P [OF date]]
  obtain day where day: "(case non_empty date of None \<Rightarrow> te_today x | Some d \<Rightarrow> Inr d) = Inr day" using run by (auto split: sum.splits)
  note run = run [unfolded day sum.case]
  obtain parsed k where ms: "accept_messages messages = Inr (parsed, k)" using run by (auto split: sum.splits)
  note run = run [unfolded ms sum.case prod.case]
  let ?save = "save_conversation s (te_aead x) c (te_now x 0) \<lparr>dyear = 1, dmonth = 1, dday = 1\<rparr> (te_rnd x) uuid path title'
       (map as_message parsed) (text_of ?summary) (sanitize_label source LABEL_LEN) (map_option (map text_of) ts) (Some day) db files"
  obtain res files1 where res: "?save = (res, files1)" by (cases ?save) auto
  obtain r0 db1 where ok: "res = Inr (r0, db1)"
  proof (cases res)
    case (Inl e)
    with run res show ?thesis by (cases e) simp_all
  next
    case (Inr q)
    with that show ?thesis by (cases q) simp
  qed
  show ?thesis
    by (rule that [OF path title refl summary tags ms, of day r0 db1 files1]) (use run res ok in auto)
qed

lemma accept_messages_Inr:
  assumes "accept_messages messages = Inr (parsed, k)"
  shows "parsed = parse_messages messages" "parsed \<noteq> []" "m \<in> set parsed \<Longrightarrow> mi_role m \<in> KEEP_ROLES \<and> length (mi_content m) \<le> 20000 \<and>
    \<not> has_tool_call (mi_content m) \<and> list_all (\<lambda>ch. \<not> control_chars ch) (mi_content m)"
proof -
  show p: "parsed = parse_messages messages" "parsed \<noteq> []"
    using assms by (auto simp: accept_messages_def Let_def split: if_splits)
  assume m: "m \<in> set parsed"
  have "reject_tool_call_syntax (mi_content m) = Inr ()"
    using assms m by (auto simp: accept_messages_def Let_def list_ex_iff split: if_splits)
  then have "\<not> has_tool_call (mi_content m)" using reject_tool_call_iff [of "mi_content m"] by auto
  moreover obtain q where q: "q \<in> set messages" "mi_role q \<in> KEEP_ROLES" "m = q\<lparr>mi_content := message_text q\<rparr>"
    using m p(1) by (auto simp: parse_messages_def keepable_def)
  moreover have "list_all (\<lambda>ch. \<not> control_chars ch) (message_text q)"
    by (auto simp: message_text_def sanitize_freetext_def py_head_def list_all_iff dest!: in_set_takeD)
  ultimately show "mi_role m \<in> KEEP_ROLES \<and> length (mi_content m) \<le> 20000 \<and>
    \<not> has_tool_call (mi_content m) \<and> list_all (\<lambda>ch. \<not> control_chars ch) (mi_content m)"
    by (simp add: message_text_def MAX_MSG_CHARS_def)
qed

lemma rmap_list_slice: "rmap_list f xs = Inr ys \<Longrightarrow> rmap_list f (take n (drop k xs)) = Inr (take n (drop k ys))"
proof -
  have "rmap_list f xs = Inr ys \<longleftrightarrow> list_all2 (\<lambda>x y. f x = Inr y) xs ys" for xs ys
    by (induction xs arbitrary: ys) (auto simp: res_simps list_all2_Cons1)
  then show "rmap_list f xs = Inr ys \<Longrightarrow> rmap_list f (take n (drop k xs)) = Inr (take n (drop k ys))" by simp
qed

lemma sized_cases:
  "sized json_size shape p = (if \<exists>chars. json_size p = Some chars \<and> 80000 < chars
     then ToolTooLarge (the (json_size p)) (snd (the (check_response_size (json_size p) (shape p)))) else ToolOk p)"
  by (auto simp: sized_def check_response_size_def ERROR_THRESHOLD_CHARS_def split: option.split)

text \<open>
  Property C19.  A conversation saved by the tool reads back through the tool, page by page.  When
  \<open>journal_save_conversation\<close> succeeds and nothing else runs, \<open>journal_read_conversation\<close> of the id it
  returned shows, for every limit and offset (brought into range), the cover of the conversation and
  that slice of the messages that were kept: those of the user and the assistant that are not blank, in
  order, each without control characters or tool-call syntax and of at most 20000 characters, with
  its time, if it was given one, printed in UTC.  The exception is a page whose JSON text is longer
  than 80,000 characters: it is answered with that size and a smaller limit instead.
\<close>

theorem saved_conversation_reads_back:
  assumes "jdb_ok db" and "cipher_ok (te_aead x) c" and "\<And>n. length (te_rnd x n) = 11" and "te_user x = Some s" and "te_cipher x = Some c"
    and "\<And>k d. te_meanwhile x k d = d"
    and "journal_save_conversation x uuid topic title messages summary source tags date db files = (ToolOk r, db', files')"
  shows "let kept = parse_messages messages; n = nat (max 1 (min limit 100)); k = nat (max 0 offset); slice = take n (drop k kept) in
    list_all (\<lambda>m. mi_role m \<in> KEEP_ROLES \<and> length (mi_content m) \<le> 20000 \<and> \<not> has_tool_call (mi_content m) \<and>
      list_all (\<lambda>ch. \<not> control_chars ch) (mi_content m)) kept \<and>
    (\<forall>m \<in> set kept. parse_ts (map_option instant_isoformat (parse_ts (mi_timestamp m))) = parse_ts (mi_timestamp m)) \<and>
    (\<exists>meta page suggested. page = \<lparr>cr_meta = meta,
        cr_content = format_messages_as_markdown (text_of (sv_title r)) (map (\<lambda>m. \<lparr>ms_role = mi_role m,
          ms_content = text_of (mi_content m), ms_timestamp = map_option instant_isoformat (parse_ts (mi_timestamp m)), ms_failed = False\<rparr>) slice),
        cr_preview = False, cr_shown = length slice, cr_total = length kept\<rparr> \<and>
     journal_read_conversation x json_size (sv_conv r) False limit offset db' =
       (if \<exists>chars. json_size page = Some chars \<and> 80000 < chars then ToolTooLarge (the (json_size page)) suggested else ToolOk page) \<and>
     validate_title title = Inr (sv_title r) \<and> cm_title meta = text_of (sv_title r) \<and>
     cm_summary meta = text_of (sanitize_freetext summary 1000000) \<and> cm_source meta = sanitize_label source 50)"
proof -
  obtain path title' summary' ts n day parsed k r0 db1 files1 where f: "validate_topic topic = Inr path" "validate_title title = Inr title'"
    "summary' = sanitize_freetext summary FREETEXT_LEN" "accept_messages messages = Inr (parsed, k)"
    "save_conversation s (te_aead x) c (te_now x 0) \<lparr>dyear = 1, dmonth = 1, dday = 1\<rparr> (te_rnd x) uuid path title'
       (map as_message parsed) (text_of summary') (sanitize_label source LABEL_LEN) (map_option (map text_of) ts) (Some day) db files = (Inr (r0, db1), files1)"
    "db' = embed_linked x s (sr_entry r0) (linked_text title' (text_of summary')) db1" "sv_conv r = sr_id r0" "sv_title r = title'"
    using assms(7,4,5) by (rule save_tool_Ok)
  note ms = accept_messages_Inr [OF f(4)]
  obtain row rows path2 title2 meta where g: "validate_topic path = Inr path2" "validate_title title' = Inr title2"
    "jdb_ok db1" "gs_active s" "row \<in> set (convs db1)" "cv_id row = sr_id r0" "cv_user row = gs_user s" "cv_slug row = slugify title2"
    "\<And>x. conv_path s db1 x = Some path2 \<longleftrightarrow> cv_topic x = cv_topic row"
    "row_to_meta (te_aead x) c False path2 row = Inr meta" "cm_id meta = Some (sr_id r0)" "cm_title meta = text_of title2" "cm_summary meta = text_of summary'"
    "cm_topic meta = path2" "cm_source meta = sanitize_label source LABEL_LEN"
    "cm_tags meta = (case map_option (map text_of) ts of None \<Rightarrow> [] | Some ts \<Rightarrow> ts)"
    "cm_message_count meta = length (map as_message parsed)" "\<not> cm_failed meta" "cv_message_count row = length (map as_message parsed)"
    "message_rows s (sr_id r0) db1 = rows"
    "rmap_list (message_from_row (te_aead x) c False) rows = Inr (map read_back (map as_message parsed))"
    using assms(1,2,3) f(5) by (rule saved_reader) (rule that; assumption)
  note frame = embed_linked_frame [OF assms(6), of s "sr_entry r0" "linked_text title' (text_of summary')" db1, folded f(6)]
  have title: "title2 = title'" using validate_title_fixed [OF validate_title_InrD [OF f(2)]] g(2) by simp
  have "conv_by_id s (sr_id r0) db1 = Some row"
    unfolding conv_by_id_def by (rule sql_first_unique) (use g(4-7) conv_id_unique [OF g(3)] in \<open>auto simp: vis_def\<close>)
  moreover have "conv_path s db1 row = Some path2" using g(9) by simp
  ultimately have row: "conv_with_path s (sr_id r0) db' = Inr (row, path2)"
    using frame by (auto simp: conv_with_path_def conv_by_id_def conv_path_def topic_by_id_def)
  have rows: "message_rows s (sr_id r0) db' = rows" using g(20) frame by (simp add: message_rows_def)
  let ?shown = "\<lambda>m. \<lparr>ms_role = mi_role m, ms_content = text_of (mi_content m),
    ms_timestamp = map_option instant_isoformat (parse_ts (mi_timestamp m)), ms_failed = False\<rparr>"
  have "map read_back (map as_message parsed) = map ?shown parsed" by (simp add: as_message_def read_back_def)
  with g(21) have "rmap_list (message_from_row (te_aead x) c False) rows = Inr (map ?shown parsed)" by simp
  from rmap_list_slice [OF this]
  have slice: "rmap_list (message_from_row (te_aead x) c False) (take n (drop k rows)) = Inr (map ?shown (take n (drop k parsed)))" for n k
    by (simp add: take_map drop_map)
  let ?slice = "take (nat (max 1 (min limit 100))) (drop (nat (max 0 offset)) parsed)"
  have "read_conversation_by_id_paginated s (te_aead x) c (sr_id r0) (max 1 (min limit 100)) (max 0 offset) False db' =
      Inr (meta, map ?shown ?slice, length parsed)"
    using row rows g(10,19) slice by (simp add: read_conversation_by_id_paginated_def pg_page_def)
  then have "journal_read_conversation x json_size (sv_conv r) False limit offset db' = sized json_size (\<lambda>r. DictPayload [])
       \<lparr>cr_meta = meta, cr_content = format_messages_as_markdown (text_of title') (map ?shown ?slice),
        cr_preview = False, cr_shown = length ?slice, cr_total = length parsed\<rparr>"
    using f(7) g(12) title assms(4,5) by (simp add: journal_read_conversation_def MAX_CONVERSATION_MESSAGES_def)
  note answer = this [unfolded sized_cases]
  have times: "\<forall>m \<in> set parsed. parse_ts (map_option instant_isoformat (parse_ts (mi_timestamp m))) = parse_ts (mi_timestamp m)"
    using saved_times [OF f(5)] by (simp add: as_message_def read_back_def)
  have kept: "list_all (\<lambda>m. mi_role m \<in> KEEP_ROLES \<and> length (mi_content m) \<le> 20000 \<and> \<not> has_tool_call (mi_content m) \<and>
      list_all (\<lambda>ch. \<not> control_chars ch) (mi_content m)) parsed"
    using ms(3) by (auto simp: list_all_iff)
  show ?thesis
    unfolding Let_def ms(1) [symmetric] f(8)
    by (intro conjI kept times exI, rule refl, rule answer) (use f(2,3) g(12,13,15) title in simp_all)
qed

definition demo_turns :: "message_input list" where
  "demo_turns =
     [\<lparr>mi_role = ''user'', mi_content = ''hi'', mi_timestamp = Some ''2026-01-09T10:30:00+01:00''\<rparr>, \<lparr>mi_role = ''tool'', mi_content = ''42'', mi_timestamp = None\<rparr>,
      \<lparr>mi_role = ''assistant'', mi_content = '' '', mi_timestamp = None\<rparr>]"

lemma demo_turns_accepted:
  "accept_messages demo_turns = Inr ([\<lparr>mi_role = ''user'', mi_content = ''hi'', mi_timestamp = Some ''2026-01-09T10:30:00+01:00''\<rparr>], 1)"
  "parse_messages demo_turns = [\<lparr>mi_role = ''user'', mi_content = ''hi'', mi_timestamp = Some ''2026-01-09T10:30:00+01:00''\<rparr>]"
  "sanitize_freetext ''hi'' FREETEXT_LEN = ''hi''"
proof -
  have ascii: "reject_tool_call_syntax ''hi'' = Inr ()" "\<not> blank ''hi''" "blank '' ''" "filter (\<lambda>ch. \<not> control_chars ch) ''hi'' = ''hi''" by code_simp+
  then show hi: "sanitize_freetext ''hi'' FREETEXT_LEN = ''hi''" by (simp add: sanitize_freetext_def py_head_short)
  show parsed: "parse_messages demo_turns = [\<lparr>mi_role = ''user'', mi_content = ''hi'', mi_timestamp = Some ''2026-01-09T10:30:00+01:00''\<rparr>]"
    using ascii hi by (simp add: parse_messages_def keepable_def demo_turns_def KEEP_ROLES_def message_text_def MAX_MSG_CHARS_def)
  have "length (keepable demo_turns) = 2" "length demo_turns = 3" by (simp_all add: keepable_def demo_turns_def KEEP_ROLES_def)
  then show "accept_messages demo_turns = Inr ([\<lparr>mi_role = ''user'', mi_content = ''hi'', mi_timestamp = Some ''2026-01-09T10:30:00+01:00''\<rparr>], 1)"
    using parsed ascii by (simp add: accept_messages_def MAX_MESSAGES_PER_CONVERSATION_def)
qed

theorem saved_conversation_reads_back_witness:
  "\<exists>r db' files' meta.
     journal_save_conversation demo_tool ''u1'' ''work'' ''Plan'' demo_turns ''hi'' ''claude'' None None sample_jdb [] = (ToolOk r, db', files') \<and>
     journal_read_conversation demo_tool (\<lambda>p. Some 200) (sv_conv r) False 5 0 db' =
       ToolOk \<lparr>cr_meta = meta, cr_content = format_messages_as_markdown (text_of ''Plan'')
         [\<lparr>ms_role = ''user'', ms_content = [104, 105], ms_timestamp = Some ''2026-01-09T09:30:00+00:00'', ms_failed = False\<rparr>],
               cr_preview = False, cr_shown = 1, cr_total = 1\<rparr>"
proof -
  have v: "validate_topic ''work'' = Inr ''work''" "validate_title ''Plan'' = Inr ''Plan''" "reject_tool_call_syntax ''hi'' = Inr ()"
    "sanitize_label ''claude'' LABEL_LEN = ''claude''" "text_of ''hi'' = [104, 105]" by code_simp+
  have ms: "map as_message [\<lparr>mi_role = ''user'', mi_content = ''hi'', mi_timestamp = Some ''2026-01-09T10:30:00+01:00''\<rparr>] = demo_messages"
    using v(5) by (simp add: as_message_def demo_messages_def)
  have day: "plan_save demo_session 50 \<lparr>dyear = 1, dmonth = 1, dday = 1\<rparr> ''work'' ''Plan'' demo_messages [104, 105] ''claude'' None (Some ''2026-01-09'') sample_jdb =
      plan_save demo_session 50 \<lparr>dyear = 2026, dmonth = 1, dday = 9\<rparr> ''work'' ''Plan'' demo_messages [104, 105] ''claude'' None (Some ''2026-01-09'') sample_jdb"
    by (simp add: plan_save_def)
  have "\<exists>r0 db1 files1. save_conversation demo_session demo_aead demo_cipher 50 \<lparr>dyear = 1, dmonth = 1, dday = 1\<rparr> (\<lambda>n. replicate 11 0)
     ''u1'' ''work'' ''Plan'' demo_messages [104, 105] ''claude'' None (Some ''2026-01-09'') sample_jdb [] = (Inr (r0, db1), files1)"
    using demo_save_runs [OF sample_jdb_ok sample_work, of "''u1''" "[]"] unfolding save_conversation_def day by blast
  then have "\<exists>r db' files'. journal_save_conversation demo_tool ''u1'' ''work'' ''Plan'' demo_turns ''hi'' ''claude'' None None sample_jdb [] = (ToolOk r, db', files')"
    by (auto simp: journal_save_conversation_def v demo_turns_accepted clean_tags_def bad_date_def non_empty_def demo_tool_def as_message_def
        demo_messages_def Let_def split: prod.split)
  then obtain r db' files' where run: "journal_save_conversation demo_tool ''u1'' ''work'' ''Plan'' demo_turns ''hi'' ''claude'' None None sample_jdb [] =
      (ToolOk r, db', files')" by blast
  have title: "validate_title ''Plan'' = Inr t \<Longrightarrow> t = ''Plan''" for t using v(2) by simp
  from saved_conversation_reads_back [OF sample_jdb_ok _ _ _ _ _ run, of demo_cipher demo_session 5 0 "\<lambda>p. Some 200"]
  show ?thesis using run title v(5) unfolding Let_def demo_turns_accepted
    by (auto simp: demo_tool_def demo_cipher_ok parse_ts_def demo_time)
qed

section \<open>Refusals, and a topic that was created\<close>

text \<open>
  A structured error of the tools that write means that the database is the one before the call.  A
  topic that was created is found under the path in the reply, which is a valid one, and the path
  that came in is reported when it was corrected.
\<close>

lemma save_tool_error:
  assumes "journal_save_conversation x uuid topic title messages summary source tags date db files = (ToolError e, db', files')"
  shows "db' = db"
  using assms by (auto simp: journal_save_conversation_def Let_def missing_user_def no_cipher_def split: sum.splits prod.splits if_splits option.splits jerror.splits)

lemma create_topic_tool_error: "journal_create_topic x topic title description db = (ToolError e, db') \<Longrightarrow> db' = db"
  by (auto simp: journal_create_topic_def Let_def missing_user_def split: sum.splits prod.splits if_splits option.splits jerror.splits)

lemma create_topic_tool_stores:
  assumes "journal_create_topic x topic title description db = (ToolOk r, db')" and "te_user x = Some s" and "jdb_ok db"
  shows "validate_topic topic = Inr (tp_reply_path r)" "get_id s (tp_reply_path r) db' = Inr (tp_reply_id r)" "jdb_ok db'"
    "tp_reply_from r = (if topic = tp_reply_path r then None else Some topic)"
proof -
  obtain path where path: "validate_topic topic = Inr path" using assms(1) by (cases "validate_topic topic") (simp_all add: journal_create_topic_def)
  obtain title' description' i where made: "create_topic s (te_now x 0) path title' description' None db = Inr (i, db')"
    and r: "tp_reply_path r = path" "tp_reply_id r = i" "tp_reply_from r = (if topic \<noteq> path then Some topic else None)"
    using assms(1,2) path by (auto simp: journal_create_topic_def Let_def split: if_splits sum.splits jerror.splits prod.splits)
  from made obtain row where db': "db' = db\<lparr>topics := sql_insert row (topics db), next_topic := next_topic db + 1\<rparr>" and act: "gs_active s"
    and row: "tp_id row = i" "tp_user row = gs_user s" "tp_path row = path"
    and new: "\<And>t. t \<in> set (topics db) \<Longrightarrow> tp_user t = gs_user s \<Longrightarrow> tp_path t \<noteq> path"
    by (fastforce simp: create_topic_def res_simps list_ex_iff validate_topic_again [OF path] split: if_splits)
  have "topic_by_path s path db' = Some row"
    unfolding topic_by_path_def by (rule sql_first_unique) (use row act new in \<open>auto simp: db' vis_def sql_simps\<close>)
  then show "get_id s (tp_reply_path r) db' = Inr (tp_reply_id r)"
    using r row validate_topic_again [OF path] by (simp add: get_id_def)
  show "validate_topic topic = Inr (tp_reply_path r)" "tp_reply_from r = (if topic = tp_reply_path r then None else Some topic)"
    using path r by auto
  show "jdb_ok db'" using create_topic_ok [OF assms(3) made] by simp
qed

end
