(* ===== verification/Rotation.thy ===== *)
theory Rotation
  imports PyUuid Entries
begin

text \<open>
  The key rotation script \<open>gubbi/scripts/rotate_encryption_key.py\<close>: every encrypted column pair of
  the database, batch by batch, from one key version to another.

  The script sees a column pair as a list of cells, the id of the row and the two values; the
  database of the script is such a list for each pair and the audit rows it wrote.  It runs on the
  administrator's pool, past the row-level security.  What other connections commit between the
  read of a batch and the transaction that updates it is a function of the environment, as are the
  random bytes of a nonce and the rows that \<open>ORDER BY random()\<close> picks.
\<close>

section \<open>Column pairs\<close>

datatype column_pair = ColumnPair (col_table: string) (col_encrypted: string) (col_nonce: string)

definition ROTATION_SCREENS :: "column_pair list" where
  "ROTATION_SCREENS =
     [ColumnPair ''entries'' ''content_encrypted'' ''content_nonce'',
      ColumnPair ''entries'' ''reasoning_encrypted'' ''reasoning_nonce'',
      ColumnPair ''messages'' ''content_encrypted'' ''content_nonce'',
      ColumnPair ''conversations'' ''title_encrypted'' ''title_nonce'',
      ColumnPair ''conversations'' ''summary_encrypted'' ''summary_nonce'']"

record cell =
  ce_id :: int
  ce_ct :: "bytes option"
  ce_nonce :: "bytes option"

record rotation_audit =
  ra_table :: string
  ra_column :: string
  ra_count :: nat
  ra_from :: int
  ra_to :: int

record rotation_db =
  rt_cells :: "column_pair \<Rightarrow> cell list"
  rt_audit :: "rotation_audit list"

record rotation_env =
  rv_aead :: aead
  rv_cipher :: content_cipher
  rv_rnd :: "column_pair \<Rightarrow> int \<Rightarrow> bytes"
  rv_meanwhile :: "column_pair \<Rightarrow> nat \<Rightarrow> rotation_db \<Rightarrow> rotation_db"
  rv_sample :: "column_pair \<Rightarrow> nat \<Rightarrow> cell list \<Rightarrow> cell list"

datatype rotation_error = RotationRuntime int | RotationCrypto cerror | RotationExit

definition BATCH_SIZE :: nat where "BATCH_SIZE = 1000"
definition VERIFY_SAMPLE_MIN :: nat where "VERIFY_SAMPLE_MIN = 10"
definition VERIFY_SAMPLE_MAX :: nat where "VERIFY_SAMPLE_MAX = 1000"

text \<open>\<open>encode(nonce, 'hex')\<close> and \<open>f"{version:02x}"\<close>.\<close>

fun hex_nat :: "nat \<Rightarrow> string" where
  "hex_nat n = (if n < 16 then [hex_char n] else hex_nat (n div 16) @ [hex_char (n mod 16)])"

declare hex_nat.simps [simp del]

definition hex_pfx :: "int \<Rightarrow> string" where
  "hex_pfx v =
     (let ds = hex_nat (nat \<bar>v\<bar>) in
      if v < 0 then CHR ''-'' # ds else if length ds < 2 then CHR ''0'' # ds else ds)"

definition encode_hex :: "bytes \<Rightarrow> string" where
  "encode_hex bs = concat (map (\<lambda>b. [hex_char (unat b div 16), hex_char (unat b mod 16)]) bs)"

text \<open>\<open>where_clause\<close>.\<close>

definition at_version :: "int \<Rightarrow> cell \<Rightarrow> bool" where
  "at_version v q =
     (ce_ct q \<noteq> None \<and> (case ce_nonce q of None \<Rightarrow> False | Some n \<Rightarrow> py_startswith (encode_hex n) (hex_pfx v)))"

definition collect_dry_run_counts :: "rotation_db \<Rightarrow> int \<Rightarrow> (string \<times> string \<times> int \<times> nat) list" where
  "collect_dry_run_counts db source =
     concat (map (\<lambda>col.
        let count = sql_count (at_version source) (rt_cells db col)
        in if count > 0 then [(col_table col, col_encrypted col, source, count)] else []) ROTATION_SCREENS)"

definition verify_sample_size :: "nat \<Rightarrow> nat" where
  "verify_sample_size amount =
     (if amount = 0 then 0 else max VERIFY_SAMPLE_MIN (min VERIFY_SAMPLE_MAX ((amount + 99) div 100)))"

section \<open>Rotating a table\<close>

text \<open>
  One row of a batch: \<open>None\<close> where the code goes on to the next row, the new pair where it updates.
  \<open>decrypt\<close> also raises \<open>InvalidTag\<close>, which is none of the exceptions caught.
\<close>

definition rotate_row :: "aead \<Rightarrow> content_cipher \<Rightarrow> bytes \<Rightarrow> int \<Rightarrow> cell \<Rightarrow> cerror + (bytes \<times> bytes) option" where
  "rotate_row a c rnd target row =
     (case (ce_ct row, ce_nonce row) of
        (Some ct_bytes, Some nonce_bytes) \<Rightarrow>
          if ct_bytes = [] \<or> nonce_bytes = [] then Inr None
          else if uint (nonce_bytes ! 0) = target then Inr None
          else (case decrypt a c ct_bytes nonce_bytes of
              Inl e \<Rightarrow> if e = DecryptionError \<or> is_value_error e then Inr None else Inl e
            | Inr plaintext \<Rightarrow>
                (case encrypt_with_version a c rnd plaintext target of
                   Inl e \<Rightarrow> if is_value_error e then Inr None else Inl e
                 | Inr new \<Rightarrow> Inr (Some new)))
      | _ \<Rightarrow> Inr None)"

fun rotate_rows ::
  "aead \<Rightarrow> content_cipher \<Rightarrow> (int \<Rightarrow> bytes) \<Rightarrow> int \<Rightarrow> bool \<Rightarrow> cell list \<Rightarrow> cell list \<Rightarrow> nat \<Rightarrow> cerror + (cell list \<times> nat)" where
  "rotate_rows a c rnd target dry_run [] cells batch_updated = Inr (cells, batch_updated)"
| "rotate_rows a c rnd target dry_run (row # batch) cells batch_updated =
     rbind (rotate_row a c (rnd (ce_id row)) target row) (\<lambda>new.
       case new of
         None \<Rightarrow> rotate_rows a c rnd target dry_run batch cells batch_updated
       | Some (new_ct, new_nonce) \<Rightarrow>
           if dry_run then rotate_rows a c rnd target dry_run batch cells batch_updated
           else rotate_rows a c rnd target dry_run batch
                  (sql_update (\<lambda>q. ce_id q = ce_id row) (\<lambda>q. q\<lparr>ce_ct := Some new_ct, ce_nonce := Some new_nonce\<rparr>) cells)
                  (batch_updated + 1))"

definition fetch_batch :: "int \<Rightarrow> int \<Rightarrow> cell list \<Rightarrow> cell list" where
  "fetch_batch source last_id cells =
     take BATCH_SIZE (sort_key ce_id (filter (\<lambda>q. at_version source q \<and> ce_id q > last_id) cells))"

text \<open>
  The loop over the batches; \<open>k\<close> counts them.  With fuel left over the answer is \<open>Some\<close>; others may
  keep adding rows of the source version, so that no bound holds in general.
\<close>

fun rotate_batches ::
  "nat \<Rightarrow> rotation_env \<Rightarrow> int \<Rightarrow> int \<Rightarrow> column_pair \<Rightarrow> bool \<Rightarrow> nat \<Rightarrow> int \<Rightarrow> nat \<Rightarrow> nat \<Rightarrow> rotation_db \<Rightarrow>
   ((cerror + (nat \<times> nat)) \<times> rotation_db) option" where
  "rotate_batches 0 x source target col dry_run k last_id rows_updated audit_rows_written db = None"
| "rotate_batches (Suc fuel) x source target col dry_run k last_id rows_updated audit_rows_written db =
     (let batch = fetch_batch source last_id (rt_cells db col) in
      if batch = [] then Some (Inr (rows_updated, audit_rows_written), db)
      else let last_id = ce_id (last batch); db1 = rv_meanwhile x col k db in
        case rotate_rows (rv_aead x) (rv_cipher x) (rv_rnd x col) target dry_run batch (rt_cells db1 col) 0 of
          Inl e \<Rightarrow> Some (Inl e, db1)
        | Inr (cells, batch_updated) \<Rightarrow>
            (let db2 = db1\<lparr>rt_cells := (rt_cells db1)(col := cells)\<rparr>;
                 audited = (\<not> dry_run \<and> batch_updated > 0);
                 db3 = (if audited then db2\<lparr>rt_audit := rt_audit db2 @
                          [\<lparr>ra_table = col_table col, ra_column = col_encrypted col, ra_count = batch_updated, ra_from = source, ra_to = target\<rparr>]\<rparr>
                        else db2)
             in rotate_batches fuel x source target col dry_run (k + 1) last_id (rows_updated + batch_updated)
                  (audit_rows_written + (if audited then 1 else 0)) db3))"

definition rotate_table ::
  "nat \<Rightarrow> rotation_env \<Rightarrow> int \<Rightarrow> int \<Rightarrow> column_pair \<Rightarrow> bool \<Rightarrow> rotation_db \<Rightarrow> ((cerror + (nat \<times> nat)) \<times> rotation_db) option" where
  "rotate_table fuel x source target col dry_run db =
     (if sql_count (at_version source) (rt_cells db col) = 0 then Some (Inr (0, 0), db)
      else rotate_batches fuel x source target col dry_run 0 0 0 0 db)"

section \<open>The run\<close>

fun verify_rows :: "aead \<Rightarrow> content_cipher \<Rightarrow> cell list \<Rightarrow> rotation_error + unit" where
  "verify_rows a c [] = Inr ()"
| "verify_rows a c (row # rows) =
     (case ce_nonce row of
        None \<Rightarrow> verify_rows a c rows
      | Some nonce \<Rightarrow>
          if nonce = [] then verify_rows a c rows
          else (case decrypt a c (the (ce_ct row)) nonce of
              Inl e \<Rightarrow> Inl (if e = DecryptionError then RotationExit else RotationCrypto e)
            | Inr _ \<Rightarrow> verify_rows a c rows))"

definition verify :: "rotation_env \<Rightarrow> rotation_db \<Rightarrow> rotation_error + nat" where
  "verify x db =
     rfold (\<lambda>col total_sampled.
        let present = filter (\<lambda>q. ce_ct q \<noteq> None) (rt_cells db col) in
        if length present = 0 then Inr total_sampled
        else let rows = rv_sample x col (verify_sample_size (length present)) present in
          rbind (verify_rows (rv_aead x) (rv_cipher x) rows) (\<lambda>_. Inr (total_sampled + length rows)))
       ROTATION_SCREENS 0"

fun rotate_tables ::
  "nat \<Rightarrow> rotation_env \<Rightarrow> int \<Rightarrow> int \<Rightarrow> bool \<Rightarrow> column_pair list \<Rightarrow> nat \<Rightarrow> nat \<Rightarrow> rotation_db \<Rightarrow>
   ((cerror + (nat \<times> nat)) \<times> rotation_db) option" where
  "rotate_tables fuel x source target dry_run [] updated audits db = Some (Inr (updated, audits), db)"
| "rotate_tables fuel x source target dry_run (col # cols) updated audits db =
     (case rotate_table fuel x source target col dry_run db of
        None \<Rightarrow> None
      | Some (Inl e, db1) \<Rightarrow> Some (Inl e, db1)
      | Some (Inr (u, n), db1) \<Rightarrow> rotate_tables fuel x source target dry_run cols (updated + u) (audits + n) db1)"

datatype rotation_report = DryRun "(string \<times> string \<times> int \<times> nat) list" | Rotated nat nat "nat option"

definition run_rotation ::
  "nat \<Rightarrow> rotation_env \<Rightarrow> int \<Rightarrow> int \<Rightarrow> bool \<Rightarrow> bool \<Rightarrow> rotation_db \<Rightarrow> ((rotation_error + rotation_report) \<times> rotation_db) option" where
  "run_rotation fuel x src_ver tgt_ver dry_run verifying db =
     (if \<not> list_ex (\<lambda>k. fst k = tgt_ver) (cc_keys (rv_cipher x)) then Some (Inl (RotationRuntime tgt_ver), db)
      else if dry_run then Some (Inr (DryRun (collect_dry_run_counts db src_ver)), db)
      else case rotate_tables fuel x src_ver tgt_ver dry_run ROTATION_SCREENS 0 0 db of
        None \<Rightarrow> None
      | Some (Inl e, db1) \<Rightarrow> Some (Inl (RotationCrypto e), db1)
      | Some (Inr (u, n), db1) \<Rightarrow>
          Some (if verifying then rmap (\<lambda>sampled. Rotated u n (Some sampled)) (verify x db1) else Inr (Rotated u n None), db1))"

section \<open>The rows of a version\<close>

lemma hex_char_inj: "d < 16 \<Longrightarrow> e < 16 \<Longrightarrow> hex_char d = hex_char e \<longleftrightarrow> d = e"
proof -
  assume "d < 16" and "e < 16"
  then have codes: "of_char (hex_char d) = (if d < 10 then 48 + d else 87 + d)" "of_char (hex_char e) = (if e < 10 then 48 + e else 87 + e)"
    by (simp_all add: hex_char_def)
  show ?thesis
  proof
    assume "hex_char d = hex_char e"
    then have "(of_char (hex_char d) :: nat) = of_char (hex_char e)" by simp
    then show "d = e" unfolding codes using \<open>d < 16\<close> \<open>e < 16\<close> by (auto split: if_splits)
  qed simp
qed

lemma hex_pfx_byte:
  assumes "0 \<le> v" and "v \<le> 255"
  shows "hex_pfx v = [hex_char (nat v div 16), hex_char (nat v mod 16)]"
proof -
  have "hex_nat (nat v) = (if nat v < 16 then [hex_char (nat v)] else [hex_char (nat v div 16), hex_char (nat v mod 16)])"
    using assms by (simp add: hex_nat.simps [of "nat v"] hex_nat.simps [of "nat v div 16"])
  moreover have "hex_char 0 = CHR ''0''" by code_simp
  ultimately show ?thesis using assms by (auto simp: hex_pfx_def Let_def)
qed

lemma at_version_iff:
  assumes "0 \<le> v" and "v \<le> 255"
  shows "at_version v q \<longleftrightarrow> ce_ct q \<noteq> None \<and> (\<exists>b n. ce_nonce q = Some (b # n) \<and> uint b = v)"
proof (cases "ce_nonce q")
  case None
  then show ?thesis by (simp add: at_version_def)
next
  case (Some n)
  show ?thesis
  proof (cases n)
    case Nil
    with Some show ?thesis using assms by (simp add: at_version_def hex_pfx_byte encode_hex_def py_startswith_def)
  next
    case (Cons b n')
    have "unat b < 256" using unsigned_less [of b] by simp
    then have "unat b div 16 < 16" "unat b mod 16 < 16" "nat v div 16 < 16" "nat v mod 16 < 16" using assms by auto
    then have "py_startswith (encode_hex n) (hex_pfx v) \<longleftrightarrow> unat b div 16 = nat v div 16 \<and> unat b mod 16 = nat v mod 16"
      using assms Cons by (auto simp: hex_pfx_byte encode_hex_def py_startswith_def hex_char_inj)
    also have "\<dots> \<longleftrightarrow> unat b = nat v" by (metis div_mult_mod_eq)
    also have "\<dots> \<longleftrightarrow> uint b = v" using assms by (metis eq_nat_nat_iff nat_uint_eq uint_ge_0 unat_eq_nat_uint)
    finally show ?thesis using Some Cons by (simp add: at_version_def)
  qed
qed

section \<open>What one batch does\<close>

text \<open>The text of a cell, as the repositories read it, and the cell after its rotation.\<close>

definition opens :: "aead \<Rightarrow> content_cipher \<Rightarrow> cell \<Rightarrow> cerror + ptext option" where
  "opens a c q = decrypt_content_field a c (ce_ct q) (ce_nonce q)"

definition rotated :: "aead \<Rightarrow> content_cipher \<Rightarrow> (int \<Rightarrow> bytes) \<Rightarrow> int \<Rightarrow> cell \<Rightarrow> cell" where
  "rotated a c rnd w q =
     (case rotate_row a c (rnd (ce_id q)) w q of
        Inr (Some (ct, n)) \<Rightarrow> q\<lparr>ce_ct := Some ct, ce_nonce := Some n\<rparr>
      | _ \<Rightarrow> q)"

definition rewritten :: "aead \<Rightarrow> content_cipher \<Rightarrow> (int \<Rightarrow> bytes) \<Rightarrow> int \<Rightarrow> cell \<Rightarrow> bool" where
  "rewritten a c rnd w q = (\<exists>p. rotate_row a c (rnd (ce_id q)) w q = Inr (Some p))"

lemma rotated_id [simp]: "ce_id (rotated a c rnd w q) = ce_id q"
  by (simp add: rotated_def split: sum.split option.split prod.split)

lemma rotate_row_Some:
  assumes "rotate_row a c rnd w q = Inr (Some p)"
  obtains ct n t where "ce_ct q = Some ct" "ce_nonce q = Some n" "decrypt a c ct n = Inr t" "encrypt_with_version a c rnd t w = Inr p"
  using assms by (auto simp: rotate_row_def split: option.splits if_splits sum.splits)

lemma rotate_row_readable:
  assumes "cipher_ok a c" and "w \<in> known_versions c" and "length rnd = 11" and "rotate_row a c rnd w q = Inr (Some (ct', n'))"
  shows "decrypt_content_field a c (Some ct') (Some n') = opens a c q" "n' \<noteq> []" "uint (hd n') = w"
    "\<exists>t. opens a c q = Inr (Some t) \<and> (\<forall>c'. map_of (cc_keys c') w = map_of (cc_keys c) w \<longrightarrow> decrypt a c' ct' n' = Inr t)"
proof -
  obtain ct n t where q: "ce_ct q = Some ct" "ce_nonce q = Some n" "decrypt a c ct n = Inr t" "encrypt_with_version a c rnd t w = Inr (ct', n')"
    using assms(4) by (rule rotate_row_Some)
  have a: "aead_ok a" and w: "1 \<le> w" "w \<le> 255"
    using assms(1,2) new_cipher_versions(1) by (auto simp: cipher_ok_def)
  note sealed = seal_then_open [OF a w assms(3) q(4)]
  have n': "length n' = 12" "uint (n' ! 0) = w" "decrypt a c ct' n' = Inr t" using sealed [of c] by simp_all
  then show "n' \<noteq> []" by auto
  then show "uint (hd n') = w" using n'(2) by (simp add: hd_conv_nth)
  have same: "opens a c q = Inr (Some t)" using q by (simp add: opens_def decrypt_content_field_def decrypt_or_raise_def)
  with n'(3) show "decrypt_content_field a c (Some ct') (Some n') = opens a c q"
    by (simp add: decrypt_content_field_def decrypt_or_raise_def)
  have "decrypt a c' ct' n' = Inr t" if "map_of (cc_keys c') w = map_of (cc_keys c) w" for c'
  proof -
    have "encrypt_with_version a c' rnd t w = Inr (ct', n')" using q(4) that by (simp add: encrypt_with_version_def)
    from seal_then_open(1) [OF a w assms(3) this, of c'] show ?thesis by simp
  qed
  with same show "\<exists>t. opens a c q = Inr (Some t) \<and> (\<forall>c'. map_of (cc_keys c') w = map_of (cc_keys c) w \<longrightarrow> decrypt a c' ct' n' = Inr t)" by blast
qed

lemma opens_rotated:
  assumes "cipher_ok a c" and "w \<in> known_versions c" and "\<And>i. length (rnd i) = 11"
  shows "opens a c (rotated a c rnd w q) = opens a c q"
proof (cases "rewritten a c rnd w q")
  case True
  then obtain ct n where r: "rotate_row a c (rnd (ce_id q)) w q = Inr (Some (ct, n))" by (auto simp: rewritten_def)
  then have "opens a c (rotated a c rnd w q) = decrypt_content_field a c (Some ct) (Some n)" by (simp add: rotated_def opens_def)
  with rotate_row_readable(1) [OF assms(1,2,3) r] show ?thesis by simp
next
  case False
  then have "rotated a c rnd w q = q" by (auto simp: rewritten_def rotated_def split: sum.split option.split)
  then show ?thesis by simp
qed

lemma rotate_rows_dry: "rotate_rows a c rnd w True batch cells m = Inr (cells', m') \<Longrightarrow> cells' = cells \<and> m' = m"
  by (induction batch arbitrary: cells m) (auto simp: res_simps split: option.splits)

lemma rotate_rows_effect:
  assumes "rotate_rows a c rnd w False batch cells m = Inr (cells', m')"
    and "distinct (map ce_id batch)" and "\<And>q r. q \<in> set cells \<Longrightarrow> r \<in> set batch \<Longrightarrow> ce_id q = ce_id r \<Longrightarrow> q = r"
  shows "cells' = map (\<lambda>q. if q \<in> set batch then rotated a c rnd w q else q) cells \<and> m' = m + length (filter (rewritten a c rnd w) batch)"
  using assms
proof (induction batch arbitrary: cells m)
  case (Cons r batch)
  let ?cells = "map (\<lambda>q. if ce_id q = ce_id r then rotated a c rnd w r else q) cells"
  let ?m = "m + (if rewritten a c rnd w r then 1 else 0)"
  have same: "q = r" if "q \<in> set cells" "ce_id q = ce_id r" for q by (rule Cons.prems(3)) (use that in simp_all)
  have rest: "rotate_rows a c rnd w False batch ?cells ?m = Inr (cells', m')"
  proof -
    obtain new where new: "rotate_row a c (rnd (ce_id r)) w r = Inr new" using Cons.prems(1) by (auto simp: res_simps)
    show ?thesis
    proof (cases new)
      case None
      have "?cells = cells"
      proof (rule map_idI)
        fix q assume "q \<in> set cells"
        then have "ce_id q = ce_id r \<longrightarrow> q = r" using same by blast
        with new None show "(if ce_id q = ce_id r then rotated a c rnd w r else q) = q" by (cases "ce_id q = ce_id r") (simp_all add: rotated_def)
      qed
      moreover have "\<not> rewritten a c rnd w r" using new None by (simp add: rewritten_def)
      ultimately show ?thesis using None new Cons.prems(1) by simp
    next
      case (Some p)
      then obtain ct n where p: "new = Some (ct, n)" by (cases p) auto
      have "sql_update (\<lambda>q. ce_id q = ce_id r) (\<lambda>q. q\<lparr>ce_ct := Some ct, ce_nonce := Some n\<rparr>) cells = ?cells"
        unfolding sql_update_def
      proof (rule map_cong [OF refl])
        fix q assume "q \<in> set cells"
        then have "ce_id q = ce_id r \<longrightarrow> q = r" using same by blast
        with new p show "(if ce_id q = ce_id r then q\<lparr>ce_ct := Some ct, ce_nonce := Some n\<rparr> else q) = (if ce_id q = ce_id r then rotated a c rnd w r else q)"
          by (cases "ce_id q = ce_id r") (simp_all add: rotated_def)
      qed
      moreover have "rewritten a c rnd w r" using p new by (simp add: rewritten_def)
      ultimately show ?thesis using p new Cons.prems(1) by simp
    qed
  qed
  have apart: "q = s" if "q \<in> set ?cells" "s \<in> set batch" "ce_id q = ce_id s" for q s
  proof -
    have "ce_id s \<noteq> ce_id r" using Cons.prems(2) that(2) by (metis distinct.simps(2) image_eqI list.map(2) list.set_map)
    then have "q \<in> set cells" using that(1,3) by (auto split: if_splits)
    then show ?thesis by (rule Cons.prems(3)) (use that in simp_all)
  qed
  have "distinct (map ce_id batch)" using Cons.prems(2) by simp
  have both: "cells' = map (\<lambda>q. if q \<in> set batch then rotated a c rnd w q else q) ?cells \<and> m' = ?m + length (filter (rewritten a c rnd w) batch)"
    by (rule Cons.IH [OF rest \<open>distinct (map ce_id batch)\<close>]) (rule apart)
  note step = conjunct1 [OF both] conjunct2 [OF both]
  have "(if (if ce_id q = ce_id r then rotated a c rnd w r else q) \<in> set batch
           then rotated a c rnd w (if ce_id q = ce_id r then rotated a c rnd w r else q)
           else (if ce_id q = ce_id r then rotated a c rnd w r else q)) =
        (if q \<in> set (r # batch) then rotated a c rnd w q else q)" if q: "q \<in> set cells" for q
  proof (cases "ce_id q = ce_id r")
    case True
    have "rotated a c rnd w r \<notin> set batch"
    proof
      assume "rotated a c rnd w r \<in> set batch"
      then have "ce_id (rotated a c rnd w r) \<in> ce_id ` set batch" by (rule imageI)
      with Cons.prems(2) show False by simp
    qed
    moreover have "q = r" using q True by (rule same)
    ultimately show ?thesis by (simp only: refl if_True if_False list.set insert_iff simp_thms)
  next
    case False
    then have "q \<noteq> r" by auto
    then show ?thesis by (simp only: if_not_P [OF False] list.set insert_iff simp_thms)
  qed
  note each = this
  have "map (\<lambda>q. if q \<in> set batch then rotated a c rnd w q else q) ?cells = map (\<lambda>q. if q \<in> set (r # batch) then rotated a c rnd w q else q) cells"
    unfolding map_map o_def by (rule map_cong [OF refl], rule each)
  from trans [OF step(1) this] have "cells' = map (\<lambda>q. if q \<in> set (r # batch) then rotated a c rnd w q else q) cells" .
  moreover have "m' = m + length (filter (rewritten a c rnd w) (r # batch))" using step(2) by simp
  ultimately show ?case by (rule conjI)
qed simp

lemma rotate_rows_Inl:
  "rotate_rows a c rnd w dry batch cells m = Inl e \<Longrightarrow> e = InvalidTag \<and> (\<exists>r \<in> set batch. rotate_row a c (rnd (ce_id r)) w r = Inl e)"
proof (induction batch arbitrary: cells m)
  case (Cons r batch)
  have "rotate_row a c (rnd (ce_id r)) w r = Inl e \<Longrightarrow> e = InvalidTag"
    using decrypt_errors [of a c _ _ e] by (auto simp: rotate_row_def encrypt_with_version_def Let_def split: option.splits if_splits sum.splits)
  with Cons show ?case
    by (cases "rotate_row a c (rnd (ce_id r)) w r") (force split: option.splits if_splits prod.splits)+
qed simp

section \<open>The batches together\<close>

lemma fetch_batch_facts:
  assumes "unique_key ce_id cells" and "fetch_batch v last_id cells \<noteq> []"
  defines "batch \<equiv> fetch_batch v last_id cells"
  shows "distinct (map ce_id batch)" "last_id < ce_id (last batch)"
    "q \<in> set cells \<Longrightarrow> q \<in> set batch \<longleftrightarrow> at_version v q \<and> last_id < ce_id q \<and> ce_id q \<le> ce_id (last batch)"
    "set batch \<subseteq> set cells"
proof -
  let ?c = "filter (\<lambda>q. at_version v q \<and> ce_id q > last_id) cells"
  have b: "batch = take BATCH_SIZE (sort_key ce_id ?c)" by (simp add: batch_def fetch_batch_def)
  have from_cells: "set batch \<subseteq> set ?c" unfolding b using set_take_subset [of BATCH_SIZE "sort_key ce_id ?c"] by simp
  then show sub: "set batch \<subseteq> set cells" by auto
  have "distinct (map ce_id ?c)" using assms(1) by (simp add: unique_key_def distinct_map_filter)
  then have "distinct (map ce_id (sort_key ce_id ?c))" by (simp add: distinct_map)
  then show dist: "distinct (map ce_id batch)" unfolding b by (simp add: take_map [symmetric])
  have "batch \<noteq> []" using assms(2) by (simp add: batch_def)
  then have l: "last batch \<in> set batch" by simp
  then show "last_id < ce_id (last batch)" using from_cells by auto
  have "sorted (map ce_id batch)" unfolding b using sorted_sort_key [of ce_id ?c] by (simp add: take_map [symmetric] sorted_wrt_take)
  then have top: "ce_id q \<le> ce_id (last batch)" if "q \<in> set batch" for q
    using that by (rule sorted_last)
  show "q \<in> set batch \<longleftrightarrow> at_version v q \<and> last_id < ce_id q \<and> ce_id q \<le> ce_id (last batch)" if q: "q \<in> set cells"
  proof
    assume "q \<in> set batch"
    with from_cells top show "at_version v q \<and> last_id < ce_id q \<and> ce_id q \<le> ce_id (last batch)" by auto
  next
    assume r: "at_version v q \<and> last_id < ce_id q \<and> ce_id q \<le> ce_id (last batch)"
    show "q \<in> set batch"
    proof (rule ccontr)
      assume n: "q \<notin> set batch"
      have "q \<in> set ?c" using q r by simp
      from take_sort_key_less [OF this n [unfolded b] l [unfolded b]] r have "ce_id q = ce_id (last batch)" unfolding b by simp
      moreover have "last batch \<in> set cells" using l sub by blast
      ultimately have "q = last batch" using assms(1) q by (auto dest: unique_keyD)
      with l n show False by simp
    qed
  qed
qed

text \<open>A pass over the rows of version \<open>v\<close> with an id above \<open>lo\<close> and at most \<open>hi\<close>.\<close>

definition pass :: "rotation_env \<Rightarrow> int \<Rightarrow> int \<Rightarrow> column_pair \<Rightarrow> int \<Rightarrow> int option \<Rightarrow> cell \<Rightarrow> cell" where
  "pass x v w col lo hi q =
     (if at_version v q \<and> lo < ce_id q \<and> (case hi of None \<Rightarrow> True | Some h \<Rightarrow> ce_id q \<le> h)
      then rotated (rv_aead x) (rv_cipher x) (rv_rnd x col) w q else q)"

definition counted :: "rotation_env \<Rightarrow> int \<Rightarrow> int \<Rightarrow> column_pair \<Rightarrow> int \<Rightarrow> cell list \<Rightarrow> nat" where
  "counted x v w col lo cells =
     length (filter (\<lambda>q. at_version v q \<and> lo < ce_id q \<and> rewritten (rv_aead x) (rv_cipher x) (rv_rnd x col) w q) cells)"

lemma pass_id [simp]: "ce_id (pass x v w col lo hi q) = ce_id q"
  by (simp add: pass_def)

lemma pass_none: "hi \<le> lo \<Longrightarrow> pass x v w col lo (Some hi) q = q"
  by (auto simp: pass_def)

lemma pass_pass:
  assumes "lo < mid"
  shows "pass x v w col mid None (pass x v w col lo (Some mid) q) = pass x v w col lo None q"
    "mid \<le> h \<Longrightarrow> pass x v w col mid (Some h) (pass x v w col lo (Some mid) q) = pass x v w col lo (Some h) q"
  using assms by (auto simp: pass_def)

lemma unique_key_pass: "unique_key ce_id cells \<Longrightarrow> unique_key ce_id (map (pass x v w col lo hi) cells)"
  by (simp add: unique_key_def o_def)

lemma batch_pass:
  assumes "unique_key ce_id cells" and "fetch_batch v lo cells \<noteq> []"
    and "rotate_rows (rv_aead x) (rv_cipher x) (rv_rnd x col) w False (fetch_batch v lo cells) cells 0 = Inr (cells', u)"
  defines "hi \<equiv> ce_id (last (fetch_batch v lo cells))"
  shows "cells' = map (pass x v w col lo (Some hi)) cells" "counted x v w col lo cells = u + counted x v w col hi cells'"
proof -
  let ?b = "fetch_batch v lo cells" and ?R = "rewritten (rv_aead x) (rv_cipher x) (rv_rnd x col) w"
  note facts = fetch_batch_facts [OF assms(1,2), folded hi_def]
  have apart: "q = r" if "q \<in> set cells" "r \<in> set ?b" "ce_id q = ce_id r" for q r
    using unique_keyD [OF assms(1) that(1) _ that(3)] that(2) facts(4) by blast
  have e: "cells' = map (\<lambda>q. if q \<in> set ?b then rotated (rv_aead x) (rv_cipher x) (rv_rnd x col) w q else q) cells \<and> u = 0 + length (filter ?R ?b)"
    by (rule rotate_rows_effect [OF assms(3) facts(1)]) (rule apart)
  have one: "pass x v w col lo (Some hi) q = (if q \<in> set ?b then rotated (rv_aead x) (rv_cipher x) (rv_rnd x col) w q else q)"
    if "q \<in> set cells" for q
    unfolding facts(3) [OF that] pass_def by simp
  have "map (\<lambda>q. if q \<in> set ?b then rotated (rv_aead x) (rv_cipher x) (rv_rnd x col) w q else q) cells = map (pass x v w col lo (Some hi)) cells"
    by (rule map_cong [OF refl], rule one [symmetric])
  with e show cells': "cells' = map (pass x v w col lo (Some hi)) cells" by (elim conjE) (rule trans)
  let ?P = "\<lambda>q. at_version v q \<and> lo < ce_id q \<and> ?R q"
  have "distinct cells" using assms(1) by (simp add: unique_key_def distinct_map)
  moreover have "distinct ?b" using facts(1) by (simp add: distinct_map)
  moreover have "set (filter ?R ?b) = set (filter (\<lambda>q. ?P q \<and> ce_id q \<le> hi) cells)"
  proof (rule set_eqI)
    fix q
    show "q \<in> set (filter ?R ?b) \<longleftrightarrow> q \<in> set (filter (\<lambda>q. ?P q \<and> ce_id q \<le> hi) cells)"
      using facts(3) [of q] facts(4) by (cases "q \<in> set cells") auto
  qed
  ultimately have "length (filter ?R ?b) = length (filter (\<lambda>q. ?P q \<and> ce_id q \<le> hi) cells)"
    using distinct_card [of "filter ?R ?b"] distinct_card [of "filter (\<lambda>q. ?P q \<and> ce_id q \<le> hi) cells"] by simp
  then have u: "u = length (filter (\<lambda>q. ?P q \<and> ce_id q \<le> hi) cells)" using conjunct2 [OF e] by simp
  have "filter (\<lambda>q. at_version v q \<and> hi < ce_id q \<and> ?R q) cells' = filter (\<lambda>q. ?P q \<and> \<not> ce_id q \<le> hi) cells"
  proof -
    have keep: "pass x v w col lo (Some hi) q = q" if "hi < ce_id q" for q using that by (simp add: pass_def)
    note lo = facts(2)
    have "filter (\<lambda>q. hi < ce_id q) (map (pass x v w col lo (Some hi)) zs) = filter (\<lambda>q. hi < ce_id q) zs" for zs
      using keep by (induction zs) auto
    note moved = arg_cong [OF this [of cells], of "filter (\<lambda>q. at_version v q \<and> ?R q)", unfolded filter_filter, folded cells']
    have "filter (\<lambda>q. at_version v q \<and> hi < ce_id q \<and> ?R q) cells' = filter (\<lambda>q. hi < ce_id q \<and> at_version v q \<and> ?R q) cells'"
      by (rule filter_cong) auto
    also note moved
    also have "filter (\<lambda>q. hi < ce_id q \<and> at_version v q \<and> ?R q) cells = filter (\<lambda>q. ?P q \<and> \<not> ce_id q \<le> hi) cells"
      by (rule filter_cong) (use lo in auto)
    finally show ?thesis .
  qed
  then have "counted x v w col hi cells' = length (filter (\<lambda>q. ?P q \<and> \<not> ce_id q \<le> hi) cells)" by (simp add: counted_def)
  moreover have "length (filter ?P cells) = length (filter (\<lambda>q. ?P q \<and> ce_id q \<le> hi) cells) + length (filter (\<lambda>q. ?P q \<and> \<not> ce_id q \<le> hi) cells)"
    by (induction cells) auto
  ultimately show "counted x v w col lo cells = u + counted x v w col hi cells'" using u by (simp add: counted_def)
qed

definition quiet :: "rotation_env \<Rightarrow> bool" where
  "quiet x = (\<forall>col k d. rv_meanwhile x col k d = d)"

lemma unrotated_row:
  assumes "r \<in> set (fetch_batch v lo cells)"
  shows "r \<in> set cells \<and> at_version v r \<and> lo < ce_id r"
  using assms by (auto simp: fetch_batch_def dest: in_set_takeD)

definition tampered :: "rotation_env \<Rightarrow> int \<Rightarrow> int \<Rightarrow> column_pair \<Rightarrow> int \<Rightarrow> cerror \<Rightarrow> cell \<Rightarrow> bool" where
  "tampered x v w col lo e r =
     (at_version v r \<and> lo < ce_id r \<and> e = InvalidTag \<and> rotate_row (rv_aead x) (rv_cipher x) (rv_rnd x col (ce_id r)) w r = Inl e)"

lemma rotate_batches_effect:
  assumes "rotate_batches fuel x v w col False k lo u n db = Some (res, db')" and "quiet x" and "unique_key ce_id (rt_cells db col)"
  shows "(\<forall>c. c \<noteq> col \<longrightarrow> rt_cells db' c = rt_cells db c) \<and>
    (case res of
       Inr (u', n') \<Rightarrow> rt_cells db' col = map (pass x v w col lo None) (rt_cells db col) \<and> u' = u + counted x v w col lo (rt_cells db col)
     | Inl e \<Rightarrow> (\<exists>hi. rt_cells db' col = map (pass x v w col lo (Some hi)) (rt_cells db col)) \<and> (\<exists>r \<in> set (rt_cells db col). tampered x v w col lo e r))"
  using assms
proof (induction fuel arbitrary: k lo u n db)
  case (Suc fuel)
  let ?cells = "rt_cells db col" and ?b = "fetch_batch v lo (rt_cells db col)"
  show ?case
  proof (cases "?b = []")
    case True
    then have res: "res = Inr (u, n)" "db' = db" using Suc.prems(1) by simp_all
    have "sort_key ce_id (filter (\<lambda>q. at_version v q \<and> lo < ce_id q) ?cells) = []"
      using True by (simp add: fetch_batch_def BATCH_SIZE_def)
    then have "set (sort_key ce_id (filter (\<lambda>q. at_version v q \<and> lo < ce_id q) ?cells)) = {}" by (simp only: list.set)
    then have none: "\<forall>q \<in> set ?cells. \<not> (at_version v q \<and> lo < ce_id q)" by auto
    then have "map (pass x v w col lo None) ?cells = ?cells" by (intro map_idI) (auto simp: pass_def)
    moreover have "counted x v w col lo ?cells = 0" using none by (auto simp: counted_def filter_empty_conv)
    ultimately show ?thesis using res by simp
  next
    case False
    let ?hi = "ce_id (last ?b)"
    note facts = fetch_batch_facts [OF Suc.prems(3) False]
    have q: "rv_meanwhile x col k db = db" using Suc.prems(2) unfolding quiet_def by blast
    show ?thesis
    proof (cases "rotate_rows (rv_aead x) (rv_cipher x) (rv_rnd x col) w False ?b ?cells 0")
      case (Inl e)
      then have res: "res = Inl e" "db' = db" using Suc.prems(1) False q by (simp_all add: Let_def)
      have "map (pass x v w col lo (Some lo)) ?cells = ?cells" by (intro map_idI) (simp add: pass_none)
      moreover obtain r where r: "r \<in> set ?b" "e = InvalidTag" "rotate_row (rv_aead x) (rv_cipher x) (rv_rnd x col (ce_id r)) w r = Inl e"
        using rotate_rows_Inl [OF Inl] by blast
      moreover have "r \<in> set ?cells \<and> tampered x v w col lo e r" using r unrotated_row [OF r(1)] by (simp add: tampered_def)
      ultimately show ?thesis using res by (auto intro!: exI [of _ lo])
    next
      case (Inr r)
      obtain cells' m where r: "r = (cells', m)" by (cases r)
      note b = batch_pass [OF Suc.prems(3) False Inr [unfolded r]]
      define db2 where "db2 = db\<lparr>rt_cells := (rt_cells db)(col := cells'),
          rt_audit := (if 0 < m then rt_audit db @ [\<lparr>ra_table = col_table col, ra_column = col_encrypted col, ra_count = m, ra_from = v, ra_to = w\<rparr>] else rt_audit db)\<rparr>"
      have cells2: "rt_cells db2 col = cells'" "c \<noteq> col \<Longrightarrow> rt_cells db2 c = rt_cells db c" for c by (simp_all add: db2_def)
      have run: "rotate_batches fuel x v w col False (k + 1) ?hi (u + m) (n + (if 0 < m then 1 else 0)) db2 = Some (res, db')"
        using Suc.prems(1) False q Inr r by (cases "0 < m") (simp_all add: Let_def db2_def)
      have uk: "unique_key ce_id (rt_cells db2 col)" unfolding cells2 b(1) using Suc.prems(3) by (rule unique_key_pass)
      note ih = Suc.IH [OF run Suc.prems(2) uk, unfolded cells2]
      have frame: "\<forall>c. c \<noteq> col \<longrightarrow> rt_cells db' c = rt_cells db c" using ih cells2(2) by simp
      show ?thesis
      proof (cases res)
        case (Inl e)
        with ih obtain h where h: "rt_cells db' col = map (pass x v w col ?hi (Some h)) cells'" and r: "\<exists>r \<in> set cells'. tampered x v w col ?hi e r" by auto
        have "\<exists>r \<in> set ?cells. tampered x v w col lo e r"
        proof -
          obtain r where "r \<in> set cells'" and t: "tampered x v w col ?hi e r" using r by blast
          then obtain q where q: "q \<in> set ?cells" "r = pass x v w col lo (Some ?hi) q" unfolding b(1) by auto
          with t have "r = q" by (auto simp: tampered_def pass_def)
          with q(1) t facts(2) show ?thesis by (auto simp: tampered_def)
        qed
        note t = this
        note h
        also have "map (pass x v w col ?hi (Some h)) cells' = map (pass x v w col ?hi (Some (max ?hi h))) cells'"
          by (cases "?hi \<le> h") (simp_all add: max_def pass_none)
        also have "map (pass x v w col ?hi (Some (max ?hi h))) cells' = map (pass x v w col lo (Some (max ?hi h))) ?cells"
          unfolding b(1) map_map by (rule map_cong [OF refl]) (simp add: pass_pass(2) [OF facts(2)])
        finally show ?thesis using Inl t frame by (simp only: sum.case simp_thms) blast
      next
        case (Inr s)
        obtain u' n' where s: "s = (u', n')" by (cases s)
        with Inr ih have res: "rt_cells db' col = map (pass x v w col ?hi None) cells'" "u' = u + m + counted x v w col ?hi cells'" by auto
        have "map (pass x v w col ?hi None) cells' = map (pass x v w col lo None) ?cells"
          unfolding b(1) map_map by (rule map_cong [OF refl]) (simp add: pass_pass(1) [OF facts(2)])
        with Inr s res b(2) frame show ?thesis by simp
      qed
    qed
  qed
qed simp

lemma rotate_batches_enough:
  assumes "length (filter (\<lambda>q. at_version v q \<and> lo < ce_id q) (rt_cells db col)) < fuel" and "quiet x" and "unique_key ce_id (rt_cells db col)"
  shows "rotate_batches fuel x v w col False k lo u n db \<noteq> None"
  using assms
proof (induction fuel arbitrary: k lo u n db)
  case (Suc fuel)
  let ?cells = "rt_cells db col" and ?b = "fetch_batch v lo (rt_cells db col)"
  have q: "rv_meanwhile x col k db = db" using Suc.prems(2) unfolding quiet_def by blast
  show ?case
  proof (cases "?b = []")
    case False
    let ?hi = "ce_id (last ?b)"
    note facts = fetch_batch_facts [OF Suc.prems(3) False]
    show ?thesis
    proof (cases "rotate_rows (rv_aead x) (rv_cipher x) (rv_rnd x col) w False ?b ?cells 0")
      case (Inl e)
      with False q show ?thesis by (simp add: Let_def)
    next
      case (Inr r)
      obtain cells' m where r: "r = (cells', m)" by (cases r)
      note b = batch_pass [OF Suc.prems(3) False Inr [unfolded r]]
      have "filter (\<lambda>q. at_version v q \<and> ?hi < ce_id q) cells' = filter (\<lambda>q. at_version v q \<and> ?hi < ce_id q) ?cells"
      proof -
        have "filter (\<lambda>q. at_version v q \<and> ?hi < ce_id q) (map (pass x v w col lo (Some ?hi)) zs) = filter (\<lambda>q. at_version v q \<and> ?hi < ce_id q) zs" for zs
          by (induction zs) (auto simp: pass_def)
        then show ?thesis unfolding b(1) .
      qed
      moreover have "length (filter (\<lambda>q. at_version v q \<and> ?hi < ce_id q) ?cells) < length (filter (\<lambda>q. at_version v q \<and> lo < ce_id q) ?cells)"
      proof -
        have l: "last ?b \<in> set ?b" using False by simp
        have less: "filter (\<lambda>q. at_version v q \<and> ?hi < ce_id q) ?cells = filter (\<lambda>q. ?hi < ce_id q) (filter (\<lambda>q. at_version v q \<and> lo < ce_id q) ?cells)"
          unfolding filter_filter by (rule filter_cong) (use facts(2) in auto)
        show ?thesis unfolding less by (rule length_filter_less [of "last ?b"]) (use unrotated_row [OF l] in simp_all)
      qed
      ultimately have less: "length (filter (\<lambda>q. at_version v q \<and> ?hi < ce_id q) cells') < fuel" using Suc.prems(1) by simp
      have "unique_key ce_id cells'" unfolding b(1) using Suc.prems(3) by (rule unique_key_pass)
      with Suc.IH less Suc.prems(2) have "rotate_batches fuel x v w col False k' ?hi u' n' d \<noteq> None" if "rt_cells d col = cells'" for k' u' n' d
        using that by blast
      with False q Inr r show ?thesis by (simp add: Let_def)
    qed
  qed simp
qed simp

section \<open>All column pairs\<close>

lemma rotate_table_effect:
  assumes "rotate_table fuel x v w col False db = Some (res, db')" and "quiet x" and "unique_key ce_id (rt_cells db col)"
  shows "(\<forall>c. c \<noteq> col \<longrightarrow> rt_cells db' c = rt_cells db c) \<and>
    (case res of
       Inr (u, n) \<Rightarrow> rt_cells db' col = map (pass x v w col 0 None) (rt_cells db col) \<and> u = counted x v w col 0 (rt_cells db col)
     | Inl e \<Rightarrow> (\<exists>hi. rt_cells db' col = map (pass x v w col 0 (Some hi)) (rt_cells db col)) \<and> (\<exists>r \<in> set (rt_cells db col). tampered x v w col 0 e r))"
proof (cases "sql_count (at_version v) (rt_cells db col) = 0")
  case True
  then have none: "\<forall>q \<in> set (rt_cells db col). \<not> at_version v q" by (simp add: sql_count_zero)
  then have "map (pass x v w col 0 None) (rt_cells db col) = rt_cells db col" by (intro map_idI) (simp add: pass_def)
  moreover have "counted x v w col 0 (rt_cells db col) = 0" using none by (auto simp: counted_def filter_empty_conv)
  ultimately show ?thesis using assms(1) True by (auto simp: rotate_table_def)
next
  case False
  with assms(1) have "rotate_batches fuel x v w col False 0 0 0 0 db = Some (res, db')" by (simp add: rotate_table_def)
  from rotate_batches_effect [OF this assms(2,3)] show ?thesis unfolding add_0 .
qed

lemma rotate_tables_effect:
  assumes "rotate_tables fuel x v w False cols u n db = Some (res, db')" and "quiet x"
    and "\<And>c. unique_key ce_id (rt_cells db c)" and "distinct cols"
  shows "(\<forall>c. c \<notin> set cols \<longrightarrow> rt_cells db' c = rt_cells db c) \<and>
    (case res of
       Inr (u', n') \<Rightarrow> (\<forall>c \<in> set cols. rt_cells db' c = map (pass x v w c 0 None) (rt_cells db c)) \<and>
          u' = u + (\<Sum>c\<leftarrow>cols. counted x v w c 0 (rt_cells db c))
     | Inl e \<Rightarrow> (\<forall>c \<in> set cols. \<exists>hi. rt_cells db' c = map (pass x v w c 0 hi) (rt_cells db c)) \<and>
          (\<exists>c \<in> set cols. \<exists>r \<in> set (rt_cells db c). tampered x v w c 0 e r))"
  using assms
proof (induction cols arbitrary: u n db)
  case (Cons col cols)
  have idle: "\<exists>hi. cells = map (pass x v w c 0 hi) cells" for c cells
    by (rule exI [of _ "Some 0"], rule sym, rule map_idI) (simp add: pass_none)
  obtain r1 db1 where t: "rotate_table fuel x v w col False db = Some (r1, db1)"
    using Cons.prems(1) by (auto split: option.splits)
  note e = rotate_table_effect [OF t Cons.prems(2,3)]
  show ?case
  proof (cases r1)
    case (Inl er)
    then have res: "res = Inl er" "db' = db1" using Cons.prems(1) t by simp_all
    have "\<exists>hi. rt_cells db' c = map (pass x v w c 0 hi) (rt_cells db c)" if "c \<in> set (col # cols)" for c
    proof (cases "c = col")
      case True
      with e Inl res show ?thesis by auto
    next
      case False
      then have "rt_cells db' c = rt_cells db c" using e res by simp
      with idle show ?thesis by metis
    qed
    moreover have "\<exists>r \<in> set (rt_cells db col). tampered x v w col 0 er r" using e Inl by simp
    ultimately show ?thesis using e res by (simp add: Inl)
  next
    case (Inr p)
    obtain u1 n1 where p: "p = (u1, n1)" by (cases p)
    have run: "rotate_tables fuel x v w False cols (u + u1) (n + n1) db1 = Some (res, db')"
      using Cons.prems(1) t Inr p by simp
    have one: "rt_cells db1 col = map (pass x v w col 0 None) (rt_cells db col)" "u1 = counted x v w col 0 (rt_cells db col)"
      and frame: "\<And>c. c \<noteq> col \<Longrightarrow> rt_cells db1 c = rt_cells db c" using e Inr p by simp_all
    have "unique_key ce_id (rt_cells db1 c)" for c
      using Cons.prems(3) by (cases "c = col") (simp_all add: one(1) frame unique_key_pass)
    moreover have "distinct cols" "col \<notin> set cols" using Cons.prems(4) by simp_all
    ultimately have ih: "(\<forall>c. c \<notin> set cols \<longrightarrow> rt_cells db' c = rt_cells db1 c) \<and>
      (case res of
         Inr (u', n') \<Rightarrow> (\<forall>c \<in> set cols. rt_cells db' c = map (pass x v w c 0 None) (rt_cells db1 c)) \<and>
            u' = u + u1 + (\<Sum>c\<leftarrow>cols. counted x v w c 0 (rt_cells db1 c))
       | Inl e \<Rightarrow> (\<forall>c \<in> set cols. \<exists>hi. rt_cells db' c = map (pass x v w c 0 hi) (rt_cells db1 c)) \<and>
            (\<exists>c \<in> set cols. \<exists>r \<in> set (rt_cells db1 c). tampered x v w c 0 e r))"
      using Cons.IH [OF run Cons.prems(2)] by blast
    have later: "rt_cells db1 c = rt_cells db c" if "c \<in> set cols" for c
      using frame that \<open>col \<notin> set cols\<close> by metis
    then have sums: "(\<Sum>c\<leftarrow>cols. counted x v w c 0 (rt_cells db1 c)) = (\<Sum>c\<leftarrow>cols. counted x v w c 0 (rt_cells db c))"
      by (intro arg_cong [of _ _ sum_list] map_cong) simp_all
    have first: "rt_cells db' col = map (pass x v w col 0 None) (rt_cells db col)" using ih one(1) \<open>col \<notin> set cols\<close> by simp
    have rest: "c \<notin> set (col # cols) \<Longrightarrow> rt_cells db' c = rt_cells db c" for c using ih frame by simp
    show ?thesis
    proof (cases res)
      case (Inl er)
      with ih first later rest show ?thesis by (simp add: Inl) (metis (no_types))
    next
      case (Inr q)
      with ih first later rest sums one(2) show ?thesis by (cases q) (simp add: Inr)
    qed
  qed
next
  case Nil
  then have "res = Inr (u, n)" "db' = db" by auto
  then show ?case by simp
qed

section \<open>Properties\<close>

lemma screens_distinct: "distinct ROTATION_SCREENS"
  by (simp add: ROTATION_SCREENS_def)

lemma opens_pass:
  assumes "cipher_ok (rv_aead x) (rv_cipher x)" and "w \<in> known_versions (rv_cipher x)" and "\<And>c i. length (rv_rnd x c i) = 11"
  shows "opens (rv_aead x) (rv_cipher x) (pass x v w col lo hi q) = opens (rv_aead x) (rv_cipher x) q"
  using opens_rotated [OF assms(1,2)] assms(3) by (simp add: pass_def)

text \<open>
  Property C6.  While nothing else writes to the tables, rotation loses no text, however it ends: after
  any such run of the script, dry or not, finished, failed on a cell whose tag does not verify or
  stopped by the verification, every cell of every column pair reads back as it did before, under
  the same id.  (A text that another connection commits during the run can be lost, see
  \<open>rotation_overwrites_update\<close>.)
\<close>

theorem rotation_keeps_texts:
  assumes "run_rotation fuel x v w dry_run verifying db = Some (res, db')" and "quiet x"
    and "cipher_ok (rv_aead x) (rv_cipher x)" and "\<And>c i. length (rv_rnd x c i) = 11" and "\<And>c. unique_key ce_id (rt_cells db c)"
  shows "map (\<lambda>q. (ce_id q, opens (rv_aead x) (rv_cipher x) q)) (rt_cells db' col) =
    map (\<lambda>q. (ce_id q, opens (rv_aead x) (rv_cipher x) q)) (rt_cells db col)"
proof (cases "w \<in> known_versions (rv_cipher x) \<and> \<not> dry_run")
  case False
  then have "db' = db" using assms(1) by (auto simp: run_rotation_def known_versions_def list_ex_iff split: if_splits)
  then show ?thesis by simp
next
  case True
  then have known: "list_ex (\<lambda>k. fst k = w) (cc_keys (rv_cipher x))" by (auto simp: known_versions_def list_ex_iff)
  note run = assms(1) [unfolded run_rotation_def]
  obtain r where t: "rotate_tables fuel x v w False ROTATION_SCREENS 0 0 db = Some (r, db')"
    using run known True by (auto split: option.splits sum.splits)
  have "\<exists>hi. rt_cells db' col = map (pass x v w col 0 hi) (rt_cells db col)"
  proof (cases "col \<in> set ROTATION_SCREENS")
    case True
    then show ?thesis
      using rotate_tables_effect [OF t assms(2,5) screens_distinct] by (cases r) auto
  next
    case False
    then have "rt_cells db' col = rt_cells db col" using rotate_tables_effect [OF t assms(2,5) screens_distinct] by simp
    moreover have "map (pass x v w col 0 (Some 0)) (rt_cells db col) = rt_cells db col" by (rule map_idI) (simp add: pass_none)
    ultimately show ?thesis by metis
  qed
  then obtain hi where "rt_cells db' col = map (pass x v w col 0 hi) (rt_cells db col)" ..
  then show ?thesis using opens_pass [OF assms(3) conjunct1 [OF True] assms(4)] by simp
qed

lemma rotate_tables_enough:
  assumes "\<And>c. length (rt_cells db c) < fuel" and "quiet x" and "\<And>c. unique_key ce_id (rt_cells db c)"
  shows "rotate_tables fuel x v w False cols u n db \<noteq> None"
  using assms(1,3)
proof (induction cols arbitrary: u n db)
  case (Cons col cols)
  have "rotate_table fuel x v w col False db \<noteq> None"
    by (cases "sql_count (at_version v) (rt_cells db col) = 0")
       (use rotate_batches_enough [OF le_less_trans [OF length_filter_le Cons.prems(1)] assms(2) Cons.prems(2)] in \<open>simp_all add: rotate_table_def\<close>)
  then obtain r db1 where t: "rotate_table fuel x v w col False db = Some (r, db1)" by auto
  show ?case
  proof (cases r)
    case (Inr p)
    note e = rotate_table_effect [OF t assms(2) Cons.prems(2)]
    have "length (rt_cells db1 c) < fuel \<and> unique_key ce_id (rt_cells db1 c)" for c
      using Cons.prems e Inr unique_key_pass by (cases "c = col"; cases p) auto
    then show ?thesis using Cons.IH t Inr by (cases p) simp
  qed (use t in simp)
qed simp

lemma opened_row:
  assumes "cipher_ok (rv_aead x) (rv_cipher x)" and "w \<in> known_versions (rv_cipher x)" and "1 \<le> v" and "v \<le> 255" and "v \<noteq> w"
    and "\<And>k n p. length n = 12 \<Longrightarrow> gcm_encrypt (rv_aead x) k n p \<noteq> []"
    and "at_version v q"
  shows "rewritten (rv_aead x) (rv_cipher x) rnd w q \<longleftrightarrow> (\<exists>t. opens (rv_aead x) (rv_cipher x) q = Inr t)"
proof
  assume "rewritten (rv_aead x) (rv_cipher x) rnd w q"
  then show "\<exists>t. opens (rv_aead x) (rv_cipher x) q = Inr t"
    by (auto simp: rewritten_def opens_def decrypt_content_field_def decrypt_or_raise_Inr res_simps elim!: rotate_row_Some)
next
  assume "\<exists>t. opens (rv_aead x) (rv_cipher x) q = Inr t"
  moreover obtain ct b n where q: "ce_ct q = Some ct" "ce_nonce q = Some (b # n)" "uint b = v"
    using assms(7) at_version_iff [of v q] assms(3,4) by auto
  ultimately obtain t where d: "decrypt (rv_aead x) (rv_cipher x) ct (b # n) = Inr t"
    by (auto simp: opens_def decrypt_content_field_def decrypt_or_raise_Inr res_simps)
  have a: "aead_ok (rv_aead x)" using assms(1) by (simp add: cipher_ok_def)
  then obtain k e where e: "length (b # n) = 12" "utf8_encode t = Some e" "ct = gcm_encrypt (rv_aead x) k (b # n) e"
    using d utf8_decode_inv unfolding decrypt_Inr aead_ok_def by blast
  have "ct \<noteq> []" using assms(6) [OF e(1)] e(3) by simp
  obtain key where "map_of (cc_keys (rv_cipher x)) w = Some key" using assms(2) by (auto simp: known_versions_lookup)
  then have "\<exists>p. encrypt_with_version (rv_aead x) (rv_cipher x) (rnd (ce_id q)) t w = Inr p" using e(2) by (simp add: encrypt_with_version_def Let_def)
  then show "rewritten (rv_aead x) (rv_cipher x) rnd w q"
    using q d \<open>ct \<noteq> []\<close> assms(5) by (auto simp: rewritten_def rotate_row_def)
qed

lemma retired_row:
  assumes "cipher_ok (rv_aead x) (rv_cipher x)" and "w \<in> known_versions (rv_cipher x)" and "1 \<le> v" and "v \<le> 255" and "v \<noteq> w"
    and "\<And>k n p. length n = 12 \<Longrightarrow> gcm_encrypt (rv_aead x) k n p \<noteq> []" and "\<And>c i. length (rv_rnd x c i) = 11"
    and "map_of (cc_keys c') = (map_of (cc_keys (rv_cipher x)))(v := None)" and "0 < ce_id q"
    and "opens (rv_aead x) (rv_cipher x) q = Inr t"
  shows "opens (rv_aead x) c' (pass x v w col 0 None q) = Inr t"
proof (cases "at_version v q")
  case True
  with opened_row [OF assms(1-6)] assms(10) obtain ct n where r: "rotate_row (rv_aead x) (rv_cipher x) (rv_rnd x col (ce_id q)) w q = Inr (Some (ct, n))"
    by (fastforce simp: rewritten_def)
  have "pass x v w col 0 None q = q\<lparr>ce_ct := Some ct, ce_nonce := Some n\<rparr>" using True assms(9) r by (simp add: pass_def rotated_def)
  moreover obtain u where u: "opens (rv_aead x) (rv_cipher x) q = Inr (Some u)" "decrypt (rv_aead x) c' ct n = Inr u"
    using rotate_row_readable(4) [OF assms(1,2,7) r] assms(5,8) by auto
  ultimately show ?thesis using assms(10) by (simp add: opens_def decrypt_content_field_def decrypt_or_raise_def)
next
  case False
  then have same: "pass x v w col 0 None q = q" by (simp add: pass_def)
  show ?thesis
  proof (cases "ce_ct q")
    case None
    then show ?thesis using assms(10) by (auto simp: same opens_def decrypt_content_field_def split: option.splits)
  next
    case (Some ct)
    with assms(10) obtain n u where n: "ce_nonce q = Some n" "decrypt (rv_aead x) (rv_cipher x) ct n = Inr u" "t = Some u"
      by (auto simp: opens_def decrypt_content_field_def decrypt_or_raise_Inr res_simps split: option.splits)
    then have "length n = 12" by (simp add: decrypt_Inr)
    then obtain b n' where bn: "n = b # n'" by (cases n) auto
    then have "uint b \<noteq> v" using False Some n(1) assms(3,4) by (auto simp: at_version_iff)
    then have "decrypt (rv_aead x) c' ct n = Inr u" using n(2) bn by (simp add: decrypt_Inr assms(8))
    then show ?thesis using Some n by (simp add: same opens_def decrypt_content_field_def decrypt_or_raise_def)
  qed
qed

text \<open>
  Property C5.  A rotation retires its key.  When nothing else writes and no cell of the source
  version has a broken tag, the script comes to its end, reports exactly the cells of that version
  that had a text, and afterwards the old key is not needed: a cipher with the same keys but that
  one opens every cell that opened before, to the same text.
\<close>

theorem rotation_retires_key:
  assumes "quiet x" and "cipher_ok (rv_aead x) (rv_cipher x)" and "w \<in> known_versions (rv_cipher x)"
    and "1 \<le> v" and "v \<le> 255" and "v \<noteq> w"
    and "\<And>k n p. length n = 12 \<Longrightarrow> gcm_encrypt (rv_aead x) k n p \<noteq> []" and "\<And>c i. length (rv_rnd x c i) = 11"
    and "map_of (cc_keys c') = (map_of (cc_keys (rv_cipher x)))(v := None)"
    and "\<And>c. unique_key ce_id (rt_cells db c)" and "\<And>c. length (rt_cells db c) < fuel"
    and "\<And>c q. q \<in> set (rt_cells db c) \<Longrightarrow> 0 < ce_id q"
    and "\<And>c q. q \<in> set (rt_cells db c) \<Longrightarrow> at_version v q \<Longrightarrow>
          decrypt (rv_aead x) (rv_cipher x) (the (ce_ct q)) (the (ce_nonce q)) \<noteq> Inl InvalidTag"
  shows "\<exists>u n db'. run_rotation fuel x v w False False db = Some (Inr (Rotated u n None), db') \<and>
    u = (\<Sum>c\<leftarrow>ROTATION_SCREENS. length (filter (\<lambda>q. at_version v q \<and> (\<exists>t. opens (rv_aead x) (rv_cipher x) q = Inr t)) (rt_cells db c))) \<and>
    (\<forall>c \<in> set ROTATION_SCREENS. list_all2 (\<lambda>q q'. ce_id q' = ce_id q \<and>
        (\<forall>t. opens (rv_aead x) (rv_cipher x) q = Inr t \<longrightarrow> opens (rv_aead x) c' q' = Inr t)) (rt_cells db c) (rt_cells db' c))"
proof -
  obtain r db' where t: "rotate_tables fuel x v w False ROTATION_SCREENS 0 0 db = Some (r, db')"
    using rotate_tables_enough [OF assms(11,1,10)] by fastforce
  note e = rotate_tables_effect [OF t assms(1,10) screens_distinct]
  have whole: "\<not> tampered x v w c 0 er q" if "q \<in> set (rt_cells db c)" for c q er
    using assms(13) [OF that] by (auto simp: tampered_def rotate_row_def encrypt_with_version_def Let_def split: option.splits if_splits sum.splits)
  obtain u n where r: "r = Inr (u, n)" using e whole by (cases r) auto
  have count: "counted x v w c 0 (rt_cells db c) =
      length (filter (\<lambda>q. at_version v q \<and> (\<exists>t. opens (rv_aead x) (rv_cipher x) q = Inr t)) (rt_cells db c))" for c
    unfolding counted_def using opened_row [OF assms(2-7)] assms(12)
    by (intro arg_cong [of _ _ length] filter_cong) auto
  have "run_rotation fuel x v w False False db = Some (Inr (Rotated u n None), db')"
    using assms(3) t r by (auto simp: run_rotation_def known_versions_def list_ex_iff)
  moreover have "u = (\<Sum>c\<leftarrow>ROTATION_SCREENS. counted x v w c 0 (rt_cells db c))" using e r by simp
  moreover have "list_all2 (\<lambda>q q'. ce_id q' = ce_id q \<and> (\<forall>t. opens (rv_aead x) (rv_cipher x) q = Inr t \<longrightarrow> opens (rv_aead x) c' q' = Inr t))
      (rt_cells db c) (rt_cells db' c)" if "c \<in> set ROTATION_SCREENS" for c
  proof -
    have "rt_cells db' c = map (pass x v w c 0 None) (rt_cells db c)" using e r that by simp
    then show ?thesis
      using retired_row [OF assms(2-9)] assms(12) by (auto simp: list.rel_map list_all2_same)
  qed
  ultimately show ?thesis unfolding count by blast
qed

section \<open>Witnesses\<close>

definition demo_rotation :: rotation_env where
  "demo_rotation = \<lparr>rv_aead = demo_aead, rv_cipher = \<lparr>cc_keys = demo_keys 2, cc_active = 2\<rparr>, rv_rnd = (\<lambda>c i. replicate 11 0),
     rv_meanwhile = (\<lambda>c k d. d), rv_sample = (\<lambda>c n cells. take n cells)\<rparr>"

definition demo_cell :: cell where
  "demo_cell = \<lparr>ce_id = 1, ce_ct = Some (gcm_encrypt demo_aead (replicate 32 1) (1 # replicate 11 0) [104, 105]), ce_nonce = Some (1 # replicate 11 0)\<rparr>"

definition demo_rotation_db :: rotation_db where
  "demo_rotation_db = \<lparr>rt_cells = (\<lambda>c. if c = hd ROTATION_SCREENS then [demo_cell] else []), rt_audit = []\<rparr>"

lemma demo_rotation_facts:
  "quiet demo_rotation" "cipher_ok (rv_aead demo_rotation) (rv_cipher demo_rotation)" "2 \<in> known_versions (rv_cipher demo_rotation)"
  "length (rv_rnd demo_rotation c i) = 11" "unique_key ce_id (rt_cells demo_rotation_db c)"
  "length n = 12 \<Longrightarrow> gcm_encrypt (rv_aead demo_rotation) k n p \<noteq> []"
proof -
  show "length n = 12 \<Longrightarrow> gcm_encrypt (rv_aead demo_rotation) k n p \<noteq> []" by (auto simp: demo_rotation_def demo_aead_def)
qed (simp_all add: quiet_def demo_rotation_def cipher_ok_def demo_aead_ok new_cipher_Inr demo_keys_def upt_rec known_versions_def
      demo_rotation_db_def unique_key_def)

lemma demo_cell_opens: "decrypt demo_aead (rv_cipher demo_rotation) (the (ce_ct demo_cell)) (the (ce_nonce demo_cell)) = Inr [104, 105]"
proof -
  have "utf8_decode [104, 105] = Some [104, 105]" using utf8_roundtrip [OF utf8_hi] .
  moreover have "gcm_decrypt demo_aead k n (gcm_encrypt demo_aead k n m) = Some m" for k n m using demo_aead_ok by (simp add: aead_ok_def)
  ultimately show ?thesis by (simp add: decrypt_Inr demo_cell_def demo_rotation_def demo_keys_def upt_rec)
qed

theorem rotation_retires_key_witness:
  "\<exists>n db'. run_rotation 2 demo_rotation 1 2 False False demo_rotation_db = Some (Inr (Rotated 1 n None), db')"
proof -
  have keys: "map_of [(2, replicate 32 2)] = (map_of (cc_keys (rv_cipher demo_rotation)))(1 := None)"
    by (auto simp: demo_rotation_def demo_keys_def upt_rec)
  have at: "at_version 1 demo_cell" by (simp add: at_version_iff demo_cell_def)
  have opened: "\<exists>t. opens (rv_aead demo_rotation) (rv_cipher demo_rotation) demo_cell = Inr t"
    using demo_cell_opens by (simp add: opens_def decrypt_content_field_def decrypt_or_raise_def demo_rotation_def demo_cell_def)
  have rows: "rt_cells demo_rotation_db c = (if c = hd ROTATION_SCREENS then [demo_cell] else [])" for c by (simp add: demo_rotation_db_def)
  have whole: "decrypt (rv_aead demo_rotation) (rv_cipher demo_rotation) (the (ce_ct q)) (the (ce_nonce q)) \<noteq> Inl InvalidTag"
    and pos: "0 < ce_id q" if "q \<in> set (rt_cells demo_rotation_db c)" for c q
    using that demo_cell_opens by (auto simp: rows demo_rotation_def demo_cell_def split: if_splits)
  have short: "length (rt_cells demo_rotation_db c) < 2" for c by (simp add: rows)
  have "(\<Sum>c\<leftarrow>ROTATION_SCREENS. length (filter (\<lambda>q. at_version 1 q \<and> (\<exists>t. opens (rv_aead demo_rotation) (rv_cipher demo_rotation) q = Inr t))
      (rt_cells demo_rotation_db c))) = 1"
    using at opened by (simp add: rows ROTATION_SCREENS_def)
  with rotation_retires_key [OF demo_rotation_facts(1-3) _ _ _ demo_rotation_facts(6) demo_rotation_facts(4), of 1 "\<lparr>cc_keys = [(2, replicate 32 2)], cc_active = 2\<rparr>" demo_rotation_db 2]
  show ?thesis using keys demo_rotation_facts(5) short pos whole by auto
qed

theorem rotation_keeps_texts_witness:
  "\<exists>res db'. run_rotation 2 demo_rotation 1 2 False True demo_rotation_db = Some (res, db') \<and>
     map (\<lambda>q. (ce_id q, opens (rv_aead demo_rotation) (rv_cipher demo_rotation) q)) (rt_cells db' (hd ROTATION_SCREENS)) = [(1, Inr (Some [104, 105]))]"
proof -
  have "length (rt_cells demo_rotation_db c) < 2" for c by (simp add: demo_rotation_db_def)
  then obtain r db1 where t: "rotate_tables 2 demo_rotation 1 2 False ROTATION_SCREENS 0 0 demo_rotation_db = Some (r, db1)"
    using rotate_tables_enough [of demo_rotation_db 2 demo_rotation] demo_rotation_facts(1,5) by fastforce
  have "list_ex (\<lambda>k. fst k = 2) (cc_keys (rv_cipher demo_rotation))"
    by (simp add: demo_rotation_def demo_keys_def upt_rec)
  with t obtain res db' where run: "run_rotation 2 demo_rotation 1 2 False True demo_rotation_db = Some (res, db')"
    by (cases r) (auto simp: run_rotation_def)
  have "opens (rv_aead demo_rotation) (rv_cipher demo_rotation) demo_cell = Inr (Some [104, 105])" "ce_id demo_cell = 1"
    using demo_cell_opens by (simp_all add: opens_def decrypt_content_field_def decrypt_or_raise_def demo_rotation_def demo_cell_def)
  then have "map (\<lambda>q. (ce_id q, opens (rv_aead demo_rotation) (rv_cipher demo_rotation) q)) (rt_cells demo_rotation_db (hd ROTATION_SCREENS)) =
      [(1, Inr (Some [104, 105]))]" by (simp add: demo_rotation_db_def)
  with rotation_keeps_texts [OF run demo_rotation_facts(1,2,4,5), of "hd ROTATION_SCREENS"] run show ?thesis by auto
qed

section \<open>Observations\<close>

text \<open>
  The update names the row by its id alone: a text that another connection commits between the read
  of the batch and its transaction is replaced by the one that was read.
\<close>

theorem rotation_overwrites_update:
  assumes "rotate_row (rv_aead x) (rv_cipher x) (rv_rnd x col (ce_id r)) w r = Inr (Some (ct, n))" and "ce_id q = ce_id r"
    and "at_version v r" and "0 < ce_id r" and "rt_cells db col = [r]" and "rv_meanwhile x col 0 db = db\<lparr>rt_cells := (rt_cells db)(col := [q])\<rparr>"
    and "\<And>d. rv_meanwhile x col (Suc 0) d = d"
  shows "\<exists>db'. rotate_table 2 x v w col False db = Some (Inr (1, 1), db') \<and>
    rt_cells db' col = [q\<lparr>ce_ct := Some ct, ce_nonce := Some n\<rparr>]"
proof -
  have "fetch_batch v 0 [r] = [r]" using assms(3,4) by (simp add: fetch_batch_def BATCH_SIZE_def)
  moreover have "fetch_batch v (ce_id r) [q\<lparr>ce_ct := Some ct, ce_nonce := Some n\<rparr>] = []" using assms(2) by (simp add: fetch_batch_def)
  ultimately show ?thesis
    using assms by (simp add: rotate_table_def sql_count_def Let_def numeral_2_eq_2 sql_update_def)
qed

text \<open>One cell whose tag does not verify ends the run, where the code means to warn and go on.\<close>

lemma rotate_rows_broken:
  "r \<in> set batch \<Longrightarrow> rotate_row a c (rnd (ce_id r)) w r = Inl e \<Longrightarrow> \<exists>e'. rotate_rows a c rnd w dry batch cells m = Inl e'"
proof (induction batch arbitrary: cells m)
  case (Cons q batch)
  then show ?case
    by (cases "rotate_row a c (rnd (ce_id q)) w q") (force split: option.splits)+
qed simp

theorem rotation_stops_at_broken_tag:
  assumes "quiet x" and "r \<in> set (fetch_batch v 0 (rt_cells db col))" and "rotate_row (rv_aead x) (rv_cipher x) (rv_rnd x col (ce_id r)) w r = Inl e"
  shows "rotate_table (Suc fuel) x v w col False db = Some (Inl InvalidTag, db)"
proof -
  obtain e' where e': "rotate_rows (rv_aead x) (rv_cipher x) (rv_rnd x col) w False (fetch_batch v 0 (rt_cells db col)) (rt_cells db col) 0 = Inl e'"
    using rotate_rows_broken [OF assms(2), where rnd = "rv_rnd x col", OF assms(3)] by blast
  then have "e' = InvalidTag" using rotate_rows_Inl by blast
  moreover have "sql_count (at_version v) (rt_cells db col) \<noteq> 0" using unrotated_row [OF assms(2)] by (auto simp: sql_count_zero)
  moreover have "fetch_batch v 0 (rt_cells db col) \<noteq> []" using assms(2) by auto
  moreover have "rv_meanwhile x col 0 db = db" using assms(1) unfolding quiet_def by blast
  ultimately show ?thesis using e' by (simp add: rotate_table_def Let_def)
qed

text \<open>The source version is not checked: 256 selects cells of version 16.\<close>

lemma version_256_selects_16: "at_version 256 \<lparr>ce_id = 1, ce_ct = Some [], ce_nonce = Some (16 # 5 # replicate 10 0)\<rparr>"
  by code_simp

end
