(* ===== verification/Tenancy.thy ===== *)
theory Tenancy
  imports ToolEntries Timeline Worker
begin

text \<open>
  What the tenants of one database have to do with each other: nothing but the candidates of the
  vector index, which is shared.

  The locale \<open>tenant_operation\<close> is the contract of a transaction on a user-scoped connection: it
  keeps the integrity of the tables and every row of other users.  \<open>tenant_service\<close> adds a reading
  operation that depends on the rows of its user alone; inside it, transactions of others are shown
  not to change what it returns.  \<open>tenant_step\<close> collects the transactions of the program that run
  on such a connection, and the interpretations at the end instantiate the contract with it and the
  repositories' reading operations.  The sweeps of \<open>orphan_cleanup.py\<close>, the reindex worker and the key
  rotation run on the administrator's connection and are not tenant steps.
\<close>

section \<open>Rows of one user\<close>

definition own :: "nat \<Rightarrow> jdb \<Rightarrow> jdb" where
  "own u db = \<lparr>topics = filter (\<lambda>t. tp_user t = u) (topics db),
     convs = filter (\<lambda>c. cv_user c = u) (convs db), msgs = filter (\<lambda>m. mg_user m = u) (msgs db),
     entries = filter (\<lambda>e. en_user e = u) (entries db), embs = filter (\<lambda>b. em_user b = u) (embs db),
     jobs = filter (\<lambda>j. jb_user j = u) (jobs db), audit = filter (\<lambda>a. au_actor a = u) (audit db),
     next_topic = 0, next_conv = 0, next_entry = 0\<rparr>"

lemma filter_owner: "v \<noteq> u \<Longrightarrow> filter (\<lambda>r. owner r = v) (filter (\<lambda>r. owner r \<noteq> u) xs) = filter (\<lambda>r. owner r = v) xs"
  by (induction xs) auto

lemma own_others: "v \<noteq> u \<Longrightarrow> own v (others u db) = own v db"
  by (simp add: own_def others_def filter_owner del: filter_filter)

section \<open>The contract\<close>

locale tenant_operation =
  fixes run :: "session \<Rightarrow> jdb \<Rightarrow> jdb \<Rightarrow> bool"
  assumes keeps: "jdb_ok db \<Longrightarrow> run s db db' \<Longrightarrow> jdb_ok db' \<and> others (gs_user s) db' = others (gs_user s) db"
begin

lemma own_kept: "jdb_ok db \<Longrightarrow> run s db db' \<Longrightarrow> v \<noteq> gs_user s \<Longrightarrow> own v db' = own v db"
proof -
  assume "jdb_ok db" "run s db db'" and v: "v \<noteq> gs_user s"
  then have "others (gs_user s) db' = others (gs_user s) db" using keeps by blast
  then have "own v (others (gs_user s) db') = own v (others (gs_user s) db)" by (rule arg_cong)
  then show ?thesis unfolding own_others [OF v] .
qed

lemma steps_keep:
  assumes "(\<lambda>d d'. \<exists>s. gs_user s \<in> U \<and> run s d d')\<^sup>*\<^sup>* db db'" and "jdb_ok db"
  shows "jdb_ok db' \<and> (\<forall>v. v \<notin> U \<longrightarrow> own v db' = own v db)"
  using assms
proof (induction rule: rtranclp_induct)
  case (step d d')
  then obtain s where s: "gs_user s \<in> U" "run s d d'" by blast
  from step.IH step.prems have d: "jdb_ok d" "\<And>v. v \<notin> U \<Longrightarrow> own v d = own v db" by blast+
  have "own v d' = own v db" if "v \<notin> U" for v
  proof -
    have "v \<noteq> gs_user s" using that s(1) by blast
    with own_kept [OF d(1) s(2)] d(2) [OF that] show ?thesis by simp
  qed
  with keeps [OF d(1) s(2)] show ?case by blast
qed simp

end

locale tenant_service = tenant_operation +
  fixes read :: "session \<Rightarrow> jdb \<Rightarrow> 'r"
  assumes local: "read s (own (gs_user s) db) = read s db"
begin

lemma undisturbed:
  assumes "(\<lambda>d d'. \<exists>s. gs_user s \<in> U \<and> run s d d')\<^sup>*\<^sup>* db db'" and "jdb_ok db" and "gs_user s \<notin> U"
  shows "read s db' = read s db"
proof -
  have "own (gs_user s) db' = own (gs_user s) db" using steps_keep [OF assms(1,2)] assms(3) by blast
  then have "read s (own (gs_user s) db') = read s (own (gs_user s) db)" by (rule arg_cong)
  then show ?thesis unfolding local .
qed

end

section \<open>Transactions of the program\<close>

lemma job_update_others:
  assumes "\<And>j. jb_user (f j) = jb_user j" and "\<And>j. P j \<Longrightarrow> vis s (jb_user j)"
  shows "others (gs_user s) (set_jobs (sql_update P f (jobs db)) db) = others (gs_user s) db"
proof -
  have "filter (\<lambda>j. jb_user j \<noteq> gs_user s) (sql_update P f (jobs db)) = filter (\<lambda>j. jb_user j \<noteq> gs_user s) (jobs db)"
    by (rule filter_update_other) (use assms visD in auto)
  then show ?thesis by (simp add: others_def set_jobs_def)
qed

lemma conv_update_others:
  assumes "\<And>c. cv_user (f c) = cv_user c" and "\<And>c. P c \<Longrightarrow> vis s (cv_user c)"
  shows "others (gs_user s) (db\<lparr>convs := sql_update P f (convs db)\<rparr>) = others (gs_user s) db"
proof -
  have "filter (\<lambda>c. cv_user c \<noteq> gs_user s) (sql_update P f (convs db)) = filter (\<lambda>c. cv_user c \<noteq> gs_user s) (convs db)"
    by (rule filter_update_other) (use assms visD in auto)
  then show ?thesis by (simp add: others_def)
qed

lemma job_marks_ok:
  assumes "jdb_ok db"
  shows "create_pending s now tx j user conv source period db = Inr (i, db') \<Longrightarrow> jdb_ok db' \<and> others (gs_user s) db' = others (gs_user s) db"
    "mark_running s now j db = Inr db' \<Longrightarrow> jdb_ok db' \<and> others (gs_user s) db' = others (gs_user s) db"
    "jdb_ok (update_progress s j t e db) \<and> others (gs_user s) (update_progress s j t e db) = others (gs_user s) db"
    "jdb_ok (snd (mark_completed s now j n m cents db)) \<and> others (gs_user s) (snd (mark_completed s now j n m cents db)) = others (gs_user s) db"
    "jdb_ok (snd (mark_failed s now j code db)) \<and> others (gs_user s) (snd (mark_failed s now j code db)) = others (gs_user s) db"
proof -
  have ok: "jdb_ok (set_jobs js db)" for js using assms by (simp add: set_jobs_def)
  have upd: "others (gs_user s) (set_jobs (sql_update (\<lambda>x. job_at s j x \<and> Q x) f (jobs db)) db) = others (gs_user s) db"
    if "\<And>x. jb_user (f x) = jb_user x" for Q f
    by (rule job_update_others) (use that in \<open>auto simp: job_at_def\<close>)
  have users: "jb_user (started now x) = jb_user x" "jb_user (progressed t e x) = jb_user x" "jb_user (completed now n m cents x) = jb_user x"
    "jb_user (failed now code x) = jb_user x" for x
    by (simp_all add: started_def progressed_def completed_def failed_def)
  show "mark_running s now j db = Inr db' \<Longrightarrow> jdb_ok db' \<and> others (gs_user s) db' = others (gs_user s) db"
    using ok upd [OF users(1)] by (auto simp: mark_running_def Let_def split: if_splits)
  show "jdb_ok (update_progress s j t e db) \<and> others (gs_user s) (update_progress s j t e db) = others (gs_user s) db"
    using assms ok upd [OF users(2)] by (auto simp: update_progress_def)
  show "jdb_ok (snd (mark_completed s now j n m cents db)) \<and> others (gs_user s) (snd (mark_completed s now j n m cents db)) = others (gs_user s) db"
    using ok upd [OF users(3)] by (simp add: mark_completed_def)
  show "jdb_ok (snd (mark_failed s now j code db)) \<and> others (gs_user s) (snd (mark_failed s now j code db)) = others (gs_user s) db"
    using ok upd [OF users(4)] by (simp add: mark_failed_def)
  show "create_pending s now tx j user conv source period db = Inr (i, db') \<Longrightarrow> jdb_ok db' \<and> others (gs_user s) db' = others (gs_user s) db"
    using ok by (auto simp: create_pending_def new_job_def others_def set_jobs_def sql_insert_def vis_def Let_def split: if_splits option.splits)
qed

lemma conv_marks_ok:
  assumes "jdb_ok db"
  shows "jdb_ok (mark_processed s now i db) \<and> others (gs_user s) (mark_processed s now i db) = others (gs_user s) db"
    "set_platform_metadata s i platform pid db = Inr db' \<Longrightarrow> jdb_ok db' \<and> others (gs_user s) db' = others (gs_user s) db"
proof -
  show "jdb_ok (mark_processed s now i db) \<and> others (gs_user s) (mark_processed s now i db) = others (gs_user s) db"
    unfolding mark_processed_def by (intro conjI jdb_ok_convs_update [OF assms] conv_update_others) simp_all
  show "set_platform_metadata s i platform pid db = Inr db' \<Longrightarrow> jdb_ok db' \<and> others (gs_user s) db' = others (gs_user s) db"
    by (auto simp: set_platform_metadata_def Let_def split: if_splits intro!: jdb_ok_convs_update [OF assms] conv_update_others)
qed

lemma complete_job_ok:
  assumes "jdb_ok db" and "complete_job s now user conv job t e cents db = Inr db'"
  shows "jdb_ok db' \<and> others (gs_user s) db' = others (gs_user s) db"
proof (cases job)
  case None
  with assms show ?thesis by (simp add: complete_job_def)
next
  case (Some j)
  obtain b db1 where m: "mark_completed s now j (int t) (int e) cents db = (b, db1)" by fastforce
  with job_marks_ok(4) [OF assms(1), of s now j "int t" "int e" cents]
  have "jdb_ok db1 \<and> others (gs_user s) db1 = others (gs_user s) db" by simp
  with assms(2) Some m record_audit_ok show ?thesis by (fastforce simp: complete_job_def split: if_splits)
qed

lemma ensure_topic_ok:
  assumes "jdb_ok db" and "ensure_topic s now p title db = Inr (b, db')"
  shows "jdb_ok db' \<and> others (gs_user s) db' = others (gs_user s) db"
  using assms create_topic_ok [OF assms(1)] by (auto simp: ensure_topic_def split: sum.splits jerror.splits prod.splits)

lemma append_all_ok:
  "jdb_ok db \<Longrightarrow> append_all s a c now today rnd p k items db = Inr db' \<Longrightarrow> jdb_ok db' \<and> others (gs_user s) db' = others (gs_user s) db"
proof (induction items arbitrary: k db)
  case (Cons x xs)
  then obtain i db1 where "append_entry s a c now today (rnd (2 * k)) (rnd (2 * k + 1)) p (ex_content x) (Some (ex_reasoning x))
      (Some (ex_tags x)) (ex_date x) db = Inr (i, db1)" and rest: "append_all s a c now today rnd p (Suc k) xs db1 = Inr db'"
    by (auto simp: res_simps)
  from append_entry_ok [OF Cons.prems(1) this(1)] Cons.IH [OF _ rest] show ?case by simp
qed simp

lemma persist_extraction_ok:
  assumes "jdb_ok db" and "persist_extraction s a c now today rnd attempt user conv job p title items cents db = Inr (n, db')"
  shows "jdb_ok db' \<and> others (gs_user s) db' = others (gs_user s) db"
proof -
  obtain created db1 db2 db3 where t: "ensure_topic s now p title db = Inr (created, db1)"
    and e: "append_all s a c now today rnd p 0 items db1 = Inr db2"
    and r: "record_audit s user ConversationExtracted conv [''extraction-worker'', attempt] [length items, 1] [] (mark_processed s now conv db2) = Inr db3"
    and j: "complete_job s now user conv job (if created then 1 else 0) (length items) cents db3 = Inr db'"
    using assms(2) by (auto simp: persist_extraction_def res_simps)
  have "jdb_ok db1 \<and> others (gs_user s) db1 = others (gs_user s) db" using ensure_topic_ok [OF assms(1) t] .
  moreover from this have "jdb_ok db2 \<and> others (gs_user s) db2 = others (gs_user s) db1" using append_all_ok [OF _ e] by simp
  moreover from this have "jdb_ok db3 \<and> others (gs_user s) db3 = others (gs_user s) db2"
    using conv_marks_ok(1) [of db2 s now conv] record_audit_ok [OF r] by simp
  ultimately show ?thesis using complete_job_ok [OF _ j] by simp
qed

inductive tenant_step :: "session \<Rightarrow> jdb \<Rightarrow> jdb \<Rightarrow> bool" where
  create_topic: "create_topic s now topic title desc created db = Inr (i, db') \<Longrightarrow> tenant_step s db db'"
| rename_topic: "rename_topic s now actor i path title db = Inr (m, db') \<Longrightarrow> tenant_step s db db'"
| delete_topic: "delete_with_reassign s now actor i dest db = Inr (n, db') \<Longrightarrow> tenant_step s db db'"
| merge_topics: "merge_topics s now actor source into db = Inr (n, db') \<Longrightarrow> tenant_step s db db'"
| append_entry: "append_entry s a c now today r1 r2 topic content reasoning tags date db = Inr (i, db') \<Longrightarrow> tenant_step s db db'"
| update_entry: "update_entry s a c now r1 r2 i content reasoning mode date tags db = Inr db' \<Longrightarrow> tenant_step s db db'"
| delete_entry: "delete_entry s now i db = Inr (t, db') \<Longrightarrow> tenant_step s db db'"
| move_entries: "move_entries_to_topic s now actor ids dest db = Inr (k, db') \<Longrightarrow> tenant_step s db db'"
| save_vector: "save_by_vector s now i v db = Inr db' \<Longrightarrow> tenant_step s db db'"
| mark_indexed: "tenant_step s db (mark_indexed s now i db)"
| save_conversation: "save_conversation s a c now today rnd uuid topic title messages summary source ctags date db files = (Inr (r, db'), files')
    \<Longrightarrow> tenant_step s db db'"
| set_platform: "set_platform_metadata s i platform pid db = Inr db' \<Longrightarrow> tenant_step s db db'"
| create_job: "create_pending s now tx j user conv source period db = Inr (k, db') \<Longrightarrow> tenant_step s db db'"
| start_job: "mark_running s now j db = Inr db' \<Longrightarrow> tenant_step s db db'"
| progress_job: "tenant_step s db (update_progress s j t e db)"
| fail_job: "tenant_step s db (snd (mark_failed s now j code db))"
| skip_job: "mark_skipped_no_topic s now user conv job db = Inr db' \<Longrightarrow> tenant_step s db db'"
| write_extraction: "persist_extraction s a c now today rnd attempt user conv job p title items cents db = Inr (k, db') \<Longrightarrow> tenant_step s db db'"

lemma save_conversation_ok:
  assumes "jdb_ok db"
    and "save_conversation s a c now today rnd uuid topic title messages summary source tags date db files = (Inr (r, db'), files')"
  shows "jdb_ok db' \<and> others (gs_user s) db' = others (gs_user s) db"
proof -
  obtain p where p: "plan_save s now today topic title messages summary source tags date db = Inr p"
    and w: "write_conversation s a c now rnd p messages (archive_path uuid) db = Inr (r, db')"
    using assms(2) by (auto simp: save_conversation_def split: sum.splits)
  show ?thesis by (rule write_conversation_ok [OF assms(1) _ w]) (use plan_save_topic [OF p] in simp)
qed

lemmas step_ok = create_topic_ok rename_topic_ok delete_with_reassign_ok merge_topics_ok append_entry_ok update_entry_ok delete_entry_ok
  move_entries_ok save_by_vector_ok(1,2) save_conversation_ok conv_marks_ok(2) job_marks_ok(1,2) complete_job_ok persist_extraction_ok

lemmas total_step_ok = mark_indexed_ok conv_marks_ok(1) job_marks_ok(3-5)

lemma tenant_step_ok:
  assumes "tenant_step s db db'" and "jdb_ok db"
  shows "jdb_ok db' \<and> others (gs_user s) db' = others (gs_user s) db"
  using assms
proof cases
  case (skip_job now user conv job)
  with complete_job_ok [of "mark_processed s now conv db"] conv_marks_ok(1) [OF assms(2)]
  show ?thesis by (simp add: mark_skipped_no_topic_def)
qed (auto dest: step_ok [OF assms(2)] simp: total_step_ok [OF assms(2)])

interpretation journal: tenant_operation tenant_step
  by unfold_locales (rule tenant_step_ok)

section \<open>Reading operations see their own rows\<close>

named_theorems own_simps \<open>reading operations on the rows of the session's user alone\<close>

lemma own_tables [own_simps]:
  "topics (own u db) = filter (\<lambda>t. tp_user t = u) (topics db)" "convs (own u db) = filter (\<lambda>c. cv_user c = u) (convs db)"
  "msgs (own u db) = filter (\<lambda>m. mg_user m = u) (msgs db)" "entries (own u db) = filter (\<lambda>e. en_user e = u) (entries db)"
  "embs (own u db) = filter (\<lambda>b. em_user b = u) (embs db)" "jobs (own u db) = filter (\<lambda>j. jb_user j = u) (jobs db)"
  by (simp_all add: own_def)

lemma select_own:
  assumes "\<And>r. P r \<Longrightarrow> vis s (owner r)"
  shows "sql_select P (filter (\<lambda>r. owner r = gs_user s) xs) = sql_select P xs"
    "sql_count P (filter (\<lambda>r. owner r = gs_user s) xs) = sql_count P xs"
    "sql_first P (filter (\<lambda>r. owner r = gs_user s) xs) = sql_first P xs"
    "list_ex P (filter (\<lambda>r. owner r = gs_user s) xs) = list_ex P xs"
proof -
  have own: "P r \<Longrightarrow> owner r = gs_user s" for r using assms visD by blast
  then have "filter P (filter (\<lambda>r. owner r = gs_user s) xs) = filter P xs" by (auto intro: filter_cong)
  then show "sql_select P (filter (\<lambda>r. owner r = gs_user s) xs) = sql_select P xs"
    "sql_count P (filter (\<lambda>r. owner r = gs_user s) xs) = sql_count P xs" by (simp_all only: sql_select_def sql_count_def)
  show "sql_first P (filter (\<lambda>r. owner r = gs_user s) xs) = sql_first P xs"
    unfolding sql_first_def using own by (induction xs) auto
  show "list_ex P (filter (\<lambda>r. owner r = gs_user s) xs) = list_ex P xs"
    using own by (auto simp: list_ex_iff)
qed

lemma vis_own [own_simps]:
  "sql_select (\<lambda>r. vis s (owner r) \<and> P r) (filter (\<lambda>r. owner r = gs_user s) xs) = sql_select (\<lambda>r. vis s (owner r) \<and> P r) xs"
  "sql_count (\<lambda>r. vis s (owner r) \<and> P r) (filter (\<lambda>r. owner r = gs_user s) xs) = sql_count (\<lambda>r. vis s (owner r) \<and> P r) xs"
  "sql_first (\<lambda>r. vis s (owner r) \<and> P r) (filter (\<lambda>r. owner r = gs_user s) xs) = sql_first (\<lambda>r. vis s (owner r) \<and> P r) xs"
  "list_ex (\<lambda>r. vis s (owner r) \<and> P r) (filter (\<lambda>r. owner r = gs_user s) xs) = list_ex (\<lambda>r. vis s (owner r) \<and> P r) xs"
  "sql_count (\<lambda>r. vis s (owner r)) (filter (\<lambda>r. owner r = gs_user s) xs) = sql_count (\<lambda>r. vis s (owner r)) xs"
  "sql_select (\<lambda>r. vis s (owner r)) (filter (\<lambda>r. owner r = gs_user s) xs) = sql_select (\<lambda>r. vis s (owner r)) xs"
  "list_ex (\<lambda>r. vis s (owner r)) (filter (\<lambda>r. owner r = gs_user s) xs) = list_ex (\<lambda>r. vis s (owner r)) xs"
  by (rule select_own; simp)+

lemma lookups_own [own_simps]:
  "topic_by_id s i (own (gs_user s) db) = topic_by_id s i db" "topic_by_path s p (own (gs_user s) db) = topic_by_path s p db"
  "live_entry s i (own (gs_user s) db) = live_entry s i db" "entry_count s (own (gs_user s) db) i = entry_count s db i"
  "conv_by_id s i (own (gs_user s) db) = conv_by_id s i db" "message_rows s i (own (gs_user s) db) = message_rows s i db"
  "entries_of_topic s i lo hi (own (gs_user s) db) = entries_of_topic s i lo hi db"
  "topics_under s pattern (own (gs_user s) db) = topics_under s pattern db"
  by (simp_all add: topic_by_id_def topic_by_path_def live_entry_def entry_count_def conv_by_id_def message_rows_def
      entries_of_topic_def topics_under_def own_simps)

lemma paths_own [own_simps]:
  "entry_path s (own (gs_user s) db) = entry_path s db" "conv_path s (own (gs_user s) db) = conv_path s db"
  "get_topic s p (own (gs_user s) db) = get_topic s p db"
  by (simp_all add: entry_path_def conv_path_def fun_eq_iff own_simps) (unfold get_topic_def own_simps, rule refl)

lemma listings_own [own_simps]:
  "convs_under s pattern (own (gs_user s) db) = convs_under s pattern db"
  "count_topics s prefix (own (gs_user s) db) = count_topics s prefix db"
  by (unfold convs_under_def count_topics_def own_simps) (rule refl)+

lemma search_own [own_simps]:
  "fts_entry s bk q prefix lo hi (own (gs_user s) db) = fts_entry s bk q prefix lo hi db"
  "fts_conv s bk q prefix lo hi (own (gs_user s) db) = fts_conv s bk q prefix lo hi db"
  "entry_hit s bk q (own (gs_user s) db) = entry_hit s bk q db" "conv_hit s bk q (own (gs_user s) db) = conv_hit s bk q db"
  "near_entry s bk v cutoff prefix lo hi (own (gs_user s) db) = near_entry s bk v cutoff prefix lo hi db"
  "near_hit s bk v (own (gs_user s) db) = near_hit s bk v db"
  by (simp_all add: fun_eq_iff fts_entry_def fts_conv_def entry_hit_def conv_hit_def near_entry_def near_hit_def own_simps)

lemma concat_map_filter: "(\<And>x. \<not> P x \<Longrightarrow> f x = []) \<Longrightarrow> concat (map f (filter P xs)) = concat (map f xs)"
  by (induction xs) auto

lemma fts_own [own_simps]:
  "fts_all s bk q prefix lo hi (own (gs_user s) db) = fts_all s bk q prefix lo hi db"
  "fts_search s bk q prefix df dt limit (own (gs_user s) db) = fts_search s bk q prefix df dt limit db"
proof -
  have "sql_select (fts_entry s bk q prefix lo hi db) (filter (\<lambda>e. en_user e = gs_user s) (entries db)) =
      sql_select (fts_entry s bk q prefix lo hi db) (entries db)" for lo hi by (rule select_own) (simp add: fts_entry_def)
  moreover have "sql_select (fts_conv s bk q prefix lo hi db) (filter (\<lambda>c. cv_user c = gs_user s) (convs db)) =
      sql_select (fts_conv s bk q prefix lo hi db) (convs db)" for lo hi by (rule select_own) (simp add: fts_conv_def)
  ultimately have "fts_all s bk q prefix lo hi (own (gs_user s) db) = fts_all s bk q prefix lo hi db" for lo hi
    by (simp add: fts_all_def own_simps)
  then show "fts_all s bk q prefix lo hi (own (gs_user s) db) = fts_all s bk q prefix lo hi db"
    "fts_search s bk q prefix df dt limit (own (gs_user s) db) = fts_search s bk q prefix df dt limit db"
    by (simp_all add: fts_search_def)
qed

lemma texts_own [own_simps]:
  "get_texts s a c ids (own (gs_user s) db) = get_texts s a c ids db"
  "get_titles_summaries s a c ids (own (gs_user s) db) = get_titles_summaries s a c ids db"
  by (simp_all add: get_texts_def get_titles_summaries_def own_simps)

text \<open>
  The vector query is the exception: which rows the index delivers depends on the embeddings of
  everybody.  Once that is settled for the user's own embeddings, nothing else of the others counts.
\<close>

lemma near_all_same:
  assumes "own (gs_user s) db' = own (gs_user s) db"
    and "\<And>b. b \<in> set (embs db) \<Longrightarrow> em_user b = gs_user s \<Longrightarrow> bk_reached bk v (embs db') b = bk_reached bk v (embs db) b"
  shows "near_all s bk v cutoff prefix lo hi db' = near_all s bk v cutoff prefix lo hi db"
proof -
  let ?rows = "\<lambda>d b. map (\<lambda>e. (b, e)) (sql_select (near_entry s bk v cutoff prefix lo hi d b) (entries d))"
  let ?mine = "\<lambda>d. filter (\<lambda>b. em_user b = gs_user s) (embs d)"
  have restrict: "near_all s bk v cutoff prefix lo hi d = concat (map (?rows d) (filter (bk_reached bk v (embs d)) (?mine d)))" for d
  proof -
    have "?rows d b = []" if "em_user b \<noteq> gs_user s" for b
      using that by (auto simp: sql_select_def filter_empty_conv near_entry_def vis_def)
    then have "concat (map (?rows d) (filter (\<lambda>b. em_user b = gs_user s) bs)) = concat (map (?rows d) bs)" for bs
      by (intro concat_map_filter) auto
    from this [of "filter (bk_reached bk v (embs d)) (embs d)"] show ?thesis
      unfolding near_all_def filter_filter by (simp only: conj_commute)
  qed
  have "sql_select (near_entry s bk v cutoff prefix lo hi d b) (filter (\<lambda>e. en_user e = gs_user s) (entries d)) =
      sql_select (near_entry s bk v cutoff prefix lo hi d b) (entries d)" for d b by (rule select_own) (simp add: near_entry_def)
  then have rows: "?rows d b = ?rows (own (gs_user s) d) b" for d b by (simp add: own_simps)
  have mine: "?mine db' = ?mine db" using arg_cong [OF assms(1), of embs] by (simp add: own_simps)
  have "filter (bk_reached bk v (embs db')) (?mine db') = filter (bk_reached bk v (embs db)) (?mine db)"
    unfolding mine using assms(2) by (intro filter_cong) auto
  moreover have "?rows db' = ?rows db"
  proof
    fix b
    have "?rows db' b = ?rows (own (gs_user s) db') b" by (rule rows)
    also have "\<dots> = ?rows (own (gs_user s) db) b" by (simp only: assms(1))
    also have "\<dots> = ?rows db b" by (rule rows [symmetric])
    finally show "?rows db' b = ?rows db b" .
  qed
  ultimately show ?thesis by (simp only: restrict)
qed

lemma search_same:
  assumes "own (gs_user s) db' = own (gs_user s) db"
    and "\<And>v b. emb = Some v \<Longrightarrow> b \<in> set (embs db) \<Longrightarrow> em_user b = gs_user s \<Longrightarrow>
      bk_reached bk v (embs db') b = bk_reached bk v (embs db) b"
  shows "run_journal_search s a c bk q prefix df dt limit emb db' = run_journal_search s a c bk q prefix df dt limit emb db"
proof -
  note own = assms(1)
  have fts: "fts_search s bk q prefix df dt limit db' = fts_search s bk q prefix df dt limit db"
    using own fts_own(2) [of s bk q prefix df dt limit db'] fts_own(2) [of s bk q prefix df dt limit db] by simp
  have texts: "get_texts s a c ids db' = get_texts s a c ids db" "get_titles_summaries s a c ids db' = get_titles_summaries s a c ids db" for ids
    using own texts_own [of s a c ids db'] texts_own [of s a c ids db] by simp_all
  have near: "near_hit s bk v db' = near_hit s bk v db" for v
    using own search_own(6) [of s bk v db'] search_own(6) [of s bk v db] by simp
  have vectors: "search_by_vector s bk v limit prefix lo hi cutoff db' = search_by_vector s bk v limit prefix lo hi cutoff db"
    if "emb = Some v" for v lo hi cutoff
    using near_all_same [OF own assms(2) [OF that]] by (simp add: search_by_vector_def)
  have dual: "run_dual_search s bk q emb prefix df dt lo hi limit db' = run_dual_search s bk q emb prefix df dt lo hi limit db" for lo hi
  proof (cases emb)
    case None
    show ?thesis unfolding run_dual_search_def None option.case fts ..
  next
    case (Some v)
    show ?thesis unfolding run_dual_search_def Some option.case fts near vectors [OF Some] ..
  qed
  have fetched: "hydrate_results s a c aborted db' = hydrate_results s a c aborted db" for aborted
    by (rule ext) (unfold hydrate_results_def texts, rule refl)
  show ?thesis unfolding run_journal_search_def dual fetched ..
qed

lemma sources_own: "entry_source s (own (gs_user s) db) = entry_source s db"
  by (rule ext) (unfold entry_source_def own_simps, rule refl)

lemma lists_own [own_simps]:
  "list_matches s (own (gs_user s) db) topic lo hi tags source = list_matches s db topic lo hi tags source"
  "sql_select (list_matches s db topic lo hi tags source) (filter (\<lambda>e. en_user e = gs_user s) (entries db)) =
     sql_select (list_matches s db topic lo hi tags source) (entries db)"
  "count_conversations s prefix (own (gs_user s) db) = count_conversations s prefix db"
  "conv_with_path s i (own (gs_user s) db) = conv_with_path s i db"
proof -
  show "list_matches s (own (gs_user s) db) topic lo hi tags source = list_matches s db topic lo hi tags source"
    by (rule ext) (unfold list_matches_def own_simps sources_own, rule refl)
  show "sql_select (list_matches s db topic lo hi tags source) (filter (\<lambda>e. en_user e = gs_user s) (entries db)) =
     sql_select (list_matches s db topic lo hi tags source) (entries db)" by (rule select_own) (simp add: list_matches_def)
  show "count_conversations s prefix (own (gs_user s) db) = count_conversations s prefix db"
    "conv_with_path s i (own (gs_user s) db) = conv_with_path s i db"
    by (unfold count_conversations_def conv_with_path_def own_simps) (rule refl)+
qed

lemma activity_own [own_simps]:
  "active_count s start (own (gs_user s) db) = active_count s start db"
  "most_active_topics s start (own (gs_user s) db) = most_active_topics s start db"
proof -
  show c: "active_count s start (own (gs_user s) db) = active_count s start db"
    by (simp add: fun_eq_iff active_count_def own_simps)
  show "most_active_topics s start (own (gs_user s) db) = most_active_topics s start db"
    by (simp only: most_active_topics_def c own_simps)
qed

lemma docs_own [own_simps]:
  "entry_docs s lo hi pattern (own (gs_user s) db) = entry_docs s lo hi pattern db"
  "conv_docs s lo hi pattern (own (gs_user s) db) = conv_docs s lo hi pattern db"
proof -
  have "entry_doc s pattern (own (gs_user s) db) = entry_doc s pattern db" "conv_doc s pattern (own (gs_user s) db) = conv_doc s pattern db"
    by (simp_all add: fun_eq_iff entry_doc_def conv_doc_def own_simps)
  then show "entry_docs s lo hi pattern (own (gs_user s) db) = entry_docs s lo hi pattern db"
    "conv_docs s lo hi pattern (own (gs_user s) db) = conv_docs s lo hi pattern db"
    by (simp_all add: entry_docs_def conv_docs_def own_simps)
qed

text \<open>The reading operations of the repositories and of search, under the contract.\<close>

interpretation texts: tenant_service tenant_step "\<lambda>s. get_text s a c i" for a c i
  by unfold_locales (unfold get_text_def own_simps, rule refl)

interpretation pages: tenant_service tenant_step "\<lambda>s. read_entries s a c topic limit df dt offset" for a c topic limit df dt offset
  by unfold_locales (unfold read_entries_def own_simps, rule refl)

interpretation topic_lists: tenant_service tenant_step "\<lambda>s. list_all_topics s prefix limit offset" for prefix limit offset
  by unfold_locales (unfold list_all_topics_def own_simps, rule refl)

interpretation conversations: tenant_service tenant_step "\<lambda>s. get_conversation s a c topic title" for a c topic title
  by unfold_locales (unfold get_conversation_def own_simps, rule refl)

interpretation text_searches: tenant_service tenant_step "\<lambda>s. run_journal_search s a c bk q prefix df dt limit None" for a c bk q prefix df dt limit
  by unfold_locales (unfold run_journal_search_def run_dual_search_def hydrate_results_def option.case own_simps, rule refl)

interpretation date_ranges: tenant_service tenant_step "\<lambda>s. get_by_date_range s a oc df dt limit asc offset short prefix"
  for a oc df dt limit asc offset short prefix
  by unfold_locales (unfold get_by_date_range_def own_simps, rule refl)

interpretation counts: tenant_service tenant_step "\<lambda>s. get_timeline_counts s df dt bucket prefix" for df dt bucket prefix
  by unfold_locales (unfold get_timeline_counts_def own_simps, rule refl)

interpretation stats: tenant_service tenant_step get_stats
  by unfold_locales (unfold get_stats_def own_simps, rule refl)

interpretation topic_ids: tenant_service tenant_step "\<lambda>s. get_id s topic" for topic
  by unfold_locales (unfold get_id_def own_simps, rule refl)

interpretation single_topics: tenant_service tenant_step "\<lambda>s. get_topic s topic" for topic
  by unfold_locales (unfold get_topic_def own_simps, rule refl)

interpretation topic_counts: tenant_service tenant_step "\<lambda>s. count_topics s prefix" for prefix
  by unfold_locales (unfold count_topics_def own_simps, rule refl)

interpretation single_entries: tenant_service tenant_step "\<lambda>s. get_entry_by_id s i" for i
  by unfold_locales (unfold get_entry_by_id_def own_simps, rule refl)

interpretation text_batches: tenant_service tenant_step "\<lambda>s. get_texts s a c ids" for a c ids
  by unfold_locales (unfold get_texts_def own_simps, rule refl)

interpretation entry_lists: tenant_service tenant_step "\<lambda>s. list_entries s topic df dt tags source order limit offset" for topic df dt tags source order limit offset
  by unfold_locales (unfold list_entries_def own_simps, rule refl)

interpretation conv_lists: tenant_service tenant_step "\<lambda>s. list_conversations s a c prefix limit offset soft" for a c prefix limit offset soft
  by unfold_locales (unfold list_conversations_def own_simps, rule refl)

interpretation conv_counts: tenant_service tenant_step "\<lambda>s. count_conversations s prefix" for prefix
  by unfold_locales (unfold count_conversations_def own_simps, rule refl)

interpretation conv_reads: tenant_service tenant_step "\<lambda>s. read_conversation_by_id s a c i preview" for a c i preview
  by unfold_locales (unfold read_conversation_by_id_def own_simps, rule refl)

interpretation conv_pages: tenant_service tenant_step "\<lambda>s. read_conversation_by_id_paginated s a c i limit offset soft" for a c i limit offset soft
  by unfold_locales (unfold read_conversation_by_id_paginated_def own_simps, rule refl)

interpretation conv_titles: tenant_service tenant_step "\<lambda>s. get_title_summary s a c i" for a c i
  by unfold_locales (unfold get_title_summary_def own_simps, rule refl)

interpretation conv_title_batches: tenant_service tenant_step "\<lambda>s. get_titles_summaries s a c ids" for a c ids
  by unfold_locales (unfold get_titles_summaries_def own_simps, rule refl)

interpretation platform_ids: tenant_service tenant_step "\<lambda>s. exists_by_platform_id s user platform pid" for user platform pid
  by unfold_locales (unfold exists_by_platform_id_def own_simps, rule refl)

interpretation processed_marks: tenant_service tenant_step "\<lambda>s. get_processed_at s i" for i
  by unfold_locales (unfold get_processed_at_def own_simps, rule refl)

interpretation job_counts: tenant_service tenant_step get_status_counts
  by unfold_locales (unfold get_status_counts_def own_simps, rule refl)

interpretation job_periods: tenant_service tenant_step "\<lambda>s. get_period_start s j" for j
  by unfold_locales (unfold get_period_start_def own_simps, rule refl)

interpretation dashboards: tenant_service tenant_step "\<lambda>s. get_dashboard_stats s zone_info today_at tz" for zone_info today_at tz
  by unfold_locales (unfold get_dashboard_stats_def Let_def conj_assoc own_simps, rule refl)

interpretation setups: tenant_service tenant_step get_setup_signals
  by unfold_locales (unfold get_setup_signals_def own_simps, rule refl)

section \<open>Isolation\<close>

text \<open>
  Property C1.  Tenants do not interfere.  Whatever transactions the other users of the database
  commit, in any number and order (topics, entries, vectors, conversations, jobs and the writes of
  the extraction worker), the tables stay sound, a user's rows stay exactly as they were, and these
  readings return that user what they would have returned before: topics (by path, counted,
  listed), entries (one, many, a topic's pages, filtered lists), conversations (listed, counted,
  by title, by id, by page, titles and summaries, the duplicate check by platform id, the processed
  mark), a job's billing period and the counts of jobs, the timeline and its buckets, the
  statistics, the dashboard and the setup signals, and search by text.  Search with a vector too,
  as long as the approximate index delivers the same of the user's own embeddings; the index picks
  its candidates among everybody's embeddings, so that much others can change.
\<close>

theorem tenants_do_not_interfere:
  assumes "(\<lambda>d d'. \<exists>s. gs_user s \<in> U \<and> tenant_step s d d')\<^sup>*\<^sup>* db db'" and "jdb_ok db" and "gs_user s \<notin> U"
  shows "jdb_ok db' \<and> own (gs_user s) db' = own (gs_user s) db \<and>
    get_id s topic db' = get_id s topic db \<and>
    get_topic s topic db' = get_topic s topic db \<and>
    count_topics s prefix db' = count_topics s prefix db \<and>
    list_all_topics s prefix n k db' = list_all_topics s prefix n k db \<and>
    get_text s a c i db' = get_text s a c i db \<and>
    get_texts s a c ids db' = get_texts s a c ids db \<and>
    get_entry_by_id s i db' = get_entry_by_id s i db \<and>
    read_entries s a c topic limit df dt offset db' = read_entries s a c topic limit df dt offset db \<and>
    list_entries s topics_path df dt tags source order limit offset db' =
      list_entries s topics_path df dt tags source order limit offset db \<and>
    list_conversations s a c prefix limit offset soft db' = list_conversations s a c prefix limit offset soft db \<and>
    count_conversations s prefix db' = count_conversations s prefix db \<and>
    get_conversation s a c topic title db' = get_conversation s a c topic title db \<and>
    read_conversation_by_id s a c i preview db' = read_conversation_by_id s a c i preview db \<and>
    read_conversation_by_id_paginated s a c i amount offset soft db' = read_conversation_by_id_paginated s a c i amount offset soft db \<and>
    get_title_summary s a c i db' = get_title_summary s a c i db \<and>
    get_titles_summaries s a c ids db' = get_titles_summaries s a c ids db \<and>
    exists_by_platform_id s user platform pid db' = exists_by_platform_id s user platform pid db \<and>
    get_processed_at s i db' = get_processed_at s i db \<and>
    get_period_start s j db' = get_period_start s j db \<and>
    get_status_counts s db' = get_status_counts s db \<and>
    get_by_date_range s a (Some c) day1 day2 limit asc offset short prefix db' =
      get_by_date_range s a (Some c) day1 day2 limit asc offset short prefix db \<and>
    get_timeline_counts s day1 day2 bucket prefix db' = get_timeline_counts s day1 day2 bucket prefix db \<and>
    get_stats s db' = get_stats s db \<and>
    get_dashboard_stats s zone_info today_at tz db' = get_dashboard_stats s zone_info today_at tz db \<and>
    get_setup_signals s db' = get_setup_signals s db \<and>
    run_journal_search s a c bk q prefix df dt amount None db' = run_journal_search s a c bk q prefix df dt amount None db \<and>
    ((\<forall>b \<in> set (embs db). em_user b = gs_user s \<longrightarrow> bk_reached bk v (embs db') b = bk_reached bk v (embs db) b) \<longrightarrow>
     run_journal_search s a c bk q prefix df dt amount (Some v) db' = run_journal_search s a c bk q prefix df dt amount (Some v) db)"
proof -
  have rows: "jdb_ok db'" "own (gs_user s) db' = own (gs_user s) db" using journal.steps_keep [OF assms(1,2)] assms(3) by blast+
  show ?thesis
    by (intro conjI impI rows topic_ids.undisturbed [OF assms] single_topics.undisturbed [OF assms] topic_counts.undisturbed [OF assms]
        topic_lists.undisturbed [OF assms] texts.undisturbed [OF assms] text_batches.undisturbed [OF assms]
        single_entries.undisturbed [OF assms] pages.undisturbed [OF assms] entry_lists.undisturbed [OF assms]
        conv_lists.undisturbed [OF assms] conv_counts.undisturbed [OF assms] conversations.undisturbed [OF assms]
        conv_reads.undisturbed [OF assms] conv_pages.undisturbed [OF assms] conv_titles.undisturbed [OF assms]
        conv_title_batches.undisturbed [OF assms] platform_ids.undisturbed [OF assms] processed_marks.undisturbed [OF assms]
        job_periods.undisturbed [OF assms] job_counts.undisturbed [OF assms] date_ranges.undisturbed [OF assms]
        counts.undisturbed [OF assms] stats.undisturbed [OF assms] dashboards.undisturbed [OF assms] setups.undisturbed [OF assms]
        text_searches.undisturbed [OF assms] search_same [OF rows(2)]) blast
qed

theorem tenants_do_not_interfere_witness:
  "\<exists>db'. (\<lambda>d d'. \<exists>s. gs_user s \<in> {8} \<and> tenant_step s d d')\<^sup>*\<^sup>* sample_jdb db' \<and> db' \<noteq> sample_jdb \<and>
     read_entries demo_session demo_aead demo_cipher ''work'' None None None 0 db' =
     read_entries demo_session demo_aead demo_cipher ''work'' None None None 0 sample_jdb"
proof -
  let ?s = "\<lparr>gs_user = 8, gs_active = True\<rparr>"
  let ?db = "mark_indexed ?s 99 3 sample_jdb"
  have one: "(\<lambda>d d'. \<exists>s. gs_user s \<in> {8} \<and> tenant_step s d d')\<^sup>*\<^sup>* sample_jdb ?db"
    by (rule r_into_rtranclp, rule exI [of _ ?s]) (simp add: tenant_step.mark_indexed)
  have "entries ?db \<noteq> entries sample_jdb" by (simp add: mark_indexed_def sample_jdb_def empty_jdb_def sql_update_def vis_def)
  then have "?db \<noteq> sample_jdb" by metis
  moreover have "gs_user demo_session \<notin> {8}" by simp
  note same = tenants_do_not_interfere [OF one sample_jdb_ok this]
  have "read_entries demo_session demo_aead demo_cipher ''work'' None None None 0 ?db =
      read_entries demo_session demo_aead demo_cipher ''work'' None None None 0 sample_jdb"
    by (rule same [THEN conjunct2, THEN conjunct2, THEN conjunct2, THEN conjunct2, THEN conjunct2, THEN conjunct2,
        THEN conjunct2, THEN conjunct2, THEN conjunct2, THEN conjunct1])
  ultimately show ?thesis using one by blast
qed

end
