(* ===== verification/Spec2Isabelle.thy ===== *)
theory Spec2Isabelle
  imports Login Hydra Llm Ingest Search Reindex Timeline ToolConversations Rotation Tenancy
begin

text \<open>
  A model of gubbi, a personal journal served over MCP and HTTP (\<open>src/gubbi\<close>), and what makes it
  correct.

  \<^bold>\<open>The program.\<close>  A request passes the authentication middleware, reaches a tool or a route, is
  validated, and runs one or more transactions of a repository on a connection scoped to its user by
  PostgreSQL's row-level security.  Texts are sealed with AES-GCM before they are stored.  A
  self-host mode brings its own OAuth server on a SQLite file.  Conversations arrive from tools or,
  in batches, from a browser extension; a worker asks a language model what to file from them and
  writes entries.  Entries and conversations are found by full text, by vector and by date.

  \<^bold>\<open>Theories, in the order of the dependencies.\<close>
  \<^item> \<open>Prelude\<close>: results (\<open>Inl\<close> is a raised exception), statements on tables, the collections
    \<open>res_simps\<close> and \<open>sql_simps\<close>.
  \<^item> \<open>PyText\<close>, \<open>PyDate\<close>, \<open>PyDatetime\<close>, \<open>PyUuid\<close>, \<open>Utf8\<close>: what the code uses of Python's \<open>str\<close>,
    \<open>re\<close>, \<open>int\<close>, \<open>date\<close>, \<open>datetime\<close>, \<open>UUID\<close> and of UTF-8, with round trips and a
    regular-expression matcher proved against the language of the pattern.
  \<^item> \<open>Validation\<close> (\<open>validation.py\<close>), \<open>Period\<close> (\<open>tools/context.py\<close>), \<open>Replies\<close>
    (\<open>tools/errors.py\<close>, \<open>tools/response_size.py\<close>, \<open>api/v1/web/errors.py\<close>, \<open>decryption.py\<close>).
  \<^item> \<open>Scope\<close> and \<open>Auth\<close> (\<open>auth/\<close>, \<open>middleware/\<close>, \<open>api/v1/auth.py\<close>): strategies as values of one type,
    a chain of them, and the locale \<open>auth_provider\<close> they all satisfy; \<open>Hydra\<close> (\<open>auth/hydra.py\<close>):
    introspection with its cache and its calls in flight as a step relation over overlapping
    and cancelled callers.
  \<^item> \<open>OauthStorage\<close>, \<open>OauthProvider\<close>, \<open>Login\<close> (\<open>oauth/\<close>): the tables of the SQLite file, its methods
    with their transactions and faults, the provider as a step relation with an invariant of its
    reachable states, cut-off revocations included, the login page with its limits, whose
    requests run in phases between which others run.  Locales \<open>secret_store\<close> (codes and tokens)
    and \<open>window_limiter\<close> (the two limiters).
  \<^item> \<open>Cipher\<close> (\<open>crypto/\<close>) and \<open>Rotation\<close> (\<open>scripts/rotate_encryption_key.py\<close>).
  \<^item> \<open>Journal\<close> (\<open>alembic/baseline_schema.sql\<close>): tables as lists of rows, sessions, visibility, integrity
    \<open>jdb_ok\<close>.  Over it \<open>Topics\<close>, \<open>Entries\<close>, \<open>Conversations\<close>, \<open>ExtractionJobs\<close> (one theory per repository of
    \<open>storage/repositories\<close>), \<open>Timeline\<close> (the date index, \<open>stats.py\<close>, \<open>setup_signals.py\<close>, the calendar
    routes), \<open>Search\<close> (\<open>services/search.py\<close> and its two queries) and \<open>Reindex\<close> (\<open>tools/admin.py\<close>).
  \<^item> \<open>Worker\<close> (\<open>extraction/jobs/extract_conversation.py\<close>), \<open>Llm\<close> (\<open>extraction/service.py\<close> and
    \<open>extraction/llm\<close>), \<open>Ingest\<close> (\<open>api/v1/ingest.py\<close>), \<open>ToolEntries\<close> and
    \<open>ToolConversations\<close> (\<open>tools/entries.py\<close>, \<open>conversations.py\<close>, \<open>topics.py\<close>).
  \<^item> \<open>Tenancy\<close>: the transactions of all of these together as a step relation, and the locales
    \<open>tenant_operation\<close> and \<open>tenant_service\<close> that say what tenants owe each other.

  \<^bold>\<open>How state and operations correspond.\<close>  A function of a repository is a function from the
  arguments it is called with, the clock and the random bytes it draws, and the database before, to
  an exception or its result and the database after.  A handler that uses several connections
  takes what others commit in between as a function of its environment; for the reindex loop
  that environment also says which rows others hold locked, which saves and resets fail and
  where the run is cut off, and for the worker which commits fail.  A field of a record has the
  name of the column or attribute with a two-letter prefix.  Names of operations are those of the
  source, with a suffix where a HOL constant is in the way.

  \<^bold>\<open>What is shown.\<close>  Authentication: who is admitted by each strategy and chain, that REST and MCP
  agree, that revocation and rotation reach every token of a grant, that an exchanged code is spent, that
  guesses are bounded by the limit and the requests under way, that introspection gives fresh
  claims.  Storage: integrity of the tables and isolation of tenants under every
  operation, the exact effect of the mutations of the topic tree, round trips of entries and
  conversations through encryption, pages that partition what they page, the refinement of the jobs
  table to a board with one phase per job, freedom of a stuck slot.  Extraction: what a run writes when
  it succeeds and when it fails, that it settles its charge once but for a failing commit
  (\<open>commit_failure_settles_twice\<close>), the retry loop with its number of requests.  Search, index and
  statistics: soundness of results, completeness for text matches and for the vectors the index
  reaches, agreement of the surfaces and of counts with listings, what the reindex loop does to
  the entries others leave alone, and that it drains its queue when nobody disturbs it, that a tool's
  update never leaves a stale vector.  Keys: that sealed texts survive rotation,
  that a finished rotation makes the old key dispensable and that a rotation loses no text while
  nothing else writes.

  \<^bold>\<open>Loops and bounds.\<close>  The retry loop terminates by the attempts left, the reindex loop by a
  lexicographic measure: the rounds in which others still write (a run sees finitely many of
  their writes), then the ids above the cursor.  \<open>rotate_batches\<close> runs on fuel, since others may
  keep adding rows; one more than the number of cells of a column pair is enough when nothing
  else writes (\<open>rotation_retires_key\<close>).  UTF-8 decoding takes the length of its input as fuel.  Lengths, limits
  and windows are the constants of the source.

  \<^bold>\<open>Parameters.\<close>  \<open>cryptography\<close>'s AES-GCM (\<open>aead_ok\<close>: decryption inverts encryption, and what
  decrypts is what encryption yields), bcrypt, PostgreSQL's text search and ranking, the distance
  of pgvector and which embeddings its approximate index reaches, the embedding model, the
  Anthropic SDK, \<open>json.loads\<close>, the printed length of a reply, the budget service, the job queue,
  Hydra's response, SHA-256 and \<open>TTLCache\<close> (\<open>ttl_cache_ok\<close>), the gateway's signature check, the
  zone database.  A message time without an offset is taken as UTC.

  \<^bold>\<open>Not modelled.\<close>  Pools, roles and migrations; start-up and shutdown; the HTTP and MCP frameworks;
  the audit decorator and the audit tables of \<open>gubbi_common\<close>, which is not in the repository;
  telemetry and logging; the cancellation of tasks other than in \<open>Hydra\<close> and \<open>Reindex\<close>; settings and their validators
  beyond the constants used; the web routes that only pass a repository's answer on; the development
  tools under \<open>src/tools\<close>.  Characters above 255 are outside the
  model of \<open>str\<close> (not of stored texts), floats are rationals, and timestamps are integers.
\<close>

end
